(* ===== verification/Prelude.thy ===== *)
theory Prelude
  imports Main "HOL-Library.Word"
begin

text \<open>
  What every component of the development shares: the names of the machine integer
  types, Rust's checked, wrapping and saturating arithmetic on them, \<open>Result\<close> values and
  the \<open>?\<close> operator as functions on sum types, the little-endian codecs behind
  \<open>to_le_bytes\<close> and \<open>from_le_bytes\<close>, and the list and word lemmas the component proofs
  use. The collection \<open>result_simps\<close> evaluates \<open>?\<close> chains.
\<close>

unbundle bit_operations_syntax

named_theorems result_simps \<open>evaluation of Result chains\<close>
named_theorems codec_simps \<open>evaluation of little-endian codecs\<close>
named_theorems join_simps \<open>rejoining the fields cut out of a byte string\<close>

section \<open>Machine integers\<close>

type_synonym u8 = "8 word"
type_synonym u16 = "16 word"
type_synonym u32 = "32 word"
type_synonym u64 = "64 word"

text \<open>Rust's \<open>checked_add\<close> and \<open>checked_mul\<close>: \<open>None\<close> where the exact result does not fit.\<close>

definition checked_add :: "'a::len word \<Rightarrow> 'a word \<Rightarrow> 'a word option" where
  "checked_add a b = (if unat a + unat b < 2 ^ LENGTH('a) then Some (a + b) else None)"

definition checked_mul :: "'a::len word \<Rightarrow> 'a word \<Rightarrow> 'a word option" where
  "checked_mul a b = (if unat a * unat b < 2 ^ LENGTH('a) then Some (a * b) else None)"

text \<open>Rust's \<open>saturating_add\<close> and \<open>saturating_sub\<close>.\<close>

definition saturating_add :: "'a::len word \<Rightarrow> 'a word \<Rightarrow> 'a word" where
  "saturating_add a b = (if unat a + unat b < 2 ^ LENGTH('a) then a + b else - 1)"

definition saturating_sub :: "'a::len word \<Rightarrow> 'a word \<Rightarrow> 'a word" where
  "saturating_sub a b = (if b \<le> a then a - b else 0)"

text \<open>Rust's \<open>count_ones\<close> and \<open>is_power_of_two\<close>.\<close>

definition count_ones :: "'a::len word \<Rightarrow> nat" where
  "count_ones a = length (filter (bit a) [0..<LENGTH('a)])"

definition is_power_of_two :: "'a::len word \<Rightarrow> bool" where
  "is_power_of_two a \<longleftrightarrow> count_ones a = 1"

lemma checked_add_Some_iff:
  "checked_add a b = Some c \<longleftrightarrow> unat a + unat b < 2 ^ LENGTH('a) \<and> c = a + b"
  for a :: "'a::len word"
  by (auto simp: checked_add_def)

lemma checked_add_None_iff:
  "checked_add a b = None \<longleftrightarrow> 2 ^ LENGTH('a) \<le> unat a + unat b" for a :: "'a::len word"
  by (auto simp: checked_add_def)

lemma unat_add_no_overflow:
  "unat a + unat b < 2 ^ LENGTH('a) \<Longrightarrow> unat (a + b) = unat a + unat b"
  for a :: "'a::len word"
  by (simp add: unat_word_ariths)

lemma unat_checked_add:
  "checked_add a b = Some c \<Longrightarrow> unat c = unat a + unat b"
  by (auto simp: checked_add_Some_iff unat_add_no_overflow)

lemma unat_mul_no_overflow:
  "unat a * unat b < 2 ^ LENGTH('a) \<Longrightarrow> unat (a * b) = unat a * unat b"
  for a :: "'a::len word"
  by (simp add: unat_word_ariths)

lemma unat_checked_mul:
  "checked_mul a b = Some c \<Longrightarrow> unat c = unat a * unat b"
  by (auto simp: checked_mul_def unat_mul_no_overflow split: if_splits)

lemma unat_saturating_add:
  "unat (saturating_add a b) = min (unat a + unat b) (2 ^ LENGTH('a) - 1)"
  for a :: "'a::len word"
  by (auto simp: saturating_add_def unat_add_no_overflow unsigned_minus_1_eq_mask mask_eq_exp_minus_1)

lemma unat_saturating_sub: "unat (saturating_sub a b) = unat a - unat b"
  by (auto simp: saturating_sub_def unat_sub word_le_nat_alt)

lemma unat_le_max: "unat a \<le> 2 ^ LENGTH('a) - Suc 0" for a :: "'a::len word"
proof -
  have "unat a < 2 ^ LENGTH('a)" by (rule unsigned_less)
  then show ?thesis by linarith
qed

lemma saturating_add_ge: "a \<le> saturating_add a b"
  by (simp add: word_le_nat_alt unat_saturating_add unat_le_max)

lemma unat_ucast_up:
  assumes "LENGTH('a::len) \<le> LENGTH('b::len)"
  shows "unat (ucast (a :: 'a word) :: 'b word) = unat a"
proof -
  have "unat a < 2 ^ LENGTH('a)" by (rule unsigned_less)
  also have "(2 :: nat) ^ LENGTH('a) \<le> 2 ^ LENGTH('b)" using assms by simp
  finally show ?thesis by (simp add: unsigned_ucast_eq take_bit_eq_mod)
qed

lemma is_power_of_twoE:
  fixes a :: "'a::len word"
  assumes "is_power_of_two a"
  obtains k where "k < LENGTH('a)" "unat a = 2 ^ k"
proof -
  from assms obtain k where k: "filter (bit a) [0..<LENGTH('a)] = [k]"
    by (auto simp: is_power_of_two_def count_ones_def length_Suc_conv)
  then have "set (filter (bit a) [0..<LENGTH('a)]) = set [k]" by (rule arg_cong)
  then have bits: "{i. i < LENGTH('a) \<and> bit a i} = {k}" by (simp add: set_eq_iff)
  then have lt: "k < LENGTH('a)" by blast
  from bits have only: "bit a i \<longleftrightarrow> i = k" if "i < LENGTH('a)" for i using that by blast
  have "a = push_bit k 1"
    using lt by (intro bit_word_eqI) (auto simp: only bit_simps)
  then have "unat a = take_bit LENGTH('a) (push_bit k 1)"
    by (simp only: unsigned_push_bit_eq unsigned_1)
  then have "unat a = 2 ^ k" using lt
    by (simp add: push_bit_eq_mult take_bit_nat_eq_self)
  with lt that show ?thesis by blast
qed

lemma is_power_of_two_1 [simp]: "is_power_of_two (1 :: 'a::len word)"
proof -
  have "[0..<LENGTH('a)] = 0 # [1..<LENGTH('a)]" by (simp add: upt_conv_Cons)
  moreover have "filter (bit (1 :: 'a word)) [1..<LENGTH('a)] = []" by (simp add: bit_1_iff)
  ultimately show ?thesis by (simp add: is_power_of_two_def count_ones_def)
qed

lemma unat_u16_less: "unat (x :: u16) < 65536"
  using unsigned_less[of x, where 'a=nat] by simp

lemma unat_u32_less: "unat (x :: u32) < 4294967296"
  using unsigned_less[of x, where 'a=nat] by simp

lemma unat_u64_less: "unat (x :: u64) < 18446744073709551616"
  using unsigned_less[of x, where 'a=nat] by simp

section \<open>Results\<close>

text \<open>
  A Rust \<open>Result<T, E>\<close> is a value of \<open>'e + 'a\<close>, with \<open>Inl\<close> for \<open>Err\<close> and \<open>Inr\<close> for \<open>Ok\<close>.
  A method that takes \<open>&mut self\<close> returns its result paired with the new state, so that
  an error return carries the state the method left behind. \<open>and_then\<close> and \<open>try_then\<close> are
  the \<open>?\<close> operator for the two shapes.
\<close>

type_synonym ('e, 'a, 's) mut_result = "('e + 'a) \<times> 's"

definition and_then :: "'e + 'a \<Rightarrow> ('a \<Rightarrow> 'e + 'b) \<Rightarrow> 'e + 'b" where
  "and_then r f = (case r of Inl e \<Rightarrow> Inl e | Inr x \<Rightarrow> f x)"

definition try_then :: "('e, 'a, 's) mut_result \<Rightarrow> ('a \<Rightarrow> 's \<Rightarrow> ('e, 'b, 's) mut_result) \<Rightarrow> ('e, 'b, 's) mut_result"
  where "try_then m f = (case m of (Inl e, s) \<Rightarrow> (Inl e, s) | (Inr x, s) \<Rightarrow> f x s)"

definition map_err :: "('e \<Rightarrow> 'f) \<Rightarrow> 'e + 'a \<Rightarrow> 'f + 'a" where
  "map_err g r = (case r of Inl e \<Rightarrow> Inl (g e) | Inr x \<Rightarrow> Inr x)"

definition ok_or :: "'e \<Rightarrow> 'a option \<Rightarrow> 'e + 'a" where
  "ok_or e r = (case r of None \<Rightarrow> Inl e | Some x \<Rightarrow> Inr x)"

definition is_ok :: "'e + 'a \<Rightarrow> bool" where
  "is_ok r = (case r of Inl e \<Rightarrow> False | Inr x \<Rightarrow> True)"

lemma and_then_cong [fundef_cong]:
  "\<lbrakk>r = r'; \<And>x. r' = Inr x \<Longrightarrow> f x = g x\<rbrakk> \<Longrightarrow> and_then r f = and_then r' g"
  by (cases r') (auto simp: and_then_def)

lemma and_then_simps [simp, result_simps]:
  "and_then (Inl e) f = Inl e" "and_then (Inr x) f = f x"
  by (simp_all add: and_then_def)

lemma try_then_simps [simp, result_simps]:
  "try_then (Inl e, s) f = (Inl e, s)" "try_then (Inr x, s) f = f x s"
  by (simp_all add: try_then_def)

lemma map_err_simps [simp, result_simps]:
  "map_err g (Inl e) = Inl (g e)" "map_err g (Inr x) = Inr x"
  by (simp_all add: map_err_def)

lemma ok_or_simps [simp, result_simps]:
  "ok_or e None = Inl e" "ok_or e (Some x) = Inr x"
  by (simp_all add: ok_or_def)

lemma is_ok_simps [simp, result_simps]: "is_ok (Inl e) = False" "is_ok (Inr x) = True"
  by (simp_all add: is_ok_def)

lemma is_ok_iff: "is_ok r \<longleftrightarrow> (\<exists>x. r = Inr x)"
  by (cases r) auto

lemma and_then_Inr_iff: "and_then r f = Inr y \<longleftrightarrow> (\<exists>x. r = Inr x \<and> f x = Inr y)"
  by (cases r) auto

lemma and_then_Inl_iff:
  "and_then r f = Inl e \<longleftrightarrow> r = Inl e \<or> (\<exists>x. r = Inr x \<and> f x = Inl e)"
  by (cases r) auto

lemma map_err_Inr_iff [simp]: "map_err g r = Inr x \<longleftrightarrow> r = Inr x"
  by (cases r) auto

lemma map_err_Inl_iff: "map_err g r = Inl e \<longleftrightarrow> (\<exists>d. r = Inl d \<and> e = g d)"
  by (cases r) auto

lemma ok_or_Inr_iff [simp]: "ok_or e r = Inr x \<longleftrightarrow> r = Some x"
  by (cases r) auto

lemma ok_or_Inl_iff: "ok_or e r = Inl d \<longleftrightarrow> r = None \<and> d = e"
  by (cases r) auto

lemma try_then_Inr_iff:
  "try_then m f = (Inr y, t) \<longleftrightarrow> (\<exists>x s. m = (Inr x, s) \<and> f x s = (Inr y, t))"
  by (cases m; cases "fst m") auto

lemma try_then_Inl_iff:
  "try_then m f = (Inl e, t) \<longleftrightarrow> m = (Inl e, t) \<or> (\<exists>x s. m = (Inr x, s) \<and> f x s = (Inl e, t))"
  by (cases m; cases "fst m") auto

lemma try_then_cases:
  assumes "try_then m f = (r, t)"
  obtains (Err) e where "m = (Inl e, t)" "r = Inl e"
        | (Ok) x s where "m = (Inr x, s)" "f x s = (r, t)"
  using assms by (cases m; cases "fst m") auto

lemma try_then_invariant:
  assumes "P (snd m)" and "\<And>x s. m = (Inr x, s) \<Longrightarrow> P s \<Longrightarrow> P (snd (f x s))"
  shows "P (snd (try_then m f))"
  using assms by (cases m; cases "fst m") auto

section \<open>Little-endian codecs\<close>

text \<open>
  \<open>le_bytes n w\<close> is \<open>w.to_le_bytes()\<close> for an \<open>n\<close>-byte integer and \<open>le_word\<close> is
  \<open>from_le_bytes\<close>.
\<close>

primrec le_bytes :: "nat \<Rightarrow> 'a::len word \<Rightarrow> u8 list" where
  "le_bytes 0 w = []"
| "le_bytes (Suc n) w = ucast w # le_bytes n (drop_bit 8 w)"

primrec le_word :: "u8 list \<Rightarrow> 'a::len word" where
  "le_word [] = 0"
| "le_word (b # bs) = ucast b OR push_bit 8 (le_word bs)"

lemma le_bytes_numeral [codec_simps]:
  "le_bytes (numeral k) w = ucast w # le_bytes (pred_numeral k) (drop_bit 8 w)"
  by (simp add: numeral_eq_Suc)

lemma length_le_bytes [simp]: "length (le_bytes n w) = n"
  by (induction n arbitrary: w) auto

lemma nth_le_bytes: "i < n \<Longrightarrow> le_bytes n w ! i = ucast (drop_bit (8 * i) w)"
  by (induction n arbitrary: w i)
     (auto simp: nth_Cons add.commute split: nat.split)

lemma bit_le_word:
  "bit (le_word bs :: 'a::len word) i \<longleftrightarrow>
     i < LENGTH('a) \<and> i div 8 < length bs \<and> bit (bs ! (i div 8)) (i mod 8)"
proof (induction bs arbitrary: i)
  case Nil
  then show ?case by simp
next
  case (Cons b bs)
  show ?case
  proof (cases "i < 8")
    case True
    then show ?thesis by (auto simp: bit_simps)
  next
    case False
    then obtain j where j: "i = j + 8" by (metis add.commute le_Suc_ex linorder_not_less)
    have "\<not> bit b (j + 8)" using bit_imp_le_length by fastforce
    moreover have "(j + 8) div 8 = Suc (j div 8)" by simp
    ultimately show ?thesis using Cons.IH[of j]
      by (auto simp: j bit_simps simp del: div_add_self2)
  qed
qed

lemma le_word_le_bytes:
  "LENGTH('a::len) = 8 * n \<Longrightarrow> le_word (le_bytes n w) = (w :: 'a word)"
  by (rule bit_word_eqI) (auto simp: bit_le_word nth_le_bytes bit_simps)

lemma le_bytes_le_word:
  assumes "length bs = n" and "8 * n \<le> LENGTH('a::len)"
  shows "le_bytes n (le_word bs :: 'a word) = bs"
proof (rule nth_equalityI)
  fix i assume i: "i < length (le_bytes n (le_word bs :: 'a word))"
  show "le_bytes n (le_word bs :: 'a word) ! i = bs ! i"
    using i assms by (intro bit_word_eqI) (auto simp: bit_le_word nth_le_bytes bit_simps)
qed (simp add: assms)

lemma le_word_roundtrip [simp]:
  "le_word (le_bytes 8 (a :: u64)) = a"
  "le_word (le_bytes 4 (b :: u32)) = b"
  "le_word (le_bytes 2 (c :: u16)) = c"
  by (simp_all add: le_word_le_bytes)

text \<open>Rejoining the fields that a decoder cut out of a byte string.\<close>

lemma take_drop_join [join_simps]:
  "j = i + n \<Longrightarrow> take n (drop i xs) @ drop j xs = drop i xs"
  by (metis add.commute append_take_drop_id drop_drop)

lemma nth_drop_join [join_simps]:
  "\<lbrakk>j = Suc i; i < length xs\<rbrakk> \<Longrightarrow> xs ! i # drop j xs = drop i xs"
  by (simp add: Cons_nth_drop_Suc)

text \<open>\<open>u16::from_le_bytes([raw[i], raw[i + 1]])\<close>.\<close>

definition le_u16_at :: "u8 list \<Rightarrow> nat \<Rightarrow> u16" where
  "le_u16_at raw i = le_word [raw ! i, raw ! (i + 1)]"

lemma le_u16_at_eq: "i + 1 < length xs \<Longrightarrow> le_u16_at xs i = le_word (take 2 (drop i xs))"
  by (simp add: le_u16_at_def numeral_2_eq_2 take_Suc_conv_app_nth)

end
