(* ===== verification/MmioRegisters.thy ===== *)
theory MmioRegisters
  imports Prelude
begin

text \<open>
  The register file of a modern virtio-mmio page
  (\<open>soma-kvm/src/virtio/transport/registers.rs\<close>): offsets, access widths and the decoder.
\<close>

abbreviation (input) MAGIC_VALUE :: u32 where "MAGIC_VALUE \<equiv> 0x74726976"
abbreviation (input) MMIO_VERSION :: u32 where "MMIO_VERSION \<equiv> 2"
abbreviation (input) MMIO_PAGE_SIZE :: u64 where "MMIO_PAGE_SIZE \<equiv> 0x1000"
abbreviation (input) CONFIG_OFFSET :: u64 where "CONFIG_OFFSET \<equiv> 0x100"

abbreviation (input) REG_MAGIC_VALUE :: u64 where "REG_MAGIC_VALUE \<equiv> 0x000"
abbreviation (input) REG_VERSION :: u64 where "REG_VERSION \<equiv> 0x004"
abbreviation (input) REG_DEVICE_ID :: u64 where "REG_DEVICE_ID \<equiv> 0x008"
abbreviation (input) REG_VENDOR_ID :: u64 where "REG_VENDOR_ID \<equiv> 0x00c"
abbreviation (input) REG_DEVICE_FEATURES :: u64 where "REG_DEVICE_FEATURES \<equiv> 0x010"
abbreviation (input) REG_DEVICE_FEATURES_SEL :: u64 where "REG_DEVICE_FEATURES_SEL \<equiv> 0x014"
abbreviation (input) REG_DRIVER_FEATURES :: u64 where "REG_DRIVER_FEATURES \<equiv> 0x020"
abbreviation (input) REG_DRIVER_FEATURES_SEL :: u64 where "REG_DRIVER_FEATURES_SEL \<equiv> 0x024"
abbreviation (input) REG_QUEUE_SEL :: u64 where "REG_QUEUE_SEL \<equiv> 0x030"
abbreviation (input) REG_QUEUE_NUM_MAX :: u64 where "REG_QUEUE_NUM_MAX \<equiv> 0x034"
abbreviation (input) REG_QUEUE_NUM :: u64 where "REG_QUEUE_NUM \<equiv> 0x038"
abbreviation (input) REG_QUEUE_READY :: u64 where "REG_QUEUE_READY \<equiv> 0x044"
abbreviation (input) REG_QUEUE_NOTIFY :: u64 where "REG_QUEUE_NOTIFY \<equiv> 0x050"
abbreviation (input) REG_INTERRUPT_STATUS :: u64 where "REG_INTERRUPT_STATUS \<equiv> 0x060"
abbreviation (input) REG_INTERRUPT_ACK :: u64 where "REG_INTERRUPT_ACK \<equiv> 0x064"
abbreviation (input) REG_STATUS :: u64 where "REG_STATUS \<equiv> 0x070"
abbreviation (input) REG_QUEUE_DESC_LOW :: u64 where "REG_QUEUE_DESC_LOW \<equiv> 0x080"
abbreviation (input) REG_QUEUE_DESC_HIGH :: u64 where "REG_QUEUE_DESC_HIGH \<equiv> 0x084"
abbreviation (input) REG_QUEUE_DRIVER_LOW :: u64 where "REG_QUEUE_DRIVER_LOW \<equiv> 0x090"
abbreviation (input) REG_QUEUE_DRIVER_HIGH :: u64 where "REG_QUEUE_DRIVER_HIGH \<equiv> 0x094"
abbreviation (input) REG_QUEUE_DEVICE_LOW :: u64 where "REG_QUEUE_DEVICE_LOW \<equiv> 0x0a0"
abbreviation (input) REG_QUEUE_DEVICE_HIGH :: u64 where "REG_QUEUE_DEVICE_HIGH \<equiv> 0x0a4"
abbreviation (input) REG_SHM_SEL :: u64 where "REG_SHM_SEL \<equiv> 0x0ac"
abbreviation (input) REG_SHM_LEN_LOW :: u64 where "REG_SHM_LEN_LOW \<equiv> 0x0b0"
abbreviation (input) REG_SHM_LEN_HIGH :: u64 where "REG_SHM_LEN_HIGH \<equiv> 0x0b4"
abbreviation (input) REG_SHM_BASE_LOW :: u64 where "REG_SHM_BASE_LOW \<equiv> 0x0b8"
abbreviation (input) REG_SHM_BASE_HIGH :: u64 where "REG_SHM_BASE_HIGH \<equiv> 0x0bc"
abbreviation (input) REG_QUEUE_RESET :: u64 where "REG_QUEUE_RESET \<equiv> 0x0c0"
abbreviation (input) REG_CONFIG_GENERATION :: u64 where "REG_CONFIG_GENERATION \<equiv> 0x0fc"

datatype access_width = W8 | W16 | W32 | W64

primrec access_bytes :: "access_width \<Rightarrow> nat" where
  "access_bytes W8 = 1"
| "access_bytes W16 = 2"
| "access_bytes W32 = 4"
| "access_bytes W64 = 8"

datatype register =
    RegMagicValue
  | RegVersion
  | RegDeviceId
  | RegVendorId
  | RegDeviceFeatures
  | RegDeviceFeaturesSel
  | RegDriverFeatures
  | RegDriverFeaturesSel
  | RegQueueSel
  | RegQueueNumMax
  | RegQueueNum
  | RegQueueReady
  | RegQueueNotify
  | RegInterruptStatus
  | RegInterruptAck
  | RegStatus
  | RegQueueDescLow
  | RegQueueDescHigh
  | RegQueueDriverLow
  | RegQueueDriverHigh
  | RegQueueDeviceLow
  | RegQueueDeviceHigh
  | RegShmSel
  | RegShmLenLow
  | RegShmLenHigh
  | RegShmBaseLow
  | RegShmBaseHigh
  | RegQueueReset
  | RegConfigGeneration
  | RegConfig u64

definition decode :: "u64 \<Rightarrow> register option" where
  "decode offset =
     (if offset = REG_MAGIC_VALUE then Some RegMagicValue
      else if offset = REG_VERSION then Some RegVersion
      else if offset = REG_DEVICE_ID then Some RegDeviceId
      else if offset = REG_VENDOR_ID then Some RegVendorId
      else if offset = REG_DEVICE_FEATURES then Some RegDeviceFeatures
      else if offset = REG_DEVICE_FEATURES_SEL then Some RegDeviceFeaturesSel
      else if offset = REG_DRIVER_FEATURES then Some RegDriverFeatures
      else if offset = REG_DRIVER_FEATURES_SEL then Some RegDriverFeaturesSel
      else if offset = REG_QUEUE_SEL then Some RegQueueSel
      else if offset = REG_QUEUE_NUM_MAX then Some RegQueueNumMax
      else if offset = REG_QUEUE_NUM then Some RegQueueNum
      else if offset = REG_QUEUE_READY then Some RegQueueReady
      else if offset = REG_QUEUE_NOTIFY then Some RegQueueNotify
      else if offset = REG_INTERRUPT_STATUS then Some RegInterruptStatus
      else if offset = REG_INTERRUPT_ACK then Some RegInterruptAck
      else if offset = REG_STATUS then Some RegStatus
      else if offset = REG_QUEUE_DESC_LOW then Some RegQueueDescLow
      else if offset = REG_QUEUE_DESC_HIGH then Some RegQueueDescHigh
      else if offset = REG_QUEUE_DRIVER_LOW then Some RegQueueDriverLow
      else if offset = REG_QUEUE_DRIVER_HIGH then Some RegQueueDriverHigh
      else if offset = REG_QUEUE_DEVICE_LOW then Some RegQueueDeviceLow
      else if offset = REG_QUEUE_DEVICE_HIGH then Some RegQueueDeviceHigh
      else if offset = REG_SHM_SEL then Some RegShmSel
      else if offset = REG_SHM_LEN_LOW then Some RegShmLenLow
      else if offset = REG_SHM_LEN_HIGH then Some RegShmLenHigh
      else if offset = REG_SHM_BASE_LOW then Some RegShmBaseLow
      else if offset = REG_SHM_BASE_HIGH then Some RegShmBaseHigh
      else if offset = REG_QUEUE_RESET then Some RegQueueReset
      else if offset = REG_CONFIG_GENERATION then Some RegConfigGeneration
      else if CONFIG_OFFSET \<le> offset \<and> offset < MMIO_PAGE_SIZE
      then Some (RegConfig (offset - CONFIG_OFFSET))
      else None)"

section \<open>Properties\<close>

text \<open>The offset at which a register is found, from the source's table of constants.\<close>

primrec reg_offset :: "register \<Rightarrow> u64" where
  "reg_offset RegMagicValue = REG_MAGIC_VALUE"
| "reg_offset RegVersion = REG_VERSION"
| "reg_offset RegDeviceId = REG_DEVICE_ID"
| "reg_offset RegVendorId = REG_VENDOR_ID"
| "reg_offset RegDeviceFeatures = REG_DEVICE_FEATURES"
| "reg_offset RegDeviceFeaturesSel = REG_DEVICE_FEATURES_SEL"
| "reg_offset RegDriverFeatures = REG_DRIVER_FEATURES"
| "reg_offset RegDriverFeaturesSel = REG_DRIVER_FEATURES_SEL"
| "reg_offset RegQueueSel = REG_QUEUE_SEL"
| "reg_offset RegQueueNumMax = REG_QUEUE_NUM_MAX"
| "reg_offset RegQueueNum = REG_QUEUE_NUM"
| "reg_offset RegQueueReady = REG_QUEUE_READY"
| "reg_offset RegQueueNotify = REG_QUEUE_NOTIFY"
| "reg_offset RegInterruptStatus = REG_INTERRUPT_STATUS"
| "reg_offset RegInterruptAck = REG_INTERRUPT_ACK"
| "reg_offset RegStatus = REG_STATUS"
| "reg_offset RegQueueDescLow = REG_QUEUE_DESC_LOW"
| "reg_offset RegQueueDescHigh = REG_QUEUE_DESC_HIGH"
| "reg_offset RegQueueDriverLow = REG_QUEUE_DRIVER_LOW"
| "reg_offset RegQueueDriverHigh = REG_QUEUE_DRIVER_HIGH"
| "reg_offset RegQueueDeviceLow = REG_QUEUE_DEVICE_LOW"
| "reg_offset RegQueueDeviceHigh = REG_QUEUE_DEVICE_HIGH"
| "reg_offset RegShmSel = REG_SHM_SEL"
| "reg_offset RegShmLenLow = REG_SHM_LEN_LOW"
| "reg_offset RegShmLenHigh = REG_SHM_LEN_HIGH"
| "reg_offset RegShmBaseLow = REG_SHM_BASE_LOW"
| "reg_offset RegShmBaseHigh = REG_SHM_BASE_HIGH"
| "reg_offset RegQueueReset = REG_QUEUE_RESET"
| "reg_offset RegConfigGeneration = REG_CONFIG_GENERATION"
| "reg_offset (RegConfig c) = CONFIG_OFFSET + c"

lemma decode_sound:
  "decode offset = Some r \<Longrightarrow> offset = reg_offset r \<and>
     (\<forall>c. r = RegConfig c \<longrightarrow>
        CONFIG_OFFSET \<le> offset \<and> offset < MMIO_PAGE_SIZE \<and> c = offset - CONFIG_OFFSET)"
  unfolding decode_def by (simp only: split: if_split_asm, simp_all) auto

lemma decode_config:
  "c < MMIO_PAGE_SIZE - CONFIG_OFFSET \<Longrightarrow> decode (CONFIG_OFFSET + c) = Some (RegConfig c)"
proof -
  assume c: "c < MMIO_PAGE_SIZE - CONFIG_OFFSET"
  define offset where "offset = CONFIG_OFFSET + c"
  have "CONFIG_OFFSET \<le> offset" "offset < MMIO_PAGE_SIZE" "offset - CONFIG_OFFSET = c"
    using c by (auto simp: offset_def word_less_nat_alt word_le_nat_alt unat_word_ariths)
  moreover from this(1) have "offset \<noteq> n" if "n < CONFIG_OFFSET" for n using that by auto
  ultimately show ?thesis unfolding offset_def[symmetric] by (simp add: decode_def)
qed

text \<open>
  Decoding is exact: an offset decodes to a register exactly when it is that register's
  offset, where configuration space covers the rest of the page. No two registers share an
  offset, and every other offset decodes to nothing.
\<close>

lemma decode_exact:
  "decode offset = Some r \<longleftrightarrow>
     offset = reg_offset r \<and> (\<forall>c. r = RegConfig c \<longrightarrow> c < MMIO_PAGE_SIZE - CONFIG_OFFSET)"
proof
  assume "decode offset = Some r"
  from decode_sound[OF this] have "offset = reg_offset r" and
    "\<forall>c. r = RegConfig c \<longrightarrow> CONFIG_OFFSET \<le> offset \<and> offset < MMIO_PAGE_SIZE \<and> c = offset - CONFIG_OFFSET"
    by blast+
  moreover from this(2) have "\<forall>c. r = RegConfig c \<longrightarrow> c < MMIO_PAGE_SIZE - CONFIG_OFFSET"
    by (auto simp: word_less_nat_alt word_le_nat_alt unat_sub)
  ultimately show "offset = reg_offset r \<and> (\<forall>c. r = RegConfig c \<longrightarrow> c < MMIO_PAGE_SIZE - CONFIG_OFFSET)"
    by blast
next
  assume h: "offset = reg_offset r \<and> (\<forall>c. r = RegConfig c \<longrightarrow> c < MMIO_PAGE_SIZE - CONFIG_OFFSET)"
  then show "decode offset = Some r"
    by (cases r) (simp_all add: decode_config, simp_all add: decode_def)
qed

end
