(* ===== verification/BusTable.thy ===== *)
theory BusTable
  imports MmioRegisters
begin

text \<open>
  The device table (\<open>soma-kvm/src/virtio/bus/table.rs\<close>): one page and one interrupt line per slot,
  which slots a machine declares, and the kernel command line that names them.
\<close>

section \<open>Slots\<close>

abbreviation (input) MMIO_WINDOW_BASE :: u64 where "MMIO_WINDOW_BASE \<equiv> 0xd0000000"
abbreviation (input) SLOT_COUNT :: nat where "SLOT_COUNT \<equiv> 5"
abbreviation (input) FIRST_GSI :: u32 where "FIRST_GSI \<equiv> 5"

datatype slot = SlotRoot | SlotOverlay | SlotNet | SlotVsock | SlotRng

definition ALL_SLOTS :: "slot list" where
  "ALL_SLOTS = [SlotRoot, SlotOverlay, SlotNet, SlotVsock, SlotRng]"

fun slot_index :: "slot \<Rightarrow> u8" where
  "slot_index SlotRoot = 0"
| "slot_index SlotOverlay = 1"
| "slot_index SlotNet = 2"
| "slot_index SlotVsock = 3"
| "slot_index SlotRng = 4"

definition slot_base :: "slot \<Rightarrow> u64" where
  "slot_base slot = MMIO_WINDOW_BASE + MMIO_PAGE_SIZE * ucast (slot_index slot)"

definition slot_end :: "slot \<Rightarrow> u64" where
  "slot_end slot = slot_base slot + MMIO_PAGE_SIZE - 1"

definition notify_addr :: "slot \<Rightarrow> u64" where
  "notify_addr slot = slot_base slot + REG_QUEUE_NOTIFY"

definition gsi :: "slot \<Rightarrow> u32" where
  "gsi slot = FIRST_GSI + ucast (slot_index slot)"

fun slot_device_id :: "slot \<Rightarrow> u32" where
  "slot_device_id SlotRoot = 2"
| "slot_device_id SlotOverlay = 2"
| "slot_device_id SlotNet = 1"
| "slot_device_id SlotVsock = 19"
| "slot_device_id SlotRng = 4"

fun queue_count :: "slot \<Rightarrow> u16" where
  "queue_count SlotRoot = 1"
| "queue_count SlotOverlay = 1"
| "queue_count SlotRng = 1"
| "queue_count SlotNet = 2"
| "queue_count SlotVsock = 3"

definition from_gpa :: "u64 \<Rightarrow> (slot \<times> u64) option" where
  "from_gpa gpa =
     (if gpa < MMIO_WINDOW_BASE then None
      else
        let relative = gpa - MMIO_WINDOW_BASE; index = unat (relative div MMIO_PAGE_SIZE) in
        if index < length ALL_SLOTS then Some (ALL_SLOTS ! index, relative mod MMIO_PAGE_SIZE) else None)"

section \<open>The devices of a machine\<close>

record device_set =
  ds_overlay :: bool
  ds_net :: bool

definition device_set_new :: "bool \<Rightarrow> bool \<Rightarrow> device_set" where
  "device_set_new overlay net = \<lparr>ds_overlay = overlay, ds_net = net\<rparr>"

definition set_has :: "device_set \<Rightarrow> slot \<Rightarrow> bool" where
  "set_has devices slot =
     (case slot of SlotOverlay \<Rightarrow> ds_overlay devices | SlotNet \<Rightarrow> ds_net devices | _ \<Rightarrow> True)"

definition present :: "device_set \<Rightarrow> slot list" where
  "present devices = filter (set_has devices) ALL_SLOTS"

section \<open>The command line\<close>

text \<open>\<open>format!\<close> of an unsigned number in a base: its digits, most significant first.\<close>

fun digits :: "nat \<Rightarrow> nat \<Rightarrow> string" where
  "digits b n = (if n < b \<or> b < 2 then [''0123456789abcdef'' ! (n mod 16)]
                 else digits b (n div b) @ [''0123456789abcdef'' ! (n mod b)])"

declare digits.simps [simp del]

definition command_line_entry :: "slot \<Rightarrow> string" where
  "command_line_entry slot =
     ''virtio_mmio.device=4K@0x'' @ digits 16 (unat (slot_base slot)) @ '':'' @
     digits 10 (unat (gsi slot)) @ '':'' @ digits 10 (unat (slot_index slot))"

fun join :: "string \<Rightarrow> string list \<Rightarrow> string" where
  "join sep [] = []"
| "join sep [x] = x"
| "join sep (x # y # rest) = x @ sep @ join sep (y # rest)"

definition kernel_command_line :: "device_set \<Rightarrow> string" where
  "kernel_command_line devices = join '' '' (map command_line_entry (present devices))"

section \<open>Lemmas\<close>

lemma slot_index_nth: "ALL_SLOTS ! unat (slot_index slot) = slot" "unat (slot_index slot) < 5"
  by (cases slot; simp add: ALL_SLOTS_def)+

lemma length_all_slots [simp]: "length ALL_SLOTS = 5"
  by (simp add: ALL_SLOTS_def)

lemma set_all_slots [simp]: "set ALL_SLOTS = UNIV"
  using slot.exhaust by (auto simp: ALL_SLOTS_def)

lemma unat_slot_base: "unat (slot_base slot) = 0xd0000000 + 0x1000 * unat (slot_index slot)"
  by (cases slot) (simp_all add: slot_base_def)

lemma unat_slot_end: "unat (slot_end slot) = unat (slot_base slot) + 0xfff"
  by (cases slot) (simp_all add: slot_end_def slot_base_def)

lemma slot_index_inj [simp]: "slot_index s = slot_index s' \<longleftrightarrow> s = s'"
  by (cases s; cases s') simp_all

lemma from_gpa_iff:
  "from_gpa gpa = Some (slot, offset) \<longleftrightarrow>
     slot_base slot \<le> gpa \<and> gpa \<le> slot_end slot \<and> offset = gpa - slot_base slot"
proof (cases "gpa < MMIO_WINDOW_BASE")
  case True
  then show ?thesis using unat_slot_base[of slot] by (auto simp: from_gpa_def word_less_nat_alt word_le_nat_alt)
next
  case False
  define n where "n = unat gpa - 0xd0000000"
  have ge: "0xd0000000 \<le> unat gpa" using False by (simp add: word_less_nat_alt)
  then have rel: "unat (gpa - MMIO_WINDOW_BASE) = n" by (subst unat_sub) (simp_all add: word_le_nat_alt n_def)
  have off: "offset = gpa - slot_base slot \<longleftrightarrow> unat offset = n mod 4096" if "n div 4096 = unat (slot_index slot)"
  proof -
    have "unat (gpa - slot_base slot) = n mod 4096"
      using that ge unat_slot_base[of slot] minus_mult_div_eq_mod[of n 4096]
      by (subst unat_sub) (auto simp: word_le_nat_alt n_def)
    then show ?thesis by (metis word_unat_eq_iff)
  qed
  have "from_gpa gpa = Some (slot, offset) \<longleftrightarrow> n div 4096 = unat (slot_index slot) \<and> unat offset = n mod 4096"
  proof -
    have "ALL_SLOTS ! k = slot \<longleftrightarrow> k = unat (slot_index slot)" if "k < 5" for k
      using that slot_index_nth[of slot] by (cases slot) (auto simp: ALL_SLOTS_def nth_Cons split: nat.split)
    moreover have "unat (slot_index slot) < 5" by (rule slot_index_nth)
    ultimately show ?thesis
      using False rel by (auto simp: from_gpa_def Let_def unat_div unat_mod word_unat_eq_iff)
  qed
  moreover have "slot_base slot \<le> gpa \<and> gpa \<le> slot_end slot \<longleftrightarrow> n div 4096 = unat (slot_index slot)"
    using ge unat_slot_base[of slot] unat_slot_end[of slot]
    by (auto simp: word_le_nat_alt n_def div_nat_eqI)
  ultimately show ?thesis using off by auto
qed

lemma notify_addr_gpa: "from_gpa (notify_addr slot) = Some (slot, REG_QUEUE_NOTIFY)"
  unfolding from_gpa_iff
  by (cases slot) (simp_all add: notify_addr_def slot_end_def slot_base_def word_le_nat_alt)

lemma gsi_inj: "gsi s = gsi s' \<longleftrightarrow> s = s'"
  by (cases s; cases s') (simp_all add: gsi_def)

lemma command_line_full:
  "kernel_command_line \<lparr>ds_overlay = o', ds_net = n\<rparr> =
     ''virtio_mmio.device=4K@0xd0000000:5:0'' @
     (if o' then '' virtio_mmio.device=4K@0xd0001000:6:1'' else []) @
     (if n then '' virtio_mmio.device=4K@0xd0002000:7:2'' else []) @
     '' virtio_mmio.device=4K@0xd0003000:8:3 virtio_mmio.device=4K@0xd0004000:9:4''"
  by (cases o'; cases n)
     (simp_all add: kernel_command_line_def present_def set_has_def ALL_SLOTS_def command_line_entry_def slot_base_def
        gsi_def digits.simps)

section \<open>Properties\<close>

text \<open>
  The device window is dispatched exactly: an address belongs to a slot exactly when it lies
  in that slot's page, with its distance from the page's start as the offset; so pages never
  overlap. The notification address of a slot is its own notify register, and no two slots
  share an interrupt line.
\<close>

lemma slot_table_exact:
  "(from_gpa gpa = Some (slot, offset) \<longleftrightarrow>
      slot_base slot \<le> gpa \<and> gpa \<le> slot_end slot \<and> offset = gpa - slot_base slot) \<and>
   from_gpa (notify_addr slot) = Some (slot, REG_QUEUE_NOTIFY) \<and> (gsi slot = gsi slot' \<longleftrightarrow> slot = slot')"
  using from_gpa_iff notify_addr_gpa gsi_inj by blast

text \<open>
  The kernel command line identifies the machine: it declares the pages, interrupt lines and
  indices of exactly the present slots in table order, and machines with different device sets
  have different command lines.
\<close>

lemma command_line_identifies:
  "kernel_command_line A =
     join '' '' (map (\<lambda>slot. the (map_of
       [(SlotRoot, ''virtio_mmio.device=4K@0xd0000000:5:0''), (SlotOverlay, ''virtio_mmio.device=4K@0xd0001000:6:1''),
        (SlotNet, ''virtio_mmio.device=4K@0xd0002000:7:2''), (SlotVsock, ''virtio_mmio.device=4K@0xd0003000:8:3''),
        (SlotRng, ''virtio_mmio.device=4K@0xd0004000:9:4'')] slot)) (present A)) \<and>
   (kernel_command_line A = kernel_command_line B \<longleftrightarrow> A = B)"
  by (cases A; cases B) (auto simp: command_line_full present_def set_has_def ALL_SLOTS_def)

end
