(* ===== verification/GuestMemory.thy ===== *)
theory GuestMemory
  imports Prelude
begin

text \<open>
  Guest-physical memory (\<open>soma-kvm/src/virtio/guest_memory.rs\<close>): the \<open>GuestMemory\<close> trait as
  a record of operations, its provided methods \<open>read_obj_at\<close> and \<open>write_obj_at\<close>, and the
  heap implementation \<open>VecGuestMemory\<close>. The locale \<open>guest_memory\<close> states what the trait
  promises: an implementation behaves like a partial map from addresses to bytes, reads and
  writes succeed exactly on the ranges that \<open>check_range\<close> accepts, and a write changes the
  bytes of its own range only. \<open>VecGuestMemory\<close> is shown to keep that promise.
\<close>

section \<open>Addresses and errors\<close>

type_synonym guest_address = u64

definition is_aligned :: "guest_address \<Rightarrow> u64 \<Rightarrow> bool" where
  "is_aligned a align \<longleftrightarrow> align \<noteq> 0 \<and> a mod align = 0"

datatype guest_memory_error =
    Overflow guest_address u64
  | OutOfRegion guest_address u64

section \<open>The trait\<close>

text \<open>
  Writes take \<open>&self\<close> in the source because guest memory is shared; the model returns the
  memory after the write. A \<open>&mut [u8]\<close> output buffer of length \<open>n\<close> is the argument \<open>n\<close> and
  the returned bytes.
\<close>

record 'm guest_memory_ops =
  check_range :: "'m \<Rightarrow> guest_address \<Rightarrow> u64 \<Rightarrow> guest_memory_error + unit"
  read_bytes :: "'m \<Rightarrow> guest_address \<Rightarrow> nat \<Rightarrow> guest_memory_error + u8 list"
  write_bytes :: "'m \<Rightarrow> guest_address \<Rightarrow> u8 list \<Rightarrow> guest_memory_error + 'm"

definition read_obj_at ::
    "'m guest_memory_ops \<Rightarrow> 'm \<Rightarrow> guest_address \<Rightarrow> guest_memory_error + 'a::len word" where
  "read_obj_at GM mem a = and_then (read_bytes GM mem a (LENGTH('a) div 8)) (\<lambda>bs. Inr (le_word bs))"

definition write_obj_at ::
    "'m guest_memory_ops \<Rightarrow> 'm \<Rightarrow> guest_address \<Rightarrow> 'a::len word \<Rightarrow> guest_memory_error + 'm" where
  "write_obj_at GM mem a v = write_bytes GM mem a (le_bytes (LENGTH('a) div 8) v)"

section \<open>Host-heap memory\<close>

datatype region_layout_error = EmptyRegion | RegionOverflow | RegionOverlap

record region =
  r_start :: guest_address
  r_bytes :: "u8 list"

type_synonym vec_guest_memory = "region list"

text \<open>
  \<open>VecGuestMemory::new\<close>: the loop over the layout with its running \<open>next_free\<close>.
  A \<open>usize\<close> length is a natural number, converted with \<open>u64::try_from\<close>.
\<close>

fun vec_new_from :: "u64 \<Rightarrow> (guest_address \<times> nat) list \<Rightarrow> region_layout_error + region list" where
  "vec_new_from next_free [] = Inr []"
| "vec_new_from next_free ((start, len) # rest) =
     (if len = 0 then Inl EmptyRegion
      else and_then (ok_or RegionOverflow (if len < 2 ^ 64 then Some (of_nat len) else None)) (\<lambda>n.
           and_then (ok_or RegionOverflow (checked_add start n)) (\<lambda>stop.
           if start < next_free then Inl RegionOverlap
           else and_then (vec_new_from stop rest) (\<lambda>regions.
                Inr (\<lparr>r_start = start, r_bytes = replicate len 0\<rparr> # regions)))))"

definition vec_new :: "(guest_address \<times> nat) list \<Rightarrow> region_layout_error + vec_guest_memory" where
  "vec_new layout = vec_new_from 0 layout"

definition vec_flat :: "nat \<Rightarrow> region_layout_error + vec_guest_memory" where
  "vec_flat len = vec_new [(0, len)]"

text \<open>
  \<open>locate\<close> returns the position of the first region that holds the whole range and the
  offset inside it.
\<close>

definition region_end :: "region \<Rightarrow> u64" where
  "region_end r = r_start r + of_nat (length (r_bytes r))"

fun locate_from :: "nat \<Rightarrow> region list \<Rightarrow> guest_address \<Rightarrow> guest_address \<Rightarrow> (nat \<times> nat) option" where
  "locate_from i [] a stop = None"
| "locate_from i (r # rs) a stop =
     (if r_start r \<le> a \<and> stop \<le> region_end r then Some (i, unat (a - r_start r))
      else locate_from (Suc i) rs a stop)"

definition vec_locate ::
    "vec_guest_memory \<Rightarrow> guest_address \<Rightarrow> u64 \<Rightarrow> guest_memory_error + (nat \<times> nat)" where
  "vec_locate mem a len =
     and_then (ok_or (Overflow a len) (checked_add a len)) (\<lambda>stop.
     ok_or (OutOfRegion a len) (locate_from 0 mem a stop))"

text \<open>A Rust slice is shorter than \<open>2 ^ 63\<close> bytes, so the conversion to \<open>u64\<close> never fails.\<close>

definition slice_len :: "nat \<Rightarrow> u64" where
  "slice_len n = of_nat n"

definition vec_check_range ::
    "vec_guest_memory \<Rightarrow> guest_address \<Rightarrow> u64 \<Rightarrow> guest_memory_error + unit" where
  "vec_check_range mem a len = and_then (vec_locate mem a len) (\<lambda>_. Inr ())"

definition vec_read_bytes ::
    "vec_guest_memory \<Rightarrow> guest_address \<Rightarrow> nat \<Rightarrow> guest_memory_error + u8 list" where
  "vec_read_bytes mem a n =
     and_then (vec_locate mem a (slice_len n)) (\<lambda>(i, offset).
     Inr (take n (drop offset (r_bytes (mem ! i)))))"

definition overwrite :: "nat \<Rightarrow> u8 list \<Rightarrow> u8 list \<Rightarrow> u8 list" where
  "overwrite offset bs dest = take offset dest @ bs @ drop (offset + length bs) dest"

definition vec_write_bytes ::
    "vec_guest_memory \<Rightarrow> guest_address \<Rightarrow> u8 list \<Rightarrow> guest_memory_error + vec_guest_memory" where
  "vec_write_bytes mem a bs =
     and_then (vec_locate mem a (slice_len (length bs))) (\<lambda>(i, offset).
     Inr (mem[i := (mem ! i)\<lparr>r_bytes := overwrite offset bs (r_bytes (mem ! i))\<rparr>]))"

definition vec_ops :: "vec_guest_memory guest_memory_ops" where
  "vec_ops = \<lparr>check_range = vec_check_range, read_bytes = vec_read_bytes,
              write_bytes = vec_write_bytes\<rparr>"

section \<open>What the trait promises\<close>

locale guest_memory =
  fixes GM :: "'m guest_memory_ops"
    and valid :: "'m \<Rightarrow> bool"
    and byte :: "'m \<Rightarrow> nat \<Rightarrow> u8 option"
  assumes range_bound:
      "\<lbrakk>valid mem; check_range GM mem a len = Inr ()\<rbrakk> \<Longrightarrow> unat a + unat len < 2 ^ 64"
    and range_defined:
      "\<lbrakk>valid mem; check_range GM mem a len = Inr (); unat a \<le> x; x < unat a + unat len\<rbrakk>
        \<Longrightarrow> byte mem x \<noteq> None"
    and range_sub:
      "\<lbrakk>valid mem; check_range GM mem a len = Inr (); unat a \<le> unat b;
        unat b + unat k \<le> unat a + unat len\<rbrakk> \<Longrightarrow> check_range GM mem b k = Inr ()"
    and read_ok:
      "\<lbrakk>valid mem; n < 2 ^ 64; check_range GM mem a (of_nat n) = Inr ()\<rbrakk>
        \<Longrightarrow> read_bytes GM mem a n = Inr (map (\<lambda>i. the (byte mem (unat a + i))) [0..<n])"
    and read_err:
      "\<lbrakk>n < 2 ^ 64; check_range GM mem a (of_nat n) = Inl e\<rbrakk> \<Longrightarrow> read_bytes GM mem a n = Inl e"
    and write_ok:
      "\<lbrakk>valid mem; length bs < 2 ^ 64; check_range GM mem a (of_nat (length bs)) = Inr ()\<rbrakk>
        \<Longrightarrow> \<exists>mem'. write_bytes GM mem a bs = Inr mem' \<and> valid mem' \<and>
              check_range GM mem' = check_range GM mem \<and>
              (\<forall>x. byte mem' x = (if unat a \<le> x \<and> x < unat a + length bs
                                   then Some (bs ! (x - unat a)) else byte mem x))"
    and write_err:
      "\<lbrakk>length bs < 2 ^ 64; check_range GM mem a (of_nat (length bs)) = Inl e\<rbrakk>
        \<Longrightarrow> write_bytes GM mem a bs = Inl e"
begin

lemma read_bytes_cases:
  assumes "valid mem" "n < 2 ^ 64"
  shows "read_bytes GM mem a n =
    (case check_range GM mem a (of_nat n) of Inl e \<Rightarrow> Inl e
     | Inr _ \<Rightarrow> Inr (map (\<lambda>i. the (byte mem (unat a + i))) [0..<n]))"
  using assms by (auto split: sum.split intro: read_ok read_err)

lemma read_bytes_Inr:
  assumes "valid mem" "n < 2 ^ 64" "read_bytes GM mem a n = Inr bs"
  shows "length bs = n" "check_range GM mem a (of_nat n) = Inr ()"
    "\<And>i. i < n \<Longrightarrow> byte mem (unat a + i) = Some (bs ! i)"
proof -
  from assms have c: "check_range GM mem a (of_nat n) = Inr ()"
    and bs: "bs = map (\<lambda>i. the (byte mem (unat a + i))) [0..<n]"
    by (auto simp: read_bytes_cases split: sum.splits)
  from bs show "length bs = n" by simp
  from c show "check_range GM mem a (of_nat n) = Inr ()" .
  fix i assume i: "i < n"
  have "byte mem (unat a + i) \<noteq> None"
    using range_defined[OF assms(1) c, of "unat a + i"] i assms(2) by (simp add: unat_of_nat)
  with i show "byte mem (unat a + i) = Some (bs ! i)" by (auto simp: bs)
qed

lemma write_bytes_Inr:
  assumes "valid mem" "length bs < 2 ^ 64" "write_bytes GM mem a bs = Inr mem'"
  shows "valid mem'" "check_range GM mem' = check_range GM mem"
    "byte mem' x = (if unat a \<le> x \<and> x < unat a + length bs
                    then Some (bs ! (x - unat a)) else byte mem x)"
    "check_range GM mem a (of_nat (length bs)) = Inr ()"
proof -
  show c: "check_range GM mem a (of_nat (length bs)) = Inr ()"
    using assms(2,3) write_err[of bs mem a] by (cases "check_range GM mem a (of_nat (length bs))") auto
  from write_ok[OF assms(1,2) c] assms(3)
  show "valid mem'" "check_range GM mem' = check_range GM mem"
    "byte mem' x = (if unat a \<le> x \<and> x < unat a + length bs
                    then Some (bs ! (x - unat a)) else byte mem x)"
    by auto
qed

lemma read_bytes_cong:
  assumes "valid mem" "valid mem'" "n < 2 ^ 64" "check_range GM mem' = check_range GM mem"
    and "\<And>i. i < n \<Longrightarrow> byte mem' (unat a + i) = byte mem (unat a + i)"
  shows "read_bytes GM mem' a n = read_bytes GM mem a n"
  using assms by (auto simp: read_bytes_cases split: sum.split)

lemma read_after_write:
  assumes "valid mem" "length bs < 2 ^ 64" "write_bytes GM mem a bs = Inr mem'"
  shows "read_bytes GM mem' a (length bs) = Inr bs"
proof -
  note w = write_bytes_Inr[OF assms]
  have "map (\<lambda>i. the (byte mem' (unat a + i))) [0..<length bs] = bs"
    by (rule nth_equalityI) (auto simp: w(3))
  with w show ?thesis using read_ok[OF w(1) assms(2), of a] by simp
qed

lemma read_after_disjoint_write:
  assumes "valid mem" "length bs < 2 ^ 64" "write_bytes GM mem a bs = Inr mem'" "n < 2 ^ 64"
    and "unat b + n \<le> unat a \<or> unat a + length bs \<le> unat b"
  shows "read_bytes GM mem' b n = read_bytes GM mem b n"
proof -
  note w = write_bytes_Inr[OF assms(1-3)]
  show ?thesis by (rule read_bytes_cong[OF assms(1) w(1) assms(4) w(2)]) (use assms(5) w(3) in auto)
qed

end

section \<open>The heap implementation keeps the promise\<close>

text \<open>
  The invariant that \<open>new\<close> establishes: regions are non-empty, ascending, disjoint and end
  below \<open>2 ^ 64\<close>. \<open>vec_byte\<close> is the byte map the memory stands for.
\<close>

fun vec_valid_from :: "nat \<Rightarrow> region list \<Rightarrow> bool" where
  "vec_valid_from lo [] = True"
| "vec_valid_from lo (r # rs) =
     (r_bytes r \<noteq> [] \<and> lo \<le> unat (r_start r) \<and> unat (r_start r) + length (r_bytes r) < 2 ^ 64 \<and>
      vec_valid_from (unat (r_start r) + length (r_bytes r)) rs)"

definition vec_valid :: "vec_guest_memory \<Rightarrow> bool" where
  "vec_valid mem = vec_valid_from 0 mem"

fun vec_byte :: "vec_guest_memory \<Rightarrow> nat \<Rightarrow> u8 option" where
  "vec_byte [] x = None"
| "vec_byte (r # rs) x =
     (if unat (r_start r) \<le> x \<and> x < unat (r_start r) + length (r_bytes r)
      then Some (r_bytes r ! (x - unat (r_start r))) else vec_byte rs x)"

lemma unat_region_end:
  assumes "unat (r_start r) + length (r_bytes r) < 2 ^ 64"
  shows "unat (region_end r) = unat (r_start r) + length (r_bytes r)"
proof -
  have "unat (of_nat (length (r_bytes r)) :: u64) = length (r_bytes r)"
    using assms by (simp add: unat_of_nat)
  then show ?thesis using assms
    by (simp add: region_end_def unat_add_no_overflow)
qed

lemma vec_valid_nth:
  assumes "vec_valid_from lo mem" "k < length mem"
  shows "lo \<le> unat (r_start (mem ! k))"
    "unat (r_start (mem ! k)) + length (r_bytes (mem ! k)) < 2 ^ 64"
  using assms by (induction lo mem arbitrary: k rule: vec_valid_from.induct)
    (fastforce simp: nth_Cons split: nat.splits)+

lemma vec_byte_nth:
  assumes "vec_valid_from lo mem" "k < length mem" "unat (r_start (mem ! k)) \<le> x"
    "x < unat (r_start (mem ! k)) + length (r_bytes (mem ! k))"
  shows "vec_byte mem x = Some (r_bytes (mem ! k) ! (x - unat (r_start (mem ! k))))"
  using assms
proof (induction lo mem arbitrary: k rule: vec_valid_from.induct)
  case (2 lo r rs)
  show ?case
  proof (cases k)
    case (Suc j)
    with 2 have "unat (r_start r) + length (r_bytes r) \<le> unat (r_start (rs ! j))"
      by (auto dest: vec_valid_nth)
    with 2 Suc show ?thesis by auto
  qed (use 2 in auto)
qed simp

lemma vec_byte_below:
  "vec_valid_from lo mem \<Longrightarrow> x < lo \<Longrightarrow> vec_byte mem x = None"
  by (induction lo mem rule: vec_valid_from.induct) auto

lemma locate_from_SomeD:
  assumes "locate_from i mem a stop = Some (j, offset)"
  shows "i \<le> j \<and> j - i < length mem \<and> r_start (mem ! (j - i)) \<le> a \<and>
         stop \<le> region_end (mem ! (j - i)) \<and> offset = unat a - unat (r_start (mem ! (j - i)))"
  using assms
proof (induction i mem a stop rule: locate_from.induct)
  case (2 i r rs a stop)
  show ?case
  proof (cases "r_start r \<le> a \<and> stop \<le> region_end r")
    case True
    with 2 show ?thesis by (auto simp: unat_sub word_le_nat_alt)
  next
    case False
    with 2 have "Suc i \<le> j \<and> j - Suc i < length rs \<and> r_start (rs ! (j - Suc i)) \<le> a \<and>
         stop \<le> region_end (rs ! (j - Suc i)) \<and> offset = unat a - unat (r_start (rs ! (j - Suc i)))"
      by auto
    moreover from this have "j - i = Suc (j - Suc i)" by arith
    ultimately show ?thesis by simp
  qed
qed simp

lemma locate_from_mono:
  assumes "locate_from i mem a stop = Some p" "a \<le> b" "stop' \<le> stop"
  shows "\<exists>q. locate_from i mem b stop' = Some q"
  using assms by (induction i mem a stop rule: locate_from.induct) (auto split: if_splits)

lemma vec_locate_InrD:
  assumes "vec_valid mem" "vec_locate mem a len = Inr (j, offset)"
  shows "j < length mem" "offset + unat len \<le> length (r_bytes (mem ! j))"
    "unat a = unat (r_start (mem ! j)) + offset" "unat a + unat len < 2 ^ 64"
proof -
  from assms(2) obtain stop where stop: "checked_add a len = Some stop"
    and "locate_from 0 mem a stop = Some (j, offset)"
    by (auto simp: vec_locate_def and_then_Inr_iff)
  from locate_from_SomeD[OF this(2)] have loc: "j < length mem" "r_start (mem ! j) \<le> a"
    "stop \<le> region_end (mem ! j)" "offset = unat a - unat (r_start (mem ! j))" by auto
  have bound: "unat (r_start (mem ! j)) + length (r_bytes (mem ! j)) < 2 ^ 64"
    using assms(1) loc(1) by (auto simp: vec_valid_def dest: vec_valid_nth)
  show "j < length mem" by (rule loc(1))
  show "unat a + unat len < 2 ^ 64" using stop by (simp add: checked_add_Some_iff)
  show "unat a = unat (r_start (mem ! j)) + offset" using loc by (simp add: word_le_nat_alt)
  show "offset + unat len \<le> length (r_bytes (mem ! j))"
    using loc unat_checked_add[OF stop] unat_region_end[OF bound] by (simp add: word_le_nat_alt)
qed

text \<open>Validity and location depend on where the regions are, not on their bytes.\<close>

definition vec_shape :: "vec_guest_memory \<Rightarrow> (guest_address \<times> nat) list" where
  "vec_shape mem = map (\<lambda>r. (r_start r, length (r_bytes r))) mem"

lemma vec_shape_ConsD:
  assumes "vec_shape (r # rs) = vec_shape mem"
  obtains r' rs' where "mem = r' # rs'" "r_start r' = r_start r"
    "length (r_bytes r') = length (r_bytes r)" "vec_shape rs = vec_shape rs'"
  using assms by (auto simp: vec_shape_def)

lemma vec_valid_from_shape:
  "vec_shape mem = vec_shape mem' \<Longrightarrow> vec_valid_from lo mem = vec_valid_from lo mem'"
proof (induction lo mem arbitrary: mem' rule: vec_valid_from.induct)
  case (2 lo r rs)
  from "2.prems" obtain r' rs' where "mem' = r' # rs'" "r_start r' = r_start r"
    "length (r_bytes r') = length (r_bytes r)" "vec_shape rs = vec_shape rs'"
    by (rule vec_shape_ConsD)
  with 2 show ?case by (cases "r_bytes r"; cases "r_bytes r'") auto
qed (simp add: vec_shape_def)

lemma locate_from_shape:
  "vec_shape mem = vec_shape mem' \<Longrightarrow> locate_from i mem a stop = locate_from i mem' a stop"
proof (induction i mem a stop arbitrary: mem' rule: locate_from.induct)
  case (2 i r rs a stop)
  from "2.prems" obtain r' rs' where m: "mem' = r' # rs'" "r_start r' = r_start r"
    "length (r_bytes r') = length (r_bytes r)" "vec_shape rs = vec_shape rs'"
    by (rule vec_shape_ConsD)
  have "region_end r' = region_end r" using m by (simp add: region_end_def)
  with 2 m show ?case by simp
qed (simp add: vec_shape_def)

lemma vec_locate_shape: "vec_shape mem = vec_shape mem' \<Longrightarrow> vec_locate mem = vec_locate mem'"
  by (intro ext) (simp add: vec_locate_def locate_from_shape[of mem mem'])

lemma vec_byte_update:
  assumes "vec_valid_from lo mem" "j < length mem" "r_start r = r_start (mem ! j)"
    "length (r_bytes r) = length (r_bytes (mem ! j))"
  shows "vec_byte (mem[j := r]) x =
    (if unat (r_start r) \<le> x \<and> x < unat (r_start r) + length (r_bytes r)
     then Some (r_bytes r ! (x - unat (r_start r))) else vec_byte mem x)"
  using assms
proof (induction lo mem arbitrary: j rule: vec_valid_from.induct)
  case (2 lo r' rs)
  show ?case
  proof (cases j)
    case (Suc k)
    with 2 have "unat (r_start r') + length (r_bytes r') \<le> unat (r_start r)"
      by (auto dest: vec_valid_nth)
    with 2 Suc show ?thesis by auto
  qed (use 2 in auto)
qed simp

lemma length_overwrite:
  "offset + length bs \<le> length dest \<Longrightarrow> length (overwrite offset bs dest) = length dest"
  by (simp add: overwrite_def)

lemma nth_overwrite:
  assumes "offset + length bs \<le> length dest" "i < length dest"
  shows "overwrite offset bs dest ! i =
    (if offset \<le> i \<and> i < offset + length bs then bs ! (i - offset) else dest ! i)"
  using assms by (auto simp: overwrite_def nth_append)

lemma vec_read_bytes_eq:
  assumes "vec_valid mem" "n < 2 ^ 64" "vec_check_range mem a (of_nat n) = Inr ()"
  shows "vec_read_bytes mem a n = Inr (map (\<lambda>i. the (vec_byte mem (unat a + i))) [0..<n])"
proof -
  from assms(3) obtain j offset where loc: "vec_locate mem a (of_nat n) = Inr (j, offset)"
    by (auto simp: vec_check_range_def and_then_Inr_iff)
  note l = vec_locate_InrD[OF assms(1) loc]
  have n: "unat (of_nat n :: u64) = n" using assms(2) by (simp add: unat_of_nat)
  have "take n (drop offset (r_bytes (mem ! j))) = map (\<lambda>i. the (vec_byte mem (unat a + i))) [0..<n]"
  proof (rule nth_equalityI)
    fix i assume "i < length (take n (drop offset (r_bytes (mem ! j))))"
    then have i: "i < n" by simp
    then have "vec_byte mem (unat a + i) = Some (r_bytes (mem ! j) ! (offset + i))"
      using vec_byte_nth[of 0 mem j "unat a + i"] l n assms(1) by (simp add: vec_valid_def)
    with i l n show "take n (drop offset (r_bytes (mem ! j))) ! i =
        map (\<lambda>i. the (vec_byte mem (unat a + i))) [0..<n] ! i" by simp
  qed (use l n in auto)
  then show ?thesis using loc by (simp add: vec_read_bytes_def slice_len_def)
qed

lemma vec_write_bytes_ok:
  assumes "vec_valid mem" "length bs < 2 ^ 64" "vec_check_range mem a (of_nat (length bs)) = Inr ()"
  shows "\<exists>mem'. vec_write_bytes mem a bs = Inr mem' \<and> vec_valid mem' \<and>
    vec_check_range mem' = vec_check_range mem \<and>
    (\<forall>x. vec_byte mem' x = (if unat a \<le> x \<and> x < unat a + length bs
                            then Some (bs ! (x - unat a)) else vec_byte mem x))"
proof -
  from assms(3) obtain j offset where loc: "vec_locate mem a (of_nat (length bs)) = Inr (j, offset)"
    by (auto simp: vec_check_range_def and_then_Inr_iff)
  note l = vec_locate_InrD[OF assms(1) loc]
  have n: "unat (of_nat (length bs) :: u64) = length bs" using assms(2) by (simp add: unat_of_nat)
  have fits: "offset + length bs \<le> length (r_bytes (mem ! j))" using l(2) n by simp
  define r where "r = (mem ! j)\<lparr>r_bytes := overwrite offset bs (r_bytes (mem ! j))\<rparr>"
  have r: "r_start r = r_start (mem ! j)" "length (r_bytes r) = length (r_bytes (mem ! j))"
    using fits by (auto simp: r_def length_overwrite)
  have shape: "vec_shape (mem[j := r]) = vec_shape mem"
    using l(1) r by (auto simp: vec_shape_def map_update list_update_same_conv)
  have byte: "vec_byte (mem[j := r]) x = (if unat a \<le> x \<and> x < unat a + length bs
      then Some (bs ! (x - unat a)) else vec_byte mem x)" for x
  proof -
    have old: "vec_byte mem x = Some (r_bytes (mem ! j) ! (x - unat (r_start r)))"
      if "unat (r_start r) \<le> x" "x < unat (r_start r) + length (r_bytes r)"
      using vec_byte_nth[of 0 mem j x] that r l(1) assms(1) by (simp add: vec_valid_def)
    have diff: "x - unat (r_start r) - offset = x - unat a" using l(3) r(1) by simp
    show ?thesis
      using vec_byte_update[of 0 mem j r x] assms(1) l r fits old diff
        nth_overwrite[OF fits, of "x - unat (r_start r)"]
      by (auto simp: vec_valid_def r_def)
  qed
  have "vec_write_bytes mem a bs = Inr (mem[j := r])"
    using loc by (simp add: vec_write_bytes_def slice_len_def r_def)
  moreover have "vec_valid (mem[j := r])"
    using vec_valid_from_shape[OF shape] assms(1) by (simp add: vec_valid_def)
  moreover have "vec_check_range (mem[j := r]) = vec_check_range mem"
    using vec_locate_shape[OF shape] by (simp add: vec_check_range_def fun_eq_iff)
  ultimately show ?thesis using byte by blast
qed

interpretation vec: guest_memory vec_ops vec_valid vec_byte
proof
  show "unat a + unat len < 2 ^ 64"
    if "vec_valid mem" "check_range vec_ops mem a len = Inr ()" for mem a len
    using that vec_locate_InrD(4) by (auto simp: vec_ops_def vec_check_range_def and_then_Inr_iff)
  show "vec_byte mem x \<noteq> None"
    if "vec_valid mem" "check_range vec_ops mem a len = Inr ()" "unat a \<le> x" "x < unat a + unat len"
    for mem a len x
  proof -
    from that(2) obtain j offset where loc: "vec_locate mem a len = Inr (j, offset)"
      by (auto simp: vec_ops_def vec_check_range_def and_then_Inr_iff)
    note l = vec_locate_InrD[OF that(1) loc]
    then show ?thesis using vec_byte_nth[of 0 mem j x] that by (simp add: vec_valid_def)
  qed
  show "check_range vec_ops mem b k = Inr ()"
    if "vec_valid mem" "check_range vec_ops mem a len = Inr ()" "unat a \<le> unat b"
      "unat b + unat k \<le> unat a + unat len" for mem a len b k
  proof -
    from that(2) obtain stop p where stop: "checked_add a len = Some stop"
      and loc: "locate_from 0 mem a stop = Some p"
      by (auto simp: vec_ops_def vec_check_range_def vec_locate_def and_then_Inr_iff)
    have fits: "unat b + unat k < 2 ^ 64" using that(4) stop by (simp add: checked_add_Some_iff)
    have "b + k \<le> stop"
      using that(4) unat_checked_add[OF stop] unat_add_no_overflow[of b k] fits
      by (simp add: word_le_nat_alt)
    with loc that(3) obtain q where "locate_from 0 mem b (b + k) = Some q"
      using locate_from_mono by (metis word_le_nat_alt)
    with fits show ?thesis
      by (auto simp: vec_ops_def vec_check_range_def vec_locate_def checked_add_def split: prod.split)
  qed
  show "read_bytes vec_ops mem a n = Inr (map (\<lambda>i. the (vec_byte mem (unat a + i))) [0..<n])"
    if "vec_valid mem" "n < 2 ^ 64" "check_range vec_ops mem a (of_nat n) = Inr ()" for mem n a
    using that vec_read_bytes_eq by (simp add: vec_ops_def)
  show "read_bytes vec_ops mem a n = Inl e"
    if "n < 2 ^ 64" "check_range vec_ops mem a (of_nat n) = Inl e" for mem n a e
    using that by (auto simp: vec_ops_def vec_check_range_def vec_read_bytes_def slice_len_def
        and_then_Inl_iff)
  show "\<exists>mem'. write_bytes vec_ops mem a bs = Inr mem' \<and> vec_valid mem' \<and>
      check_range vec_ops mem' = check_range vec_ops mem \<and>
      (\<forall>x. vec_byte mem' x = (if unat a \<le> x \<and> x < unat a + length bs
                              then Some (bs ! (x - unat a)) else vec_byte mem x))"
    if "vec_valid mem" "length bs < 2 ^ 64" "check_range vec_ops mem a (of_nat (length bs)) = Inr ()"
    for mem bs a
    using that vec_write_bytes_ok by (simp add: vec_ops_def)
  show "write_bytes vec_ops mem a bs = Inl e"
    if "length bs < 2 ^ 64" "check_range vec_ops mem a (of_nat (length bs)) = Inl e" for mem bs a e
    using that by (auto simp: vec_ops_def vec_check_range_def vec_write_bytes_def slice_len_def
        and_then_Inl_iff)
qed

lemma vec_new_from_valid:
  "vec_new_from next_free layout = Inr mem \<Longrightarrow> vec_valid_from (unat next_free) mem \<and> vec_shape mem = layout"
proof (induction next_free layout arbitrary: mem rule: vec_new_from.induct)
  case (2 next_free start len rest)
  from "2.prems" obtain stop rs where len: "0 < len" "len < 2 ^ 64"
    and stop: "checked_add start (of_nat len) = Some stop" and "\<not> start < next_free"
    and rs: "vec_new_from stop rest = Inr rs"
    and mem: "mem = \<lparr>r_start = start, r_bytes = replicate len 0\<rparr> # rs"
    by (auto simp: and_then_Inr_iff split: if_splits)
  have "vec_valid_from (unat stop) rs \<and> vec_shape rs = rest"
    using "2.IH" len stop rs \<open>\<not> start < next_free\<close> by auto
  moreover have "unat stop = unat start + len" "unat start + len < 2 ^ 64"
    using unat_checked_add[OF stop] stop len(2) by (auto simp: unat_of_nat checked_add_Some_iff)
  ultimately show ?case using len \<open>\<not> start < next_free\<close>
    by (auto simp: mem vec_shape_def word_le_nat_alt not_less)
qed (simp add: vec_shape_def)

lemma vec_new_from_byte:
  "vec_new_from next_free layout = Inr mem \<Longrightarrow>
     vec_byte mem x =
       (if \<exists>(start, len) \<in> set layout. unat start \<le> x \<and> x < unat start + len then Some 0 else None)"
proof (induction next_free layout arbitrary: mem rule: vec_new_from.induct)
  case (2 next_free start len rest)
  then show ?case by (auto simp: and_then_Inr_iff split: if_splits)
qed simp

section \<open>Properties\<close>

text \<open>
  A layout that \<open>VecGuestMemory::new\<close> accepts gives a valid memory, whose regions are the
  layout's in order, disjoint and below \<open>2 ^ 64\<close>, and in which exactly the addresses of the
  layout exist and hold zero.
\<close>

lemma vec_new_zeroed:
  assumes "vec_new layout = Inr mem"
  shows "vec_valid mem \<and> vec_shape mem = layout \<and>
    vec_byte mem x =
      (if \<exists>(start, len) \<in> set layout. unat start \<le> x \<and> x < unat start + len then Some 0 else None)"
  using assms vec_new_from_valid[of 0 layout mem] vec_new_from_byte[of 0 layout mem x]
  by (simp add: vec_new_def vec_valid_def)

text \<open>
  Memory behaves like a map from addresses to bytes. A write either returns the error of
  the range check, or succeeds and keeps the memory valid; then the written range reads back
  the written bytes and every read of a disjoint range returns what it returned before.
\<close>

lemma vec_write_read:
  assumes "vec_valid mem" "length bs < 2 ^ 64"
  shows "case vec_write_bytes mem a bs of
      Inl e \<Rightarrow> vec_check_range mem a (of_nat (length bs)) = Inl e
    | Inr mem' \<Rightarrow> vec_valid mem' \<and> vec_read_bytes mem' a (length bs) = Inr bs \<and>
        (\<forall>b n. n < 2 ^ 64 \<and> (unat b + n \<le> unat a \<or> unat a + length bs \<le> unat b) \<longrightarrow>
           vec_read_bytes mem' b n = vec_read_bytes mem b n)"
proof (cases "vec_write_bytes mem a bs")
  case (Inl e)
  then show ?thesis using vec.write_ok[OF assms, of a]
    by (cases "vec_check_range mem a (of_nat (length bs))")
       (auto simp: vec_ops_def vec_check_range_def vec_write_bytes_def slice_len_def and_then_Inl_iff)
next
  case (Inr mem')
  then have w: "write_bytes vec_ops mem a bs = Inr mem'" by (simp add: vec_ops_def)
  show ?thesis
    using vec.write_bytes_Inr(1)[OF assms w] vec.read_after_write[OF assms w]
      vec.read_after_disjoint_write[OF assms w] Inr
    by (simp add: vec_ops_def)
qed

end
