(* ===== verification/VirtqChain.thy ===== *)
theory VirtqChain
  imports GuestMemory
begin

text \<open>
  The descriptor-chain walker (\<open>soma-kvm/src/virtio/queue/chain.rs\<close>). \<open>walk_body\<close> is the
  body of the source's \<open>loop\<close> and \<open>walk_loop\<close> repeats it until it breaks or fails; the loop
  ends because every round that continues has pushed one segment and the segments are
  bounded. \<open>chain_path\<close> is the chain the guest wrote, as an inductive relation, and the walk
  is shown to return exactly the chains that are well formed.
\<close>

section \<open>Descriptors\<close>

abbreviation (input) VIRTQ_DESC_F_NEXT :: u16 where "VIRTQ_DESC_F_NEXT \<equiv> 1"
abbreviation (input) VIRTQ_DESC_F_WRITE :: u16 where "VIRTQ_DESC_F_WRITE \<equiv> 2"
abbreviation (input) VIRTQ_DESC_F_INDIRECT :: u16 where "VIRTQ_DESC_F_INDIRECT \<equiv> 4"
abbreviation (input) DESCRIPTOR_SIZE :: u64 where "DESCRIPTOR_SIZE \<equiv> 16"
abbreviation (input) MAX_QUEUE_SIZE :: u16 where "MAX_QUEUE_SIZE \<equiv> 32768"

definition KNOWN_FLAGS :: u16 where
  "KNOWN_FLAGS = VIRTQ_DESC_F_NEXT OR VIRTQ_DESC_F_WRITE OR VIRTQ_DESC_F_INDIRECT"

record descriptor =
  d_addr :: u64
  d_len :: u32
  d_flags :: u16
  d_next :: u16

definition descriptor_to_bytes :: "descriptor \<Rightarrow> u8 list" where
  "descriptor_to_bytes d =
     le_bytes 8 (d_addr d) @ le_bytes 4 (d_len d) @ le_bytes 2 (d_flags d) @ le_bytes 2 (d_next d)"

definition descriptor_from_bytes :: "u8 list \<Rightarrow> descriptor" where
  "descriptor_from_bytes raw =
     \<lparr>d_addr = le_word (take 8 raw), d_len = le_word (take 4 (drop 8 raw)),
      d_flags = le_word (take 2 (drop 12 raw)), d_next = le_word (take 2 (drop 14 raw))\<rparr>"

section \<open>Chains\<close>

record chain_segment =
  s_addr :: guest_address
  s_len :: u32
  s_writable :: bool

record descriptor_chain =
  c_head :: u16
  c_segments :: "chain_segment list"
  c_readable_len :: u64
  c_writable_len :: u64

definition chain_readable :: "descriptor_chain \<Rightarrow> chain_segment list" where
  "chain_readable c = filter (\<lambda>s. \<not> s_writable s) (c_segments c)"

definition chain_writable :: "descriptor_chain \<Rightarrow> chain_segment list" where
  "chain_writable c = filter s_writable (c_segments c)"

record chain_limits =
  max_descriptors :: u16
  max_bytes :: u64

datatype chain_violation =
    InvalidQueueSize u16
  | IndexOutOfRange u16 u16
  | DescriptorUnreadable u16
  | RepeatedIndex u16
  | TooLong u16
  | Indirect u16
  | UnknownFlags u16
  | ZeroLength u16
  | AddressOverflow u16
  | SegmentOutOfRegion u16
  | ReadableAfterWritable u16
  | BytesExceeded u64

section \<open>The walk\<close>

definition read_descriptor ::
    "'m guest_memory_ops \<Rightarrow> 'm \<Rightarrow> guest_address \<Rightarrow> u16 \<Rightarrow> chain_violation + descriptor" where
  "read_descriptor GM mem table index =
     (let offset = ucast index * DESCRIPTOR_SIZE in
      and_then (ok_or (DescriptorUnreadable index) (checked_add table offset)) (\<lambda>addr.
      and_then (map_err (\<lambda>_. DescriptorUnreadable index) (read_bytes GM mem addr 16)) (\<lambda>raw.
      Inr (descriptor_from_bytes raw))))"

record walk_state =
  w_index :: u16
  w_visited :: "u64 list"
  w_segments :: "chain_segment list"
  w_readable :: u64
  w_writable :: u64

text \<open>One round of the loop: the flag is true when the round ends with \<open>break\<close>.\<close>

definition walk_body ::
    "'m guest_memory_ops \<Rightarrow> 'm \<Rightarrow> guest_address \<Rightarrow> u16 \<Rightarrow> u16 \<Rightarrow> chain_limits \<Rightarrow> walk_state
     \<Rightarrow> chain_violation + (bool \<times> walk_state)" where
  "walk_body GM mem table queue_size max_desc limits st =
     (let index = w_index st in
      if queue_size \<le> index then Inl (IndexOutOfRange index queue_size) else
      let word = unat (index div 64); bit = unat (index mod 64) in
      if (w_visited st ! word) AND push_bit bit 1 \<noteq> 0 then Inl (RepeatedIndex index) else
      let visited = (w_visited st)[word := (w_visited st ! word) OR push_bit bit 1] in
      if unat max_desc \<le> length (w_segments st) then Inl (TooLong max_desc) else
      and_then (read_descriptor GM mem table index) (\<lambda>d.
      if d_flags d AND VIRTQ_DESC_F_INDIRECT \<noteq> 0 then Inl (Indirect index) else
      if d_flags d AND NOT KNOWN_FLAGS \<noteq> 0 then Inl (UnknownFlags index) else
      if d_len d = 0 then Inl (ZeroLength index) else
      let addr = d_addr d; len = ucast (d_len d) in
      if checked_add addr len = None then Inl (AddressOverflow index) else
      if \<not> is_ok (check_range GM mem addr len) then Inl (SegmentOutOfRegion index) else
      let writable = (d_flags d AND VIRTQ_DESC_F_WRITE \<noteq> 0) in
      if \<not> writable \<and> 0 < w_writable st then Inl (ReadableAfterWritable index) else
      let writable_len = (if writable then saturating_add (w_writable st) len else w_writable st);
          readable_len = (if writable then w_readable st else saturating_add (w_readable st) len);
          total = (if writable then saturating_add readable_len writable_len else readable_len) in
      if max_bytes limits < total then Inl (BytesExceeded (max_bytes limits)) else
      Inr (d_flags d AND VIRTQ_DESC_F_NEXT = 0,
           \<lparr>w_index = d_next d, w_visited = visited,
            w_segments = w_segments st @ [\<lparr>s_addr = addr, s_len = d_len d, s_writable = writable\<rparr>],
            w_readable = readable_len, w_writable = writable_len\<rparr>)))"

lemma walk_body_segments:
  assumes "walk_body GM mem table queue_size max_desc limits st = Inr (brk, st')"
  shows "length (w_segments st) < unat max_desc \<and>
         length (w_segments st') = Suc (length (w_segments st))"
  using assms by (auto simp: walk_body_def Let_def and_then_Inr_iff split: if_splits)

function walk_loop ::
    "'m guest_memory_ops \<Rightarrow> 'm \<Rightarrow> guest_address \<Rightarrow> u16 \<Rightarrow> u16 \<Rightarrow> chain_limits \<Rightarrow> walk_state
     \<Rightarrow> chain_violation + walk_state" where
  "walk_loop GM mem table queue_size max_desc limits st =
     and_then (walk_body GM mem table queue_size max_desc limits st) (\<lambda>(brk, st').
     if brk then Inr st' else walk_loop GM mem table queue_size max_desc limits st')"
  by pat_completeness auto
termination
  by (relation "measure (\<lambda>(GM, mem, table, queue_size, max_desc, limits, st).
        unat max_desc - length (w_segments st))")
     (auto dest: walk_body_segments)

declare walk_loop.simps [simp del]

definition walk_chain ::
    "'m guest_memory_ops \<Rightarrow> 'm \<Rightarrow> guest_address \<Rightarrow> u16 \<Rightarrow> u16 \<Rightarrow> chain_limits
     \<Rightarrow> chain_violation + descriptor_chain" where
  "walk_chain GM mem table queue_size head limits =
     (if queue_size = 0 \<or> MAX_QUEUE_SIZE < queue_size \<or> \<not> is_power_of_two queue_size
      then Inl (InvalidQueueSize queue_size)
      else and_then (walk_loop GM mem table queue_size (min (max_descriptors limits) queue_size) limits
             \<lparr>w_index = head, w_visited = replicate ((unat queue_size + 63) div 64) 0,
              w_segments = [], w_readable = 0, w_writable = 0\<rparr>) (\<lambda>st.
           Inr \<lparr>c_head = head, c_segments = w_segments st, c_readable_len = w_readable st,
                c_writable_len = w_writable st\<rparr>))"

section \<open>Rounds of the loop\<close>

text \<open>The loop given up after \<open>n\<close> rounds, and the state it starts from.\<close>

fun walk_within ::
    "nat \<Rightarrow> 'm guest_memory_ops \<Rightarrow> 'm \<Rightarrow> guest_address \<Rightarrow> u16 \<Rightarrow> u16 \<Rightarrow> chain_limits \<Rightarrow> walk_state
     \<Rightarrow> (chain_violation + walk_state) option" where
  "walk_within 0 GM mem table queue_size max_desc limits st = None"
| "walk_within (Suc n) GM mem table queue_size max_desc limits st =
     (case walk_body GM mem table queue_size max_desc limits st of
        Inl e \<Rightarrow> Some (Inl e)
      | Inr (brk, st') \<Rightarrow>
          if brk then Some (Inr st') else walk_within n GM mem table queue_size max_desc limits st')"

definition walk_start :: "u16 \<Rightarrow> u16 \<Rightarrow> walk_state" where
  "walk_start queue_size head =
     \<lparr>w_index = head, w_visited = replicate ((unat queue_size + 63) div 64) 0,
      w_segments = [], w_readable = 0, w_writable = 0\<rparr>"

lemma walk_within_enough:
  "length (w_segments st) \<le> unat max_desc \<Longrightarrow>
   walk_within (Suc (unat max_desc - length (w_segments st))) GM mem table queue_size max_desc limits st =
     Some (walk_loop GM mem table queue_size max_desc limits st)"
proof (induction "unat max_desc - length (w_segments st)" arbitrary: st)
  case 0
  then have "\<exists>e. walk_body GM mem table queue_size max_desc limits st = Inl e"
    using walk_body_segments[of GM mem table queue_size max_desc limits st]
    by (cases "walk_body GM mem table queue_size max_desc limits st") fastforce+
  then show ?case by (auto simp: walk_loop.simps[of GM mem table queue_size max_desc limits st])
next
  case (Suc n)
  show ?case
  proof (cases "walk_body GM mem table queue_size max_desc limits st")
    case (Inr p)
    obtain brk st' where p: "p = (brk, st')" by (cases p)
    then have l: "length (w_segments st') = Suc (length (w_segments st))"
      using walk_body_segments[of GM mem table queue_size max_desc limits st brk st'] Inr by simp
    then have n: "n = unat max_desc - length (w_segments st')" and "length (w_segments st') \<le> unat max_desc"
      using Suc(2) by simp_all
    from Suc(1)[OF this] have "walk_within (Suc n) GM mem table queue_size max_desc limits st' =
        Some (walk_loop GM mem table queue_size max_desc limits st')"
      unfolding n .
    then show ?thesis
      using Inr p by (simp add: walk_loop.simps[of GM mem table queue_size max_desc limits st] flip: Suc(2))
  qed (simp add: walk_loop.simps[of GM mem table queue_size max_desc limits st])
qed

section \<open>What a well-formed chain is\<close>

text \<open>
  \<open>chain_path\<close> follows the \<open>next\<close> fields from a head and lists the descriptors met, without
  any limit. A path is well formed when its indexes are in range and distinct, every
  descriptor is acceptable on its own, readable buffers come before writable ones and the
  configured limits hold.
\<close>

inductive chain_path ::
    "'m guest_memory_ops \<Rightarrow> 'm \<Rightarrow> guest_address \<Rightarrow> u16 \<Rightarrow> (u16 \<times> descriptor) list \<Rightarrow> bool"
  for GM mem table where
  path_last: "\<lbrakk>read_descriptor GM mem table i = Inr d; d_flags d AND VIRTQ_DESC_F_NEXT = 0\<rbrakk>
      \<Longrightarrow> chain_path GM mem table i [(i, d)]"
| path_next: "\<lbrakk>read_descriptor GM mem table i = Inr d; d_flags d AND VIRTQ_DESC_F_NEXT \<noteq> 0;
      chain_path GM mem table (d_next d) p\<rbrakk> \<Longrightarrow> chain_path GM mem table i ((i, d) # p)"

inductive_cases chain_pathE: "chain_path GM mem table i p"

definition desc_ok :: "'m guest_memory_ops \<Rightarrow> 'm \<Rightarrow> descriptor \<Rightarrow> bool" where
  "desc_ok GM mem d \<longleftrightarrow>
     d_flags d AND VIRTQ_DESC_F_INDIRECT = 0 \<and> d_flags d AND NOT KNOWN_FLAGS = 0 \<and> d_len d \<noteq> 0 \<and>
     unat (d_addr d) + unat (d_len d) < 2 ^ 64 \<and>
     is_ok (check_range GM mem (d_addr d) (ucast (d_len d)))"

definition seg_of :: "descriptor \<Rightarrow> chain_segment" where
  "seg_of d = \<lparr>s_addr = d_addr d, s_len = d_len d, s_writable = (d_flags d AND VIRTQ_DESC_F_WRITE \<noteq> 0)\<rparr>"

definition seg_bytes :: "chain_segment list \<Rightarrow> nat" where
  "seg_bytes segs = sum_list (map (\<lambda>s. unat (s_len s)) segs)"

text \<open>Device-readable segments come before device-writable ones.\<close>

primrec readable_first :: "chain_segment list \<Rightarrow> bool" where
  "readable_first [] = True"
| "readable_first (s # segs) =
     (if s_writable s then \<forall>t \<in> set segs. s_writable t else readable_first segs)"

definition wf_path ::
    "'m guest_memory_ops \<Rightarrow> 'm \<Rightarrow> u16 \<Rightarrow> chain_limits \<Rightarrow> (u16 \<times> descriptor) list \<Rightarrow> bool" where
  "wf_path GM mem queue_size limits p \<longleftrightarrow>
     distinct (map fst p) \<and> (\<forall>x \<in> set p. fst x < queue_size \<and> desc_ok GM mem (snd x)) \<and>
     length p \<le> unat (min (max_descriptors limits) queue_size) \<and>
     readable_first (map (seg_of \<circ> snd) p) \<and>
     seg_bytes (map (seg_of \<circ> snd) p) \<le> unat (max_bytes limits)"

definition chain_of :: "(u16 \<times> descriptor) list \<Rightarrow> u16 \<Rightarrow> descriptor_chain" where
  "chain_of p head =
     (let segs = map (seg_of \<circ> snd) p in
      \<lparr>c_head = head, c_segments = segs,
       c_readable_len = of_nat (seg_bytes (filter (\<lambda>s. \<not> s_writable s) segs)),
       c_writable_len = of_nat (seg_bytes (filter s_writable segs))\<rparr>)"

lemma seg_bytes_simps [simp]:
  "seg_bytes [] = 0" "seg_bytes (s # segs) = unat (s_len s) + seg_bytes segs"
  "seg_bytes (xs @ ys) = seg_bytes xs + seg_bytes ys"
  by (simp_all add: seg_bytes_def)

lemma seg_bytes_split:
  "seg_bytes (filter (\<lambda>s. \<not> s_writable s) segs) + seg_bytes (filter s_writable segs) = seg_bytes segs"
  by (induction segs) auto

lemma seg_bytes_bound: "seg_bytes segs \<le> length segs * 4294967295"
proof (induction segs)
  case (Cons s segs)
  have "unat (s_len s) \<le> 4294967295" using unat_u32_less[of "s_len s"] by linarith
  with Cons show ?case by simp
qed simp

lemma seg_bytes_bound_fixed:
  assumes "length segs \<le> n"
  shows "seg_bytes segs \<le> n * 4294967295"
  using seg_bytes_bound[of segs] mult_le_mono1[OF assms, of 4294967295] by linarith

lemma seg_bytes_0_iff:
  "\<forall>s \<in> set segs. s_len s \<noteq> 0 \<Longrightarrow> seg_bytes segs = 0 \<longleftrightarrow> segs = []"
  by (cases segs) (auto simp: unat_eq_0)

section \<open>The visited bitmap\<close>

definition visited_bit :: "u64 list \<Rightarrow> u16 \<Rightarrow> bool" where
  "visited_bit v i \<longleftrightarrow> bit (v ! (unat i div 64)) (unat i mod 64)"

lemma unat_index_word: "unat (i div 64 :: u16) = unat i div 64" "unat (i mod 64 :: u16) = unat i mod 64"
  by (simp_all add: unat_div_distrib unat_mod_distrib)

lemma visited_mark:
  assumes "unat i div 64 < length v"
  shows "visited_bit (v[unat i div 64 := (v ! (unat i div 64)) OR push_bit (unat i mod 64) 1]) j
         \<longleftrightarrow> visited_bit v j \<or> j = i"
proof (cases "unat j div 64 = unat i div 64")
  case True
  have "j = i \<longleftrightarrow> unat j mod 64 = unat i mod 64"
    using True by (metis div_mult_mod_eq word_unat_eq_iff)
  then show ?thesis using assms True
    by (auto simp: visited_bit_def bit_simps)
next
  case False
  then show ?thesis using assms by (auto simp: visited_bit_def)
qed

lemma index_word_in_range:
  assumes "i < queue_size" "length v = (unat queue_size + 63) div 64"
  shows "unat i div 64 < length v"
  using assms by (simp add: word_less_nat_alt)

lemma and_exp_eq_0_iff: "a AND 2 ^ n = 0 \<longleftrightarrow> \<not> bit a n" for a :: "'a::len word"
  using bit_iff_and_push_bit_not_eq_0[of a n] by simp

section \<open>The walk returns exactly the well-formed chains\<close>

definition walk_inv :: "u16 \<Rightarrow> walk_state \<Rightarrow> bool" where
  "walk_inv queue_size st \<longleftrightarrow>
     length (w_visited st) = (unat queue_size + 63) div 64 \<and>
     (\<forall>s \<in> set (w_segments st). s_len s \<noteq> 0) \<and>
     unat (w_readable st) = seg_bytes (filter (\<lambda>s. \<not> s_writable s) (w_segments st)) \<and>
     unat (w_writable st) = seg_bytes (filter s_writable (w_segments st))"

text \<open>What a state may grow by: the side conditions of one accepted descriptor.\<close>

definition accepts ::
    "'m guest_memory_ops \<Rightarrow> 'm \<Rightarrow> u16 \<Rightarrow> u16 \<Rightarrow> chain_limits \<Rightarrow> walk_state \<Rightarrow> descriptor \<Rightarrow> bool" where
  "accepts GM mem queue_size max_desc limits st d \<longleftrightarrow>
     w_index st < queue_size \<and> \<not> visited_bit (w_visited st) (w_index st) \<and>
     length (w_segments st) < unat max_desc \<and> desc_ok GM mem d \<and>
     (s_writable (seg_of d) \<or> (\<forall>s \<in> set (w_segments st). \<not> s_writable s)) \<and>
     seg_bytes (w_segments st) + unat (d_len d) \<le> unat (max_bytes limits)"

definition walk_next :: "walk_state \<Rightarrow> descriptor \<Rightarrow> walk_state" where
  "walk_next st d =
     \<lparr>w_index = d_next d,
      w_visited = (w_visited st)[unat (w_index st) div 64 :=
        (w_visited st ! (unat (w_index st) div 64)) OR push_bit (unat (w_index st) mod 64) 1],
      w_segments = w_segments st @ [seg_of d],
      w_readable = (if s_writable (seg_of d) then w_readable st else w_readable st + ucast (d_len d)),
      w_writable = (if s_writable (seg_of d) then w_writable st + ucast (d_len d) else w_writable st)\<rparr>"

lemma walk_body_Inr_iff:
  assumes inv: "walk_inv queue_size st" and small: "unat max_desc \<le> 32768"
  shows "walk_body GM mem table queue_size max_desc limits st = Inr (brk, st') \<longleftrightarrow>
    (\<exists>d. read_descriptor GM mem table (w_index st) = Inr d \<and>
         accepts GM mem queue_size max_desc limits st d \<and>
         brk = (d_flags d AND VIRTQ_DESC_F_NEXT = 0) \<and> st' = walk_next st d)"
proof (cases "length (w_segments st) < unat max_desc")
  case False
  then show ?thesis
    by (auto simp: accepts_def walk_body_def Let_def and_then_Inr_iff split: if_splits)
next
  case True
  define R where "R = seg_bytes (filter (\<lambda>s. \<not> s_writable s) (w_segments st))"
  define W where "W = seg_bytes (filter s_writable (w_segments st))"
  have RW: "R + W = seg_bytes (w_segments st)" unfolding R_def W_def by (rule seg_bytes_split)
  then have bound: "R + W \<le> 32767 * 4294967295"
    using seg_bytes_bound_fixed[of "w_segments st" 32767] True small by simp
  have u: "unat (w_readable st) = R" "unat (w_writable st) = W"
    using inv by (auto simp: walk_inv_def R_def W_def)
  have W0: "0 < w_writable st \<longleftrightarrow> (\<exists>s \<in> set (w_segments st). s_writable s)"
  proof -
    have "W = 0 \<longleftrightarrow> filter s_writable (w_segments st) = []"
      using inv unfolding W_def by (intro seg_bytes_0_iff) (auto simp: walk_inv_def)
    then show ?thesis using u(2) by (auto simp: word_less_nat_alt filter_empty_conv)
  qed
  show ?thesis
  proof (cases "read_descriptor GM mem table (w_index st)")
    case (Inl e)
    then show ?thesis by (auto simp: walk_body_def Let_def and_then_Inr_iff split: if_splits)
  next
    case (Inr d)
    let ?len = "ucast (d_len d) :: u64"
    have len: "unat ?len = unat (d_len d)" "unat (d_len d) < 4294967296"
      by (simp_all add: unat_ucast_up unat_u32_less)
    have sat: "saturating_add (w_writable st) ?len = w_writable st + ?len"
      "saturating_add (w_readable st) ?len = w_readable st + ?len"
      "unat (w_writable st + ?len) = W + unat (d_len d)"
      "unat (w_readable st + ?len) = R + unat (d_len d)"
      using u len bound by (simp_all add: saturating_add_def unat_add_no_overflow)
    have total: "max_bytes limits < saturating_add (w_readable st) (w_writable st + ?len)
        \<longleftrightarrow> \<not> seg_bytes (w_segments st) + unat (d_len d) \<le> unat (max_bytes limits)"
      using u len bound sat RW by (auto simp: word_less_nat_alt unat_saturating_add)
    have total_r: "max_bytes limits < w_readable st + ?len
        \<longleftrightarrow> \<not> seg_bytes (w_segments st) + unat (d_len d) \<le> unat (max_bytes limits)"
      if "\<not> 0 < w_writable st"
      using that u sat RW by (auto simp: word_less_nat_alt)
    have seen: "w_visited st ! (unat (w_index st) div 64) AND 2 ^ (unat (w_index st) mod 64) = 0
        \<longleftrightarrow> \<not> visited_bit (w_visited st) (w_index st)"
      by (simp add: visited_bit_def and_exp_eq_0_iff)
    have over: "checked_add (d_addr d) ?len = None
        \<longleftrightarrow> \<not> unat (d_addr d) + unat (d_len d) < 2 ^ 64"
      using len by (auto simp: checked_add_None_iff)
    show ?thesis
    proof (cases "d_flags d AND VIRTQ_DESC_F_WRITE = 0")
      case True
      then show ?thesis using \<open>length (w_segments st) < unat max_desc\<close> Inr
        by (simp add: walk_body_def Let_def accepts_def walk_next_def desc_ok_def seg_of_def seen over
            sat total_r W0 unat_index_word) auto
    next
      case False
      then show ?thesis using \<open>length (w_segments st) < unat max_desc\<close> Inr
        by (simp add: walk_body_def Let_def accepts_def walk_next_def desc_ok_def seg_of_def seen over
            sat total W0 unat_index_word) auto
    qed
  qed
qed

lemma walk_next_inv:
  assumes inv: "walk_inv queue_size st" and acc: "accepts GM mem queue_size max_desc limits st d"
    and small: "unat max_desc \<le> 32768"
  shows "walk_inv queue_size (walk_next st d)"
    "visited_bit (w_visited (walk_next st d)) j \<longleftrightarrow> visited_bit (w_visited st) j \<or> j = w_index st"
proof -
  let ?len = "ucast (d_len d) :: u64"
  have len: "unat ?len = unat (d_len d)" "unat (d_len d) < 4294967296"
    by (simp_all add: unat_ucast_up unat_u32_less)
  have "length (w_segments st) \<le> 32767" using acc small by (auto simp: accepts_def)
  from seg_bytes_bound_fixed[OF this]
  have "unat (w_readable st) + unat (w_writable st) \<le> 32767 * 4294967295"
    using inv seg_bytes_split[of "w_segments st"] by (simp add: walk_inv_def)
  then have sum: "unat (w_writable st + ?len) = unat (w_writable st) + unat (d_len d)"
      "unat (w_readable st + ?len) = unat (w_readable st) + unat (d_len d)"
    using len by (simp_all add: unat_add_no_overflow)
  show "walk_inv queue_size (walk_next st d)"
    using inv acc sum by (auto simp: walk_inv_def walk_next_def accepts_def seg_of_def desc_ok_def)
  have "unat (w_index st) div 64 < length (w_visited st)"
    using acc inv index_word_in_range[of "w_index st" queue_size "w_visited st"]
    by (simp add: accepts_def walk_inv_def)
  from visited_mark[OF this]
  show "visited_bit (w_visited (walk_next st d)) j \<longleftrightarrow> visited_bit (w_visited st) j \<or> j = w_index st"
    by (simp add: walk_next_def)
qed

lemma readable_first_snoc:
  "readable_first (xs @ [s]) \<longleftrightarrow> readable_first xs \<and> (s_writable s \<or> (\<forall>x \<in> set xs. \<not> s_writable x))"
  by (induction xs) auto

lemma readable_first_appendD:
  "readable_first (xs @ ys) \<Longrightarrow> readable_first xs"
  by (induction xs) (auto split: if_splits)

text \<open>
  The loop from a state in the middle of a walk: the rest of the path \<open>p\<close> must avoid the
  visited indexes and keep the limits together with the segments collected so far.
\<close>

definition wf_rest ::
    "'m guest_memory_ops \<Rightarrow> 'm \<Rightarrow> u16 \<Rightarrow> u16 \<Rightarrow> chain_limits \<Rightarrow> walk_state \<Rightarrow> (u16 \<times> descriptor) list \<Rightarrow> bool"
  where
  "wf_rest GM mem queue_size max_desc limits st p \<longleftrightarrow>
     distinct (map fst p) \<and>
     (\<forall>x \<in> set p. fst x < queue_size \<and> \<not> visited_bit (w_visited st) (fst x) \<and> desc_ok GM mem (snd x)) \<and>
     length (w_segments st) + length p \<le> unat max_desc \<and>
     readable_first (w_segments st @ map (seg_of \<circ> snd) p) \<and>
     seg_bytes (w_segments st) + seg_bytes (map (seg_of \<circ> snd) p) \<le> unat (max_bytes limits)"

lemma seg_of_len [simp]: "s_len (seg_of d) = d_len d"
  by (simp add: seg_of_def)

lemma walk_next_segments [simp]: "w_segments (walk_next st d) = w_segments st @ [seg_of d]"
  "w_index (walk_next st d) = d_next d"
  by (simp_all add: walk_next_def)

lemma wf_rest_Cons:
  assumes "walk_inv queue_size st" "unat max_desc \<le> 32768" "readable_first (w_segments st)"
    and acc: "accepts GM mem queue_size max_desc limits st d"
  shows "wf_rest GM mem queue_size max_desc limits st ((w_index st, d) # p) \<longleftrightarrow>
         w_index st \<notin> fst ` set p \<and> wf_rest GM mem queue_size max_desc limits (walk_next st d) p"
proof -
  note v = walk_next_inv(2)[OF assms(1) acc assms(2)]
  have "\<not> visited_bit (w_visited st) (w_index st)" using acc by (simp add: accepts_def)
  then show ?thesis
    using acc by (auto simp: wf_rest_def v accepts_def image_iff)
qed

lemma wf_rest_accepts:
  assumes "walk_inv queue_size st" "wf_rest GM mem queue_size max_desc limits st ((w_index st, d) # p)"
  shows "accepts GM mem queue_size max_desc limits st d"
proof -
  have "readable_first ((w_segments st @ [seg_of d]) @ map (seg_of \<circ> snd) p)"
    using assms(2) by (simp add: wf_rest_def)
  then have "s_writable (seg_of d) \<or> (\<forall>s \<in> set (w_segments st). \<not> s_writable s)"
    using readable_first_appendD readable_first_snoc by blast
  then show ?thesis using assms(2) by (auto simp: wf_rest_def accepts_def)
qed

lemma walk_loop_Inr_iff:
  "walk_loop GM mem table queue_size max_desc limits st = Inr st' \<longleftrightarrow>
   (\<exists>brk st1. walk_body GM mem table queue_size max_desc limits st = Inr (brk, st1) \<and>
      (if brk then st1 = st' else walk_loop GM mem table queue_size max_desc limits st1 = Inr st'))"
  using walk_loop.simps[of GM mem table queue_size max_desc limits st]
  by (cases "walk_body GM mem table queue_size max_desc limits st") (auto split: prod.splits if_splits)

lemma walk_loop_sound:
  assumes "walk_loop GM mem table queue_size max_desc limits st = Inr st'"
    and "walk_inv queue_size st" "unat max_desc \<le> 32768" "readable_first (w_segments st)"
  shows "walk_inv queue_size st' \<and>
    (\<exists>p. chain_path GM mem table (w_index st) p \<and> wf_rest GM mem queue_size max_desc limits st p \<and>
         w_segments st' = w_segments st @ map (seg_of \<circ> snd) p)"
  using assms
proof (induction GM mem table queue_size max_desc limits st rule: walk_loop.induct)
  case (1 GM mem table queue_size max_desc limits st)
  from iffD1[OF walk_loop_Inr_iff "1.prems"(1)] obtain brk st1 where
    body: "walk_body GM mem table queue_size max_desc limits st = Inr (brk, st1)" and
    rest: "if brk then st1 = st' else walk_loop GM mem table queue_size max_desc limits st1 = Inr st'"
    by (elim exE conjE) (rule that)
  from iffD1[OF walk_body_Inr_iff[OF "1.prems"(2,3)] body] obtain d where d: "read_descriptor GM mem table (w_index st) = Inr d"
    and acc: "accepts GM mem queue_size max_desc limits st d"
    and brk: "brk = (d_flags d AND VIRTQ_DESC_F_NEXT = 0)" and st1: "st1 = walk_next st d"
    by (elim exE conjE) (rule that)
  have inv1: "walk_inv queue_size st1" unfolding st1
    by (rule walk_next_inv(1)[OF "1.prems"(2) acc "1.prems"(3)])
  have first1: "readable_first (w_segments st1)"
    using acc "1.prems"(4) by (auto simp: st1 accepts_def readable_first_snoc)
  note Cons = wf_rest_Cons[OF "1.prems"(2,3,4) acc]
  show ?case
  proof (cases brk)
    case True
    have "wf_rest GM mem queue_size max_desc limits st1 []"
      using first1 acc by (auto simp: wf_rest_def st1 accepts_def)
    then have "wf_rest GM mem queue_size max_desc limits st [(w_index st, d)]"
      using Cons[of "[]"] by (simp add: st1)
    moreover have "chain_path GM mem table (w_index st) [(w_index st, d)]"
      using d brk True by (auto intro: path_last)
    ultimately show ?thesis using True rest inv1
      by (auto simp: st1 intro!: exI[of _ "[(w_index st, d)]"])
  next
    case False
    with rest have "walk_loop GM mem table queue_size max_desc limits st1 = Inr st'" by simp
    from "1.IH"[OF body refl False this inv1 "1.prems"(3) first1] obtain p where
      p: "chain_path GM mem table (w_index st1) p" "wf_rest GM mem queue_size max_desc limits st1 p"
      "w_segments st' = w_segments st1 @ map (seg_of \<circ> snd) p" and inv': "walk_inv queue_size st'"
      by blast
    have "w_index st \<notin> fst ` set p"
      using p(2) walk_next_inv(2)[OF "1.prems"(2) acc "1.prems"(3), of "w_index st"]
      by (auto simp: wf_rest_def st1)
    with p(2) Cons[of p] have "wf_rest GM mem queue_size max_desc limits st ((w_index st, d) # p)"
      by (simp add: st1)
    moreover have "chain_path GM mem table (w_index st) ((w_index st, d) # p)"
      using d brk False p(1) by (auto simp: st1 intro: path_next)
    ultimately show ?thesis using p(3) inv'
      by (auto simp: st1 intro!: exI[of _ "(w_index st, d) # p"])
  qed
qed

lemma walk_loop_complete:
  assumes "chain_path GM mem table i p" "w_index st = i"
    and "walk_inv queue_size st" "unat max_desc \<le> 32768" "readable_first (w_segments st)"
    and "wf_rest GM mem queue_size max_desc limits st p"
  shows "\<exists>st'. walk_loop GM mem table queue_size max_desc limits st = Inr st' \<and>
               walk_inv queue_size st' \<and> w_segments st' = w_segments st @ map (seg_of \<circ> snd) p"
  using assms
proof (induction i p arbitrary: st rule: chain_path.induct)
  case (path_last i d)
  have acc: "accepts GM mem queue_size max_desc limits st d"
    by (rule wf_rest_accepts[of _ _ _ _ _ _ _ "[]"]) (use path_last in simp_all)
  have "walk_body GM mem table queue_size max_desc limits st = Inr (True, walk_next st d)"
    using path_last acc by (simp add: walk_body_Inr_iff[OF path_last(4,5)])
  moreover have "walk_inv queue_size (walk_next st d)"
    using walk_next_inv(1)[OF path_last(4) acc path_last(5)] .
  ultimately show ?case by (auto simp: walk_loop_Inr_iff)
next
  case (path_next i d p)
  have acc: "accepts GM mem queue_size max_desc limits st d"
    by (rule wf_rest_accepts[of _ _ _ _ _ _ _ p]) (use path_next in simp_all)
  have body: "walk_body GM mem table queue_size max_desc limits st = Inr (False, walk_next st d)"
    using path_next acc by (simp add: walk_body_Inr_iff[OF path_next(6,7)])
  have "readable_first (w_segments (walk_next st d))"
    using acc path_next(8) by (auto simp: accepts_def readable_first_snoc)
  moreover have "walk_inv queue_size (walk_next st d)"
    using walk_next_inv(1)[OF path_next(6) acc path_next(7)] .
  moreover have "wf_rest GM mem queue_size max_desc limits (walk_next st d) p"
    using wf_rest_Cons[OF path_next(6,7,8) acc] path_next(5,9) by simp
  ultimately obtain st' where "walk_loop GM mem table queue_size max_desc limits (walk_next st d) = Inr st'"
    "walk_inv queue_size st'" "w_segments st' = w_segments (walk_next st d) @ map (seg_of \<circ> snd) p"
    using path_next.IH[of "walk_next st d"] path_next(7) by auto
  moreover from this(1) body have "walk_loop GM mem table queue_size max_desc limits st = Inr st'"
    by (subst walk_loop_Inr_iff) auto
  ultimately show ?case by auto
qed

lemma walk_inv_initial:
  "walk_inv queue_size \<lparr>w_index = head, w_visited = replicate ((unat queue_size + 63) div 64) 0,
     w_segments = [], w_readable = 0, w_writable = 0\<rparr>"
  by (simp add: walk_inv_def)

lemma walk_inv_chain_of:
  assumes "walk_inv queue_size st" "w_segments st = map (seg_of \<circ> snd) p"
  shows "\<lparr>c_head = head, c_segments = w_segments st, c_readable_len = w_readable st,
          c_writable_len = w_writable st\<rparr> = chain_of p head"
proof -
  from assms(1) have "unat (w_readable st) = seg_bytes (filter (\<lambda>s. \<not> s_writable s) (w_segments st))"
    "unat (w_writable st) = seg_bytes (filter s_writable (w_segments st))"
    by (simp_all add: walk_inv_def)
  from this[THEN arg_cong[where f = "of_nat :: nat \<Rightarrow> u64"]] show ?thesis
    by (simp add: chain_of_def Let_def assms(2))
qed

lemma walk_chain_iff:
  "walk_chain GM mem table queue_size head limits = Inr c \<longleftrightarrow>
     queue_size \<noteq> 0 \<and> queue_size \<le> MAX_QUEUE_SIZE \<and> is_power_of_two queue_size \<and>
     (\<exists>p. chain_path GM mem table head p \<and> wf_path GM mem queue_size limits p \<and> c = chain_of p head)"
  (is "?walk \<longleftrightarrow> ?size \<and> ?path")
proof (cases "queue_size \<noteq> 0 \<and> queue_size \<le> MAX_QUEUE_SIZE \<and> is_power_of_two queue_size")
  case False
  then show ?thesis by (auto simp: walk_chain_def)
next
  case True
  define st0 where "st0 = \<lparr>w_index = head, w_visited = replicate ((unat queue_size + 63) div 64) 0,
     w_segments = [], w_readable = 0, w_writable = 0\<rparr>"
  define max_desc where "max_desc = min (max_descriptors limits) queue_size"
  have small: "unat max_desc \<le> 32768"
    using True by (auto simp: max_desc_def word_le_nat_alt min_def)
  have inv: "walk_inv queue_size st0" unfolding st0_def by (rule walk_inv_initial)
  have st0: "w_segments st0 = []" "w_index st0 = head" "readable_first (w_segments st0)"
    by (simp_all add: st0_def)
  have rest: "wf_rest GM mem queue_size max_desc limits st0 p \<longleftrightarrow> wf_path GM mem queue_size limits p"
    if "\<forall>x \<in> set p. fst x < queue_size" for p
  proof -
    have "\<not> visited_bit (w_visited st0) i" if "i < queue_size" for i
      using index_word_in_range[OF that, of "w_visited st0"]
      by (simp add: st0_def visited_bit_def)
    with that show ?thesis by (auto simp: wf_rest_def wf_path_def max_desc_def st0_def)
  qed
  have walk: "?walk \<longleftrightarrow> (\<exists>st. walk_loop GM mem table queue_size max_desc limits st0 = Inr st \<and>
      c = \<lparr>c_head = head, c_segments = w_segments st, c_readable_len = w_readable st,
           c_writable_len = w_writable st\<rparr>)"
    using True by (auto simp: walk_chain_def and_then_Inr_iff max_desc_def st0_def)
  show ?thesis
  proof
    assume ?walk
    then obtain st where st: "walk_loop GM mem table queue_size max_desc limits st0 = Inr st"
      and c: "c = \<lparr>c_head = head, c_segments = w_segments st, c_readable_len = w_readable st,
           c_writable_len = w_writable st\<rparr>" unfolding walk by blast
    from walk_loop_sound[OF st inv small st0(3)] obtain p where inv': "walk_inv queue_size st"
      and p: "chain_path GM mem table head p" "wf_rest GM mem queue_size max_desc limits st0 p"
      "w_segments st = map (seg_of \<circ> snd) p"
      using st0 by auto
    have "wf_path GM mem queue_size limits p" using rest p(2) by (auto simp: wf_rest_def)
    with p(1) True show "?size \<and> ?path"
      using walk_inv_chain_of[OF inv' p(3)] c by auto
  next
    assume "?size \<and> ?path"
    then obtain p where p: "chain_path GM mem table head p" "wf_path GM mem queue_size limits p"
      and c: "c = chain_of p head" by blast
    have "wf_rest GM mem queue_size max_desc limits st0 p" using rest p(2) by (auto simp: wf_path_def)
    from walk_loop_complete[OF p(1) st0(2) inv small st0(3) this] obtain st where
      st: "walk_loop GM mem table queue_size max_desc limits st0 = Inr st" and
      w: "walk_inv queue_size st" "w_segments st = map (seg_of \<circ> snd) p" using st0 by auto
    show ?walk unfolding walk using st walk_inv_chain_of[OF w, of head] c by auto
  qed
qed

section \<open>What a device may rely on\<close>

text \<open>
  The contract of a popped chain: every segment is a non-empty range that the memory accepts,
  readable segments come first, and the recorded lengths are the sums of the segments.
\<close>

definition chain_wf :: "'m guest_memory_ops \<Rightarrow> 'm \<Rightarrow> descriptor_chain \<Rightarrow> bool" where
  "chain_wf GM mem c \<longleftrightarrow>
     (\<forall>s \<in> set (c_segments c). s_len s \<noteq> 0 \<and> unat (s_addr s) + unat (s_len s) < 2 ^ 64 \<and>
        check_range GM mem (s_addr s) (ucast (s_len s)) = Inr ()) \<and>
     readable_first (c_segments c) \<and>
     unat (c_readable_len c) = seg_bytes (chain_readable c) \<and>
     unat (c_writable_len c) = seg_bytes (chain_writable c)"

lemma walk_chain_InrD:
  assumes "walk_chain GM mem table queue_size head limits = Inr c"
  shows "chain_wf GM mem c" "c_head c = head" "head < queue_size"
    "length (c_segments c) \<le> unat (min (max_descriptors limits) queue_size)"
    "c_segments c \<noteq> []"
    "unat (c_readable_len c) + unat (c_writable_len c) \<le> unat (max_bytes limits)"
proof -
  from assms obtain p where p: "chain_path GM mem table head p" "wf_path GM mem queue_size limits p"
    and c: "c = chain_of p head" unfolding walk_chain_iff by blast
  define segs where "segs = map (seg_of \<circ> snd) p"
  have total: "seg_bytes segs \<le> unat (max_bytes limits)"
    using p(2) by (simp add: wf_path_def segs_def)
  then have lt: "seg_bytes segs < 2 ^ 64" using unat_u64_less[of "max_bytes limits"] by simp
  note sum = seg_bytes_split[of segs]
  have lens: "unat (c_readable_len c) = seg_bytes (chain_readable c)"
    "unat (c_writable_len c) = seg_bytes (chain_writable c)"
    using lt sum
    by (simp_all add: c chain_of_def Let_def chain_readable_def chain_writable_def unat_of_nat
        flip: segs_def)
  have "s_len s \<noteq> 0 \<and> unat (s_addr s) + unat (s_len s) < 2 ^ 64 \<and>
        check_range GM mem (s_addr s) (ucast (s_len s)) = Inr ()" if "s \<in> set segs" for s
    using that p(2) by (auto simp: segs_def wf_path_def desc_ok_def seg_of_def is_ok_iff)
  then show "chain_wf GM mem c"
    using lens p(2) by (simp add: chain_wf_def wf_path_def c chain_of_def Let_def flip: segs_def)
  show "c_head c = head" by (simp add: c chain_of_def Let_def)
  show "length (c_segments c) \<le> unat (min (max_descriptors limits) queue_size)"
    using p(2) by (simp add: c chain_of_def Let_def wf_path_def)
  show "unat (c_readable_len c) + unat (c_writable_len c) \<le> unat (max_bytes limits)"
    using total sum lens by (simp add: chain_readable_def chain_writable_def c chain_of_def Let_def
        flip: segs_def)
  from p(1) have "p \<noteq> [] \<and> fst (hd p) = head" by cases auto
  with p(2) show "c_segments c \<noteq> []" "head < queue_size"
    by (auto simp: c chain_of_def Let_def wf_path_def dest: hd_in_set)
qed

lemma descriptor_roundtrip: "descriptor_from_bytes (descriptor_to_bytes d) = d"
  by (simp add: descriptor_from_bytes_def descriptor_to_bytes_def)

lemma descriptor_bytes_roundtrip:
  assumes "length raw = 16"
  shows "descriptor_to_bytes (descriptor_from_bytes raw) = raw"
proof -
  have "raw = take 8 raw @ take 4 (drop 8 raw) @ take 2 (drop 12 raw) @ take 2 (drop 14 raw)"
    using assms take_add[of 8 8 raw] take_add[of 4 4 "drop 8 raw"] take_add[of 2 2 "drop 12 raw"]
    by simp
  then show ?thesis using assms
    by (simp add: descriptor_from_bytes_def descriptor_to_bytes_def le_bytes_le_word)
qed

section \<open>Properties\<close>

text \<open>
  C4: The walk returns a chain exactly when the queue size is a valid power of two and the
  descriptors that the guest linked from the head form a well-formed path, and then the
  chain is the one that path describes. A walk that returns an error therefore never hides a
  well-formed chain, and the walk always ends.
\<close>

theorem walk_chain_exact:
  "walk_chain GM mem table queue_size head limits = Inr c \<longleftrightarrow>
     queue_size \<noteq> 0 \<and> queue_size \<le> MAX_QUEUE_SIZE \<and> is_power_of_two queue_size \<and>
     (\<exists>p. chain_path GM mem table head p \<and> wf_path GM mem queue_size limits p \<and> c = chain_of p head)"
  by (rule walk_chain_iff)

text \<open>
  C21: The walk ends however the guest linked its descriptors, cycles included: the loop body is
  entered at most once more often than there are descriptors allowed, which is at most the queue
  size and at most the configured limit, before it breaks or fails, and what it ends with is the
  result of the walk.
\<close>

theorem walk_terminates:
  "walk_within (Suc (min (unat (max_descriptors limits)) (unat queue_size))) GM mem table queue_size
     (min (max_descriptors limits) queue_size) limits (walk_start queue_size head) =
   Some (walk_loop GM mem table queue_size (min (max_descriptors limits) queue_size) limits (walk_start queue_size head))"
proof -
  have "unat (min (max_descriptors limits) queue_size) = min (unat (max_descriptors limits)) (unat queue_size)"
    by (simp add: min_def word_le_nat_alt)
  then show ?thesis
    using walk_within_enough[of "walk_start queue_size head" "min (max_descriptors limits) queue_size"]
    by (simp add: walk_start_def)
qed

end
