(* ===== verification/VirtqLayout.thy ===== *)
theory VirtqLayout
  imports VirtqChain
begin

text \<open>
  Split-virtqueue geometry (\<open>soma-kvm/src/virtio/queue/layout.rs\<close>): sz, alignment,
  containment and disjointness of the three rings. \<open>layout_ok\<close> says over natural numbers what
  a validated layout guarantees; \<open>validate\<close> is shown to accept exactly those.
\<close>

section \<open>Data\<close>

abbreviation (input) DESC_ALIGN :: u64 where "DESC_ALIGN \<equiv> 16"
abbreviation (input) AVAIL_ALIGN :: u64 where "AVAIL_ALIGN \<equiv> 2"
abbreviation (input) USED_ALIGN :: u64 where "USED_ALIGN \<equiv> 4"

datatype layout_violation =
    SizeZero
  | SizeNotPowerOfTwo u16
  | SizeExceedsMax u16 u16
  | DescMisaligned
  | AvailMisaligned
  | UsedMisaligned
  | DescOutOfRegion
  | AvailOutOfRegion
  | UsedOutOfRegion
  | RingsOverlap

record queue_layout =
  l_size :: u16
  l_desc :: guest_address
  l_avail :: guest_address
  l_used :: guest_address

definition desc_len :: "queue_layout \<Rightarrow> u64" where
  "desc_len l = ucast (l_size l) * DESCRIPTOR_SIZE"

definition avail_len :: "queue_layout \<Rightarrow> u64" where
  "avail_len l = 6 + 2 * ucast (l_size l)"

definition used_len :: "queue_layout \<Rightarrow> u64" where
  "used_len l = 6 + 8 * ucast (l_size l)"

section \<open>Validation\<close>

definition validate_size :: "u16 \<Rightarrow> u16 \<Rightarrow> layout_violation + u16" where
  "validate_size sz mx =
     (if sz = 0 then Inl SizeZero
      else if \<not> is_power_of_two sz then Inl (SizeNotPowerOfTwo sz)
      else if mx < sz \<or> MAX_QUEUE_SIZE < sz then Inl (SizeExceedsMax sz mx)
      else Inr sz)"

text \<open>The two loops of \<open>validate\<close>: containment of every ring, then the pairs of rings.\<close>

fun check_ranges ::
    "'m guest_memory_ops \<Rightarrow> 'm \<Rightarrow> (guest_address \<times> u64 \<times> layout_violation) list
     \<Rightarrow> layout_violation + unit" where
  "check_ranges GM mem [] = Inr ()"
| "check_ranges GM mem ((start, len, violation) # rest) =
     and_then (map_err (\<lambda>_. violation) (check_range GM mem start len)) (\<lambda>_.
     check_ranges GM mem rest)"

fun check_overlaps ::
    "(guest_address \<times> u64 \<times> layout_violation) list \<Rightarrow> (nat \<times> nat) list \<Rightarrow> layout_violation + unit" where
  "check_overlaps ranges [] = Inr ()"
| "check_overlaps ranges ((first, second) # rest) =
     (let (a, a_len, _) = ranges ! first; (b, b_len, _) = ranges ! second in
      if a < b + b_len \<and> b < a + a_len then Inl RingsOverlap
      else check_overlaps ranges rest)"

definition validate_layout ::
    "'m guest_memory_ops \<Rightarrow> 'm \<Rightarrow> u16 \<Rightarrow> u16 \<Rightarrow> guest_address \<Rightarrow> guest_address \<Rightarrow> guest_address
     \<Rightarrow> layout_violation + queue_layout" where
  "validate_layout GM mem sz mx desc avail used =
     and_then (validate_size sz mx) (\<lambda>sz.
     if \<not> is_aligned desc DESC_ALIGN then Inl DescMisaligned
     else if \<not> is_aligned avail AVAIL_ALIGN then Inl AvailMisaligned
     else if \<not> is_aligned used USED_ALIGN then Inl UsedMisaligned
     else
       let layout = \<lparr>l_size = sz, l_desc = desc, l_avail = avail, l_used = used\<rparr>;
           ranges = [(desc, desc_len layout, DescOutOfRegion),
                     (avail, avail_len layout, AvailOutOfRegion),
                     (used, used_len layout, UsedOutOfRegion)] in
       and_then (check_ranges GM mem ranges) (\<lambda>_.
       and_then (check_overlaps ranges [(0, 1), (0, 2), (1, 2)]) (\<lambda>_.
       Inr layout)))"

section \<open>What a validated layout guarantees\<close>

definition size_ok :: "u16 \<Rightarrow> u16 \<Rightarrow> bool" where
  "size_ok mx sz \<longleftrightarrow> sz \<noteq> 0 \<and> is_power_of_two sz \<and> sz \<le> mx \<and> sz \<le> MAX_QUEUE_SIZE"

definition disjoint_ranges :: "nat \<Rightarrow> nat \<Rightarrow> nat \<Rightarrow> nat \<Rightarrow> bool" where
  "disjoint_ranges a n b m \<longleftrightarrow> a + n \<le> b \<or> b + m \<le> a"

definition layout_ok :: "'m guest_memory_ops \<Rightarrow> 'm \<Rightarrow> u16 \<Rightarrow> queue_layout \<Rightarrow> bool" where
  "layout_ok GM mem mx l \<longleftrightarrow>
     size_ok mx (l_size l) \<and>
     unat (l_desc l) mod 16 = 0 \<and> unat (l_avail l) mod 2 = 0 \<and> unat (l_used l) mod 4 = 0 \<and>
     check_range GM mem (l_desc l) (desc_len l) = Inr () \<and>
     check_range GM mem (l_avail l) (avail_len l) = Inr () \<and>
     check_range GM mem (l_used l) (used_len l) = Inr () \<and>
     disjoint_ranges (unat (l_desc l)) (unat (desc_len l)) (unat (l_avail l)) (unat (avail_len l)) \<and>
     disjoint_ranges (unat (l_desc l)) (unat (desc_len l)) (unat (l_used l)) (unat (used_len l)) \<and>
     disjoint_ranges (unat (l_avail l)) (unat (avail_len l)) (unat (l_used l)) (unat (used_len l))"

lemma validate_size_Inr_iff [simp]:
  "validate_size sz mx = Inr s \<longleftrightarrow> s = sz \<and> size_ok mx sz"
  by (auto simp: validate_size_def size_ok_def)

lemma unat_ring_len:
  "unat (desc_len l) = 16 * unat (l_size l)"
  "unat (avail_len l) = 6 + 2 * unat (l_size l)"
  "unat (used_len l) = 6 + 8 * unat (l_size l)"
  using unat_u16_less[of "l_size l"]
  by (simp_all add: desc_len_def avail_len_def used_len_def unat_word_ariths unat_ucast_up)

lemma is_aligned_iff:
  "is_aligned a 16 \<longleftrightarrow> unat a mod 16 = 0" "is_aligned a 2 \<longleftrightarrow> unat a mod 2 = 0"
  "is_aligned a 4 \<longleftrightarrow> unat a mod 4 = 0"
  by (simp_all add: is_aligned_def flip: unsigned_eq_0_iff[where 'a=nat]) (simp_all add: unat_mod)

lemma check_ranges_Inr_iff:
  "check_ranges GM mem rs = Inr () \<longleftrightarrow> (\<forall>(a, len, v) \<in> set rs. check_range GM mem a len = Inr ())"
  by (induction GM mem rs rule: check_ranges.induct) (auto simp: and_then_Inr_iff)

lemma validate_layout_Inr_iff:
  "validate_layout GM mem sz mx desc avail used = Inr l \<longleftrightarrow>
     l = \<lparr>l_size = sz, l_desc = desc, l_avail = avail, l_used = used\<rparr> \<and> size_ok mx sz \<and>
     is_aligned desc 16 \<and> is_aligned avail 2 \<and> is_aligned used 4 \<and>
     check_range GM mem desc (desc_len l) = Inr () \<and>
     check_range GM mem avail (avail_len l) = Inr () \<and>
     check_range GM mem used (used_len l) = Inr () \<and>
     \<not> (desc < avail + avail_len l \<and> avail < desc + desc_len l) \<and>
     \<not> (desc < used + used_len l \<and> used < desc + desc_len l) \<and>
     \<not> (avail < used + used_len l \<and> used < avail + avail_len l)"
  by (cases "l = \<lparr>l_size = sz, l_desc = desc, l_avail = avail, l_used = used\<rparr>")
     (auto simp: validate_layout_def Let_def and_then_Inr_iff check_ranges_Inr_iff split: if_splits)

lemma overlap_test_iff:
  fixes a b :: u64
  assumes "unat a + unat n < 2 ^ 64" "unat b + unat m < 2 ^ 64"
  shows "\<not> (a < b + m \<and> b < a + n) \<longleftrightarrow> disjoint_ranges (unat a) (unat n) (unat b) (unat m)"
  using assms by (auto simp: disjoint_ranges_def word_less_nat_alt unat_add_no_overflow)

context guest_memory
begin

lemma overlap_checked_iff:
  assumes "valid mem" "check_range GM mem a n = Inr ()" "check_range GM mem b m = Inr ()"
  shows "\<not> (a < b + m \<and> b < a + n) \<longleftrightarrow> disjoint_ranges (unat a) (unat n) (unat b) (unat m)"
  by (rule overlap_test_iff) (use assms range_bound in blast)+

lemma validate_layout_iff:
  assumes "valid mem"
  shows "validate_layout GM mem sz mx desc avail used = Inr l \<longleftrightarrow>
    l = \<lparr>l_size = sz, l_desc = desc, l_avail = avail, l_used = used\<rparr> \<and> layout_ok GM mem mx l"
  unfolding validate_layout_Inr_iff layout_ok_def
  by (simp only: is_aligned_iff overlap_checked_iff[OF assms] queue_layout.simps conj_assoc
      cong: conj_cong)

lemma layout_ring_bound:
  assumes "valid mem" "layout_ok GM mem mx l"
  shows "unat (l_desc l) + 16 * unat (l_size l) < 2 ^ 64"
    "unat (l_avail l) + (6 + 2 * unat (l_size l)) < 2 ^ 64"
    "unat (l_used l) + (6 + 8 * unat (l_size l)) < 2 ^ 64"
  using assms range_bound[OF assms(1)] by (fastforce simp: layout_ok_def unat_ring_len)+

end

lemma layout_ok_check_range_cong:
  "check_range GM mem' = check_range GM mem \<Longrightarrow> layout_ok GM mem' mx l = layout_ok GM mem mx l"
  by (simp add: layout_ok_def)

section \<open>Properties\<close>

text \<open>
  C22: On every guest memory that keeps the trait's contract, a geometry is accepted exactly
  when the size is a power of two within the maximum, the three rings are aligned and wholly
  inside guest memory, and they are pairwise disjoint as sets of addresses; the additions of
  the overlap test never wrap.
\<close>

theorem validate_layout_exact:
  assumes "guest_memory GM valid byte" "valid mem"
  shows "validate_layout GM mem sz mx desc avail used = Inr l \<longleftrightarrow>
    l = \<lparr>l_size = sz, l_desc = desc, l_avail = avail, l_used = used\<rparr> \<and> layout_ok GM mem mx l"
  by (rule guest_memory.validate_layout_iff[OF assms])

theorem validate_layout_exact_witness:
  "validate_layout vec_ops [\<lparr>r_start = 0, r_bytes = replicate 48 0\<rparr>] 1 8 0 16 24 =
     Inr \<lparr>l_size = 1, l_desc = 0, l_avail = 16, l_used = 24\<rparr>"
proof -
  have "layout_ok vec_ops [\<lparr>r_start = 0, r_bytes = replicate 48 0\<rparr>] 8
      \<lparr>l_size = 1, l_desc = 0, l_avail = 16, l_used = 24\<rparr>"
    by (simp add: layout_ok_def size_ok_def disjoint_ranges_def desc_len_def avail_len_def used_len_def
        vec_ops_def vec_check_range_def vec_locate_def checked_add_def region_end_def)
  moreover have "vec_valid [\<lparr>r_start = 0, r_bytes = replicate 48 0\<rparr>]" by (simp add: vec_valid_def)
  ultimately show ?thesis
    using validate_layout_exact[OF vec.guest_memory_axioms] by blast
qed

end
