(* ===== verification/Virtqueue.thy ===== *)
theory Virtqueue
  imports VirtqLayout
begin

text \<open>
  One split virtqueue (\<open>soma-kvm/src/virtio/queue.rs\<close>, \<open>queue/violation.rs\<close> and
  \<open>queue/state.rs\<close>): geometry registers, activation, the two ring cursors, violation counters
  and the snapshot record. A method on \<open>&mut self\<close> returns its result and the queue it left;
  \<open>add_used\<close> also returns the guest memory. \<open>queue_inv\<close> is what every operation keeps, and the
  rings are related to the unbounded sequences of published heads and used elements.
\<close>

section \<open>Violations and counters\<close>

datatype queue_state_error =
    QueueStateLength nat
  | QueueStateInvalidFlag nat
  | QueueStateReservedNonZero nat

datatype queue_violation =
    NotReady
  | AlreadyActivated
  | Layout layout_violation
  | Memory guest_memory_error
  | AvailIndexOverrun u16 u16
  | Chain u16 chain_violation
  | UsedLengthExceedsCapacity u32 u64
  | InvalidState queue_state_error
  | InconsistentState

datatype queue_violation_kind =
    QK_NotReady | QK_AlreadyActivated | QK_Layout | QK_Memory | QK_AvailIndexOverrun | QK_Chain
  | QK_UsedLengthExceedsCapacity | QK_InvalidState | QK_InconsistentState

abbreviation (input) QUEUE_KIND_COUNT :: nat where "QUEUE_KIND_COUNT \<equiv> 9"

primrec queue_kind_index :: "queue_violation_kind \<Rightarrow> nat" where
  "queue_kind_index QK_NotReady = 0"
| "queue_kind_index QK_AlreadyActivated = 1"
| "queue_kind_index QK_Layout = 2"
| "queue_kind_index QK_Memory = 3"
| "queue_kind_index QK_AvailIndexOverrun = 4"
| "queue_kind_index QK_Chain = 5"
| "queue_kind_index QK_UsedLengthExceedsCapacity = 6"
| "queue_kind_index QK_InvalidState = 7"
| "queue_kind_index QK_InconsistentState = 8"

primrec queue_kind :: "queue_violation \<Rightarrow> queue_violation_kind" where
  "queue_kind NotReady = QK_NotReady"
| "queue_kind AlreadyActivated = QK_AlreadyActivated"
| "queue_kind (Layout v) = QK_Layout"
| "queue_kind (Memory e) = QK_Memory"
| "queue_kind (AvailIndexOverrun p s) = QK_AvailIndexOverrun"
| "queue_kind (Chain h v) = QK_Chain"
| "queue_kind (UsedLengthExceedsCapacity n c) = QK_UsedLengthExceedsCapacity"
| "queue_kind (InvalidState e) = QK_InvalidState"
| "queue_kind InconsistentState = QK_InconsistentState"

definition queue_counters_record :: "queue_violation \<Rightarrow> u32 list \<Rightarrow> u32 list" where
  "queue_counters_record v counts =
     (let slot = queue_kind_index (queue_kind v) in
      counts[slot := saturating_add (counts ! slot) 1])"

definition queue_counters_count :: "u32 list \<Rightarrow> queue_violation_kind \<Rightarrow> u32" where
  "queue_counters_count counts kind = counts ! queue_kind_index kind"

definition queue_counters_total :: "u32 list \<Rightarrow> u32" where
  "queue_counters_total counts = foldl saturating_add 0 counts"

section \<open>The queue\<close>

abbreviation (input) VIRTQ_AVAIL_F_NO_INTERRUPT :: u16 where "VIRTQ_AVAIL_F_NO_INTERRUPT \<equiv> 1"

record queue =
  q_max_size :: u16
  q_size :: u16
  q_desc :: guest_address
  q_avail :: guest_address
  q_used :: guest_address
  q_layout :: "queue_layout option"
  q_activated :: bool
  q_next_avail :: u16
  q_next_used :: u16
  q_violations :: "u32 list"

definition queue_new :: "u16 \<Rightarrow> layout_violation + queue" where
  "queue_new max_size =
     and_then (validate_size max_size MAX_QUEUE_SIZE) (\<lambda>_.
     Inr \<lparr>q_max_size = max_size, q_size = max_size, q_desc = 0, q_avail = 0, q_used = 0,
          q_layout = None, q_activated = False, q_next_avail = 0, q_next_used = 0,
          q_violations = replicate QUEUE_KIND_COUNT 0\<rparr>)"

definition is_ready :: "queue \<Rightarrow> bool" where
  "is_ready q \<longleftrightarrow> q_layout q \<noteq> None"

definition queue_record :: "queue_violation \<Rightarrow> queue \<Rightarrow> queue" where
  "queue_record v q = q\<lparr>q_violations := queue_counters_record v (q_violations q)\<rparr>"

text \<open>
  \<open>queue_err\<close> is \<open>Err(self.record(violation))\<close>, and \<open>queue_try\<close> is the idiom
  \<open>result.map_err(|error| self.record(f(error)))?\<close>.
\<close>

definition queue_err :: "queue_violation \<Rightarrow> queue \<Rightarrow> (queue_violation, 'a, queue) mut_result" where
  "queue_err v q = (Inl v, queue_record v q)"

definition queue_try ::
    "('e \<Rightarrow> queue_violation) \<Rightarrow> 'e + 'a \<Rightarrow> queue \<Rightarrow> (queue_violation, 'a, queue) mut_result" where
  "queue_try f r q = (case r of Inl e \<Rightarrow> queue_err (f e) q | Inr x \<Rightarrow> (Inr x, q))"

definition set_size :: "u16 \<Rightarrow> queue \<Rightarrow> (queue_violation, unit, queue) mut_result" where
  "set_size sz q =
     try_then (queue_try Layout (validate_size sz (q_max_size q)) q) (\<lambda>s q.
     (Inr (), q\<lparr>q_size := s\<rparr>))"

definition set_desc_addr :: "u64 \<Rightarrow> queue \<Rightarrow> queue" where
  "set_desc_addr a q = q\<lparr>q_desc := a\<rparr>"

definition set_avail_addr :: "u64 \<Rightarrow> queue \<Rightarrow> queue" where
  "set_avail_addr a q = q\<lparr>q_avail := a\<rparr>"

definition set_used_addr :: "u64 \<Rightarrow> queue \<Rightarrow> queue" where
  "set_used_addr a q = q\<lparr>q_used := a\<rparr>"

definition queue_activate ::
    "'m guest_memory_ops \<Rightarrow> 'm \<Rightarrow> queue \<Rightarrow> (queue_violation, unit, queue) mut_result" where
  "queue_activate GM mem q =
     (if q_activated q then queue_err AlreadyActivated q
      else try_then (queue_try Layout
             (validate_layout GM mem (q_size q) (q_max_size q) (q_desc q) (q_avail q) (q_used q)) q)
           (\<lambda>layout q.
           (Inr (), q\<lparr>q_layout := Some layout, q_activated := True, q_next_avail := 0,
                      q_next_used := 0\<rparr>)))"

definition queue_deactivate :: "queue \<Rightarrow> queue" where
  "queue_deactivate q = q\<lparr>q_layout := None\<rparr>"

definition queue_reset :: "queue \<Rightarrow> queue" where
  "queue_reset q =
     q\<lparr>q_size := q_max_size q, q_desc := 0, q_avail := 0, q_used := 0, q_layout := None,
       q_activated := False, q_next_avail := 0, q_next_used := 0\<rparr>"

definition ring_addr ::
    "guest_address \<Rightarrow> u64 \<Rightarrow> queue \<Rightarrow> (queue_violation, guest_address, queue) mut_result" where
  "ring_addr base offset q =
     queue_try Memory (ok_or (Overflow base offset) (checked_add base offset)) q"

definition ready_layout :: "queue \<Rightarrow> (queue_violation, queue_layout, queue) mut_result" where
  "ready_layout q = queue_try (\<lambda>_. NotReady) (ok_or () (q_layout q)) q"

definition queue_pending ::
    "'m guest_memory_ops \<Rightarrow> 'm \<Rightarrow> queue \<Rightarrow> (queue_violation, u16, queue) mut_result" where
  "queue_pending GM mem q =
     try_then (ready_layout q) (\<lambda>layout q.
     try_then (ring_addr (l_avail layout) 2 q) (\<lambda>idx_addr q.
     try_then (queue_try Memory (read_obj_at GM mem idx_addr) q) (\<lambda>avail_idx q.
     let pending = avail_idx - q_next_avail q in
     if l_size layout < pending then queue_err (AvailIndexOverrun pending (l_size layout)) q
     else (Inr pending, q))))"

definition pop_descriptor_chain ::
    "'m guest_memory_ops \<Rightarrow> 'm \<Rightarrow> chain_limits \<Rightarrow> queue
     \<Rightarrow> (queue_violation, descriptor_chain option, queue) mut_result" where
  "pop_descriptor_chain GM mem limits q =
     try_then (queue_pending GM mem q) (\<lambda>pending q.
     if pending = 0 then (Inr None, q)
     else
       try_then (ready_layout q) (\<lambda>layout q.
       let slot = ucast (q_next_avail q mod l_size layout) in
       try_then (ring_addr (l_avail layout) (4 + 2 * slot) q) (\<lambda>head_addr q.
       try_then (queue_try Memory (read_obj_at GM mem head_addr) q) (\<lambda>head q.
       let q = q\<lparr>q_next_avail := q_next_avail q + 1\<rparr> in
       case walk_chain GM mem (l_desc layout) (l_size layout) head limits of
         Inr chain \<Rightarrow> (Inr (Some chain), q)
       | Inl violation \<Rightarrow> queue_err (Chain head violation) q))))"

text \<open>
  In \<open>add_used\<close> the state is the queue together with the memory; \<open>with_mem\<close> runs a method that
  leaves the memory alone.
\<close>

definition with_mem ::
    "(queue_violation, 'a, queue) mut_result \<Rightarrow> 'm \<Rightarrow> (queue_violation, 'a, queue \<times> 'm) mut_result" where
  "with_mem r mem = (fst r, snd r, mem)"

definition add_used ::
    "'m guest_memory_ops \<Rightarrow> descriptor_chain \<Rightarrow> u32 \<Rightarrow> queue \<times> 'm
     \<Rightarrow> (queue_violation, unit, queue \<times> 'm) mut_result" where
  "add_used GM chain len = (\<lambda>(q, mem).
     try_then (with_mem (ready_layout q) mem) (\<lambda>layout (q, mem).
     if c_writable_len chain < ucast len
     then with_mem (queue_err (UsedLengthExceedsCapacity len (c_writable_len chain)) q) mem
     else
       let slot = ucast (q_next_used q mod l_size layout) in
       try_then (with_mem (ring_addr (l_used layout) (4 + 8 * slot) q) mem) (\<lambda>elem (q, mem).
       try_then (with_mem (ring_addr (l_used layout) 2 q) mem) (\<lambda>idx_addr (q, mem).
       let raw = le_bytes 4 (ucast (c_head chain) :: u32) @ le_bytes 4 len in
       try_then (with_mem (queue_try Memory (write_bytes GM mem elem raw) q) mem) (\<lambda>mem (q, _).
       let q = q\<lparr>q_next_used := q_next_used q + 1\<rparr> in
       try_then (with_mem (queue_try Memory (write_obj_at GM mem idx_addr (q_next_used q)) q) mem)
         (\<lambda>mem (q, _).
       (Inr (), q, mem)))))))"

definition needs_notification ::
    "'m guest_memory_ops \<Rightarrow> 'm \<Rightarrow> queue \<Rightarrow> (queue_violation, bool, queue) mut_result" where
  "needs_notification GM mem q =
     try_then (ready_layout q) (\<lambda>layout q.
     try_then (queue_try Memory (read_obj_at GM mem (l_avail layout)) q) (\<lambda>flags q.
     (Inr ((flags :: u16) AND VIRTQ_AVAIL_F_NO_INTERRUPT = 0), q)))"

section \<open>The snapshot record\<close>

abbreviation (input) QUEUE_STATE_LEN :: nat where "QUEUE_STATE_LEN \<equiv> 32"

record queue_state =
  qs_size :: u16
  qs_ready :: bool
  qs_activated :: bool
  qs_desc :: u64
  qs_avail :: u64
  qs_used :: u64
  qs_next_avail :: u16
  qs_next_used :: u16

definition queue_state_of :: "queue \<Rightarrow> queue_state" where
  "queue_state_of q =
     \<lparr>qs_size = q_size q, qs_ready = (q_layout q \<noteq> None), qs_activated = q_activated q,
      qs_desc = q_desc q, qs_avail = q_avail q, qs_used = q_used q,
      qs_next_avail = q_next_avail q, qs_next_used = q_next_used q\<rparr>"

definition queue_state_to_bytes :: "queue_state \<Rightarrow> u8 list" where
  "queue_state_to_bytes s =
     le_bytes 2 (qs_size s) @ [of_bool (qs_ready s), of_bool (qs_activated s)] @
     le_bytes 8 (qs_desc s) @ le_bytes 8 (qs_avail s) @ le_bytes 8 (qs_used s) @
     le_bytes 2 (qs_next_avail s) @ le_bytes 2 (qs_next_used s)"

definition queue_state_flag :: "u8 list \<Rightarrow> nat \<Rightarrow> queue_state_error + bool" where
  "queue_state_flag raw offset =
     (if raw ! offset = 0 then Inr False
      else if raw ! offset = 1 then Inr True
      else Inl (QueueStateInvalidFlag offset))"

text \<open>\<open>le_u64\<close>: the fold over the reversed bytes.\<close>

definition le_u64 :: "u8 list \<Rightarrow> u64" where
  "le_u64 bytes = foldl (\<lambda>acc byte. push_bit 8 acc OR ucast byte) 0 (rev bytes)"

definition queue_state_from_bytes :: "u8 list \<Rightarrow> queue_state_error + queue_state" where
  "queue_state_from_bytes raw =
     (if length raw \<noteq> QUEUE_STATE_LEN then Inl (QueueStateLength (length raw))
      else
        and_then (queue_state_flag raw 2) (\<lambda>ready.
        and_then (queue_state_flag raw 3) (\<lambda>activated.
        Inr \<lparr>qs_size = le_u16_at raw 0, qs_ready = ready, qs_activated = activated,
             qs_desc = le_u64 (take 8 (drop 4 raw)), qs_avail = le_u64 (take 8 (drop 12 raw)),
             qs_used = le_u64 (take 8 (drop 20 raw)),
             qs_next_avail = le_u16_at raw 28, qs_next_used = le_u16_at raw 30\<rparr>)))"

definition queue_restore ::
    "'m guest_memory_ops \<Rightarrow> 'm \<Rightarrow> u16 \<Rightarrow> queue_state \<Rightarrow> queue_violation + queue" where
  "queue_restore GM mem max_size s =
     and_then (map_err Layout (queue_new max_size)) (\<lambda>q.
     let (r, q) = set_size (qs_size s) q in
     and_then r (\<lambda>_.
     let q = q\<lparr>q_desc := qs_desc s, q_avail := qs_avail s, q_used := qs_used s\<rparr> in
     if qs_ready s \<and> \<not> qs_activated s then Inl InconsistentState
     else if \<not> qs_activated s \<and> (qs_next_avail s \<noteq> 0 \<or> qs_next_used s \<noteq> 0)
     then Inl InconsistentState
     else
       let (r, q) = (if qs_ready s then queue_activate GM mem q else (Inr (), q)) in
       and_then r (\<lambda>_.
       Inr (q\<lparr>q_activated := qs_activated s, q_next_avail := qs_next_avail s,
              q_next_used := qs_next_used s\<rparr>))))"

section \<open>The invariant\<close>

definition queue_inv :: "'m guest_memory_ops \<Rightarrow> 'm \<Rightarrow> queue \<Rightarrow> bool" where
  "queue_inv GM mem q \<longleftrightarrow>
     size_ok MAX_QUEUE_SIZE (q_max_size q) \<and> size_ok (q_max_size q) (q_size q) \<and>
     length (q_violations q) = QUEUE_KIND_COUNT \<and>
     (\<forall>l. q_layout q = Some l \<longrightarrow> q_activated q \<and> layout_ok GM mem (q_max_size q) l) \<and>
     (\<not> q_activated q \<longrightarrow> q_next_avail q = 0 \<and> q_next_used q = 0)"

lemma queue_try_simps [simp, result_simps]:
  "queue_try f (Inl e) q = queue_err (f e) q" "queue_try f (Inr x) q = (Inr x, q)"
  by (simp_all add: queue_try_def)

lemma queue_try_Inr_iff [simp]: "queue_try f r q = (Inr x, q') \<longleftrightarrow> r = Inr x \<and> q' = q"
  by (cases r) (auto simp: queue_err_def)

lemma queue_record_simps [simp]:
  "q_max_size (queue_record v q) = q_max_size q" "q_size (queue_record v q) = q_size q"
  "q_desc (queue_record v q) = q_desc q" "q_avail (queue_record v q) = q_avail q"
  "q_used (queue_record v q) = q_used q" "q_layout (queue_record v q) = q_layout q"
  "q_activated (queue_record v q) = q_activated q"
  "q_next_avail (queue_record v q) = q_next_avail q"
  "q_next_used (queue_record v q) = q_next_used q"
  "length (q_violations (queue_record v q)) = length (q_violations q)"
  by (simp_all add: queue_record_def queue_counters_record_def Let_def)

lemma queue_inv_record [simp]: "queue_inv GM mem (queue_record v q) = queue_inv GM mem q"
  by (simp add: queue_inv_def)

lemma snd_queue_err [simp]: "snd (queue_err v q) = queue_record v q"
  by (simp add: queue_err_def)

lemma queue_try_inv:
  "queue_inv GM mem q \<Longrightarrow> queue_inv GM mem (snd (queue_try f r q))"
  by (cases r) auto

lemma queue_inv_check_range_cong:
  assumes "check_range GM mem' = check_range GM mem"
  shows "queue_inv GM mem' q = queue_inv GM mem q"
  by (simp add: queue_inv_def layout_ok_check_range_cong[OF assms])

lemma queue_new_inv: "queue_new mx = Inr q \<Longrightarrow> queue_inv GM mem q"
  by (auto simp: queue_new_def and_then_Inr_iff queue_inv_def size_ok_def)

lemma set_size_inv: "queue_inv GM mem q \<Longrightarrow> queue_inv GM mem (snd (set_size sz q))"
  unfolding set_size_def
  by (rule try_then_invariant[where P="queue_inv GM mem"]) (erule queue_try_inv, auto simp: queue_inv_def)

lemma set_addr_inv:
  assumes "queue_inv GM mem q"
  shows "queue_inv GM mem (set_desc_addr a q)" "queue_inv GM mem (set_avail_addr a q)"
    "queue_inv GM mem (set_used_addr a q)"
  using assms by (simp_all add: set_desc_addr_def set_avail_addr_def set_used_addr_def queue_inv_def)

lemma queue_deactivate_inv: "queue_inv GM mem q \<Longrightarrow> queue_inv GM mem (queue_deactivate q)"
  by (simp add: queue_deactivate_def queue_inv_def)

lemma queue_reset_inv: "queue_inv GM mem q \<Longrightarrow> queue_inv GM mem (queue_reset q)"
  by (auto simp: queue_reset_def queue_inv_def size_ok_def)

text \<open>Reading the rings leaves everything but the counters and, for a pop, the cursor.\<close>

definition same_config :: "queue \<Rightarrow> queue \<Rightarrow> bool" where
  "same_config q q' \<longleftrightarrow>
     q_max_size q' = q_max_size q \<and> q_size q' = q_size q \<and> q_desc q' = q_desc q \<and>
     q_avail q' = q_avail q \<and> q_used q' = q_used q \<and> q_layout q' = q_layout q \<and>
     q_activated q' = q_activated q \<and> length (q_violations q') = length (q_violations q)"

lemma same_config_refl [simp]: "same_config q q"
  and same_config_record [simp]: "same_config q (queue_record v q') = same_config q q'"
  by (simp_all add: same_config_def)

lemma same_config_trans: "same_config a b \<Longrightarrow> same_config b c \<Longrightarrow> same_config a c"
  by (simp add: same_config_def)

lemma queue_try_same:
  "same_config q (snd (queue_try f r q))" "q_next_avail (snd (queue_try f r q)) = q_next_avail q"
  "q_next_used (snd (queue_try f r q)) = q_next_used q"
  by (cases r; simp)+

lemma ready_layout_Inr_iff [simp]: "ready_layout q = (Inr l, q') \<longleftrightarrow> q_layout q = Some l \<and> q' = q"
  by (simp add: ready_layout_def)

lemma ring_addr_Inr_iff [simp]:
  "ring_addr base offset q = (Inr a, q') \<longleftrightarrow> checked_add base offset = Some a \<and> q' = q"
  by (simp add: ring_addr_def)

lemma ready_layout_same: "same_config q (snd (ready_layout q))"
  by (simp add: ready_layout_def queue_try_same)

lemma ring_addr_same: "same_config q (snd (ring_addr base offset q))"
  by (simp add: ring_addr_def queue_try_same)

lemma queue_pending_same: "same_config q (snd (queue_pending GM mem q))"
  unfolding queue_pending_def
  by (intro try_then_invariant[where P="same_config q"])
     (auto simp: ready_layout_same ring_addr_same queue_try_same Let_def)

lemma queue_pending_Inr_same:
  "queue_pending GM mem q = (Inr n, q') \<Longrightarrow> q' = q"
  by (auto simp: queue_pending_def try_then_Inr_iff Let_def queue_err_def split: if_splits)

lemma pop_same: "same_config q (snd (pop_descriptor_chain GM mem limits q))"
  unfolding pop_descriptor_chain_def
  by (auto simp: queue_pending_same ready_layout_same ring_addr_same queue_try_same Let_def
      dest!: queue_pending_Inr_same intro!: try_then_invariant[where P="same_config q"]
      split: sum.split) (simp_all add: same_config_def)

lemma needs_notification_same: "same_config q (snd (needs_notification GM mem q))"
  unfolding needs_notification_def
  by (intro try_then_invariant[where P="same_config q"])
     (auto simp: ready_layout_same queue_try_same)

lemma queue_inv_same_config:
  assumes "queue_inv GM mem q" "same_config q q'"
    and "q_activated q \<or> q_next_avail q' = q_next_avail q \<and> q_next_used q' = q_next_used q"
  shows "queue_inv GM mem q'"
  using assms by (auto simp: queue_inv_def same_config_def)

lemma not_ready_simps:
  assumes "q_layout q = None"
  shows "queue_pending GM mem q = queue_err NotReady q"
    "pop_descriptor_chain GM mem limits q = queue_err NotReady q"
    "needs_notification GM mem q = queue_err NotReady q"
    "add_used GM chain len (q, mem) = with_mem (queue_err NotReady q) mem"
  using assms
  by (simp_all add: queue_pending_def pop_descriptor_chain_def needs_notification_def add_used_def
      ready_layout_def queue_err_def with_mem_def)

lemma reads_inv:
  assumes "queue_inv GM mem q"
  shows "queue_inv GM mem (snd (queue_pending GM mem' q))"
    "queue_inv GM mem (snd (pop_descriptor_chain GM mem' limits q))"
    "queue_inv GM mem (snd (needs_notification GM mem' q))"
proof -
  have "q_activated q" if "q_layout q \<noteq> None" using assms that by (auto simp: queue_inv_def)
  then show "queue_inv GM mem (snd (queue_pending GM mem' q))"
    "queue_inv GM mem (snd (pop_descriptor_chain GM mem' limits q))"
    "queue_inv GM mem (snd (needs_notification GM mem' q))"
    by (cases "q_layout q"; simp add: not_ready_simps assms
        queue_inv_same_config[OF assms queue_pending_same]
        queue_inv_same_config[OF assms pop_same]
        queue_inv_same_config[OF assms needs_notification_same])+
qed

section \<open>The rings as sequences\<close>

text \<open>
  The driver's free-running counter \<open>k\<close> is a natural number; entry \<open>k\<close> of a ring of \<open>n\<close> slots is in
  slot \<open>k mod n\<close>, and the 16-bit index the rings hold is \<open>k mod 2 ^ 16\<close>. The two agree across the
  wrap-around because the size is a power of two.
\<close>

definition u16_at :: "(nat \<Rightarrow> u8 option) \<Rightarrow> nat \<Rightarrow> u16" where
  "u16_at b x = le_word [the (b x), the (b (Suc x))]"

definition avail_idx :: "(nat \<Rightarrow> u8 option) \<Rightarrow> queue_layout \<Rightarrow> u16" where
  "avail_idx b l = u16_at b (unat (l_avail l) + 2)"

definition avail_head :: "(nat \<Rightarrow> u8 option) \<Rightarrow> queue_layout \<Rightarrow> nat \<Rightarrow> u16" where
  "avail_head b l k = u16_at b (unat (l_avail l) + 4 + 2 * (k mod unat (l_size l)))"

definition used_elem_addr :: "queue_layout \<Rightarrow> nat \<Rightarrow> nat" where
  "used_elem_addr l k = unat (l_used l) + 4 + 8 * (k mod unat (l_size l))"

text \<open>The bytes after entry \<open>k\<close> of the used ring was published: the element and the index.\<close>

definition used_update ::
    "queue_layout \<Rightarrow> nat \<Rightarrow> u16 \<Rightarrow> u32 \<Rightarrow> (nat \<Rightarrow> u8 option) \<Rightarrow> nat \<Rightarrow> u8 option" where
  "used_update l k head len b x =
     (let elem = used_elem_addr l k; idx = unat (l_used l) + 2 in
      if elem \<le> x \<and> x < elem + 8
      then Some ((le_bytes 4 (ucast head :: u32) @ le_bytes 4 len) ! (x - elem))
      else if idx \<le> x \<and> x < idx + 2 then Some (le_bytes 2 (of_nat (k + 1) :: u16) ! (x - idx))
      else b x)"

lemma unat_of_nat_mod_pow2:
  fixes sz :: u16
  assumes "is_power_of_two sz"
  shows "unat (of_nat k mod sz) = k mod unat sz"
proof -
  from assms obtain j where j: "j < 16" "unat sz = 2 ^ j" by (rule is_power_of_twoE) simp
  have "(2 :: nat) ^ j dvd 2 ^ 16" by (rule le_imp_power_dvd) (use j(1) in simp)
  then have "k mod 65536 mod 2 ^ j = k mod 2 ^ j" by (simp add: mod_mod_cancel)
  then show ?thesis by (simp add: unat_mod unat_of_nat j(2))
qed

lemma unat_slot_offset:
  fixes x :: u16
  shows "unat (4 + 2 * ucast x :: u64) = 4 + 2 * unat x"
    "unat (4 + 8 * ucast x :: u64) = 4 + 8 * unat x"
  using unat_u16_less[of x] by (simp_all add: unat_word_ariths unat_ucast_up)

lemma slot_offset:
  fixes sz :: u16
  assumes "size_ok mx sz"
  shows "unat (4 + 2 * ucast (of_nat k mod sz) :: u64) = 4 + 2 * (k mod unat sz)"
    "unat (4 + 8 * ucast (of_nat k mod sz) :: u64) = 4 + 8 * (k mod unat sz)"
    "k mod unat sz < unat sz"
proof -
  from assms have "is_power_of_two sz" "0 < unat sz"
    by (auto simp: size_ok_def unat_gt_0)
  then have m: "unat (of_nat k mod sz) = k mod unat sz" and lt: "k mod unat sz < unat sz"
    by (simp_all add: unat_of_nat_mod_pow2)
  show "unat (4 + 2 * ucast (of_nat k mod sz) :: u64) = 4 + 2 * (k mod unat sz)"
    "unat (4 + 8 * ucast (of_nat k mod sz) :: u64) = 4 + 8 * (k mod unat sz)"
    by (simp_all only: unat_slot_offset m)
  show "k mod unat sz < unat sz" by (rule lt)
qed

context guest_memory
begin

lemma sub_range:
  assumes "valid mem" "check_range GM mem a len = Inr ()" "unat off + k \<le> unat len" "k < 2 ^ 64"
  shows "checked_add a off = Some (a + off)" "unat (a + off) = unat a + unat off"
    "check_range GM mem (a + off) (of_nat k) = Inr ()"
proof -
  have lt: "unat a + unat off < 2 ^ 64" using range_bound[OF assms(1,2)] assms(3) by linarith
  then show "checked_add a off = Some (a + off)" "unat (a + off) = unat a + unat off"
    by (simp_all add: checked_add_def unat_add_no_overflow)
  then show "check_range GM mem (a + off) (of_nat k) = Inr ()"
    using assms range_sub[OF assms(1,2), of "a + off" "of_nat k"] by (simp add: unat_of_nat)
qed

lemma read_u16:
  assumes "valid mem" "check_range GM mem a 2 = Inr ()"
  shows "read_obj_at GM mem a = Inr (u16_at (byte mem) (unat a))"
proof -
  have "[0..<2] = [0, Suc 0]" by (simp add: upt_rec)
  then show ?thesis using read_ok[OF assms(1), of 2 a] assms(2)
    by (simp add: read_obj_at_def u16_at_def)
qed

lemma queue_inv_layout:
  assumes "queue_inv GM mem q" "q_layout q = Some l"
  shows "layout_ok GM mem (q_max_size q) l" "q_activated q" "size_ok (q_max_size q) (l_size l)"
  using assms by (auto simp: queue_inv_def layout_ok_def)

lemma avail_idx_ok:
  assumes "valid mem" "layout_ok GM mem mx l"
  shows "checked_add (l_avail l) 2 = Some (l_avail l + 2)"
    "read_obj_at GM mem (l_avail l + 2) = Inr (avail_idx (byte mem) l)"
proof -
  have c: "check_range GM mem (l_avail l) (avail_len l) = Inr ()" using assms(2) by (simp add: layout_ok_def)
  note r = sub_range[OF assms(1) c, of 2 2, unfolded unat_ring_len, simplified]
  from r show "checked_add (l_avail l) 2 = Some (l_avail l + 2)"
    "read_obj_at GM mem (l_avail l + 2) = Inr (avail_idx (byte mem) l)"
    using read_u16[OF assms(1) r(3)] by (simp_all add: avail_idx_def)
qed

lemma avail_head_ok:
  fixes k :: nat
  assumes "valid mem" "layout_ok GM mem mx l"
  defines "off \<equiv> 4 + 2 * ucast (of_nat k mod l_size l) :: u64"
  shows "checked_add (l_avail l) off = Some (l_avail l + off)"
    "read_obj_at GM mem (l_avail l + off) = Inr (avail_head (byte mem) l k)"
proof -
  have c: "check_range GM mem (l_avail l) (avail_len l) = Inr ()" and s: "size_ok mx (l_size l)"
    using assms(2) by (simp_all add: layout_ok_def)
  have off: "unat off = 4 + 2 * (k mod unat (l_size l))" and "k mod unat (l_size l) < unat (l_size l)"
    using slot_offset[OF s, of k] by (simp_all add: off_def)
  then have "unat off + 2 \<le> unat (avail_len l)" by (simp add: unat_ring_len)
  note r = sub_range[OF assms(1) c this]
  show "checked_add (l_avail l) off = Some (l_avail l + off)" using r(1) by simp
  show "read_obj_at GM mem (l_avail l + off) = Inr (avail_head (byte mem) l k)"
    using r(2,3) read_u16[OF assms(1), of "l_avail l + off"] off
    by (simp add: avail_head_def add.assoc)
qed

lemma queue_pending_ready:
  assumes "valid mem" "queue_inv GM mem q" "q_layout q = Some l"
  shows "queue_pending GM mem q =
    (let pending = avail_idx (byte mem) l - q_next_avail q in
     if l_size l < pending then queue_err (AvailIndexOverrun pending (l_size l)) q
     else (Inr pending, q))"
  using avail_idx_ok[OF assms(1) queue_inv_layout(1)[OF assms(2,3)]] assms(3)
  by (simp add: queue_pending_def ready_layout_def ring_addr_def)

lemma pop_ready:
  assumes "valid mem" "queue_inv GM mem q" "q_layout q = Some l" "q_next_avail q = of_nat k"
  shows "pop_descriptor_chain GM mem limits q =
    (let pending = avail_idx (byte mem) l - q_next_avail q;
         head = avail_head (byte mem) l k;
         q' = q\<lparr>q_next_avail := of_nat (k + 1)\<rparr> in
     if l_size l < pending then queue_err (AvailIndexOverrun pending (l_size l)) q
     else if pending = 0 then (Inr None, q)
     else case walk_chain GM mem (l_desc l) (l_size l) head limits of
            Inr chain \<Rightarrow> (Inr (Some chain), q')
          | Inl violation \<Rightarrow> queue_err (Chain head violation) q')"
  using avail_head_ok[OF assms(1) queue_inv_layout(1)[OF assms(2,3)], of k] assms(3,4)
  by (simp add: pop_descriptor_chain_def queue_pending_ready[OF assms(1-3)] ready_layout_def
      ring_addr_def Let_def queue_err_def add.commute cong: sum.case_cong)

lemma needs_notification_ready:
  assumes "valid mem" "queue_inv GM mem q" "q_layout q = Some l"
  shows "needs_notification GM mem q =
    (Inr (u16_at (byte mem) (unat (l_avail l)) AND VIRTQ_AVAIL_F_NO_INTERRUPT = 0), q)"
proof -
  have "check_range GM mem (l_avail l) (avail_len l) = Inr ()"
    using queue_inv_layout(1)[OF assms(2,3)] by (simp add: layout_ok_def)
  from sub_range(3)[OF assms(1) this, of 0 2] have "check_range GM mem (l_avail l) 2 = Inr ()"
    by (simp add: unat_ring_len)
  from read_u16[OF assms(1) this] show ?thesis
    using assms(3) by (simp add: needs_notification_def ready_layout_def)
qed

lemma used_addr_ok:
  fixes k :: nat
  assumes "valid mem" "layout_ok GM mem mx l"
  defines "off \<equiv> 4 + 8 * ucast (of_nat k mod l_size l) :: u64"
  shows "checked_add (l_used l) off = Some (l_used l + off)"
    "unat (l_used l + off) = used_elem_addr l k"
    "check_range GM mem (l_used l + off) 8 = Inr ()"
    "checked_add (l_used l) 2 = Some (l_used l + 2)"
    "unat (l_used l + 2) = unat (l_used l) + 2"
    "check_range GM mem (l_used l + 2) 2 = Inr ()"
proof -
  have c: "check_range GM mem (l_used l) (used_len l) = Inr ()" and s: "size_ok mx (l_size l)"
    using assms(2) by (simp_all add: layout_ok_def)
  have off: "unat off = 4 + 8 * (k mod unat (l_size l))" and "k mod unat (l_size l) < unat (l_size l)"
    using slot_offset[OF s, of k] by (simp_all add: off_def)
  then have "unat off + 8 \<le> unat (used_len l)" by (simp add: unat_ring_len)
  note r = sub_range[OF assms(1) c this]
  from r off show "checked_add (l_used l) off = Some (l_used l + off)"
    "unat (l_used l + off) = used_elem_addr l k" "check_range GM mem (l_used l + off) 8 = Inr ()"
    by (simp_all add: used_elem_addr_def)
  note r = sub_range[OF assms(1) c, of 2 2, unfolded unat_ring_len, simplified]
  from r show "checked_add (l_used l) 2 = Some (l_used l + 2)"
    "unat (l_used l + 2) = unat (l_used l) + 2" "check_range GM mem (l_used l + 2) 2 = Inr ()"
    by simp_all
qed

lemma add_used_ready:
  assumes "valid mem" "queue_inv GM mem q" "q_layout q = Some l" "q_next_used q = of_nat k"
    and "ucast len \<le> c_writable_len chain"
  obtains mem' where
    "add_used GM chain len (q, mem) = (Inr (), q\<lparr>q_next_used := of_nat (k + 1)\<rparr>, mem')"
    "valid mem'" "check_range GM mem' = check_range GM mem"
    "byte mem' = used_update l k (c_head chain) len (byte mem)"
proof -
  define off where "off = (4 + 8 * ucast (of_nat k mod l_size l) :: u64)"
  define raw where "raw = le_bytes 4 (ucast (c_head chain) :: u32) @ le_bytes 4 len"
  note lay = queue_inv_layout(1)[OF assms(2,3)]
  note a = used_addr_ok(1-3)[OF assms(1) lay, of k, folded off_def] used_addr_ok(4-6)[OF assms(1) lay]
  have raw: "length raw = 8" by (simp add: raw_def)
  obtain m1 where m1: "write_bytes GM mem (l_used l + off) raw = Inr m1"
    using write_ok[OF assms(1), of raw "l_used l + off"] raw a(3) by auto
  note w1 = write_bytes_Inr[OF assms(1) _ m1, unfolded raw, simplified]
  define nx where "nx = (of_nat (k + 1) :: u16)"
  obtain m2 where m2: "write_bytes GM m1 (l_used l + 2) (le_bytes 2 nx) = Inr m2"
    using write_ok[OF w1(1), of "le_bytes 2 nx" "l_used l + 2"] a(6) w1(2) by auto
  note w2 = write_bytes_Inr[OF w1(1) _ m2, simplified]
  have "byte m2 = used_update l k (c_head chain) len (byte mem)"
    by (rule ext) (auto simp: used_update_def w1(3) w2(3) a(2,5) raw_def nx_def used_elem_addr_def)
  moreover have "add_used GM chain len (q, mem) = (Inr (), q\<lparr>q_next_used := nx\<rparr>, m2)"
    using a m1 m2 assms(3-5)
    by (simp add: add_used_def with_mem_def ready_layout_def ring_addr_def not_less[symmetric] Let_def
        write_obj_at_def raw_def nx_def off_def add.commute)
  ultimately show ?thesis using that w1 w2 unfolding nx_def by simp
qed

lemma add_used_too_long:
  assumes "q_layout q = Some l" "c_writable_len chain < ucast len"
  shows "add_used GM chain len (q, mem) =
    with_mem (queue_err (UsedLengthExceedsCapacity len (c_writable_len chain)) q) mem"
  using assms by (simp add: add_used_def with_mem_def ready_layout_def queue_err_def)

lemma add_used_inv:
  assumes "valid mem" "queue_inv GM mem q" "add_used GM chain len (q, mem) = (r, q', mem')"
  shows "valid mem'" "queue_inv GM mem' q'" "check_range GM mem' = check_range GM mem"
    "same_config q q'"
proof -
  have "valid mem' \<and> queue_inv GM mem' q' \<and> check_range GM mem' = check_range GM mem \<and> same_config q q'"
  proof (cases "q_layout q")
    case None
    then show ?thesis using assms by (auto simp: not_ready_simps with_mem_def queue_err_def)
  next
    case (Some l)
    show ?thesis
    proof (cases "c_writable_len chain < ucast len")
      case True
      then show ?thesis using assms Some by (auto simp: add_used_too_long with_mem_def queue_err_def)
    next
      case False
      have "q_next_used q = of_nat (unat (q_next_used q))" by simp
      from add_used_ready[OF assms(1,2) Some this, of len chain] False obtain m where
        m: "add_used GM chain len (q, mem) =
              (Inr (), q\<lparr>q_next_used := of_nat (unat (q_next_used q) + 1)\<rparr>, m)"
        "valid m" "check_range GM m = check_range GM mem" by (auto simp: not_less)
      then show ?thesis using assms(3) queue_inv_layout(2)[OF assms(2) Some]
          queue_inv_check_range_cong[OF m(3)] queue_inv_same_config[OF assms(2), of q']
        by (auto simp: same_config_def)
    qed
  qed
  then show "valid mem'" "queue_inv GM mem' q'" "check_range GM mem' = check_range GM mem"
    "same_config q q'" by auto
qed

lemma queue_activate_inv:
  assumes "valid mem" "queue_inv GM mem q"
  shows "queue_inv GM mem (snd (queue_activate GM mem q))"
proof (cases "q_activated q")
  case False
  then show ?thesis unfolding queue_activate_def
    using assms(2) by (simp, intro try_then_invariant[where P="queue_inv GM mem"])
      (erule queue_try_inv, auto simp: queue_inv_def validate_layout_iff[OF assms(1)])
qed (use assms(2) in \<open>simp add: queue_activate_def\<close>)

end

section \<open>Snapshots\<close>

lemma le_u64_eq_le_word: "le_u64 bs = le_word bs"
  by (induction bs) (simp_all add: le_u64_def or.commute)

lemma queue_state_roundtrip: "queue_state_from_bytes (queue_state_to_bytes s) = Inr s"
proof -
  have len: "length (queue_state_to_bytes s) = 32" by (simp add: queue_state_to_bytes_def)
  show ?thesis
    by (simp add: queue_state_from_bytes_def len le_u16_at_eq)
       (simp add: queue_state_to_bytes_def queue_state_flag_def le_u64_eq_le_word nth_append)
qed

lemma queue_state_flag_Inr_iff:
  "queue_state_flag raw i = Inr f \<longleftrightarrow> raw ! i = of_bool f"
  by (cases f) (auto simp: queue_state_flag_def)

lemma queue_state_bytes_roundtrip:
  assumes "queue_state_from_bytes raw = Inr s"
  shows "queue_state_to_bytes s = raw"
proof -
  from assms have len: "length raw = 32" and
    flags: "raw ! 2 = of_bool (qs_ready s)" "raw ! 3 = of_bool (qs_activated s)" and
    s: "qs_size s = le_word (take 2 (drop 0 raw))" "qs_desc s = le_word (take 8 (drop 4 raw))"
      "qs_avail s = le_word (take 8 (drop 12 raw))" "qs_used s = le_word (take 8 (drop 20 raw))"
      "qs_next_avail s = le_word (take 2 (drop 28 raw))" "qs_next_used s = le_word (take 2 (drop 30 raw))"
    by (auto simp: queue_state_from_bytes_def and_then_Inr_iff queue_state_flag_Inr_iff
        le_u64_eq_le_word le_u16_at_eq split: if_splits)
  have "take 2 (drop 30 raw) = drop 30 raw" using len by simp
  then show ?thesis
    by (simp add: queue_state_to_bytes_def s flags[symmetric] le_bytes_le_word len join_simps
        del: take_drop drop_drop)
qed

text \<open>The geometry registers of a queue or of a state record, as a layout.\<close>

definition state_layout :: "queue_state \<Rightarrow> queue_layout" where
  "state_layout s =
     \<lparr>l_size = qs_size s, l_desc = qs_desc s, l_avail = qs_avail s, l_used = qs_used s\<rparr>"

definition restored_queue :: "u16 \<Rightarrow> queue_state \<Rightarrow> queue" where
  "restored_queue mx s =
     \<lparr>q_max_size = mx, q_size = qs_size s, q_desc = qs_desc s, q_avail = qs_avail s,
      q_used = qs_used s, q_layout = (if qs_ready s then Some (state_layout s) else None),
      q_activated = qs_activated s, q_next_avail = qs_next_avail s, q_next_used = qs_next_used s,
      q_violations = replicate QUEUE_KIND_COUNT 0\<rparr>"

definition state_ok :: "'m guest_memory_ops \<Rightarrow> 'm \<Rightarrow> u16 \<Rightarrow> queue_state \<Rightarrow> bool" where
  "state_ok GM mem mx s \<longleftrightarrow>
     size_ok MAX_QUEUE_SIZE mx \<and> size_ok mx (qs_size s) \<and>
     (qs_ready s \<longrightarrow> qs_activated s \<and> layout_ok GM mem mx (state_layout s)) \<and>
     (\<not> qs_activated s \<longrightarrow> qs_next_avail s = 0 \<and> qs_next_used s = 0)"

lemma queue_new_Inr_iff:
  "queue_new mx = Inr q \<longleftrightarrow> size_ok MAX_QUEUE_SIZE mx \<and>
     q = \<lparr>q_max_size = mx, q_size = mx, q_desc = 0, q_avail = 0, q_used = 0, q_layout = None,
          q_activated = False, q_next_avail = 0, q_next_used = 0, q_violations = replicate 9 0\<rparr>"
  by (auto simp: queue_new_def and_then_Inr_iff)

lemma set_size_Inr_iff:
  "set_size sz q = (Inr u, q') \<longleftrightarrow> size_ok (q_max_size q) sz \<and> q' = q\<lparr>q_size := sz\<rparr>"
  by (auto simp: set_size_def try_then_Inr_iff)

context guest_memory
begin

lemma queue_activate_Inr_iff:
  assumes "valid mem"
  shows "queue_activate GM mem q = (Inr u, q') \<longleftrightarrow>
    \<not> q_activated q \<and> layout_ok GM mem (q_max_size q) (state_layout (queue_state_of q)) \<and>
    q' = q\<lparr>q_layout := Some (state_layout (queue_state_of q)), q_activated := True,
           q_next_avail := 0, q_next_used := 0\<rparr>"
  by (auto simp: queue_activate_def queue_err_def try_then_Inr_iff validate_layout_iff[OF assms]
      state_layout_def queue_state_of_def)

lemma queue_restore_iff:
  assumes "valid mem"
  shows "queue_restore GM mem mx s = Inr q \<longleftrightarrow> state_ok GM mem mx s \<and> q = restored_queue mx s"
proof (cases "size_ok MAX_QUEUE_SIZE mx \<and> size_ok mx (qs_size s)")
  case True
  define q0 where
    "q0 = \<lparr>q_max_size = mx, q_size = mx, q_desc = 0, q_avail = 0, q_used = 0, q_layout = None,
      q_activated = False, q_next_avail = 0, q_next_used = 0, q_violations = replicate 9 0\<rparr>"
  then have q0: "queue_new mx = Inr q0" "q_max_size q0 = mx" "\<not> q_activated q0"
    using True by (simp_all add: queue_new_Inr_iff)
  have s: "set_size (qs_size s) q0 = (Inr (), q0\<lparr>q_size := qs_size s\<rparr>)"
    using True q0 by (simp add: set_size_Inr_iff)
  define q1 where
    "q1 = q0\<lparr>q_size := qs_size s, q_desc := qs_desc s, q_avail := qs_avail s, q_used := qs_used s\<rparr>"
  have lay: "state_layout (queue_state_of q1) = state_layout s" "q_max_size q1 = mx" "\<not> q_activated q1"
    using q0 by (simp_all add: q1_def state_layout_def queue_state_of_def)
  obtain r q2 where act: "queue_activate GM mem q1 = (r, q2)" by fastforce
  show ?thesis
  proof (cases "qs_ready s")
    case ready: True
    show ?thesis
    proof (cases r)
      case (Inl e)
      then have "\<not> layout_ok GM mem mx (state_layout s)"
        using queue_activate_Inr_iff[OF assms, of q1 "()"] lay act by auto
      then show ?thesis using Inl ready True q0 s act
        by (simp add: queue_restore_def Let_def state_ok_def flip: q1_def)
    next
      case (Inr u)
      then have "layout_ok GM mem mx (state_layout s)"
        "q2 = q1\<lparr>q_layout := Some (state_layout s), q_activated := True, q_next_avail := 0, q_next_used := 0\<rparr>"
        using queue_activate_Inr_iff[OF assms, of q1 u] lay act by auto
      then show ?thesis using Inr ready True q0 s act
        by (auto simp: queue_restore_def Let_def state_ok_def restored_queue_def q1_def q0_def)
    qed
  next
    case False
    then show ?thesis using True q0 s
      by (auto simp: queue_restore_def Let_def state_ok_def restored_queue_def q0_def)
  qed
next
  case False
  then show ?thesis
    by (auto simp: queue_restore_def state_ok_def and_then_Inr_iff queue_new_Inr_iff
        set_size_Inr_iff split: prod.splits)
qed

end

section \<open>Reachable queues\<close>

text \<open>
  One step of a queue and the guest memory it works on: an operation of the transport or the
  device, whether it succeeds or fails, or a write by the guest to any of its memory.
\<close>

inductive queue_step :: "'m guest_memory_ops \<Rightarrow> queue \<times> 'm \<Rightarrow> queue \<times> 'm \<Rightarrow> bool" for GM where
  step_set_size: "queue_step GM (q, mem) (snd (set_size sz q), mem)"
| step_set_desc: "queue_step GM (q, mem) (set_desc_addr a q, mem)"
| step_set_avail: "queue_step GM (q, mem) (set_avail_addr a q, mem)"
| step_set_used: "queue_step GM (q, mem) (set_used_addr a q, mem)"
| step_activate: "queue_step GM (q, mem) (snd (queue_activate GM mem q), mem)"
| step_deactivate: "queue_step GM (q, mem) (queue_deactivate q, mem)"
| step_reset: "queue_step GM (q, mem) (queue_reset q, mem)"
| step_pending: "queue_step GM (q, mem) (snd (queue_pending GM mem q), mem)"
| step_pop: "queue_step GM (q, mem) (snd (pop_descriptor_chain GM mem limits q), mem)"
| step_add_used: "queue_step GM (q, mem) (snd (add_used GM chain len (q, mem)))"
| step_needs_notification: "queue_step GM (q, mem) (snd (needs_notification GM mem q), mem)"
| step_guest_write: "\<lbrakk>length bs < 2 ^ 64; write_bytes GM mem a bs = Inr mem'\<rbrakk>
    \<Longrightarrow> queue_step GM (q, mem) (q, mem')"

inductive queue_reach :: "'m guest_memory_ops \<Rightarrow> 'm \<Rightarrow> queue \<times> 'm \<Rightarrow> bool" for GM mem0 where
  reach_new: "queue_new mx = Inr q \<Longrightarrow> queue_reach GM mem0 (q, mem0)"
| reach_restore: "queue_restore GM mem0 mx s = Inr q \<Longrightarrow> queue_reach GM mem0 (q, mem0)"
| reach_step: "\<lbrakk>queue_reach GM mem0 st; queue_step GM st st'\<rbrakk> \<Longrightarrow> queue_reach GM mem0 st'"

context guest_memory
begin

lemma restored_queue_inv: "state_ok GM mem mx s \<Longrightarrow> queue_inv GM mem (restored_queue mx s)"
  by (auto simp: queue_inv_def restored_queue_def state_ok_def)

lemma queue_step_inv:
  assumes "queue_step GM (q, mem) (q', mem')" "valid mem" "queue_inv GM mem q"
  shows "valid mem' \<and> queue_inv GM mem' q' \<and> check_range GM mem' = check_range GM mem"
  using assms(1)
proof cases
  case step_add_used
  then show ?thesis using add_used_inv[OF assms(2,3)] by (metis prod.collapse)
next
  case (step_guest_write bs a)
  then show ?thesis using write_bytes_Inr[OF assms(2)] queue_inv_check_range_cong assms(3) by metis
qed (use assms(2,3) in \<open>simp_all add: set_size_inv set_addr_inv queue_activate_inv
      queue_deactivate_inv queue_reset_inv reads_inv\<close>)

lemma queue_reach_inv:
  "queue_reach GM mem0 st \<Longrightarrow> valid mem0 \<Longrightarrow> valid (snd st) \<and> queue_inv GM (snd st) (fst st)"
proof (induction rule: queue_reach.induct)
  case (reach_step st st')
  then show ?case using queue_step_inv[of "fst st" "snd st" "fst st'" "snd st'"] by simp
qed (auto simp: queue_new_inv queue_restore_iff restored_queue_inv)

end

section \<open>Properties\<close>

text \<open>
  A memory of 48 bytes for the examples: a queue of one descriptor, which describes the eight
  device-writable bytes at 40, the available ring at 16 with that head published, and the used
  ring at 24.
\<close>

definition sample_memory :: vec_guest_memory where
  "sample_memory = [\<lparr>r_start = 0, r_bytes =
     [40, 0, 0, 0, 0, 0, 0, 0, 8, 0, 0, 0, 2, 0, 0, 0] @ [0, 0, 1, 0, 0, 0, 0, 0] @
     replicate 24 0\<rparr>]"

definition sample_layout :: queue_layout where
  "sample_layout = \<lparr>l_size = 1, l_desc = 0, l_avail = 16, l_used = 24\<rparr>"

definition sample_queue :: queue where
  "sample_queue = \<lparr>q_max_size = 1, q_size = 1, q_desc = 0, q_avail = 16, q_used = 24,
     q_layout = Some sample_layout, q_activated = True, q_next_avail = 0, q_next_used = 0,
     q_violations = replicate 9 0\<rparr>"

definition sample_limits :: chain_limits where
  "sample_limits = \<lparr>max_descriptors = 1, max_bytes = 4096\<rparr>"

lemmas sample_eval =
  sample_memory_def sample_layout_def sample_queue_def sample_limits_def vec_ops_def
  vec_check_range_def vec_locate_def checked_add_def region_end_def

lemma sample_valid: "vec_valid sample_memory"
  by (simp add: vec_valid_def sample_memory_def)

lemma sample_sizes: "size_ok 32768 1" "size_ok 1 1"
  by (simp_all add: size_ok_def is_power_of_two_1)

lemma sample_inv: "queue_inv vec_ops sample_memory sample_queue"
proof -
  have "layout_ok vec_ops sample_memory 1 sample_layout"
    by (simp add: layout_ok_def sample_sizes sample_eval disjoint_ranges_def desc_len_def
        avail_len_def used_len_def)
  then show ?thesis by (simp add: queue_inv_def sample_queue_def sample_sizes)
qed

text \<open>
  The heads that the driver has published and the device has not popped, when the device has
  popped \<open>k\<close> heads in all: the available index counts them modulo \<open>2 ^ 16\<close>, and head \<open>i\<close> is in
  slot \<open>i\<close> modulo the size.
\<close>

definition avail_rel :: "(nat \<Rightarrow> u8 option) \<Rightarrow> queue_layout \<Rightarrow> nat \<Rightarrow> u16 list \<Rightarrow> bool" where
  "avail_rel b l k heads \<longleftrightarrow>
     avail_idx b l = of_nat (k + length heads) \<and> length heads \<le> unat (l_size l) \<and>
     heads = map (avail_head b l) [k..<k + length heads]"

text \<open>What a pop makes of a head.\<close>

definition popped ::
    "'m guest_memory_ops \<Rightarrow> 'm \<Rightarrow> queue_layout \<Rightarrow> chain_limits \<Rightarrow> u16
     \<Rightarrow> queue_violation + descriptor_chain option" where
  "popped GM mem l limits head =
     (case walk_chain GM mem (l_desc l) (l_size l) head limits of
        Inr chain \<Rightarrow> Inr (Some chain) | Inl violation \<Rightarrow> Inl (Chain head violation))"

lemma avail_rel_pending:
  assumes "avail_rel b l k heads"
  shows "avail_idx b l - of_nat k = of_nat (length heads)"
    "unat (of_nat (length heads) :: u16) = length heads" "(of_nat (length heads) :: u16) \<le> l_size l"
proof -
  show "avail_idx b l - of_nat k = of_nat (length heads)" using assms by (simp add: avail_rel_def)
  have "length heads < 2 ^ 16" using assms unat_u16_less[of "l_size l"] by (simp add: avail_rel_def)
  then show "unat (of_nat (length heads) :: u16) = length heads" by (simp add: unat_of_nat)
  then show "(of_nat (length heads) :: u16) \<le> l_size l"
    using assms by (simp add: avail_rel_def word_le_nat_alt)
qed

lemma avail_rel_Cons:
  assumes "avail_rel b l k (h # rest)"
  shows "h = avail_head b l k \<and> avail_rel b l (k + 1) rest"
proof -
  have "[k..<k + length (h # rest)] = k # [k + 1..<(k + 1) + length rest]"
    by (subst upt_conv_Cons) simp_all
  moreover have "h # rest = map (avail_head b l) [k..<k + length (h # rest)]"
    using assms by (simp only: avail_rel_def)
  ultimately have "h = avail_head b l k" "rest = map (avail_head b l) [k + 1..<(k + 1) + length rest]"
    by (simp_all only: list.simps)
  then show ?thesis using assms by (simp add: avail_rel_def algebra_simps)
qed

context guest_memory
begin

lemma pop_avail_rel:
  assumes "valid mem" "queue_inv GM mem q" "q_layout q = Some l" "q_next_avail q = of_nat k"
    and "avail_rel (byte mem) l k heads"
  shows "heads = [] \<Longrightarrow> pop_descriptor_chain GM mem limits q = (Inr None, q)"
    "heads = h # rest \<Longrightarrow> \<exists>q'. pop_descriptor_chain GM mem limits q = (popped GM mem l limits h, q') \<and>
       q_next_avail q' = of_nat (k + 1) \<and> q_next_used q' = q_next_used q \<and> same_config q q' \<and>
       avail_rel (byte mem) l (k + 1) rest"
proof -
  note p = avail_rel_pending[OF assms(5)]
  have not_over: "\<not> l_size l < avail_idx (byte mem) l - q_next_avail q"
    using p by (simp add: assms(4) not_less)
  show "pop_descriptor_chain GM mem limits q = (Inr None, q)" if "heads = []"
    using that p not_over by (simp add: pop_ready[OF assms(1-4)] assms(4))
  show "\<exists>q'. pop_descriptor_chain GM mem limits q = (popped GM mem l limits h, q') \<and>
       q_next_avail q' = of_nat (k + 1) \<and> q_next_used q' = q_next_used q \<and> same_config q q' \<and>
       avail_rel (byte mem) l (k + 1) rest" if h: "heads = h # rest"
  proof -
    have "avail_idx (byte mem) l - q_next_avail q \<noteq> 0"
      using p(1,2) h assms(4) by (metis length_0_conv list.discI unat_0)
    then show ?thesis
      using not_over avail_rel_Cons[OF assms(5)[unfolded h]]
      by (auto simp: pop_ready[OF assms(1-4)] Let_def popped_def queue_err_def same_config_def
          split: sum.split)
  qed
qed

lemma ready_never_memory:
  assumes "valid mem" "queue_inv GM mem q" "q_layout q = Some l"
  shows "fst (queue_pending GM mem q) \<noteq> Inl (Memory e)"
    "fst (pop_descriptor_chain GM mem limits q) \<noteq> Inl (Memory e)"
    "fst (needs_notification GM mem q) \<noteq> Inl (Memory e)"
    "fst (add_used GM chain len (q, mem)) \<noteq> Inl (Memory e)"
proof -
  have n: "q_next_avail q = of_nat (unat (q_next_avail q))" "q_next_used q = of_nat (unat (q_next_used q))"
    by simp_all
  show "fst (queue_pending GM mem q) \<noteq> Inl (Memory e)"
    by (simp add: queue_pending_ready[OF assms] Let_def queue_err_def)
  show "fst (pop_descriptor_chain GM mem limits q) \<noteq> Inl (Memory e)"
    by (simp add: pop_ready[OF assms n(1)] Let_def queue_err_def split: sum.split)
  show "fst (needs_notification GM mem q) \<noteq> Inl (Memory e)"
    by (simp add: needs_notification_ready[OF assms])
  show "fst (add_used GM chain len (q, mem)) \<noteq> Inl (Memory e)"
  proof (cases "ucast len \<le> c_writable_len chain")
    case True
    from add_used_ready[OF assms n(2) this] show ?thesis by (metis Inr_not_Inl fst_conv)
  qed (simp add: add_used_too_long[OF assms(3)] with_mem_def queue_err_def)
qed

end

text \<open>
  C5: On every guest memory that keeps the trait's contract, a queue that was created or
  restored and then driven by any sequence of operations and guest writes keeps its
  invariant: sizes are valid, a ready queue has a contained, aligned and disjoint layout, and a
  queue that was never activated has zero cursors.
\<close>

theorem queue_reach_invariant:
  assumes "guest_memory GM valid byte" "valid mem0" "queue_reach GM mem0 (q, mem)"
  shows "valid mem \<and> queue_inv GM mem q"
  using guest_memory.queue_reach_inv[OF assms(1,3,2)] by simp

lemma sample_restore:
  "queue_restore vec_ops sample_memory 1 (queue_state_of sample_queue) = Inr sample_queue"
proof -
  have "state_ok vec_ops sample_memory 1 (queue_state_of sample_queue)"
    using sample_inv
    by (simp add: state_ok_def queue_inv_def queue_state_of_def sample_queue_def state_layout_def
        sample_layout_def)
  then show ?thesis
    by (simp add: vec.queue_restore_iff[OF sample_valid] restored_queue_def queue_state_of_def
        state_layout_def sample_queue_def sample_layout_def)
qed

theorem queue_reach_invariant_witness:
  "let q = snd (pop_descriptor_chain vec_ops sample_memory sample_limits sample_queue) in
   vec_valid sample_memory \<and> queue_inv vec_ops sample_memory q"
  unfolding Let_def
  by (rule queue_reach_invariant[OF vec.guest_memory_axioms sample_valid])
     (rule reach_step[OF reach_restore[OF sample_restore] step_pop])

text \<open>
  C6: Popping refines a first-in first-out queue of heads. When the driver has published
  exactly \<open>heads\<close> beyond the \<open>k\<close> already popped, a pop of an empty queue returns nothing and
  changes nothing, and otherwise the pop takes the first head, returns the chain it starts or
  the violation that chain has, and leaves the remaining heads published, also when the
  16-bit cursor wraps.
\<close>

theorem pop_refines_fifo:
  assumes "guest_memory GM valid byte" "valid mem" "queue_inv GM mem q" "q_layout q = Some l"
    and "q_next_avail q = of_nat k" "avail_rel (byte mem) l k heads"
  shows "case heads of
      [] \<Rightarrow> pop_descriptor_chain GM mem limits q = (Inr None, q)
    | h # rest \<Rightarrow> \<exists>q'. pop_descriptor_chain GM mem limits q = (popped GM mem l limits h, q') \<and>
        q_next_avail q' = of_nat (k + 1) \<and> q_next_used q' = q_next_used q \<and> same_config q q' \<and>
        avail_rel (byte mem) l (k + 1) rest"
proof (cases heads)
  case Nil
  then show ?thesis using guest_memory.pop_avail_rel(1)[OF assms] by simp
next
  case (Cons h rest)
  then show ?thesis using guest_memory.pop_avail_rel(2)[OF assms, of h rest limits] by simp
qed

lemma sample_avail: "avail_rel (vec_byte sample_memory) sample_layout 0 [0]"
  by (simp add: avail_rel_def sample_eval avail_idx_def avail_head_def u16_at_def)

theorem pop_refines_fifo_witness:
  "\<exists>q'. pop_descriptor_chain vec_ops sample_memory sample_limits sample_queue =
      (popped vec_ops sample_memory sample_layout sample_limits 0, q') \<and> q_next_avail q' = 1 \<and>
      avail_rel (vec_byte sample_memory) sample_layout 1 []"
  using pop_refines_fifo[OF vec.guest_memory_axioms sample_valid sample_inv, of sample_layout 0 "[0]"
      sample_limits] sample_avail
  by (auto simp: sample_queue_def)

text \<open>
  C23: Publishing a used chain of \<open>len\<close> bytes that fit its writable capacity succeeds on a
  ready queue. It writes the pair of head and length into slot \<open>k\<close> modulo the size and then
  the index \<open>k + 1\<close>, advances the used cursor by one, and changes no other byte of guest memory
  and nothing else of the queue.
\<close>

theorem add_used_publishes:
  assumes "guest_memory GM valid byte" "valid mem" "queue_inv GM mem q" "q_layout q = Some l"
    and "q_next_used q = of_nat k" "ucast len \<le> c_writable_len chain"
  shows "\<exists>mem'. add_used GM chain len (q, mem) = (Inr (), q\<lparr>q_next_used := of_nat (k + 1)\<rparr>, mem') \<and>
    valid mem' \<and> check_range GM mem' = check_range GM mem \<and>
    byte mem' = used_update l k (c_head chain) len (byte mem)"
  using guest_memory.add_used_ready[OF assms] by metis

theorem add_used_publishes_witness:
  "let chain = \<lparr>c_head = 0, c_segments = [\<lparr>s_addr = 40, s_len = 8, s_writable = True\<rparr>],
       c_readable_len = 0, c_writable_len = 8\<rparr> in
   \<exists>mem'. add_used vec_ops chain 5 (sample_queue, sample_memory) =
            (Inr (), sample_queue\<lparr>q_next_used := 1\<rparr>, mem') \<and>
     vec_byte mem' = used_update sample_layout 0 0 5 (vec_byte sample_memory)"
  using add_used_publishes[OF vec.guest_memory_axioms sample_valid sample_inv, of sample_layout 0 5
      "\<lparr>c_head = 0, c_segments = [\<lparr>s_addr = 40, s_len = 8, s_writable = True\<rparr>],
       c_readable_len = 0, c_writable_len = 8\<rparr>"]
  by (auto simp: sample_queue_def)

text \<open>
  C20: No ring access of a ready queue leaves guest memory: whatever the guest wrote, none of
  the queue operations fails with a memory error.
\<close>

theorem ready_ring_access_in_bounds:
  assumes "guest_memory GM valid byte" "valid mem" "queue_inv GM mem q" "is_ready q"
  shows "fst (queue_pending GM mem q) \<noteq> Inl (Memory e) \<and>
    fst (pop_descriptor_chain GM mem limits q) \<noteq> Inl (Memory e) \<and>
    fst (needs_notification GM mem q) \<noteq> Inl (Memory e) \<and>
    fst (add_used GM chain len (q, mem)) \<noteq> Inl (Memory e)"
proof -
  from assms(4) obtain l where "q_layout q = Some l" by (auto simp: is_ready_def)
  from guest_memory.ready_never_memory[OF assms(1-3) this] show ?thesis by simp
qed

theorem ready_ring_access_in_bounds_witness:
  "is_ready sample_queue \<and>
   fst (pop_descriptor_chain vec_ops sample_memory sample_limits sample_queue) \<noteq> Inl (Memory (Overflow 16 2))"
proof -
  have "is_ready sample_queue" by (simp add: is_ready_def sample_queue_def)
  then show ?thesis
    using ready_ring_access_in_bounds[OF vec.guest_memory_axioms sample_valid sample_inv] by blast
qed

text \<open>
  The 32-byte queue state record is decoded exactly when it is the encoding of a state,
  so encoding and decoding are inverse to each other and no other byte string is accepted.
\<close>

lemma queue_state_codec:
  "queue_state_from_bytes raw = Inr s \<longleftrightarrow> raw = queue_state_to_bytes s"
  using queue_state_roundtrip queue_state_bytes_roundtrip by blast

lemma captured_state_ok:
  assumes "queue_inv GM mem q"
    and "q_layout q = None \<or> q_layout q = Some (state_layout (queue_state_of q))"
  shows "state_ok GM mem (q_max_size q) (queue_state_of q)"
    "restored_queue (q_max_size q) (queue_state_of q) = q\<lparr>q_violations := replicate 9 0\<rparr>"
  using assms
  by (auto simp: state_ok_def restored_queue_def queue_inv_def queue_state_of_def)

text \<open>
  Restoring a captured queue gives the queue back with fresh counters, provided the
  geometry registers still describe the layout that was activated.
\<close>

lemma queue_capture_restore:
  assumes "guest_memory GM valid byte" "valid mem" "queue_inv GM mem q"
    and "q_layout q = None \<or> q_layout q = Some (state_layout (queue_state_of q))"
  shows "queue_restore GM mem (q_max_size q) (queue_state_of q) =
    Inr (q\<lparr>q_violations := replicate 9 0\<rparr>)"
  using captured_state_ok[OF assms(3,4)] by (simp add: guest_memory.queue_restore_iff[OF assms(1,2)])

text \<open>
  A queue state is restored exactly when it is consistent and its geometry is valid for
  the memory and the device maximum. The restored queue then keeps the invariant and captures
  the same state again.
\<close>

lemma queue_restore_exact:
  assumes "guest_memory GM valid byte" "valid mem"
  shows "(queue_restore GM mem mx s = Inr q \<longleftrightarrow> state_ok GM mem mx s \<and> q = restored_queue mx s) \<and>
    (queue_restore GM mem mx s = Inr q \<longrightarrow> queue_inv GM mem q \<and> queue_state_of q = s)"
proof -
  have "queue_state_of (restored_queue mx s) = s" by (simp add: queue_state_of_def restored_queue_def)
  then show ?thesis
    using guest_memory.queue_restore_iff[OF assms] guest_memory.restored_queue_inv[OF assms(1)] by auto
qed

end
