(* ===== verification/DeviceStatus.thy ===== *)
theory DeviceStatus
  imports Prelude
begin

text \<open>
  The device status register and its lifecycle order
  (\<open>soma-kvm/src/virtio/transport/status.rs\<close>). A status is the raw byte of \<open>DeviceStatus\<close>.
  \<open>lifecycle\<close> lists the stages a driver goes through; the register always holds one of them,
  with the two failure bits free.
\<close>

section \<open>The register\<close>

abbreviation (input) STATUS_ACKNOWLEDGE :: u8 where "STATUS_ACKNOWLEDGE \<equiv> 1"
abbreviation (input) STATUS_DRIVER :: u8 where "STATUS_DRIVER \<equiv> 2"
abbreviation (input) STATUS_DRIVER_OK :: u8 where "STATUS_DRIVER_OK \<equiv> 4"
abbreviation (input) STATUS_FEATURES_OK :: u8 where "STATUS_FEATURES_OK \<equiv> 8"
abbreviation (input) STATUS_DEVICE_NEEDS_RESET :: u8 where "STATUS_DEVICE_NEEDS_RESET \<equiv> 64"
abbreviation (input) STATUS_FAILED :: u8 where "STATUS_FAILED \<equiv> 128"

definition KNOWN_BITS :: u8 where
  "KNOWN_BITS = STATUS_ACKNOWLEDGE OR STATUS_DRIVER OR STATUS_DRIVER_OK OR STATUS_FEATURES_OK OR
     STATUS_DEVICE_NEEDS_RESET OR STATUS_FAILED"

definition DRIVER_SETTABLE :: u8 where
  "DRIVER_SETTABLE = STATUS_ACKNOWLEDGE OR STATUS_DRIVER OR STATUS_DRIVER_OK OR STATUS_FEATURES_OK OR
     STATUS_FAILED"

datatype status_violation =
    UnknownBits u64
  | ClearedBits u8 u8
  | MultipleBits u8
  | DriverSetNeedsReset
  | OutOfOrder u8

datatype status_write = StatusReset | StatusUnchanged | StatusSetBit u8

type_synonym device_status = u8

definition has :: "device_status \<Rightarrow> u8 \<Rightarrow> bool" where
  "has s bits \<longleftrightarrow> s AND bits = bits"

definition driver_ok :: "device_status \<Rightarrow> bool" where
  "driver_ok s = has s STATUS_DRIVER_OK"

definition features_ok :: "device_status \<Rightarrow> bool" where
  "features_ok s = has s STATUS_FEATURES_OK"

definition is_failed :: "device_status \<Rightarrow> bool" where
  "is_failed s \<longleftrightarrow> has s STATUS_DEVICE_NEEDS_RESET \<or> has s STATUS_FAILED"

definition status_with :: "device_status \<Rightarrow> u8 \<Rightarrow> device_status" where
  "status_with s bits = s OR bits"

definition prerequisite :: "u8 \<Rightarrow> u8" where
  "prerequisite b =
     (if b = STATUS_DRIVER then STATUS_ACKNOWLEDGE
      else if b = STATUS_FEATURES_OK then STATUS_DRIVER
      else if b = STATUS_DRIVER_OK then STATUS_FEATURES_OK
      else 0)"

text \<open>The loop of \<open>from_bits\<close> over the ordered bits.\<close>

fun check_order :: "device_status \<Rightarrow> u8 list \<Rightarrow> status_violation + device_status" where
  "check_order s [] = Inr s"
| "check_order s (b # bs) =
     (if has s b \<and> \<not> has s (prerequisite b) then Inl (OutOfOrder b) else check_order s bs)"

definition from_bits :: "u8 \<Rightarrow> status_violation + device_status" where
  "from_bits b =
     (if b AND NOT KNOWN_BITS \<noteq> 0 then Inl (UnknownBits (ucast b))
      else check_order b [STATUS_DRIVER_OK, STATUS_FEATURES_OK, STATUS_DRIVER, STATUS_ACKNOWLEDGE])"

definition classify_write :: "device_status \<Rightarrow> u64 \<Rightarrow> status_violation + status_write" where
  "classify_write s v =
     (if v = 0 then Inr StatusReset
      else case (if v < 256 \<and> ucast v AND NOT KNOWN_BITS = 0 then Some (ucast v :: u8) else None) of
        None \<Rightarrow> Inl (UnknownBits v)
      | Some value \<Rightarrow>
          if s AND NOT value \<noteq> 0 then Inl (ClearedBits s value) else
          let new_bits = value AND NOT s in
          if new_bits = 0 then Inr StatusUnchanged
          else if new_bits AND STATUS_DEVICE_NEEDS_RESET \<noteq> 0 then Inl DriverSetNeedsReset
          else if count_ones new_bits \<noteq> 1 \<or> new_bits AND NOT DRIVER_SETTABLE \<noteq> 0
          then Inl (MultipleBits value)
          else if new_bits \<noteq> STATUS_FAILED \<and> \<not> has s (prerequisite new_bits)
          then Inl (OutOfOrder new_bits)
          else Inr (StatusSetBit new_bits))"

section \<open>The lifecycle\<close>

text \<open>
  The driver's stages in order: nothing, acknowledged, driver found, features negotiated,
  driver running. \<open>status_ok\<close> is a stage with any combination of the two failure bits.
\<close>

definition lifecycle :: "u8 list" where
  "lifecycle = [0, 1, 3, 11, 15]"

definition status_ok :: "device_status \<Rightarrow> bool" where
  "status_ok s \<longleftrightarrow> (s AND 63) \<in> set lifecycle"

lemma all_u8: "(\<forall>x :: u8. P x) \<longleftrightarrow> (\<forall>n \<in> set [0..<256]. P (of_nat n))"
proof
  assume h: "\<forall>n \<in> set [0..<256]. P (of_nat n)"
  show "\<forall>x :: u8. P x"
  proof
    fix x :: u8
    have "unat x < 256" using unsigned_less[of x, where 'a=nat] by simp
    with h have "P (of_nat (unat x))" by (metis atLeastLessThan_upt atLeastLessThan_iff zero_le)
    then show "P x" by simp
  qed
qed simp

lemma from_bits_iff: "from_bits b = Inr s \<longleftrightarrow> s = b \<and> status_ok b"
proof -
  have "\<forall>b. (case from_bits b of Inl _ \<Rightarrow> \<not> status_ok b | Inr s \<Rightarrow> s = b \<and> status_ok b)"
    unfolding all_u8 by code_simp
  then show ?thesis by (cases "from_bits b") (auto dest: spec[of _ b])
qed

lemma settable_bits:
  "count_ones b = 1 \<and> b AND NOT DRIVER_SETTABLE = 0 \<longleftrightarrow> b \<in> {1, 2, 4, 8, 128}" for b :: u8
proof
  assume h: "count_ones b = 1 \<and> b AND NOT DRIVER_SETTABLE = 0"
  then have "is_power_of_two b" by (simp add: is_power_of_two_def)
  then obtain k where k: "k < 8" "unat b = 2 ^ k" by (rule is_power_of_twoE) simp
  then have "b = of_nat (2 ^ k)" by (metis of_nat_unat ucast_id)
  moreover from k(1) have "k \<in> {0, 1, 2, 3, 4, 5, 6, 7}" by auto
  ultimately show "b \<in> {1, 2, 4, 8, 128}" using h by (auto simp: DRIVER_SETTABLE_def)
next
  have "count_ones (1 :: u8) = 1" "count_ones (2 :: u8) = 1" "count_ones (4 :: u8) = 1"
    "count_ones (8 :: u8) = 1" "count_ones (128 :: u8) = 1" by code_simp+
  moreover assume "b \<in> {1, 2, 4, 8, 128}"
  ultimately show "count_ones b = 1 \<and> b AND NOT DRIVER_SETTABLE = 0"
    by (auto simp: DRIVER_SETTABLE_def)
qed

lemma known_or: "(s OR b) AND NOT m = 0 \<longleftrightarrow> s AND NOT m = 0 \<and> b AND NOT m = 0" for s b m :: "'a::len word"
  by (auto simp: bit_eq_iff bit_simps)

lemma new_bits_eq: "s AND b = 0 \<Longrightarrow> (s OR b) AND NOT s = b" "s AND NOT (s OR b) = 0" for s b :: "'a::len word"
  by (auto simp: bit_eq_iff bit_simps)

lemma split_new_bits: "s AND NOT x = 0 \<Longrightarrow> s OR (x AND NOT s) = x" "s AND (x AND NOT s) = 0"
  for s x :: "'a::len word"
  by (auto simp: bit_eq_iff bit_simps)

lemma ucast_u8_u64: "(ucast (ucast (x :: u8) :: u64) :: u8) = x" "(ucast x :: u64) < 256"
  "v < 256 \<Longrightarrow> ucast (ucast v :: u8) = (v :: u64)"
proof -
  show "(ucast (ucast x :: u64) :: u8) = x" by (rule bit_word_eqI) (simp add: bit_simps)
  have "unat x < 256" using unsigned_less[of x, where 'a=nat] by simp
  then show "(ucast x :: u64) < 256" by (simp add: word_less_nat_alt unat_ucast_up)
  show "ucast (ucast v :: u8) = v" if "v < 256"
    using that by (intro word_unat_eq_iff[THEN iffD2]) (simp add: word_less_nat_alt unat_ucast_up
        unsigned_ucast_eq unsigned_take_bit_eq take_bit_nat_eq_self)
qed

lemma classify_write_SetBit_iff:
  "classify_write s v = Inr (StatusSetBit b) \<longleftrightarrow>
     v = ucast (s OR b) \<and> s AND b = 0 \<and> b \<in> {1, 2, 4, 8, 128} \<and> s AND NOT KNOWN_BITS = 0 \<and>
     (b = STATUS_FAILED \<or> has s (prerequisite b))" (is "?l \<longleftrightarrow> ?r")
proof
  assume ?l
  then have v: "v \<noteq> 0" "v < 256" "(ucast v :: u8) AND NOT KNOWN_BITS = 0"
    and sub: "s AND NOT (ucast v) = 0" and b: "b = ucast v AND (NOT s)" "count_ones b = 1"
      "b AND NOT DRIVER_SETTABLE = 0" "b = STATUS_FAILED \<or> has s (prerequisite b)"
    by (auto simp: classify_write_def Let_def split: if_splits)
  have "s OR b = ucast v" "s AND b = 0" using split_new_bits[of s "ucast v"] sub b(1) by auto
  moreover have "v = ucast (ucast v :: u8)" using v(2) by (simp add: ucast_u8_u64)
  ultimately show ?r using settable_bits[of b] b v(3) by (metis known_or)
next
  assume r: ?r
  then have b: "count_ones b = 1" "b AND NOT DRIVER_SETTABLE = 0" using settable_bits[of b] by auto
  have "s AND NOT s AND NOT b = 0" by (auto simp: bit_eq_iff bit_simps)
  moreover have "b AND NOT KNOWN_BITS = 0" "b AND 64 = 0" "s OR b \<noteq> 0" "b \<noteq> 0"
    using r by (auto simp: KNOWN_BITS_def or_eq_0_iff)
  moreover from this have "v \<noteq> 0" using r by (metis ucast_u8_u64(1) ucast_0)
  ultimately show ?l using r b
    by (simp add: classify_write_def ucast_u8_u64 known_or new_bits_eq Let_def)
qed

lemma has_single_iff:
  assumes "k < 8" shows "has s (2 ^ k) \<longleftrightarrow> bit s k"
  using assms by (auto simp: has_def bit_eq_iff[of "s AND 2 ^ k"] bit_simps)

lemma status_bit_iff:
  "driver_ok s \<longleftrightarrow> bit s 2" "features_ok s \<longleftrightarrow> bit s 3"
  "has s 1 \<longleftrightarrow> bit s 0" "has s 2 \<longleftrightarrow> bit s 1" "has s 8 \<longleftrightarrow> bit s 3" "has s 64 \<longleftrightarrow> bit s 6"
  using has_single_iff[of 0 s] has_single_iff[of 1 s] has_single_iff[of 2 s] has_single_iff[of 3 s]
    has_single_iff[of 6 s]
  by (simp_all add: driver_ok_def features_ok_def)

lemma has_0 [simp]: "has s 0" by (simp add: has_def)

lemma status_with_bits [simp]:
  "driver_ok (status_with s 64) = driver_ok s" "features_ok (status_with s 64) = features_ok s"
  "driver_ok (status_with s 8) = driver_ok s" "features_ok (status_with s 8)"
  "driver_ok (status_with s 4)" "features_ok (status_with s 4) = features_ok s"
  "driver_ok (status_with s 1) = driver_ok s" "features_ok (status_with s 1) = features_ok s"
  "driver_ok (status_with s 2) = driver_ok s" "features_ok (status_with s 2) = features_ok s"
  "driver_ok (status_with s 128) = driver_ok s" "features_ok (status_with s 128) = features_ok s"
  "driver_ok 0 = False" "features_ok 0 = False"
  by (simp_all add: status_bit_iff status_with_def bit_simps)

text \<open>Reading a stage bit of a status is reading it of its stage.\<close>

lemma stage_bit:
  fixes s :: u8
  assumes "k < 6" shows "bit s k = bit (s AND 63) k"
proof -
  have "(mask 6 :: u8) = 63" by code_simp
  moreover have "bit (mask 6 :: u8) k" using assms by (simp add: bit_mask_iff)
  ultimately have "bit (63 :: u8) k" by metis
  then show ?thesis by (simp add: bit_and_iff)
qed

lemma status_ok_cases:
  assumes "status_ok s"
  obtains "s AND 63 = 0" | "s AND 63 = 1" | "s AND 63 = 3" | "s AND 63 = 11" | "s AND 63 = 15"
  using assms by (auto simp: status_ok_def lifecycle_def)

lemma stage_or: "(s OR b) AND 63 = (s AND 63) OR (b AND 63)" for s b :: u8
  by (rule bit_word_eqI) (auto simp: bit_and_iff bit_or_iff)

text \<open>The next stage, when \<open>b\<close> is the stage bit being set.\<close>

definition next_stage :: "u8 \<Rightarrow> u8 \<Rightarrow> bool" where
  "next_stage s b \<longleftrightarrow> (\<exists>i < 4. s AND 63 = lifecycle ! i \<and> lifecycle ! Suc i = lifecycle ! i + b)"

lemma next_stage_iff:
  "next_stage s b \<longleftrightarrow> (s AND 63, b) \<in> {(0, 1), (1, 2), (3, 8), (11, 4)}"
proof -
  have "(\<exists>i < 4. P i) \<longleftrightarrow> P 0 \<or> P 1 \<or> P 2 \<or> P (3 :: nat)" for P
    by (auto simp: less_Suc_eq numeral_eq_Suc)
  then show ?thesis by (auto simp: next_stage_def lifecycle_def numeral_eq_Suc)
qed

lemma set_bit_next_stage:
  assumes "status_ok s" "b \<in> {1, 2, 4, 8}"
  shows "s AND b = 0 \<and> has s (prerequisite b) \<longleftrightarrow> next_stage s b"
proof -
  have disj: "s AND 2 ^ k = 0 \<longleftrightarrow> \<not> bit s k" if "k < 8" for k
    using that by (auto simp: bit_eq_iff[of "s AND 2 ^ k"] bit_simps)
  note d = disj[of 0] disj[of 1] disj[of 2] disj[of 3]
  note st = stage_bit[of 0 s] stage_bit[of 1 s] stage_bit[of 2 s] stage_bit[of 3 s]
  from assms(1) show ?thesis
    by (rule status_ok_cases; use assms(2) d st in
        \<open>auto simp: next_stage_iff prerequisite_def status_bit_iff bit_simps\<close>)
qed

lemma next_stage_status_ok: "next_stage s b \<Longrightarrow> status_ok (s OR b)"
  by (auto simp: next_stage_iff status_ok_def lifecycle_def stage_or)

lemma status_ok_failure_bits [simp]:
  "status_ok (s OR 64) = status_ok s" "status_ok (s OR 128) = status_ok s"
  by (simp_all add: status_ok_def stage_or)

lemma status_ok_0 [simp]: "status_ok 0"
  by (simp add: status_ok_def lifecycle_def)

lemma status_ok_known: "status_ok s \<Longrightarrow> s AND NOT KNOWN_BITS = 0"
  using from_bits_iff[of s s] by (auto simp: from_bits_def split: if_splits)

lemma status_ok_driver_ok:
  assumes "status_ok s" "driver_ok s"
  shows "features_ok s"
  by (rule status_ok_cases[OF assms(1)]; use assms(2) stage_bit[of 2 s] stage_bit[of 3 s] in
      \<open>simp add: status_bit_iff bit_simps\<close>)

lemma classify_write_lifecycle:
  assumes "status_ok s"
  shows "classify_write s v = Inr (StatusSetBit b) \<longleftrightarrow>
    v = ucast (s OR b) \<and> (b = STATUS_FAILED \<and> s AND b = 0 \<or> next_stage s b)"
proof (cases "b = STATUS_FAILED")
  case True
  have "\<not> next_stage s 128" by (simp add: next_stage_iff)
  then show ?thesis using True by (auto simp: classify_write_SetBit_iff status_ok_known[OF assms])
next
  case False
  have "next_stage s b \<Longrightarrow> b \<in> {1, 2, 4, 8}" by (auto simp: next_stage_iff)
  then show ?thesis using False set_bit_next_stage[OF assms, of b] status_ok_known[OF assms]
    by (auto simp: classify_write_SetBit_iff)
qed

section \<open>Properties\<close>



end
