(* ===== verification/VirtioDevice.thy ===== *)
theory VirtioDevice
  imports Prelude
begin

text \<open>
  The seam between the transport and a device model (\<open>soma-kvm/src/virtio/device.rs\<close>): the
  trait \<open>VirtioDevice\<close> as a record of operations over the device's state, and the contract that
  the transport relies on as the locale \<open>device_model\<close>. Every device of the development
  interprets it.
\<close>

abbreviation (input) VIRTIO_F_VERSION_1 :: u64 where "VIRTIO_F_VERSION_1 \<equiv> 0x100000000"
abbreviation (input) SOMA_VENDOR_ID :: u32 where "SOMA_VENDOR_ID \<equiv> 0x534f4d41"
abbreviation (input) MAX_CONFIG_LEN :: nat where "MAX_CONFIG_LEN \<equiv> 0x1000 - 0x100"
abbreviation (input) MAX_QUEUES :: nat where "MAX_QUEUES \<equiv> 8"

datatype config_access_error = OutOfBounds | ReadOnly | Unaligned

datatype activate_error = UnsupportedFeatures u64 | BackendUnavailable

datatype device_state_error = Malformed | Incompatible

text \<open>
  \<open>read_config\<close> fills a buffer of the given length, which the model returns. Methods on
  \<open>&mut self\<close> return the device they leave.
\<close>

record 'd virtio_device =
  device_id :: "'d \<Rightarrow> u32"
  vendor_id :: "'d \<Rightarrow> u32"
  feature_allowlist :: "'d \<Rightarrow> u64"
  queue_max_sizes :: "'d \<Rightarrow> u16 list"
  config_len :: "'d \<Rightarrow> nat"
  dev_read_config :: "'d \<Rightarrow> nat \<Rightarrow> nat \<Rightarrow> config_access_error + u8 list"
  dev_write_config :: "nat \<Rightarrow> u8 list \<Rightarrow> 'd \<Rightarrow> (config_access_error, unit, 'd) mut_result"
  dev_activate :: "u64 \<Rightarrow> 'd \<Rightarrow> (activate_error, unit, 'd) mut_result"
  dev_reset :: "'d \<Rightarrow> 'd"
  snapshot_state :: "'d \<Rightarrow> u8 list"
  restore_state :: "u8 list \<Rightarrow> 'd \<Rightarrow> (device_state_error, unit, 'd) mut_result"

text \<open>
  The part of a device that the driver negotiates against. The trait fixes it for the
  lifetime of the device.
\<close>

definition device_face :: "'d virtio_device \<Rightarrow> 'd \<Rightarrow> u32 \<times> u64 \<times> u16 list \<times> nat" where
  "device_face VD d = (device_id VD d, feature_allowlist VD d, queue_max_sizes VD d, config_len VD d)"

locale device_model =
  fixes VD :: "'d virtio_device"
  assumes face_write_config: "device_face VD (snd (dev_write_config VD off data d)) = device_face VD d"
    and face_activate: "device_face VD (snd (dev_activate VD f d)) = device_face VD d"
    and face_reset: "device_face VD (dev_reset VD d) = device_face VD d"
    and face_restore: "device_face VD (snd (restore_state VD raw d)) = device_face VD d"
    and read_config_len: "dev_read_config VD d off n = Inr bs \<Longrightarrow> length bs = n"
begin

lemma face_simps [simp]:
  "feature_allowlist VD (snd (dev_write_config VD off data d)) = feature_allowlist VD d"
  "queue_max_sizes VD (snd (dev_write_config VD off data d)) = queue_max_sizes VD d"
  "feature_allowlist VD (snd (dev_activate VD f d)) = feature_allowlist VD d"
  "queue_max_sizes VD (snd (dev_activate VD f d)) = queue_max_sizes VD d"
  "feature_allowlist VD (dev_reset VD d) = feature_allowlist VD d"
  "queue_max_sizes VD (dev_reset VD d) = queue_max_sizes VD d"
  "feature_allowlist VD (snd (restore_state VD raw d)) = feature_allowlist VD d"
  "queue_max_sizes VD (snd (restore_state VD raw d)) = queue_max_sizes VD d"
  using face_write_config[of off data d] face_activate[of f d] face_reset[of d] face_restore[of raw d]
  by (simp_all add: device_face_def)

end

end
