(* ===== verification/MmioTransport.thy ===== *)
theory MmioTransport
  imports Virtqueue DeviceStatus MmioRegisters VirtioDevice
begin

text \<open>
  The virtio-mmio transport (\<open>soma-kvm/src/virtio/transport.rs\<close> and \<open>transport/\<close>): status
  lifecycle, feature negotiation, queue selection and geometry, interrupt status, host-side
  completion, and the snapshot record. The device model is a parameter: a record of the
  operations of the trait \<open>VirtioDevice\<close>. A method on \<open>&mut self\<close> returns the transport it
  leaves, also when it fails.
\<close>

section \<open>Violations and counters\<close>

datatype transport_violation =
    UnknownRegister u64
  | WidthMismatch u64
  | ReadOfWriteOnly u64
  | WriteOfReadOnly u64
  | ConfigurationLocked u64
  | FeaturesRejected u64 bool
  | StatusViolation status_violation
  | QueueSelOutOfRange u32
  | QueueViolation queue_violation
  | NotifyBeforeDriverOk
  | NotifyOutOfRange u64
  | NotifyQueueNotReady u16
  | ConfigOutOfBounds u64
  | ConfigAccess config_access_error
  | InterruptAckUnknownBits u64
  | ActivateViolation activate_error
  | RingResetUnsupported

datatype transport_violation_kind =
    TK_UnknownRegister
  | TK_WidthMismatch
  | TK_ReadOfWriteOnly
  | TK_WriteOfReadOnly
  | TK_ConfigurationLocked
  | TK_FeaturesRejected
  | TK_Status
  | TK_QueueSelOutOfRange
  | TK_Queue
  | TK_NotifyBeforeDriverOk
  | TK_NotifyOutOfRange
  | TK_NotifyQueueNotReady
  | TK_ConfigOutOfBounds
  | TK_ConfigAccess
  | TK_InterruptAckUnknownBits
  | TK_Activate
  | TK_RingResetUnsupported

abbreviation (input) TRANSPORT_KIND_COUNT :: nat where "TRANSPORT_KIND_COUNT \<equiv> 17"

primrec transport_kind_index :: "transport_violation_kind \<Rightarrow> nat" where
  "transport_kind_index TK_UnknownRegister = 0"
| "transport_kind_index TK_WidthMismatch = 1"
| "transport_kind_index TK_ReadOfWriteOnly = 2"
| "transport_kind_index TK_WriteOfReadOnly = 3"
| "transport_kind_index TK_ConfigurationLocked = 4"
| "transport_kind_index TK_FeaturesRejected = 5"
| "transport_kind_index TK_Status = 6"
| "transport_kind_index TK_QueueSelOutOfRange = 7"
| "transport_kind_index TK_Queue = 8"
| "transport_kind_index TK_NotifyBeforeDriverOk = 9"
| "transport_kind_index TK_NotifyOutOfRange = 10"
| "transport_kind_index TK_NotifyQueueNotReady = 11"
| "transport_kind_index TK_ConfigOutOfBounds = 12"
| "transport_kind_index TK_ConfigAccess = 13"
| "transport_kind_index TK_InterruptAckUnknownBits = 14"
| "transport_kind_index TK_Activate = 15"
| "transport_kind_index TK_RingResetUnsupported = 16"

primrec transport_kind :: "transport_violation \<Rightarrow> transport_violation_kind" where
  "transport_kind (UnknownRegister a) = TK_UnknownRegister"
| "transport_kind (WidthMismatch a) = TK_WidthMismatch"
| "transport_kind (ReadOfWriteOnly a) = TK_ReadOfWriteOnly"
| "transport_kind (WriteOfReadOnly a) = TK_WriteOfReadOnly"
| "transport_kind (ConfigurationLocked a) = TK_ConfigurationLocked"
| "transport_kind (FeaturesRejected a b) = TK_FeaturesRejected"
| "transport_kind (StatusViolation a) = TK_Status"
| "transport_kind (QueueSelOutOfRange a) = TK_QueueSelOutOfRange"
| "transport_kind (QueueViolation a) = TK_Queue"
| "transport_kind NotifyBeforeDriverOk = TK_NotifyBeforeDriverOk"
| "transport_kind (NotifyOutOfRange a) = TK_NotifyOutOfRange"
| "transport_kind (NotifyQueueNotReady a) = TK_NotifyQueueNotReady"
| "transport_kind (ConfigOutOfBounds a) = TK_ConfigOutOfBounds"
| "transport_kind (ConfigAccess a) = TK_ConfigAccess"
| "transport_kind (InterruptAckUnknownBits a) = TK_InterruptAckUnknownBits"
| "transport_kind (ActivateViolation a) = TK_Activate"
| "transport_kind RingResetUnsupported = TK_RingResetUnsupported"

definition transport_counters_record :: "transport_violation \<Rightarrow> u32 list \<Rightarrow> u32 list" where
  "transport_counters_record v counts =
     (let slot = transport_kind_index (transport_kind v) in
      counts[slot := saturating_add (counts ! slot) 1])"

definition transport_counters_count :: "u32 list \<Rightarrow> transport_violation_kind \<Rightarrow> u32" where
  "transport_counters_count counts kind = counts ! transport_kind_index kind"

definition transport_counters_total :: "u32 list \<Rightarrow> u32" where
  "transport_counters_total counts = foldl saturating_add 0 counts"

section \<open>The transport\<close>

abbreviation (input) INTERRUPT_USED_BUFFER :: u32 where "INTERRUPT_USED_BUFFER \<equiv> 1"
abbreviation (input) INTERRUPT_CONFIG_CHANGE :: u32 where "INTERRUPT_CONFIG_CHANGE \<equiv> 2"

definition INTERRUPT_KNOWN :: u32 where
  "INTERRUPT_KNOWN = INTERRUPT_USED_BUFFER OR INTERRUPT_CONFIG_CHANGE"

datatype transport_event =
    EventNone
  | QueueNotify u16
  | DriverOk
  | EventReset
  | ConfigWritten u64 nat

datatype transport_config_error =
    MissingVersion1
  | QueueCount nat
  | QueueMax nat layout_violation
  | ConfigTooLarge nat

record 'd mmio_transport =
  t_device :: 'd
  t_queues :: "queue list"
  t_status :: device_status
  t_device_features_sel :: u32
  t_driver_features_sel :: u32
  t_driver_features :: u64
  t_queue_sel :: u32
  t_interrupt_status :: u32
  t_config_generation :: u32
  t_violations :: "u32 list"

text \<open>The loop of \<open>new\<close> over the queue maxima.\<close>

fun new_queues :: "nat \<Rightarrow> u16 list \<Rightarrow> transport_config_error + queue list" where
  "new_queues index [] = Inr []"
| "new_queues index (mx # rest) =
     and_then (map_err (QueueMax index) (queue_new mx)) (\<lambda>q.
     and_then (new_queues (Suc index) rest) (\<lambda>qs. Inr (q # qs)))"

definition transport_new :: "'d virtio_device \<Rightarrow> 'd \<Rightarrow> transport_config_error + 'd mmio_transport" where
  "transport_new VD d =
     (if feature_allowlist VD d AND VIRTIO_F_VERSION_1 = 0 then Inl MissingVersion1
      else
        let maxes = queue_max_sizes VD d in
        if maxes = [] \<or> MAX_QUEUES < length maxes then Inl (QueueCount (length maxes))
        else if MAX_CONFIG_LEN < config_len VD d then Inl (ConfigTooLarge (config_len VD d))
        else and_then (new_queues 0 maxes) (\<lambda>queues.
             Inr \<lparr>t_device = d, t_queues = queues, t_status = 0, t_device_features_sel = 0,
                  t_driver_features_sel = 0, t_driver_features = 0, t_queue_sel = 0,
                  t_interrupt_status = 0, t_config_generation = 0,
                  t_violations = replicate TRANSPORT_KIND_COUNT 0\<rparr>))"

definition transport_record :: "transport_violation \<Rightarrow> 'd mmio_transport \<Rightarrow> 'd mmio_transport" where
  "transport_record v t = t\<lparr>t_violations := transport_counters_record v (t_violations t)\<rparr>"

text \<open>\<open>Err(self.record(violation))\<close>, and \<open>result.map_err(|error| self.record(f(error)))?\<close>.\<close>

definition transport_err ::
    "transport_violation \<Rightarrow> 'd mmio_transport \<Rightarrow> (transport_violation, 'a, 'd mmio_transport) mut_result" where
  "transport_err v t = (Inl v, transport_record v t)"

definition transport_try ::
    "('e \<Rightarrow> transport_violation) \<Rightarrow> 'e + 'a \<Rightarrow> 'd mmio_transport
     \<Rightarrow> (transport_violation, 'a, 'd mmio_transport) mut_result" where
  "transport_try f r t = (case r of Inl e \<Rightarrow> transport_err (f e) t | Inr x \<Rightarrow> (Inr x, t))"

definition is_active :: "'d mmio_transport \<Rightarrow> bool" where
  "is_active t \<longleftrightarrow> driver_ok (t_status t) \<and> \<not> is_failed (t_status t)"

definition selected_queue :: "'d mmio_transport \<Rightarrow> queue option" where
  "selected_queue t =
     (let index = unat (t_queue_sel t) in
      if index < length (t_queues t) then Some (t_queues t ! index) else None)"

definition config_range ::
    "'d virtio_device \<Rightarrow> u64 \<Rightarrow> nat \<Rightarrow> 'd mmio_transport
     \<Rightarrow> (transport_violation, nat, 'd mmio_transport) mut_result" where
  "config_range VD offset len t =
     (let start = unat offset in
      if start + len < 2 ^ 64 \<and> start + len \<le> config_len VD (t_device t) then (Inr start, t)
      else transport_err (ConfigOutOfBounds offset) t)"

definition transport_reset_all :: "'d virtio_device \<Rightarrow> 'd mmio_transport \<Rightarrow> 'd mmio_transport" where
  "transport_reset_all VD t =
     t\<lparr>t_device := dev_reset VD (t_device t), t_queues := map queue_reset (t_queues t),
       t_status := 0, t_device_features_sel := 0, t_driver_features_sel := 0,
       t_driver_features := 0, t_queue_sel := 0, t_interrupt_status := 0\<rparr>"

section \<open>Reads\<close>

definition device_features_word :: "'d virtio_device \<Rightarrow> 'd mmio_transport \<Rightarrow> u32" where
  "device_features_word VD t =
     (let allowlist = feature_allowlist VD (t_device t) in
      if t_device_features_sel t = 0 then ucast (allowlist AND 0xffffffff)
      else if t_device_features_sel t = 1 then ucast (drop_bit 32 allowlist)
      else 0)"

definition transport_read_config ::
    "'d virtio_device \<Rightarrow> u64 \<Rightarrow> access_width \<Rightarrow> 'd mmio_transport
     \<Rightarrow> (transport_violation, u64, 'd mmio_transport) mut_result" where
  "transport_read_config VD offset width t =
     try_then (config_range VD offset (access_bytes width) t) (\<lambda>start t.
     try_then (transport_try ConfigAccess
                (dev_read_config VD (t_device t) start (access_bytes width)) t) (\<lambda>buf t.
     (Inr (le_word (buf @ replicate (8 - length buf) 0)), t)))"

text \<open>The test \<open>if let Register::Config(config_offset) = register\<close>.\<close>

definition config_register :: "register \<Rightarrow> u64 option" where
  "config_register r = (case r of RegConfig config_offset \<Rightarrow> Some config_offset | _ \<Rightarrow> None)"

text \<open>The registers a driver may read; \<open>None\<close> is the source's catch-all arm.\<close>

definition register_value :: "'d virtio_device \<Rightarrow> register \<Rightarrow> 'd mmio_transport \<Rightarrow> u32 option" where
  "register_value VD r t =
     (case r of
        RegMagicValue \<Rightarrow> Some MAGIC_VALUE
      | RegVersion \<Rightarrow> Some MMIO_VERSION
      | RegDeviceId \<Rightarrow> Some (device_id VD (t_device t))
      | RegVendorId \<Rightarrow> Some (vendor_id VD (t_device t))
      | RegDeviceFeatures \<Rightarrow> Some (device_features_word VD t)
      | RegQueueNumMax \<Rightarrow>
          Some (case selected_queue t of None \<Rightarrow> 0 | Some q \<Rightarrow> ucast (q_max_size q))
      | RegQueueReady \<Rightarrow>
          Some (case selected_queue t of None \<Rightarrow> 0 | Some q \<Rightarrow> of_bool (is_ready q))
      | RegInterruptStatus \<Rightarrow> Some (t_interrupt_status t)
      | RegStatus \<Rightarrow> Some (ucast (t_status t))
      | RegShmLenLow \<Rightarrow> Some (- 1)
      | RegShmLenHigh \<Rightarrow> Some (- 1)
      | RegShmBaseLow \<Rightarrow> Some (- 1)
      | RegShmBaseHigh \<Rightarrow> Some (- 1)
      | RegQueueReset \<Rightarrow> Some 0
      | RegConfigGeneration \<Rightarrow> Some (t_config_generation t)
      | _ \<Rightarrow> None)"

definition transport_read ::
    "'d virtio_device \<Rightarrow> u64 \<Rightarrow> access_width \<Rightarrow> 'd mmio_transport
     \<Rightarrow> (transport_violation, u64, 'd mmio_transport) mut_result" where
  "transport_read VD offset width t =
     (case decode offset of
        None \<Rightarrow> (Inl (UnknownRegister offset), t)
      | Some register \<Rightarrow>
          case config_register register of
            Some config_offset \<Rightarrow> transport_read_config VD config_offset width t
          | None \<Rightarrow>
          if width \<noteq> W32 then transport_err (WidthMismatch offset) t
          else case register_value VD register t of
            None \<Rightarrow> transport_err (ReadOfWriteOnly offset) t
          | Some value \<Rightarrow> (Inr (ucast value), t))"

section \<open>Writes\<close>

definition low :: "u64 \<Rightarrow> u32 \<Rightarrow> u64" where
  "low current word = (current AND NOT 0xffffffff) OR ucast word"

definition high :: "u64 \<Rightarrow> u32 \<Rightarrow> u64" where
  "high current word = (current AND 0xffffffff) OR push_bit 32 (ucast word)"

definition write_driver_features ::
    "u64 \<Rightarrow> u32 \<Rightarrow> 'd mmio_transport \<Rightarrow> (transport_violation, unit, 'd mmio_transport) mut_result" where
  "write_driver_features offset word t =
     (if features_ok (t_status t) then transport_err (ConfigurationLocked offset) t
      else if t_driver_features_sel t = 0
      then (Inr (), t\<lparr>t_driver_features := (t_driver_features t AND NOT 0xffffffff) OR ucast word\<rparr>)
      else if t_driver_features_sel t = 1
      then (Inr (), t\<lparr>t_driver_features :=
              (t_driver_features t AND 0xffffffff) OR push_bit 32 (ucast word)\<rparr>)
      else (Inr (), t))"

definition with_selected_queue ::
    "u64 \<Rightarrow> (queue \<Rightarrow> (transport_violation, unit, queue) mut_result) \<Rightarrow> 'd mmio_transport
     \<Rightarrow> (transport_violation, unit, 'd mmio_transport) mut_result" where
  "with_selected_queue offset apply_queue t =
     (if driver_ok (t_status t) then transport_err (ConfigurationLocked offset) t
      else
        let sel = t_queue_sel t; index = unat sel in
        if \<not> index < length (t_queues t) then transport_err (QueueSelOutOfRange sel) t
        else
          let (r, q) = apply_queue (t_queues t ! index) in
          transport_try id r (t\<lparr>t_queues := (t_queues t)[index := q]\<rparr>))"

definition queue_result ::
    "(queue_violation, unit, queue) mut_result \<Rightarrow> (transport_violation, unit, queue) mut_result" where
  "queue_result r = (map_err QueueViolation (fst r), snd r)"

definition write_queue_ready ::
    "'m guest_memory_ops \<Rightarrow> u64 \<Rightarrow> u32 \<Rightarrow> 'm \<Rightarrow> 'd mmio_transport
     \<Rightarrow> (transport_violation, transport_event, 'd mmio_transport) mut_result" where
  "write_queue_ready GM offset word mem t =
     (if word = 0 then
        try_then (with_selected_queue offset (\<lambda>q. (Inr (), queue_deactivate q)) t) (\<lambda>_ t.
        (Inr EventNone, t))
      else if \<not> features_ok (t_status t) then transport_err (ConfigurationLocked offset) t
      else
        try_then (with_selected_queue offset (\<lambda>q. queue_result (queue_activate GM mem q)) t) (\<lambda>_ t.
        (Inr EventNone, t)))"

definition write_queue_notify ::
    "u64 \<Rightarrow> 'd mmio_transport \<Rightarrow> (transport_violation, transport_event, 'd mmio_transport) mut_result" where
  "write_queue_notify v t =
     (if \<not> is_active t then transport_err NotifyBeforeDriverOk t
      else if \<not> (v < 65536 \<and> unat v < length (t_queues t)) then transport_err (NotifyOutOfRange v) t
      else
        let index = ucast v :: u16 in
        if \<not> is_ready (t_queues t ! unat index) then transport_err (NotifyQueueNotReady index) t
        else (Inr (QueueNotify index), t))"

definition write_interrupt_ack ::
    "u64 \<Rightarrow> 'd mmio_transport \<Rightarrow> (transport_violation, unit, 'd mmio_transport) mut_result" where
  "write_interrupt_ack v t =
     (let acked = (if unat v < 2 ^ 32 then ucast v else - 1 :: u32);
          t = t\<lparr>t_interrupt_status := t_interrupt_status t AND NOT (acked AND INTERRUPT_KNOWN)\<rparr> in
      if v AND NOT (ucast INTERRUPT_KNOWN) \<noteq> 0 then transport_err (InterruptAckUnknownBits v) t
      else (Inr (), t))"

definition set_needs_reset :: "'d mmio_transport \<Rightarrow> 'd mmio_transport" where
  "set_needs_reset t =
     t\<lparr>t_status := status_with (t_status t) STATUS_DEVICE_NEEDS_RESET,
       t_queues := map queue_deactivate (t_queues t)\<rparr>"

definition check_features ::
    "'d virtio_device \<Rightarrow> 'd mmio_transport \<Rightarrow> (transport_violation, unit, 'd mmio_transport) mut_result" where
  "check_features VD t =
     (let unsupported = t_driver_features t AND NOT (feature_allowlist VD (t_device t));
          missing_version_1 = (t_driver_features t AND VIRTIO_F_VERSION_1 = 0) in
      if unsupported \<noteq> 0 \<or> missing_version_1
      then transport_err (FeaturesRejected unsupported missing_version_1) t
      else (Inr (), t))"

definition write_status ::
    "'d virtio_device \<Rightarrow> u64 \<Rightarrow> 'd mmio_transport
     \<Rightarrow> (transport_violation, transport_event, 'd mmio_transport) mut_result" where
  "write_status VD v t =
     try_then (transport_try StatusViolation (classify_write (t_status t) v) t) (\<lambda>w t.
     case w of
       StatusReset \<Rightarrow> (Inr EventReset, transport_reset_all VD t)
     | StatusUnchanged \<Rightarrow> (Inr EventNone, t)
     | StatusSetBit b \<Rightarrow>
         if b = STATUS_FEATURES_OK then
           try_then (check_features VD t) (\<lambda>_ t.
           (Inr EventNone, t\<lparr>t_status := status_with (t_status t) STATUS_FEATURES_OK\<rparr>))
         else if b = STATUS_DRIVER_OK then
           let (r, d) = dev_activate VD (t_driver_features t) (t_device t);
               t = t\<lparr>t_device := d\<rparr> in
           case r of
             Inl error \<Rightarrow> transport_err (ActivateViolation error) (set_needs_reset t)
           | Inr _ \<Rightarrow> (Inr DriverOk, t\<lparr>t_status := status_with (t_status t) STATUS_DRIVER_OK\<rparr>)
         else (Inr EventNone, t\<lparr>t_status := status_with (t_status t) b\<rparr>))"

definition transport_write_config ::
    "'d virtio_device \<Rightarrow> u64 \<Rightarrow> access_width \<Rightarrow> u64 \<Rightarrow> 'd mmio_transport
     \<Rightarrow> (transport_violation, transport_event, 'd mmio_transport) mut_result" where
  "transport_write_config VD offset width v t =
     (let len = access_bytes width in
      try_then (config_range VD offset len t) (\<lambda>start t.
      let (r, d) = dev_write_config VD start (take len (le_bytes 8 v)) (t_device t);
          t = t\<lparr>t_device := d\<rparr> in
      try_then (transport_try ConfigAccess r t) (\<lambda>_ t.
      (Inr (ConfigWritten offset len), t))))"

text \<open>An arm that falls through to the final \<open>Ok(TransportEvent::None)\<close>.\<close>

definition then_none ::
    "(transport_violation, unit, 'd mmio_transport) mut_result
     \<Rightarrow> (transport_violation, transport_event, 'd mmio_transport) mut_result" where
  "then_none m = try_then m (\<lambda>_ t. (Inr EventNone, t))"

definition write_register ::
    "'m guest_memory_ops \<Rightarrow> 'd virtio_device \<Rightarrow> register \<Rightarrow> u64 \<Rightarrow> u64 \<Rightarrow> u32 \<Rightarrow> 'm \<Rightarrow> 'd mmio_transport
     \<Rightarrow> (transport_violation, transport_event, 'd mmio_transport) mut_result" where
  "write_register GM VD r offset v word mem t =
     (case r of
        RegDeviceFeaturesSel \<Rightarrow> (Inr EventNone, t\<lparr>t_device_features_sel := word\<rparr>)
      | RegDriverFeaturesSel \<Rightarrow> (Inr EventNone, t\<lparr>t_driver_features_sel := word\<rparr>)
      | RegDriverFeatures \<Rightarrow> then_none (write_driver_features offset word t)
      | RegQueueSel \<Rightarrow> (Inr EventNone, t\<lparr>t_queue_sel := word\<rparr>)
      | RegQueueNum \<Rightarrow> then_none (with_selected_queue offset (\<lambda>q.
          queue_result (set_size (if unat word < 2 ^ 16 then ucast word else - 1) q)) t)
      | RegQueueReady \<Rightarrow> write_queue_ready GM offset word mem t
      | RegQueueNotify \<Rightarrow> write_queue_notify v t
      | RegInterruptAck \<Rightarrow> then_none (write_interrupt_ack v t)
      | RegStatus \<Rightarrow> write_status VD v t
      | RegQueueDescLow \<Rightarrow> then_none (with_selected_queue offset (\<lambda>q.
          (Inr (), set_desc_addr (low (qs_desc (queue_state_of q)) word) q)) t)
      | RegQueueDescHigh \<Rightarrow> then_none (with_selected_queue offset (\<lambda>q.
          (Inr (), set_desc_addr (high (qs_desc (queue_state_of q)) word) q)) t)
      | RegQueueDriverLow \<Rightarrow> then_none (with_selected_queue offset (\<lambda>q.
          (Inr (), set_avail_addr (low (qs_avail (queue_state_of q)) word) q)) t)
      | RegQueueDriverHigh \<Rightarrow> then_none (with_selected_queue offset (\<lambda>q.
          (Inr (), set_avail_addr (high (qs_avail (queue_state_of q)) word) q)) t)
      | RegQueueDeviceLow \<Rightarrow> then_none (with_selected_queue offset (\<lambda>q.
          (Inr (), set_used_addr (low (qs_used (queue_state_of q)) word) q)) t)
      | RegQueueDeviceHigh \<Rightarrow> then_none (with_selected_queue offset (\<lambda>q.
          (Inr (), set_used_addr (high (qs_used (queue_state_of q)) word) q)) t)
      | RegShmSel \<Rightarrow> (Inr EventNone, t)
      | RegQueueReset \<Rightarrow> transport_err RingResetUnsupported t
      | _ \<Rightarrow> transport_err (WriteOfReadOnly offset) t)"

definition transport_write ::
    "'m guest_memory_ops \<Rightarrow> 'd virtio_device \<Rightarrow> u64 \<Rightarrow> access_width \<Rightarrow> u64 \<Rightarrow> 'm \<Rightarrow> 'd mmio_transport
     \<Rightarrow> (transport_violation, transport_event, 'd mmio_transport) mut_result" where
  "transport_write GM VD offset width v mem t =
     (case decode offset of
        None \<Rightarrow> (Inl (UnknownRegister offset), t)
      | Some register \<Rightarrow>
          case config_register register of
            Some config_offset \<Rightarrow> transport_write_config VD config_offset width v t
          | None \<Rightarrow>
          if width \<noteq> W32 then transport_err (WidthMismatch offset) t
          else if \<not> unat v < 2 ^ 32 then transport_err (WidthMismatch offset) t
          else write_register GM VD register offset v (ucast v) mem t)"

section \<open>Host side\<close>

definition complete_used ::
    "'m guest_memory_ops \<Rightarrow> u16 \<Rightarrow> descriptor_chain \<Rightarrow> u32 \<Rightarrow> 'd mmio_transport \<times> 'm
     \<Rightarrow> (transport_violation, bool, 'd mmio_transport \<times> 'm) mut_result" where
  "complete_used GM index chain len = (\<lambda>(t, mem).
     if \<not> is_active t then (Inl NotifyBeforeDriverOk, transport_record NotifyBeforeDriverOk t, mem)
     else if \<not> unat index < length (t_queues t)
     then (Inl (NotifyOutOfRange (ucast index)), transport_record (NotifyOutOfRange (ucast index)) t, mem)
     else
       let (r, q, mem) = add_used GM chain len (t_queues t ! unat index, mem);
           (r, q) = (case r of Inl v \<Rightarrow> (Inl v, q) | Inr _ \<Rightarrow> needs_notification GM mem q);
           t = t\<lparr>t_queues := (t_queues t)[unat index := q]\<rparr> in
       case r of
         Inl v \<Rightarrow> (Inl (QueueViolation v), transport_record (QueueViolation v) t, mem)
       | Inr notify \<Rightarrow>
           (Inr notify, t\<lparr>t_interrupt_status := t_interrupt_status t OR INTERRUPT_USED_BUFFER\<rparr>, mem))"

definition signal_config_change :: "'d mmio_transport \<Rightarrow> 'd mmio_transport" where
  "signal_config_change t =
     t\<lparr>t_config_generation := t_config_generation t + 1,
       t_interrupt_status := t_interrupt_status t OR INTERRUPT_CONFIG_CHANGE\<rparr>"

section \<open>The invariant\<close>

definition features_accepted :: "'d virtio_device \<Rightarrow> 'd mmio_transport \<Rightarrow> bool" where
  "features_accepted VD t \<longleftrightarrow>
     t_driver_features t AND NOT (feature_allowlist VD (t_device t)) = 0 \<and>
     t_driver_features t AND VIRTIO_F_VERSION_1 \<noteq> 0"

definition transport_inv ::
    "'m guest_memory_ops \<Rightarrow> 'd virtio_device \<Rightarrow> 'm \<Rightarrow> 'd mmio_transport \<Rightarrow> bool" where
  "transport_inv GM VD mem t \<longleftrightarrow>
     map q_max_size (t_queues t) = queue_max_sizes VD (t_device t) \<and>
     (\<forall>q \<in> set (t_queues t). queue_inv GM mem q \<and> (is_ready q \<longrightarrow> features_ok (t_status t))) \<and>
     status_ok (t_status t) \<and> (features_ok (t_status t) \<longrightarrow> features_accepted VD t) \<and>
     t_interrupt_status t AND NOT INTERRUPT_KNOWN = 0 \<and>
     length (t_violations t) = TRANSPORT_KIND_COUNT"

lemma transport_record_simps [simp]:
  "t_device (transport_record v t) = t_device t" "t_queues (transport_record v t) = t_queues t"
  "t_status (transport_record v t) = t_status t"
  "t_device_features_sel (transport_record v t) = t_device_features_sel t"
  "t_driver_features_sel (transport_record v t) = t_driver_features_sel t"
  "t_driver_features (transport_record v t) = t_driver_features t"
  "t_queue_sel (transport_record v t) = t_queue_sel t"
  "t_interrupt_status (transport_record v t) = t_interrupt_status t"
  "t_config_generation (transport_record v t) = t_config_generation t"
  "length (t_violations (transport_record v t)) = length (t_violations t)"
  by (simp_all add: transport_record_def transport_counters_record_def Let_def)

lemma transport_inv_record [simp]:
  "transport_inv GM VD mem (transport_record v t) = transport_inv GM VD mem t"
  by (simp add: transport_inv_def features_accepted_def)

lemma snd_transport_err [simp]: "snd (transport_err v t) = transport_record v t"
  by (simp add: transport_err_def)

lemma transport_err_not_Inr [simp]: "transport_err v t \<noteq> (Inr x, t')"
  by (simp add: transport_err_def)

lemma try_then_err [simp]:
  "try_then (transport_err v t) f = transport_err v t" "try_then (queue_err w q) g = queue_err w q"
  by (simp_all add: transport_err_def queue_err_def)

lemma transport_try_simps [simp, result_simps]:
  "transport_try f (Inl e) t = transport_err (f e) t" "transport_try f (Inr x) t = (Inr x, t)"
  by (simp_all add: transport_try_def)

lemma transport_try_Inr_iff [simp]: "transport_try f r t = (Inr x, t') \<longleftrightarrow> r = Inr x \<and> t' = t"
  by (cases r) auto

lemma transport_try_inv:
  "transport_inv GM VD mem t \<Longrightarrow> transport_inv GM VD mem (snd (transport_try f r t))"
  by (cases r) auto

lemma then_none_inv:
  "transport_inv GM VD mem (snd m) \<Longrightarrow> transport_inv GM VD mem (snd (then_none m))"
  unfolding then_none_def by (rule try_then_invariant[where P="transport_inv GM VD mem"]) auto

lemma config_range_inv:
  "transport_inv GM VD mem t \<Longrightarrow> transport_inv GM VD mem (snd (config_range VD offset len t))"
  by (simp add: config_range_def Let_def)

lemma config_range_Inr_iff:
  "config_range VD offset len t = (Inr start, t') \<longleftrightarrow>
     start = unat offset \<and> t' = t \<and> start + len < 2 ^ 64 \<and> start + len \<le> config_len VD (t_device t)"
  by (auto simp: config_range_def Let_def)

text \<open>Reads change the counters only.\<close>

lemma transport_read_effect:
  "\<exists>vs. snd (transport_read VD offset width t) = t\<lparr>t_violations := vs\<rparr> \<and> length vs = length (t_violations t)"
proof -
  have err: "\<exists>vs. snd (transport_err v t) = t\<lparr>t_violations := vs\<rparr> \<and> length vs = length (t_violations t)"
    for v and t :: "'a mmio_transport"
    by (auto simp: transport_record_def transport_counters_record_def Let_def)
  have same: "\<exists>vs. t = t\<lparr>t_violations := vs\<rparr> \<and> length vs = length (t_violations t)"
    by (rule exI[of _ "t_violations t"]) simp
  have rng: "config_range VD o' n t = (Inr (unat o'), t) \<or> (\<exists>v. config_range VD o' n t = transport_err v t)" for o' n
    by (auto simp: config_range_def Let_def)
  have cfg: "\<exists>vs. snd (transport_read_config VD o' width t) = t\<lparr>t_violations := vs\<rparr> \<and>
      length vs = length (t_violations t)" for o'
    using rng[of o' "access_bytes width"] err[of _ t] same
    by (cases "dev_read_config VD (t_device t) (unat o') (access_bytes width)")
       (auto simp: transport_read_config_def transport_err_def)
  show ?thesis
    unfolding transport_read_def using err[of _ t] same cfg
    by (auto split: option.split)
qed

lemma transport_read_inv:
  "transport_inv GM VD mem t \<Longrightarrow> transport_inv GM VD mem (snd (transport_read VD offset width t))"
  using transport_read_effect[of VD offset width t]
  by (auto simp: transport_inv_def features_accepted_def)

text \<open>A queue write keeps the invariant when the operation on the queue does.\<close>

lemma queue_update_inv:
  assumes "transport_inv GM VD mem t" "i < length (t_queues t)" "queue_inv GM mem q"
    and "q_max_size q = q_max_size (t_queues t ! i)"
    and "is_ready q \<Longrightarrow> is_ready (t_queues t ! i) \<or> features_ok (t_status t)"
  shows "transport_inv GM VD mem (t\<lparr>t_queues := (t_queues t)[i := q]\<rparr>)"
proof -
  have "map q_max_size ((t_queues t)[i := q]) = map q_max_size (t_queues t)"
    using assms(2,4) by (simp add: map_update list_update_same_conv)
  moreover have "queue_inv GM mem x \<and> (is_ready x \<longrightarrow> features_ok (t_status t))"
    if "x \<in> set ((t_queues t)[i := q])" for x
  proof (cases "x = q")
    case True
    then show ?thesis using assms(1,3,5) nth_mem[OF assms(2)] by (auto simp: transport_inv_def)
  next
    case False
    with that have "x \<in> set (t_queues t)" using set_update_subset_insert[of "t_queues t" i q] by auto
    then show ?thesis using assms(1) by (simp add: transport_inv_def)
  qed
  ultimately show ?thesis using assms(1) by (simp add: transport_inv_def features_accepted_def)
qed

lemma with_selected_queue_inv:
  assumes "transport_inv GM VD mem t"
    and "\<And>q. queue_inv GM mem q \<Longrightarrow> queue_inv GM mem (snd (f q)) \<and> q_max_size (snd (f q)) = q_max_size q \<and>
           (is_ready (snd (f q)) \<longrightarrow> is_ready q \<or> features_ok (t_status t))"
  shows "transport_inv GM VD mem (snd (with_selected_queue offset f t))"
proof -
  define i where "i = unat (t_queue_sel t)"
  obtain r q where f: "f (t_queues t ! i) = (r, q)" by fastforce
  show ?thesis
  proof (cases "\<not> driver_ok (t_status t) \<and> i < length (t_queues t)")
    case True
    then have "queue_inv GM mem (t_queues t ! i)" using assms(1) by (auto simp: transport_inv_def)
    with assms(2)[OF this] f True have "transport_inv GM VD mem (t\<lparr>t_queues := (t_queues t)[i := q]\<rparr>)"
      by (intro queue_update_inv[OF assms(1)]) auto
    then show ?thesis using True f
      by (simp add: with_selected_queue_def Let_def i_def[symmetric] transport_try_inv)
  qed (use assms(1) in \<open>auto simp: with_selected_queue_def Let_def i_def[symmetric]\<close>)
qed

lemma queue_activate_max: "q_max_size (snd (queue_activate GM mem q)) = q_max_size q"
  by (cases "validate_layout GM mem (q_size q) (q_max_size q) (q_desc q) (q_avail q) (q_used q)")
     (auto simp: queue_activate_def)

lemma set_size_same:
  "q_max_size (snd (set_size sz q)) = q_max_size q" "q_layout (snd (set_size sz q)) = q_layout q"
  by (cases "validate_size sz (q_max_size q)"; simp add: set_size_def queue_try_def queue_err_def
      del: validate_size_Inr_iff)+

lemma write_driver_features_inv:
  "transport_inv GM VD mem t \<Longrightarrow> transport_inv GM VD mem (snd (write_driver_features offset word t))"
  by (auto simp: write_driver_features_def transport_inv_def features_accepted_def)

lemma write_queue_notify_inv:
  "transport_inv GM VD mem t \<Longrightarrow> transport_inv GM VD mem (snd (write_queue_notify v t))"
  by (simp add: write_queue_notify_def Let_def)

lemma and_not_sub: "x AND NOT m = 0 \<Longrightarrow> (x AND y) AND NOT m = 0" for x y m :: "'a::len word"
  by (auto simp: bit_eq_iff bit_simps)

lemma or_sub: "x AND NOT m = 0 \<Longrightarrow> y AND NOT m = 0 \<Longrightarrow> (x OR y) AND NOT m = 0" for x y m :: "'a::len word"
  by (auto simp: bit_eq_iff bit_simps)

lemma interrupt_raise_known:
  assumes "x AND NOT INTERRUPT_KNOWN = 0"
  shows "(x OR INTERRUPT_USED_BUFFER) AND NOT INTERRUPT_KNOWN = 0"
    "(x OR INTERRUPT_CONFIG_CHANGE) AND NOT INTERRUPT_KNOWN = 0"
  by (rule or_sub[OF assms], simp add: INTERRUPT_KNOWN_def)+

lemma write_interrupt_ack_inv:
  "transport_inv GM VD mem t \<Longrightarrow> transport_inv GM VD mem (snd (write_interrupt_ack v t))"
  by (simp add: write_interrupt_ack_def Let_def transport_inv_def features_accepted_def and_not_sub)

lemma set_needs_reset_inv:
  assumes "transport_inv GM VD mem t"
  shows "transport_inv GM VD mem (set_needs_reset t)"
  using assms
  by (auto simp: set_needs_reset_def transport_inv_def features_accepted_def queue_deactivate_inv
      is_ready_def queue_deactivate_def comp_def)
     (auto simp: status_with_def queue_inv_def)

lemma check_features_iff:
  "check_features VD t = (Inr u, t') \<longleftrightarrow> t' = t \<and> features_accepted VD t"
  by (auto simp: check_features_def Let_def features_accepted_def)

lemma check_features_inv:
  "transport_inv GM VD mem t \<Longrightarrow> transport_inv GM VD mem (snd (check_features VD t))"
  by (simp add: check_features_def Let_def)

lemma queue_deactivate_not_ready [simp]: "\<not> is_ready (queue_deactivate q)"
  by (simp add: is_ready_def queue_deactivate_def)

lemma queue_reset_not_ready [simp]: "\<not> is_ready (queue_reset q)"
  by (simp add: is_ready_def queue_reset_def)

lemma queue_reset_max [simp]: "q_max_size (queue_reset q) = q_max_size q"
  by (simp add: queue_reset_def)

text \<open>The transport over any memory and any device that keep their contracts.\<close>

locale transport_model = guest_memory GM valid byte + device_model VD
  for GM :: "'m guest_memory_ops" and valid and byte and VD :: "'d virtio_device"
begin

abbreviation tinv :: "'m \<Rightarrow> 'd mmio_transport \<Rightarrow> bool" where
  "tinv \<equiv> transport_inv GM VD"

lemma device_update_inv:
  assumes "tinv mem t" "device_face VD d = device_face VD (t_device t)"
  shows "tinv mem (t\<lparr>t_device := d\<rparr>)"
  using assms by (simp add: transport_inv_def features_accepted_def device_face_def)

lemma write_config_inv:
  assumes "tinv mem t"
  shows "tinv mem (snd (transport_write_config VD offset width v t))"
proof -
  have "tinv mem (snd (let (r, d) = dev_write_config VD start data (t_device t); t = t\<lparr>t_device := d\<rparr> in
      try_then (transport_try ConfigAccess r t) (\<lambda>_ t. (Inr (ConfigWritten offset len), t))))" for start data len
    using device_update_inv[OF assms face_write_config[of start data "t_device t"]]
    by (auto simp: Let_def split: prod.split intro!: try_then_invariant[where P="tinv mem"] transport_try_inv)
  then show ?thesis unfolding transport_write_config_def Let_def[of "access_bytes width"]
    using config_range_inv[OF assms]
    by (intro try_then_invariant[where P="tinv mem"]) (auto simp: config_range_Inr_iff)
qed

lemma transport_reset_all_inv:
  assumes "tinv mem t"
  shows "tinv mem (transport_reset_all VD t)"
  using assms
  by (auto simp: transport_reset_all_def transport_inv_def queue_reset_inv comp_def)

lemma status_set_inv:
  assumes "tinv mem t" "status_ok (status_with (t_status t) b)"
    and "features_ok (status_with (t_status t) b) \<Longrightarrow> features_accepted VD t"
    and "features_ok (t_status t) \<Longrightarrow> features_ok (status_with (t_status t) b)"
  shows "tinv mem (t\<lparr>t_status := status_with (t_status t) b\<rparr>)"
  using assms by (auto simp: transport_inv_def features_accepted_def)

lemma write_status_inv:
  assumes "tinv mem t"
  shows "tinv mem (snd (write_status VD v t))"
proof (cases "classify_write (t_status t) v")
  case (Inl e)
  then show ?thesis using assms by (simp add: write_status_def transport_err_def)
next
  case (Inr w)
  have ok: "status_ok (t_status t)" and feat: "features_ok (t_status t) \<Longrightarrow> features_accepted VD t"
    using assms by (auto simp: transport_inv_def)
  show ?thesis
  proof (cases w)
    case (StatusSetBit b)
    with Inr classify_write_lifecycle[OF ok] next_stage_status_ok[of "t_status t" b]
    have b: "status_ok (status_with (t_status t) b)" "b \<in> {1, 2, 4, 8, 128}"
      using ok by (auto simp: status_with_def next_stage_iff)
    show ?thesis
    proof (cases "b = 4")
      case True
      obtain r d where act: "dev_activate VD (t_driver_features t) (t_device t) = (r, d)" by fastforce
      have inv: "tinv mem (t\<lparr>t_device := d\<rparr>)"
        using device_update_inv[OF assms] face_activate[of "t_driver_features t" "t_device t"] act by simp
      have "tinv mem (t\<lparr>t_device := d, t_status := status_with (t_status t) 4\<rparr>)"
        using status_set_inv[OF inv, of 4] b True inv by (auto simp: transport_inv_def)
      then show ?thesis using True Inr StatusSetBit act inv
        by (auto simp: write_status_def set_needs_reset_inv Let_def split: sum.split)
    next
      case False
      show ?thesis
      proof (cases "b = 8")
        case True
        then show ?thesis using Inr StatusSetBit assms b status_set_inv[OF assms, of 8]
          by (auto simp: write_status_def check_features_iff check_features_inv
              intro!: try_then_invariant[where P="tinv mem"])
      next
        case nb: False
        have "tinv mem (t\<lparr>t_status := status_with (t_status t) b\<rparr>)"
          by (rule status_set_inv[OF assms b(1)]) (use False nb b(2) feat in auto)
        then show ?thesis using Inr StatusSetBit False nb by (simp add: write_status_def)
      qed
    qed
  qed (use Inr assms in \<open>simp_all add: write_status_def transport_reset_all_inv\<close>)
qed

lemma set_addr_same [simp]:
  "q_max_size (set_desc_addr a q) = q_max_size q" "is_ready (set_desc_addr a q) = is_ready q"
  "q_max_size (set_avail_addr a q) = q_max_size q" "is_ready (set_avail_addr a q) = is_ready q"
  "q_max_size (set_used_addr a q) = q_max_size q" "is_ready (set_used_addr a q) = is_ready q"
  "q_max_size (queue_deactivate q) = q_max_size q"
  by (simp_all add: set_desc_addr_def set_avail_addr_def set_used_addr_def is_ready_def
      queue_deactivate_def)

lemma write_queue_ready_inv:
  assumes "valid mem" "tinv mem t"
  shows "tinv mem (snd (write_queue_ready GM offset word mem t))"
proof -
  have "tinv mem (snd (with_selected_queue offset (\<lambda>q. (Inr (), queue_deactivate q)) t))"
    by (rule with_selected_queue_inv[OF assms(2)]) (simp add: queue_deactivate_inv)
  moreover have "tinv mem (snd (with_selected_queue offset (\<lambda>q. queue_result (queue_activate GM mem q)) t))"
    if "features_ok (t_status t)"
    by (rule with_selected_queue_inv[OF assms(2)])
       (simp add: queue_result_def queue_activate_inv[OF assms(1)] queue_activate_max that)
  ultimately show ?thesis
    using assms(2) by (auto simp: write_queue_ready_def intro!: try_then_invariant[where P="tinv mem"])
qed

lemma selected_set_size_inv:
  assumes "tinv mem t"
  shows "tinv mem (snd (with_selected_queue offset (\<lambda>q. queue_result (set_size sz q)) t))"
  by (rule with_selected_queue_inv[OF assms])
     (simp add: queue_result_def set_size_inv set_size_same is_ready_def)

lemma selected_set_addr_inv:
  assumes "tinv mem t" and "\<And>q. queue_inv GM mem q \<Longrightarrow> queue_inv GM mem (g q)"
    and "\<And>q. q_max_size (g q) = q_max_size q" "\<And>q. is_ready (g q) = is_ready q"
  shows "tinv mem (snd (with_selected_queue offset (\<lambda>q. (Inr (), g q)) t))"
  by (rule with_selected_queue_inv[OF assms(1)]) (simp add: assms(2-4))

lemma write_register_inv:
  assumes "valid mem" "tinv mem t"
  shows "tinv mem (snd (write_register GM VD r offset v word mem t))"
proof -
  have sel: "tinv mem (t\<lparr>t_device_features_sel := word\<rparr>)" "tinv mem (t\<lparr>t_driver_features_sel := word\<rparr>)"
    "tinv mem (t\<lparr>t_queue_sel := word\<rparr>)"
    using assms(2) by (simp_all add: transport_inv_def features_accepted_def)
  note rules = then_none_inv selected_set_addr_inv[OF assms(2)] selected_set_size_inv[OF assms(2)]
    write_driver_features_inv[OF assms(2)] write_queue_ready_inv[OF assms]
    write_queue_notify_inv[OF assms(2)] write_interrupt_ack_inv[OF assms(2)] write_status_inv[OF assms(2)]
  show ?thesis
    unfolding write_register_def
    by (cases r) (simp_all add: sel assms(2) rules set_addr_inv)
qed

lemma transport_write_inv:
  assumes "valid mem" "tinv mem t"
  shows "tinv mem (snd (transport_write GM VD offset width v mem t))"
  using assms write_register_inv[OF assms] write_config_inv[OF assms(2)]
  by (simp add: transport_write_def split: option.split)

lemma tinv_mem_cong:
  assumes "check_range GM mem' = check_range GM mem"
  shows "tinv mem' t = tinv mem t"
  by (simp add: transport_inv_def queue_inv_check_range_cong[OF assms])

lemma queue_work_inv:
  assumes "tinv mem t" "i < length (t_queues t)" "same_config (t_queues t ! i) q" "queue_inv GM mem q"
  shows "tinv mem (t\<lparr>t_queues := (t_queues t)[i := q]\<rparr>)"
  using assms(2-) by (intro queue_update_inv[OF assms(1)]) (auto simp: same_config_def is_ready_def)

lemma complete_used_inv:
  assumes "valid mem" "tinv mem t" "complete_used GM index chain len (t, mem) = (r, t', mem')"
  shows "valid mem' \<and> tinv mem' t' \<and> check_range GM mem' = check_range GM mem"
proof (cases "is_active t \<and> unat index < length (t_queues t)")
  case True
  define q0 where "q0 = t_queues t ! unat index"
  obtain r1 q1 m where add: "add_used GM chain len (q0, mem) = (r1, q1, m)" by (metis prod_cases3)
  have q0: "queue_inv GM mem q0" using True assms(2) by (simp add: q0_def transport_inv_def)
  note a = add_used_inv[OF assms(1) q0 add]
  define rq where "rq = (case r1 of Inl v \<Rightarrow> (Inl v, q1) | Inr _ \<Rightarrow> needs_notification GM m q1)"
  have "same_config q0 (snd rq)" "queue_inv GM m (snd rq)"
    using a reads_inv(3)[OF a(2)] same_config_trans[OF a(4) needs_notification_same]
    by (auto simp: rq_def split: sum.split)
  then have "tinv m (t\<lparr>t_queues := (t_queues t)[unat index := snd rq]\<rparr>)"
    using queue_work_inv[of m t "unat index" "snd rq"] True assms(2) tinv_mem_cong[OF a(3)]
    by (simp add: q0_def)
  moreover have "mem' = m"
    using assms(3) True add by (auto simp: complete_used_def Let_def q0_def split: prod.splits sum.splits)
  moreover have "t' = transport_record (QueueViolation w) (t\<lparr>t_queues := (t_queues t)[unat index := snd rq]\<rparr>)"
    if "fst rq = Inl w" for w
    using assms(3) True add that by (auto simp: complete_used_def Let_def q0_def[symmetric] rq_def split: prod.splits)
  moreover have "t' = t\<lparr>t_queues := (t_queues t)[unat index := snd rq],
      t_interrupt_status := t_interrupt_status t OR INTERRUPT_USED_BUFFER\<rparr>" if "fst rq = Inr n" for n
    using assms(3) True add that by (auto simp: complete_used_def Let_def q0_def[symmetric] rq_def split: prod.splits)
  ultimately show ?thesis using a
    by (cases "fst rq") (auto simp: transport_inv_def features_accepted_def interrupt_raise_known)
qed (use assms in \<open>auto simp: complete_used_def split: if_splits\<close>)

lemma signal_config_change_inv: "tinv mem t \<Longrightarrow> tinv mem (signal_config_change t)"
  by (simp add: signal_config_change_def transport_inv_def features_accepted_def interrupt_raise_known)

end

end
