(* ===== verification/TransportSnapshot.thy ===== *)
theory TransportSnapshot
  imports MmioTransport
begin

text \<open>
  The snapshot record of a transport and its validated restore
  (\<open>soma-kvm/src/virtio/transport/state.rs\<close>), the transports that can be reached from a new or
  a restored one, and the properties of the transport.
\<close>

section \<open>The record\<close>

abbreviation (input) TRANSPORT_STATE_HEADER_LEN :: nat where "TRANSPORT_STATE_HEADER_LEN \<equiv> 30"

record transport_state =
  ts_status :: u8
  ts_device_features_sel :: u32
  ts_driver_features_sel :: u32
  ts_driver_features :: u64
  ts_queue_sel :: u32
  ts_interrupt_status :: u32
  ts_config_generation :: u32
  ts_queues :: "queue_state list"

datatype transport_state_error =
    TransportStateLength nat
  | TransportStateQueueCount u8
  | TransportStateQueue nat queue_state_error

definition transport_state_to_bytes :: "transport_state \<Rightarrow> transport_state_error + u8 list" where
  "transport_state_to_bytes s =
     (let n = length (ts_queues s) in
      and_then (ok_or (TransportStateQueueCount (- 1))
        (if n < 256 \<and> n \<le> MAX_QUEUES then Some (of_nat n :: u8) else None)) (\<lambda>count.
      Inr ([ts_status s] @ le_bytes 4 (ts_device_features_sel s) @ le_bytes 4 (ts_driver_features_sel s) @
           le_bytes 8 (ts_driver_features s) @ le_bytes 4 (ts_queue_sel s) @
           le_bytes 4 (ts_interrupt_status s) @ le_bytes 4 (ts_config_generation s) @ [count] @
           concat (map queue_state_to_bytes (ts_queues s)))))"

text \<open>The loop of \<open>from_bytes\<close> over the queue records, from index \<open>index\<close> on.\<close>

fun decode_queues :: "nat \<Rightarrow> nat \<Rightarrow> u8 list \<Rightarrow> transport_state_error + queue_state list" where
  "decode_queues index 0 raw = Inr []"
| "decode_queues index (Suc n) raw =
     (let start = TRANSPORT_STATE_HEADER_LEN + index * QUEUE_STATE_LEN in
      and_then (map_err (TransportStateQueue index)
        (queue_state_from_bytes (take QUEUE_STATE_LEN (drop start raw)))) (\<lambda>queue.
      and_then (decode_queues (Suc index) n raw) (\<lambda>rest. Inr (queue # rest))))"

definition le_u32_at :: "u8 list \<Rightarrow> nat \<Rightarrow> u32" where
  "le_u32_at raw offset =
     (let v = le_u64 (take 4 (drop offset raw)) in if unat v < 2 ^ 32 then ucast v else 0)"

text \<open>The idiom \<open>u32::try_from(le_u64(field)).map_err(..)?\<close> of the device records.\<close>

definition u32_field :: "'e \<Rightarrow> u8 list \<Rightarrow> 'e + u32" where
  "u32_field e bytes = (let v = le_u64 bytes in if unat v < 2 ^ 32 then Inr (ucast v) else Inl e)"

definition transport_state_from_bytes :: "u8 list \<Rightarrow> transport_state_error + transport_state" where
  "transport_state_from_bytes raw =
     (if length raw < TRANSPORT_STATE_HEADER_LEN then Inl (TransportStateLength (length raw))
      else
        let count = raw ! 29 in
        if MAX_QUEUES < unat count then Inl (TransportStateQueueCount count)
        else if length raw \<noteq> TRANSPORT_STATE_HEADER_LEN + unat count * QUEUE_STATE_LEN
        then Inl (TransportStateLength (length raw))
        else and_then (decode_queues 0 (unat count) raw) (\<lambda>queues.
             Inr \<lparr>ts_status = raw ! 0, ts_device_features_sel = le_u32_at raw 1,
                  ts_driver_features_sel = le_u32_at raw 5,
                  ts_driver_features = le_u64 (take 8 (drop 9 raw)),
                  ts_queue_sel = le_u32_at raw 17, ts_interrupt_status = le_u32_at raw 21,
                  ts_config_generation = le_u32_at raw 25, ts_queues = queues\<rparr>))"

section \<open>Capture and restore\<close>

datatype restore_error =
    RestoreConfig transport_config_error
  | RestoreStatus status_violation
  | RestoreQueueCount nat nat
  | RestoreInterruptStatus u32
  | RestoreTransport transport_violation
  | RestoreQueue nat transport_violation

definition transport_state_of :: "'d mmio_transport \<Rightarrow> transport_state" where
  "transport_state_of t =
     \<lparr>ts_status = t_status t, ts_device_features_sel = t_device_features_sel t,
      ts_driver_features_sel = t_driver_features_sel t, ts_driver_features = t_driver_features t,
      ts_queue_sel = t_queue_sel t, ts_interrupt_status = t_interrupt_status t,
      ts_config_generation = t_config_generation t, ts_queues = map queue_state_of (t_queues t)\<rparr>"

text \<open>The loop of \<open>restore\<close> over the queues, which keeps the maxima of the fresh transport.\<close>

fun restore_queues ::
    "'m guest_memory_ops \<Rightarrow> 'm \<Rightarrow> device_status \<Rightarrow> nat \<Rightarrow> queue list \<Rightarrow> queue_state list
     \<Rightarrow> restore_error + queue list" where
  "restore_queues GM mem status index (q # qs) (s # ss) =
     (if qs_ready s \<and> \<not> features_ok status then Inl (RestoreQueue index (ConfigurationLocked 0))
      else and_then (map_err (\<lambda>v. RestoreQueue index (QueueViolation v))
             (queue_restore GM mem (q_max_size q) s)) (\<lambda>q'.
           and_then (restore_queues GM mem status (Suc index) qs ss) (\<lambda>rest. Inr (q' # rest))))"
| "restore_queues GM mem status index qs ss = Inr []"

definition transport_restore ::
    "'m guest_memory_ops \<Rightarrow> 'd virtio_device \<Rightarrow> 'd \<Rightarrow> transport_state \<Rightarrow> 'm
     \<Rightarrow> restore_error + 'd mmio_transport" where
  "transport_restore GM VD d s mem =
     and_then (map_err RestoreConfig (transport_new VD d)) (\<lambda>t.
     and_then (map_err RestoreStatus (from_bits (ts_status s))) (\<lambda>status.
     if length (ts_queues s) \<noteq> length (t_queues t)
     then Inl (RestoreQueueCount (length (t_queues t)) (length (ts_queues s)))
     else if ts_interrupt_status s AND NOT INTERRUPT_KNOWN \<noteq> 0
     then Inl (RestoreInterruptStatus (ts_interrupt_status s))
     else
       let t = t\<lparr>t_driver_features := ts_driver_features s\<rparr> in
       and_then (if features_ok status then map_err RestoreTransport (fst (check_features VD t)) else Inr ()) (\<lambda>_.
       and_then (restore_queues GM mem status 0 (t_queues t) (ts_queues s)) (\<lambda>queues.
       let (r, d) = (if driver_ok status then dev_activate VD (ts_driver_features s) (t_device t)
                     else (Inr (), t_device t)) in
       and_then (map_err (\<lambda>e. RestoreTransport (ActivateViolation e)) r) (\<lambda>_.
       Inr (t\<lparr>t_device := d, t_queues := queues, t_status := status,
              t_device_features_sel := ts_device_features_sel s,
              t_driver_features_sel := ts_driver_features_sel s, t_queue_sel := ts_queue_sel s,
              t_interrupt_status := ts_interrupt_status s,
              t_config_generation := ts_config_generation s\<rparr>))))))"

section \<open>The codec\<close>

lemma le_word_widen:
  assumes "8 * length bs \<le> LENGTH('b::len)" "LENGTH('b) \<le> LENGTH('a::len)"
  shows "(le_word bs :: 'a word) = ucast (le_word bs :: 'b word)"
  using assms by (intro bit_word_eqI) (auto simp: bit_le_word bit_simps)

lemma u32_field_eq:
  assumes "length bs \<le> 4"
  shows "u32_field e bs = Inr (le_word bs)"
proof -
  have w: "(le_word bs :: u64) = ucast (le_word bs :: u32)" using assms by (intro le_word_widen) simp_all
  have "unat (le_word bs :: u64) < 2 ^ 32"
    using unat_u32_less[of "le_word bs"] by (simp add: w unat_ucast_up)
  moreover have "(ucast (ucast (le_word bs :: u32) :: u64) :: u32) = le_word bs"
    by (rule bit_word_eqI) (simp add: bit_simps)
  ultimately show ?thesis by (simp add: u32_field_def Let_def le_u64_eq_le_word w)
qed

lemma le_u32_at_eq: "le_u32_at raw offset = le_word (take 4 (drop offset raw))"
  using u32_field_eq[of "take 4 (drop offset raw)" "()"]
  by (simp add: le_u32_at_def u32_field_def Let_def split: if_splits)

lemma length_queue_state_bytes [simp]: "length (queue_state_to_bytes s) = 32"
  by (simp add: queue_state_to_bytes_def)

lemma length_queue_records: "length (concat (map queue_state_to_bytes qs)) = 32 * length qs"
  by (induction qs) auto

lemma decode_queues_concat:
  "length pre = 30 + index * 32 \<Longrightarrow>
     decode_queues index (length qs) (pre @ concat (map queue_state_to_bytes qs)) = Inr qs"
proof (induction qs arbitrary: index pre)
  case (Cons q qs)
  have "decode_queues (Suc index) (length qs)
      ((pre @ queue_state_to_bytes q) @ concat (map queue_state_to_bytes qs)) = Inr qs"
    by (rule Cons.IH) (simp add: Cons.prems)
  then show ?case by (simp add: Cons.prems queue_state_roundtrip Let_def)
qed simp

lemma decode_queues_Inr:
  assumes "decode_queues index n raw = Inr qs" "length raw = 30 + (index + n) * 32"
  shows "length qs = n \<and> concat (map queue_state_to_bytes qs) = drop (30 + index * 32) raw"
  using assms
proof (induction index n raw arbitrary: qs rule: decode_queues.induct)
  case (2 index n raw)
  from "2.prems"(1) obtain q rest where
    q: "queue_state_from_bytes (take 32 (drop (30 + index * 32) raw)) = Inr q"
    and rest: "decode_queues (Suc index) n raw = Inr rest" and qs: "qs = q # rest"
    by (auto simp: Let_def and_then_Inr_iff)
  have "length rest = n \<and> concat (map queue_state_to_bytes rest) = drop (30 + Suc index * 32) raw"
    using "2.IH"[OF refl _ rest, of q] q "2.prems"(2) by simp
  then show ?case
    using queue_state_bytes_roundtrip[OF q] by (simp add: qs take_drop_join)
qed simp

definition transport_header :: "transport_state \<Rightarrow> u8 list" where
  "transport_header s =
     [ts_status s] @ le_bytes 4 (ts_device_features_sel s) @ le_bytes 4 (ts_driver_features_sel s) @
     le_bytes 8 (ts_driver_features s) @ le_bytes 4 (ts_queue_sel s) @
     le_bytes 4 (ts_interrupt_status s) @ le_bytes 4 (ts_config_generation s) @
     [of_nat (length (ts_queues s))]"

lemma length_transport_header [simp]: "length (transport_header s) = 30"
  by (simp add: transport_header_def)

lemma transport_state_to_bytes_Inr_iff:
  "transport_state_to_bytes s = Inr raw \<longleftrightarrow> length (ts_queues s) \<le> 8 \<and>
     raw = transport_header s @ concat (map queue_state_to_bytes (ts_queues s))"
  by (auto simp: transport_state_to_bytes_def Let_def transport_header_def)

lemma transport_state_roundtrip:
  assumes "transport_state_to_bytes s = Inr raw"
  shows "transport_state_from_bytes raw = Inr s"
proof -
  let ?qs = "ts_queues s" let ?h = "transport_header s"
  have n: "length ?qs \<le> 8" and raw: "raw = ?h @ concat (map queue_state_to_bytes ?qs)"
    using assms by (auto simp: transport_state_to_bytes_Inr_iff)
  have len: "length raw = 30 + 32 * length ?qs" by (simp add: raw length_queue_records)
  have h29: "raw ! 29 = of_nat (length ?qs)" by (simp add: raw nth_append) (simp add: transport_header_def nth_append)
  have count: "unat (of_nat (length ?qs) :: u8) = length ?qs" using n by (simp add: unat_of_nat)
  have qs: "decode_queues 0 (length ?qs) raw = Inr ?qs"
    using decode_queues_concat[of ?h 0 ?qs] by (simp add: raw)
  have cut: "take k (drop i raw) = take k (drop i ?h)" if "i + k \<le> 30" for i k
    using that by (simp add: raw)
  have "raw ! 0 = ts_status s" by (simp add: raw nth_append) (simp add: transport_header_def)
  moreover have "le_u32_at raw 1 = ts_device_features_sel s" "le_u32_at raw 5 = ts_driver_features_sel s"
    "le_u64 (take 8 (drop 9 raw)) = ts_driver_features s" "le_u32_at raw 17 = ts_queue_sel s"
    "le_u32_at raw 21 = ts_interrupt_status s" "le_u32_at raw 25 = ts_config_generation s"
    by (simp_all add: le_u32_at_eq le_u64_eq_le_word cut) (simp_all add: transport_header_def)
  ultimately show ?thesis
    using n by (simp add: transport_state_from_bytes_def len h29 count qs Let_def)
qed

lemma transport_state_bytes_roundtrip:
  assumes "transport_state_from_bytes raw = Inr s"
  shows "transport_state_to_bytes s = Inr raw"
proof -
  define n where "n = unat (raw ! 29)"
  from assms have len: "length raw = 30 + n * 32" and n: "n \<le> 8"
    and qs: "decode_queues 0 n raw = Inr (ts_queues s)" and
    s: "ts_status s = raw ! 0" "ts_device_features_sel s = le_word (take 4 (drop 1 raw))"
      "ts_driver_features_sel s = le_word (take 4 (drop 5 raw))"
      "ts_driver_features s = le_word (take 8 (drop 9 raw))"
      "ts_queue_sel s = le_word (take 4 (drop 17 raw))"
      "ts_interrupt_status s = le_word (take 4 (drop 21 raw))"
      "ts_config_generation s = le_word (take 4 (drop 25 raw))"
    by (auto simp: transport_state_from_bytes_def Let_def and_then_Inr_iff n_def le_u32_at_eq
        le_u64_eq_le_word split: if_splits)
  note q = decode_queues_Inr[OF qs, simplified, OF len]
  have "of_nat (length (ts_queues s)) = raw ! 29" using q by (simp add: n_def)
  then have "transport_header s @ drop 30 raw = raw"
    using len by (simp add: transport_header_def s le_bytes_le_word join_simps del: take_drop drop_drop)
  then show ?thesis using q n by (simp add: transport_state_to_bytes_Inr_iff)
qed

section \<open>Restored transports\<close>

lemma new_queues_Inr:
  "new_queues index maxes = Inr qs \<Longrightarrow>
     map q_max_size qs = maxes \<and> (\<forall>q \<in> set qs. queue_inv GM mem q \<and> \<not> is_ready q)"
proof (induction index maxes arbitrary: qs rule: new_queues.induct)
  case (2 index mx rest)
  then show ?case
    by (auto simp: and_then_Inr_iff queue_new_inv queue_new_Inr_iff is_ready_def)
qed simp

lemma transport_new_Inr:
  assumes "transport_new VD d = Inr t"
  shows "transport_inv GM VD mem t" "t_device t = d" "t_status t = 0"
    "length (t_queues t) \<le> MAX_QUEUES" "t_queues t \<noteq> []"
    "feature_allowlist VD d AND VIRTIO_F_VERSION_1 \<noteq> 0" "config_len VD d \<le> MAX_CONFIG_LEN"
proof -
  from assms obtain qs where qs: "new_queues 0 (queue_max_sizes VD d) = Inr qs"
    and facts: "t = \<lparr>t_device = d, t_queues = qs, t_status = 0, t_device_features_sel = 0,
      t_driver_features_sel = 0, t_driver_features = 0, t_queue_sel = 0, t_interrupt_status = 0,
      t_config_generation = 0, t_violations = replicate 17 0\<rparr>"
      "queue_max_sizes VD d \<noteq> []" "length (queue_max_sizes VD d) \<le> 8"
      "feature_allowlist VD d AND VIRTIO_F_VERSION_1 \<noteq> 0" "config_len VD d \<le> MAX_CONFIG_LEN"
    by (auto simp: transport_new_def Let_def and_then_Inr_iff split: if_splits)
  have maxes: "map q_max_size qs = queue_max_sizes VD d" and
    "\<forall>q \<in> set qs. queue_inv GM mem q \<and> \<not> is_ready q"
    using new_queues_Inr[OF qs, of GM mem] by auto
  then show "transport_inv GM VD mem t" by (auto simp: facts(1) transport_inv_def)
  show "t_device t = d" "t_status t = 0" by (simp_all add: facts(1))
  show "length (t_queues t) \<le> MAX_QUEUES" "t_queues t \<noteq> []"
    using facts(2,3) maxes by (auto simp: facts(1) dest: arg_cong[of _ _ length])
  show "feature_allowlist VD d AND VIRTIO_F_VERSION_1 \<noteq> 0" "config_len VD d \<le> MAX_CONFIG_LEN"
    by (rule facts)+
qed

context guest_memory
begin

text \<open>The loop accepts exactly the records that are consistent for their queue.\<close>

lemma restore_queues_iff:
  assumes "valid mem" "length qs = length ss"
  shows "restore_queues GM mem status index qs ss = Inr qs' \<longleftrightarrow>
    list_all2 (\<lambda>q s. (qs_ready s \<longrightarrow> features_ok status) \<and> state_ok GM mem (q_max_size q) s) qs ss \<and>
    qs' = map2 (\<lambda>q s. restored_queue (q_max_size q) s) qs ss"
  using assms(2)
proof (induction qs ss arbitrary: index qs' rule: list_induct2)
  case (Cons q qs s ss)
  then show ?case by (auto simp: and_then_Inr_iff queue_restore_iff[OF assms(1)])
qed auto

lemma restored_list:
  assumes "length qs = length ss"
    "list_all2 (\<lambda>q s. (qs_ready s \<longrightarrow> features_ok status) \<and> state_ok GM mem (q_max_size q) s) qs ss"
  defines "qs' \<equiv> map2 (\<lambda>q s. restored_queue (q_max_size q) s) qs ss"
  shows "map q_max_size qs' = map q_max_size qs" "map queue_state_of qs' = ss"
    "\<forall>q \<in> set qs'. queue_inv GM mem q \<and> (is_ready q \<longrightarrow> features_ok status)"
proof -
  have "map q_max_size qs' = map q_max_size qs \<and> map queue_state_of qs' = ss \<and>
    (\<forall>q \<in> set qs'. queue_inv GM mem q \<and> (is_ready q \<longrightarrow> features_ok status))"
    using assms(1,2) unfolding qs'_def
    by (induction qs ss rule: list_induct2)
       (auto simp: restored_queue_inv, auto simp: restored_queue_def queue_state_of_def is_ready_def)
  then show "map q_max_size qs' = map q_max_size qs" "map queue_state_of qs' = ss"
    "\<forall>q \<in> set qs'. queue_inv GM mem q \<and> (is_ready q \<longrightarrow> features_ok status)" by auto
qed

end

text \<open>The transport that a restore builds on the fresh transport \<open>t0\<close>.\<close>

definition restored_transport ::
    "'d mmio_transport \<Rightarrow> transport_state \<Rightarrow> 'd \<Rightarrow> queue list \<Rightarrow> 'd mmio_transport" where
  "restored_transport t0 s d queues =
     t0\<lparr>t_driver_features := ts_driver_features s, t_device := d, t_queues := queues,
        t_status := ts_status s, t_device_features_sel := ts_device_features_sel s,
        t_driver_features_sel := ts_driver_features_sel s, t_queue_sel := ts_queue_sel s,
        t_interrupt_status := ts_interrupt_status s, t_config_generation := ts_config_generation s\<rparr>"

lemma transport_restore_iff:
  assumes new: "transport_new VD d = Inr t0"
    and act: "(if driver_ok (ts_status s) then dev_activate VD (ts_driver_features s) (t_device t0)
               else (Inr (), t_device t0)) = (r, d')"
  shows "transport_restore GM VD d s mem = Inr t \<longleftrightarrow>
    status_ok (ts_status s) \<and> length (ts_queues s) = length (t_queues t0) \<and>
    ts_interrupt_status s AND NOT INTERRUPT_KNOWN = 0 \<and>
    (features_ok (ts_status s) \<longrightarrow> features_accepted VD (t0\<lparr>t_driver_features := ts_driver_features s\<rparr>)) \<and>
    (\<exists>queues. restore_queues GM mem (ts_status s) 0 (t_queues t0) (ts_queues s) = Inr queues \<and>
       r = Inr () \<and> t = restored_transport t0 s d' queues)"
proof (cases "from_bits (ts_status s)")
  case (Inl e)
  then have "\<not> status_ok (ts_status s)" using from_bits_iff[of "ts_status s" "ts_status s"] by auto
  then show ?thesis using Inl new by (simp add: transport_restore_def)
next
  case (Inr st)
  then have st: "st = ts_status s" "status_ok (ts_status s)" by (auto simp: from_bits_iff)
  show ?thesis
    using act unfolding transport_restore_def new Inr st(1) Let_def
    by (auto simp: and_then_Inr_iff st(2) restored_transport_def check_features_def
        features_accepted_def transport_err_def Let_def split: if_splits)
qed

lemma transport_restore_device:
  assumes "transport_restore GM VD d s mem = Inr t"
  shows "t_device t = d \<or> t_device t = snd (dev_activate VD (ts_driver_features s) d)"
proof -
  from assms obtain t0 where t0: "transport_new VD d = Inr t0" by (auto simp: transport_restore_def and_then_Inr_iff)
  obtain r d' where act: "(if driver_ok (ts_status s) then dev_activate VD (ts_driver_features s) (t_device t0)
      else (Inr (), t_device t0)) = (r, d')" by fastforce
  then have "t_device t = d'" using assms[unfolded transport_restore_iff[OF t0 act]]
    by (auto simp: restored_transport_def)
  then show ?thesis using act transport_new_Inr(2)[OF t0] by (auto split: if_splits)
qed

context transport_model
begin

lemma transport_restore_Inr:
  assumes "valid mem" "transport_restore GM VD d s mem = Inr t"
  shows "tinv mem t" "transport_state_of t = s" "device_face VD (t_device t) = device_face VD d"
proof -
  from assms(2) obtain t0 where t0: "transport_new VD d = Inr t0"
    by (auto simp: transport_restore_def and_then_Inr_iff)
  obtain r d' where act: "(if driver_ok (ts_status s) then dev_activate VD (ts_driver_features s) (t_device t0)
      else (Inr (), t_device t0)) = (r, d')" by fastforce
  from assms(2)[unfolded transport_restore_iff[OF t0 act]] obtain queues where
    st: "status_ok (ts_status s)" and len: "length (ts_queues s) = length (t_queues t0)"
    and irq: "ts_interrupt_status s AND NOT INTERRUPT_KNOWN = 0"
    and feat: "features_ok (ts_status s) \<Longrightarrow>
      features_accepted VD (t0\<lparr>t_driver_features := ts_driver_features s\<rparr>)"
    and qs: "restore_queues GM mem (ts_status s) 0 (t_queues t0) (ts_queues s) = Inr queues"
    and t: "t = restored_transport t0 s d' queues" by blast
  note n = transport_new_Inr(1)[OF t0, of GM mem] transport_new_Inr(2)[OF t0]
  have face: "device_face VD d' = device_face VD d"
    using act n(2) face_activate[of "ts_driver_features s" d] by (auto split: if_splits)
  have R: "list_all2 (\<lambda>q s'. (qs_ready s' \<longrightarrow> features_ok (ts_status s)) \<and> state_ok GM mem (q_max_size q) s')
      (t_queues t0) (ts_queues s)"
    "queues = map2 (\<lambda>q s. restored_queue (q_max_size q) s) (t_queues t0) (ts_queues s)"
    using qs restore_queues_iff[OF assms(1)] len by auto
  note L = restored_list[OF len[symmetric] R(1), folded R(2)]
  have "features_ok (ts_status s) \<Longrightarrow> features_accepted VD t"
    using feat face n(2) by (simp add: t restored_transport_def features_accepted_def device_face_def)
  then show "tinv mem t"
    using n(1) L(1,3) st irq face
    by (simp add: t restored_transport_def transport_inv_def device_face_def n(2))
  show "transport_state_of t = s" using L(2) by (simp add: t restored_transport_def transport_state_of_def)
  show "device_face VD (t_device t) = device_face VD d" by (simp add: t restored_transport_def face)
qed

text \<open>A captured transport restores, when its queues kept the geometry they were activated with.\<close>

lemma transport_capture_restore_ok:
  assumes "valid mem" "tinv mem t" "transport_new VD d = Inr t0"
    and face: "device_face VD d = device_face VD (t_device t)"
    and synced: "\<forall>q \<in> set (t_queues t). q_layout q = None \<or> q_layout q = Some (state_layout (queue_state_of q))"
    and act: "driver_ok (t_status t) \<Longrightarrow> fst (dev_activate VD (t_driver_features t) d) = Inr ()"
  shows "\<exists>t'. transport_restore GM VD d (transport_state_of t) mem = Inr t' \<and>
    t_queues t' = map (\<lambda>q. q\<lparr>q_violations := replicate 9 0\<rparr>) (t_queues t)"
proof -
  let ?s = "transport_state_of t"
  note n = transport_new_Inr(1)[OF assms(3), of GM mem] transport_new_Inr(2)[OF assms(3)]
  have maxes: "map q_max_size (t_queues t0) = map q_max_size (t_queues t)"
    using n(1,2) assms(2) face by (simp add: transport_inv_def device_face_def)
  then have len: "length (t_queues t0) = length (t_queues t)" by (rule map_eq_imp_length_eq)
  have "list_all2 (\<lambda>q s'. (qs_ready s' \<longrightarrow> features_ok (t_status t)) \<and> state_ok GM mem (q_max_size q) s')
      (t_queues t0) (map queue_state_of (t_queues t)) \<and>
      map2 (\<lambda>q s. restored_queue (q_max_size q) s) (t_queues t0) (map queue_state_of (t_queues t)) =
        map (\<lambda>q. q\<lparr>q_violations := replicate 9 0\<rparr>) (t_queues t)"
  proof -
    have one: "(qs_ready (queue_state_of q) \<longrightarrow> features_ok (t_status t)) \<and>
        state_ok GM mem (q_max_size q) (queue_state_of q) \<and>
        restored_queue (q_max_size q) (queue_state_of q) = q\<lparr>q_violations := replicate 9 0\<rparr>"
      if "q \<in> set (t_queues t)" for q
    proof -
      have "queue_inv GM mem q" "is_ready q \<longrightarrow> features_ok (t_status t)"
        using that assms(2) by (simp_all add: transport_inv_def)
      then show ?thesis using captured_state_ok[of GM mem q] synced that
        by (simp add: is_ready_def queue_state_of_def)
    qed
    have "(qs_ready (queue_state_of (t_queues t ! i)) \<longrightarrow> features_ok (t_status t)) \<and>
        state_ok GM mem (q_max_size (t_queues t0 ! i)) (queue_state_of (t_queues t ! i)) \<and>
        restored_queue (q_max_size (t_queues t0 ! i)) (queue_state_of (t_queues t ! i)) =
          (t_queues t ! i)\<lparr>q_violations := replicate 9 0\<rparr>" if "i < length (t_queues t)" for i
    proof -
      have "q_max_size (t_queues t0 ! i) = q_max_size (t_queues t ! i)"
        using that len maxes by (metis nth_map)
      then show ?thesis using one[OF nth_mem[OF that]] by simp
    qed
    then show ?thesis using len by (simp add: list_all2_conv_all_nth list_eq_iff_nth_eq)
  qed
  then have qs: "restore_queues GM mem (t_status t) 0 (t_queues t0) (map queue_state_of (t_queues t)) =
      Inr (map (\<lambda>q. q\<lparr>q_violations := replicate 9 0\<rparr>) (t_queues t))"
    using restore_queues_iff[OF assms(1), of "t_queues t0" "map queue_state_of (t_queues t)"] len by auto
  obtain r d' where rd: "(if driver_ok (ts_status ?s) then dev_activate VD (ts_driver_features ?s) (t_device t0)
      else (Inr (), t_device t0)) = (r, d')" by fastforce
  have r: "r = Inr ()" using rd act n(2) by (auto simp: transport_state_of_def split: if_splits)
  have "features_ok (t_status t) \<Longrightarrow> features_accepted VD (t0\<lparr>t_driver_features := t_driver_features t\<rparr>)"
    using assms(2) face n(2) by (simp add: transport_inv_def features_accepted_def device_face_def)
  then have "transport_restore GM VD d ?s mem = Inr (restored_transport t0 ?s d'
      (map (\<lambda>q. q\<lparr>q_violations := replicate 9 0\<rparr>) (t_queues t)))"
    unfolding transport_restore_iff[OF assms(3) rd]
    using assms(2) len qs r by (simp add: transport_state_of_def transport_inv_def)
  then show ?thesis by (simp add: restored_transport_def)
qed

end

end
