(* ===== verification/Segments.thy ===== *)
theory Segments
  imports VirtqChain
begin

text \<open>
  Bounded copies between the segments of a chain and host buffers
  (\<open>soma-kvm/src/virtio/devices/segments.rs\<close>). \<open>span\<close> is generic in the copy callback, whose
  captured state (the host buffer of a read, the guest memory of a write) is threaded
  explicitly, so a copy that fails half-way leaves what it had copied. The copies are shown to
  be exactly a gather and a scatter over the concatenated addresses of the segments.
\<close>

section \<open>The copies\<close>

text \<open>
  The loop over the segments. \<open>skip\<close> is the number of bytes still to skip and \<open>done'\<close> the number
  of bytes copied.
\<close>

fun span ::
    "chain_segment list \<Rightarrow> u64 \<Rightarrow> nat \<Rightarrow>
     (guest_address \<Rightarrow> nat \<Rightarrow> nat \<Rightarrow> 's \<Rightarrow> (guest_memory_error, unit, 's) mut_result) \<Rightarrow> nat \<Rightarrow> 's
     \<Rightarrow> (guest_memory_error, nat, 's) mut_result" where
  "span [] skip len copy done' s = (Inr done', s)"
| "span (seg # segs) skip len copy done' s =
     (if done' = len then (Inr done', s)
      else
        let segment_len = ucast (s_len seg) in
        if segment_len \<le> skip then span segs (skip - segment_len) len copy done' s
        else
          let start = skip;
              remaining = (if len - done' < 2 ^ 64 then of_nat (len - done') else - 1);
              taken = min (segment_len - start) remaining;
              taken_usize = unat taken in
          try_then (ok_or (Overflow (s_addr seg) start) (checked_add (s_addr seg) start), s) (\<lambda>addr s.
          try_then (copy addr done' (done' + taken_usize) s) (\<lambda>_ s.
          span segs 0 len copy (done' + taken_usize) s)))"

definition read_readable ::
    "'m guest_memory_ops \<Rightarrow> 'm \<Rightarrow> descriptor_chain \<Rightarrow> u64 \<Rightarrow> u8 list
     \<Rightarrow> (guest_memory_error, nat, u8 list) mut_result" where
  "read_readable GM mem chain skip buf =
     span (chain_readable chain) skip (length buf) (\<lambda>addr start stop buf.
       case read_bytes GM mem addr (stop - start) of
         Inl e \<Rightarrow> (Inl e, buf)
       | Inr bs \<Rightarrow> (Inr (), overwrite start bs buf)) 0 buf"

definition write_writable ::
    "'m guest_memory_ops \<Rightarrow> descriptor_chain \<Rightarrow> u64 \<Rightarrow> u8 list \<Rightarrow> 'm
     \<Rightarrow> (guest_memory_error, nat, 'm) mut_result" where
  "write_writable GM chain skip bytes mem =
     span (chain_writable chain) skip (length bytes) (\<lambda>addr start stop mem.
       case write_bytes GM mem addr (take (stop - start) (drop start bytes)) of
         Inl e \<Rightarrow> (Inl e, mem)
       | Inr mem' \<Rightarrow> (Inr (), mem')) 0 mem"

section \<open>Gather and scatter\<close>

definition seg_addrs :: "chain_segment \<Rightarrow> nat list" where
  "seg_addrs s = [unat (s_addr s)..<unat (s_addr s) + unat (s_len s)]"

definition segs_addrs :: "chain_segment list \<Rightarrow> nat list" where
  "segs_addrs segs = concat (map seg_addrs segs)"

text \<open>A segment that the memory accepts.\<close>

definition seg_ok :: "'m guest_memory_ops \<Rightarrow> 'm \<Rightarrow> chain_segment \<Rightarrow> bool" where
  "seg_ok GM mem s \<longleftrightarrow> unat (s_addr s) + unat (s_len s) < 2 ^ 64 \<and>
     check_range GM mem (s_addr s) (ucast (s_len s)) = Inr ()"

lemma segs_addrs_simps [simp]:
  "segs_addrs [] = []" "segs_addrs (s # segs) = seg_addrs s @ segs_addrs segs"
  by (simp_all add: segs_addrs_def)

lemma length_seg_addrs [simp]: "length (seg_addrs s) = unat (s_len s)"
  by (simp add: seg_addrs_def)

lemma length_segs_addrs: "length (segs_addrs segs) = seg_bytes segs"
  by (induction segs) auto

lemma map_upds_append:
  "m(xs @ ys [\<mapsto>] vs) = (m(xs [\<mapsto>] take (length xs) vs))(ys [\<mapsto>] drop (length xs) vs)"
  by (simp add: map_upds_def zip_append1)

lemma map_upds_interval:
  assumes "length vs = n"
  shows "m([a..<a + n] [\<mapsto>] vs) = (\<lambda>x. if a \<le> x \<and> x < a + n then Some (vs ! (x - a)) else m x)"
  using assms
proof (induction n arbitrary: vs)
  case (Suc n)
  then obtain ws v where vs: "vs = ws @ [v]" "length ws = n" by (metis length_Suc_conv_rev)
  have "m([a..<a + Suc n] [\<mapsto>] vs) = (m([a..<a + n] [\<mapsto>] ws))(a + n \<mapsto> v)"
    using map_upds_append[of m "[a..<a + n]" "[a + n]" vs] vs by simp
  also have "\<dots> = (\<lambda>x. if a \<le> x \<and> x < a + Suc n then Some (vs ! (x - a)) else m x)"
    using vs by (auto simp: Suc.IH[OF vs(2)] nth_append fun_eq_iff)
  finally show ?case .
qed (auto simp: fun_eq_iff)

lemma drop_seg_addrs:
  "drop k (seg_addrs s) = [unat (s_addr s) + k..<unat (s_addr s) + unat (s_len s)]"
  by (simp add: seg_addrs_def)

lemma seg_ok_cong: "check_range GM mem' = check_range GM mem \<Longrightarrow> seg_ok GM mem' s = seg_ok GM mem s"
  by (simp add: seg_ok_def)

text \<open>One round of \<open>span\<close> on a segment that is not skipped, with the arithmetic done.\<close>

lemma span_round:
  assumes "seg_ok GM mem seg" "\<not> ucast (s_len seg) \<le> skip" "done' < len" "len < 2 ^ 64"
  defines "k \<equiv> min (unat (s_len seg) - unat skip) (len - done')"
  shows "span (seg # segs) skip len copy done' s =
      try_then (copy (s_addr seg + skip) done' (done' + k) s) (\<lambda>_ s. span segs 0 len copy (done' + k) s)"
    "unat (s_addr seg + skip) = unat (s_addr seg) + unat skip" "unat skip < unat (s_len seg)"
proof -
  have lt: "unat skip < unat (s_len seg)"
    using assms(2) by (simp add: not_le word_less_nat_alt unat_ucast_up)
  then have sum: "unat (s_addr seg) + unat skip < 2 ^ 64" using assms(1) by (simp add: seg_ok_def)
  have sub: "unat (ucast (s_len seg) - skip) = unat (s_len seg) - unat skip"
    using assms(2) by (simp add: unat_sub unat_ucast_up)
  have small: "len - done' < 2 ^ 64" using assms(4) by linarith
  then have rem: "unat (of_nat (len - done') :: u64) = len - done'" by (simp add: unat_of_nat)
  have "unat (min (ucast (s_len seg) - skip) (of_nat (len - done'))) = k"
    using sub rem by (simp add: k_def min_def word_le_nat_alt)
  then show "span (seg # segs) skip len copy done' s =
      try_then (copy (s_addr seg + skip) done' (done' + k) s) (\<lambda>_ s. span segs 0 len copy (done' + k) s)"
    using assms(2,3) sum small by (simp add: Let_def checked_add_def)
  show "unat (s_addr seg + skip) = unat (s_addr seg) + unat skip"
    using sum by (simp add: unat_add_no_overflow)
  show "unat skip < unat (s_len seg)" by (rule lt)
qed

lemma span_done: "span segs skip len copy len s = (Inr len, s)"
  by (cases segs) simp_all

lemma span_skip:
  "\<lbrakk>done' \<noteq> len; ucast (s_len seg) \<le> skip\<rbrakk> \<Longrightarrow>
     span (seg # segs) skip len copy done' s = span segs (skip - ucast (s_len seg)) len copy done' s"
  by simp

declare span.simps(2) [simp del]

lemma unat_skip_rest:
  fixes skip :: u64
  assumes "ucast (s_len seg) \<le> skip"
  shows "drop (unat skip) (segs_addrs (seg # segs)) = drop (unat (skip - ucast (s_len seg))) (segs_addrs segs)"
  using assms by (simp add: unat_sub unat_ucast_up word_le_nat_alt)

text \<open>
  Scattering into one partly skipped segment and then into the rest is scattering into both:
  when the segment is not filled, nothing is left for the rest.
\<close>

lemma scatter_round:
  assumes "skip < unat (s_len seg)" "done' < len" "len = length bytes"
  defines "k \<equiv> min (unat (s_len seg) - skip) (len - done')"
  shows "f(drop skip (segs_addrs (seg # segs)) [\<mapsto>] drop done' bytes) =
    (f([unat (s_addr seg) + skip..<unat (s_addr seg) + skip + k] [\<mapsto>] take k (drop done' bytes)))
      (segs_addrs segs [\<mapsto>] drop (done' + k) bytes)"
proof -
  let ?a = "unat (s_addr seg) + skip"
  define n where "n = unat (s_len seg) - skip"
  have A: "drop skip (segs_addrs (seg # segs)) = [?a..<?a + n] @ segs_addrs segs"
    using assms(1) by (simp add: drop_seg_addrs n_def)
  show ?thesis
  proof (cases "n \<le> len - done'")
    case True
    then have "k = n" by (simp add: k_def n_def)
    then show ?thesis unfolding A by (simp add: map_upds_append add.commute)
  next
    case False
    then have k: "k = length (drop done' bytes)" "k \<le> n" using assms(3) by (auto simp: k_def n_def)
    have "[?a..<?a + n] = [?a..<?a + k] @ [?a + k..<?a + n]"
      using k(2) by (metis add_le_cancel_left le_add1 upt_add_eq_append le_Suc_ex)
    then have "f([?a..<?a + n] @ segs_addrs segs [\<mapsto>] drop done' bytes) = f([?a..<?a + k] [\<mapsto>] drop done' bytes)"
      using k by (simp add: map_upds_append)
    then show ?thesis unfolding A using k by simp
  qed
qed

lemma overwrite_append:
  assumes "n + length xs + length ys \<le> length buf"
  shows "overwrite (n + length xs) ys (overwrite n xs buf) = overwrite n (xs @ ys) buf"
proof -
  have "take n buf @ xs = take (n + length xs) (take n buf @ xs @ drop (n + length xs) buf)"
    using assms by simp
  then show ?thesis using assms by (simp add: overwrite_def add.assoc add.commute add.left_commute)
qed

lemma gather_round:
  assumes "skip < unat (s_len seg)" "done' < len" "length buf = len"
  defines "k \<equiv> min (unat (s_len seg) - skip) (len - done')"
    and "a \<equiv> unat (s_addr seg) + skip"
  shows "overwrite (done' + k) (take (len - (done' + k)) (map f (segs_addrs segs)))
      (overwrite done' (map (\<lambda>i. f (unat (s_addr seg) + skip + i)) [0..<k]) buf) =
    overwrite done' (take (len - done') (map f (drop skip (segs_addrs (seg # segs))))) buf"
proof -
  define n where "n = unat (s_len seg) - skip"
  have A: "drop skip (segs_addrs (seg # segs)) = [a..<a + n] @ segs_addrs segs"
    using assms(1) by (simp add: drop_seg_addrs n_def a_def)
  define xs where "xs = map (\<lambda>i. f (unat (s_addr seg) + skip + i)) [0..<k]"
  have xs: "xs = take k (map f [a..<a + n])"
    by (rule nth_equalityI) (auto simp: xs_def k_def n_def a_def)
  have len: "length xs = k" by (simp add: xs_def)
  have k: "k = min n (len - done')" by (simp add: k_def n_def)
  have "take (len - done') (map f ([a..<a + n] @ segs_addrs segs)) =
      xs @ take (len - (done' + k)) (map f (segs_addrs segs))"
    using k assms(2) by (auto simp: xs min_def)
  moreover have "done' + length xs + length (take (len - (done' + k)) (map f (segs_addrs segs))) \<le> length buf"
    using assms(2,3) k len by (auto simp: min_def)
  ultimately show ?thesis using overwrite_append[of done' xs] len unfolding A xs_def[symmetric] by metis
qed

context guest_memory
begin

lemma seg_sub_range:
  assumes "valid mem" "seg_ok GM mem seg" "unat skip + k \<le> unat (s_len seg)"
    and "unat (s_addr seg + skip) = unat (s_addr seg) + unat skip"
  shows "check_range GM mem (s_addr seg + skip) (of_nat k) = Inr ()"
proof -
  have "k < 2 ^ 64" using assms(3) unat_u32_less[of "s_len seg"] by simp
  then show ?thesis
    using assms range_sub[OF assms(1), of "s_addr seg" "ucast (s_len seg)" "s_addr seg + skip" "of_nat k"]
    by (simp add: seg_ok_def unat_of_nat unat_ucast_up)
qed

lemma span_write:
  fixes skip :: u64
  assumes "valid mem" "\<forall>s \<in> set segs. seg_ok GM mem s" "length bytes < 2 ^ 64" "done' \<le> length bytes"
  defines "copy \<equiv> \<lambda>addr start stop mem. case write_bytes GM mem addr (take (stop - start) (drop start bytes)) of
         Inl e \<Rightarrow> (Inl e, mem) | Inr mem' \<Rightarrow> (Inr (), mem')"
    and "A \<equiv> drop (unat skip) (segs_addrs segs)"
  shows "\<exists>mem'. span segs skip (length bytes) copy done' mem =
      (Inr (done' + min (length bytes - done') (length A)), mem') \<and> valid mem' \<and>
      check_range GM mem' = check_range GM mem \<and>
      byte mem' = (byte mem)(A [\<mapsto>] drop done' bytes)"
  using assms(1,2,4) unfolding A_def
proof (induction segs arbitrary: skip done' mem)
  case (Cons seg segs)
  show ?case
  proof (cases "done' = length bytes \<or> ucast (s_len seg) \<le> skip")
    case True
    then consider "done' = length bytes" | "done' \<noteq> length bytes" "ucast (s_len seg) \<le> skip" by blast
    then show ?thesis
    proof cases
      case 1
      then show ?thesis using Cons.prems by (simp add: span_done)
    next
      case 2
      then show ?thesis unfolding span_skip[OF 2]
        using Cons.IH[of mem done' "skip - ucast (s_len seg)"] Cons.prems unat_skip_rest[OF 2(2), of segs]
        by simp
    qed
  next
    case False
    then have lt: "done' < length bytes" and ns: "\<not> ucast (s_len seg) \<le> skip" using Cons.prems(3) by auto
    define k where "k = min (unat (s_len seg) - unat skip) (length bytes - done')"
    have ok: "seg_ok GM mem seg" using Cons.prems by simp
    note r = span_round[OF ok ns lt assms(3), folded k_def]
    define bs where "bs = take k (drop done' bytes)"
    have len: "length bs = k" by (simp add: bs_def k_def)
    have rng: "check_range GM mem (s_addr seg + skip) (of_nat (length bs)) = Inr ()"
      unfolding len by (rule seg_sub_range[OF Cons.prems(1) ok _ r(2)]) (use r(3) in \<open>simp add: k_def\<close>)
    have blen: "length bs < 2 ^ 64" using assms(3) len by (simp add: k_def)
    from write_ok[OF Cons.prems(1) blen rng] obtain m1 where
      m1: "write_bytes GM mem (s_addr seg + skip) bs = Inr m1" by blast
    note w = write_bytes_Inr[OF Cons.prems(1) blen m1]
    have b1: "byte m1 = (byte mem)([unat (s_addr seg) + unat skip..<unat (s_addr seg) + unat skip + k] [\<mapsto>] bs)"
      by (subst map_upds_interval[OF len]) (simp add: fun_eq_iff w(3) r(2) len)
    have c: "copy (s_addr seg + skip) done' (done' + k) mem = (Inr (), m1)"
      using m1 by (simp add: copy_def bs_def)
    have "done' + k \<le> length bytes" using lt by (simp add: k_def)
    with Cons.IH[of m1 "done' + k" 0] Cons.prems w(1,2) seg_ok_cong[OF w(2)] obtain m2 where
      m2: "span segs 0 (length bytes) copy (done' + k) m1 =
        (Inr (done' + k + min (length bytes - (done' + k)) (length (segs_addrs segs))), m2)" "valid m2"
        "check_range GM m2 = check_range GM m1"
        "byte m2 = (byte m1)(segs_addrs segs [\<mapsto>] drop (done' + k) bytes)" by auto
    have "(byte mem)(drop (unat skip) (segs_addrs (seg # segs)) [\<mapsto>] drop done' bytes) = byte m2"
      using scatter_round[OF r(3) lt refl, where f="byte mem" and segs=segs, folded k_def] b1 m2(4)
      by (simp only: bs_def)
    moreover have "done' + k + min (length bytes - (done' + k)) (length (segs_addrs segs)) =
        done' + min (length bytes - done') (length (drop (unat skip) (segs_addrs (seg # segs))))"
      using r(3) lt by (auto simp: k_def min_def)
    ultimately show ?thesis using c m2 w(2) unfolding r(1) by simp
  qed
qed simp

text \<open>The bytes at a list of addresses.\<close>

abbreviation bytes_at :: "'m \<Rightarrow> nat list \<Rightarrow> u8 list" where
  "bytes_at mem A \<equiv> map (\<lambda>x. the (byte mem x)) A"

lemma span_read:
  fixes skip :: u64
  assumes "valid mem" "\<forall>s \<in> set segs. seg_ok GM mem s" "length buf < 2 ^ 64" "done' \<le> length buf"
    and "length buf = len"
  defines "copy \<equiv> \<lambda>addr start stop buf. case read_bytes GM mem addr (stop - start) of
         Inl e \<Rightarrow> (Inl e, buf) | Inr bs \<Rightarrow> (Inr (), overwrite start bs buf)"
    and "A \<equiv> drop (unat skip) (segs_addrs segs)"
  shows "span segs skip len copy done' buf =
      (Inr (done' + min (len - done') (length A)),
       overwrite done' (take (len - done') (bytes_at mem A)) buf)"
  using assms(2,3,4,5) unfolding A_def
proof (induction segs arbitrary: skip done' buf)
  case Nil
  then show ?case by (simp add: overwrite_def)
next
  case (Cons seg segs)
  show ?case
  proof (cases "done' = len")
    case True
    then show ?thesis using Cons.prems by (simp add: span_done overwrite_def)
  next
    case nd: False
    then have lt: "done' < len" using Cons.prems by simp
    show ?thesis
    proof (cases "ucast (s_len seg) \<le> skip")
      case True
      then show ?thesis unfolding span_skip[OF nd True]
        using Cons.IH[of buf done' "skip - ucast (s_len seg)"] Cons.prems unat_skip_rest[OF True, of segs] nd
        by simp
    next
      case ns: False
      define k where "k = min (unat (s_len seg) - unat skip) (len - done')"
      have ok: "seg_ok GM mem seg" using Cons.prems by simp
      have len64: "len < 2 ^ 64" using Cons.prems by simp
      note r = span_round[OF ok ns lt len64, folded k_def]
      have k64: "k < 2 ^ 64" using len64 by (simp add: k_def)
      have rng: "check_range GM mem (s_addr seg + skip) (of_nat k) = Inr ()"
        by (rule seg_sub_range[OF assms(1) ok _ r(2)]) (use r(3) in \<open>simp add: k_def\<close>)
      define bs where "bs = map (\<lambda>i. the (byte mem (unat (s_addr seg) + unat skip + i))) [0..<k]"
      have rd: "read_bytes GM mem (s_addr seg + skip) k = Inr bs"
        using read_ok[OF assms(1) k64 rng] r(2) by (simp add: bs_def)
      let ?buf = "overwrite done' bs buf"
      have fits: "done' + k \<le> len" using lt by (simp add: k_def)
      have buf: "length ?buf = len" using fits Cons.prems by (simp add: overwrite_def bs_def)
      have "span segs 0 len copy (done' + k) ?buf =
          (Inr (done' + k + min (len - (done' + k)) (length (segs_addrs segs))),
           overwrite (done' + k) (take (len - (done' + k)) (bytes_at mem (segs_addrs segs))) ?buf)"
        using Cons.IH[of ?buf "done' + k" 0] Cons.prems buf fits len64 by simp
      moreover have "copy (s_addr seg + skip) done' (done' + k) buf = (Inr (), ?buf)"
        using rd by (simp add: copy_def)
      moreover have "overwrite (done' + k) (take (len - (done' + k)) (bytes_at mem (segs_addrs segs))) ?buf =
          overwrite done' (take (len - done') (bytes_at mem (drop (unat skip) (segs_addrs (seg # segs))))) buf"
        unfolding bs_def k_def
        by (rule gather_round[OF r(3) lt Cons.prems(4)])
      moreover have "done' + k + min (len - (done' + k)) (length (segs_addrs segs)) =
          done' + min (len - done') (length (drop (unat skip) (segs_addrs (seg # segs))))"
        using r(3) lt by (auto simp: k_def min_def)
      ultimately show ?thesis unfolding r(1) by simp
    qed
  qed
qed

end

section \<open>What a device sees of a chain\<close>

text \<open>
  The device-readable bytes of a chain, in order, and the addresses of its device-writable
  bytes. Segments may overlap: a later segment then overwrites an earlier one.
\<close>

definition readable_data :: "(nat \<Rightarrow> u8 option) \<Rightarrow> descriptor_chain \<Rightarrow> u8 list" where
  "readable_data b c = map (\<lambda>x. the (b x)) (segs_addrs (chain_readable c))"

definition writable_addrs :: "descriptor_chain \<Rightarrow> nat list" where
  "writable_addrs c = segs_addrs (chain_writable c)"

lemma length_readable_data: "length (readable_data b c) = seg_bytes (chain_readable c)"
  and length_writable_addrs: "length (writable_addrs c) = seg_bytes (chain_writable c)"
  by (simp_all add: readable_data_def writable_addrs_def length_segs_addrs)

lemma chain_wf_lens:
  "chain_wf GM mem c \<Longrightarrow> length (readable_data b c) = unat (c_readable_len c)"
  "chain_wf GM mem c \<Longrightarrow> length (writable_addrs c) = unat (c_writable_len c)"
  by (simp_all add: chain_wf_def length_readable_data length_writable_addrs)

lemma chain_wf_seg_ok:
  assumes "chain_wf GM mem c"
  shows "\<forall>s \<in> set (chain_readable c). seg_ok GM mem s" "\<forall>s \<in> set (chain_writable c). seg_ok GM mem s"
  using assms by (auto simp: chain_wf_def seg_ok_def chain_readable_def chain_writable_def)

lemma chain_wf_cong:
  "check_range GM mem' = check_range GM mem \<Longrightarrow> chain_wf GM mem' c = chain_wf GM mem c"
  by (simp add: chain_wf_def)

context guest_memory
begin

lemma read_readable_ok:
  fixes skip :: u64
  assumes "valid mem" "chain_wf GM mem c" "length buf < 2 ^ 64"
  defines "data \<equiv> drop (unat skip) (readable_data (byte mem) c)"
  shows "read_readable GM mem c skip buf =
    (Inr (min (length buf) (length data)), take (length buf) data @ drop (length data) buf)"
  using span_read[OF assms(1) chain_wf_seg_ok(1)[OF assms(2)] assms(3) le0 refl, of skip]
  by (simp add: read_readable_def data_def readable_data_def overwrite_def drop_map min_def)

lemma write_writable_ok:
  fixes skip :: u64
  assumes "valid mem" "chain_wf GM mem c" "length bytes < 2 ^ 64"
  defines "A \<equiv> drop (unat skip) (writable_addrs c)"
  obtains mem' where "write_writable GM c skip bytes mem = (Inr (min (length bytes) (length A)), mem')"
    "valid mem'" "check_range GM mem' = check_range GM mem" "byte mem' = (byte mem)(A [\<mapsto>] bytes)"
  using span_write[OF assms(1) chain_wf_seg_ok(2)[OF assms(2)] assms(3) le0, of skip]
  by (auto simp: write_writable_def A_def writable_addrs_def)

end

section \<open>Properties\<close>

text \<open>
  Reading a validated chain gathers: whatever the split into segments, the copy returns
  the readable bytes in order after the skipped ones, as many as the buffer takes, and leaves
  the rest of the buffer as it was. The read never fails.
\<close>

lemma read_readable_gathers:
  assumes "guest_memory GM valid byte" "valid mem" "chain_wf GM mem c" "length buf < 2 ^ 64"
  shows "let data = drop (unat skip) (readable_data (byte mem) c) in
    read_readable GM mem c skip buf =
      (Inr (min (length buf) (length data)), take (length buf) data @ drop (length data) buf)"
  using guest_memory.read_readable_ok[OF assms] by (simp add: Let_def)

definition sample_chain :: descriptor_chain where
  "sample_chain = \<lparr>c_head = 0, c_segments =
     [\<lparr>s_addr = 2, s_len = 2, s_writable = False\<rparr>, \<lparr>s_addr = 6, s_len = 1, s_writable = False\<rparr>,
      \<lparr>s_addr = 4, s_len = 2, s_writable = True\<rparr>], c_readable_len = 3, c_writable_len = 2\<rparr>"

definition sample_bytes :: vec_guest_memory where
  "sample_bytes = [\<lparr>r_start = 0, r_bytes = [10, 11, 12, 13, 14, 15, 16, 17]\<rparr>]"

lemma sample_chain_ok: "vec_valid sample_bytes" "chain_wf vec_ops sample_bytes sample_chain"
  by (simp_all add: vec_valid_def sample_bytes_def sample_chain_def chain_wf_def chain_readable_def
      chain_writable_def vec_ops_def vec_check_range_def vec_locate_def checked_add_def region_end_def)

lemma sample_chain_views:
  "readable_data (vec_byte sample_bytes) sample_chain = [12, 13, 16]"
  "writable_addrs sample_chain = [4, 5]"
  by (simp_all add: readable_data_def writable_addrs_def segs_addrs_def seg_addrs_def chain_readable_def
      chain_writable_def sample_chain_def sample_bytes_def upt_rec)

text \<open>
  Writing a validated chain scatters: the bytes go to the writable addresses after the
  skipped ones, in order, as many as fit, and no other byte of guest memory changes. The write
  never fails and reports how many bytes it wrote.
\<close>

lemma write_writable_scatters:
  assumes "guest_memory GM valid byte" "valid mem" "chain_wf GM mem c" "length bytes < 2 ^ 64"
  shows "let A = drop (unat skip) (writable_addrs c) in
    \<exists>mem'. write_writable GM c skip bytes mem = (Inr (min (length bytes) (length A)), mem') \<and>
      valid mem' \<and> check_range GM mem' = check_range GM mem \<and> byte mem' = (byte mem)(A [\<mapsto>] bytes)"
  using guest_memory.write_writable_ok[OF assms, of skip] unfolding Let_def by metis

end
