(* ===== verification/Service.thy ===== *)
theory Service
  imports TransportSnapshot Segments
begin

text \<open>
  Bounded servicing of one queue (\<open>soma-kvm/src/virtio/devices/service.rs\<close>): pop a chain, hand
  it to the device, publish the used length, at most \<open>budget\<close> times. The device is a parameter:
  the trait \<open>ChainHandler\<close> as a record of operations, and its contract as the locale
  \<open>service_model\<close>, which every device of the development interprets.
\<close>

section \<open>Data\<close>

datatype device_fault = FaultMemory guest_memory_error | FaultBackend | FaultProtocol

record ('d, 'm) chain_handler =
  handler_limits :: "'d \<Rightarrow> u16 \<Rightarrow> chain_limits"
  handle_chain :: "u16 \<Rightarrow> descriptor_chain \<Rightarrow> 'd \<times> 'm \<Rightarrow> (device_fault, u32, 'd \<times> 'm) mut_result"

record service_report =
  sr_completed :: u32
  sr_rejected :: u32
  sr_interrupt :: bool
  sr_exhausted :: bool

datatype service_error =
    ServiceTransport transport_violation
  | ServiceQueue queue_violation
  | ServiceFault device_fault

definition service_report_default :: service_report where
  "service_report_default =
     \<lparr>sr_completed = 0, sr_rejected = 0, sr_interrupt = False, sr_exhausted = False\<rparr>"

text \<open>\<open>u32::try_from(n).unwrap_or(u32::MAX)\<close>.\<close>

definition u32_or_max :: "nat \<Rightarrow> u32" where
  "u32_or_max n = (if n < 2 ^ 32 then of_nat n else - 1)"

lemma u32_or_max_small [simp]: "n < 2 ^ 32 \<Longrightarrow> u32_or_max n = of_nat n"
  by (simp add: u32_or_max_def)

section \<open>The loop\<close>

definition queue_at :: "'d mmio_transport \<Rightarrow> u16 \<Rightarrow> queue option" where
  "queue_at t index = (if unat index < length (t_queues t) then Some (t_queues t ! unat index) else None)"

definition set_queue :: "u16 \<Rightarrow> queue \<Rightarrow> 'd mmio_transport \<Rightarrow> 'd mmio_transport" where
  "set_queue index q t = t\<lparr>t_queues := (t_queues t)[unat index := q]\<rparr>"

definition has_pending ::
    "'m guest_memory_ops \<Rightarrow> 'm \<Rightarrow> u16 \<Rightarrow> 'd mmio_transport
     \<Rightarrow> (service_error, bool, 'd mmio_transport) mut_result" where
  "has_pending GM mem queue t =
     (case queue_at t queue of
        None \<Rightarrow> (Inr False, t)
      | Some ring \<Rightarrow>
          (case queue_pending GM mem ring of
             (Inr pending, ring) \<Rightarrow> (Inr (0 < pending), set_queue queue ring t)
           | (Inl violation, ring) \<Rightarrow>
               (Inl (ServiceQueue violation), set_needs_reset (set_queue queue ring t))))"

text \<open>
  One round of the loop with budget left. The flag of a successful round is true when the
  source returns the report, and false when the loop goes on.
\<close>

definition service_body ::
    "'m guest_memory_ops \<Rightarrow> ('d, 'm) chain_handler \<Rightarrow> u16 \<Rightarrow> service_report \<Rightarrow> 'd mmio_transport \<times> 'm
     \<Rightarrow> (service_error, bool \<times> service_report, 'd mmio_transport \<times> 'm) mut_result" where
  "service_body GM CH queue report = (\<lambda>(t, mem).
     case queue_at t queue of
       None \<Rightarrow> (Inl (ServiceTransport (NotifyOutOfRange (ucast queue))), t, mem)
     | Some ring \<Rightarrow>
         (case pop_descriptor_chain GM mem (handler_limits CH (t_device t) queue) ring of
            (Inr None, ring) \<Rightarrow> (Inr (True, report), set_queue queue ring t, mem)
          | (Inl (Chain head violation), ring) \<Rightarrow>
              (Inr (False, report\<lparr>sr_rejected := saturating_add (sr_rejected report) 1\<rparr>),
               set_queue queue ring t, mem)
          | (Inl violation, ring) \<Rightarrow>
              (Inl (ServiceQueue violation), set_needs_reset (set_queue queue ring t), mem)
          | (Inr (Some chain), ring) \<Rightarrow>
              let t = set_queue queue ring t;
                  (r, d, mem) = handle_chain CH queue chain (t_device t, mem);
                  t = t\<lparr>t_device := d\<rparr> in
              (case r of
                 Inl fault \<Rightarrow> (Inl (ServiceFault fault), set_needs_reset t, mem)
               | Inr len \<Rightarrow>
                   let (r, t, mem) = complete_used GM queue chain len (t, mem) in
                   (case r of
                      Inl violation \<Rightarrow> (Inl (ServiceTransport violation), set_needs_reset t, mem)
                    | Inr notify \<Rightarrow>
                        (Inr (False, report\<lparr>sr_interrupt := sr_interrupt report \<or> notify,
                           sr_completed := saturating_add (sr_completed report) 1\<rparr>), t, mem)))))"

text \<open>
  A loop of at most \<open>n\<close> rounds: a round that returns ends it, a round that goes on leaves the
  report for the next one, and \<open>finish\<close> is what the source does when the budget is used up.
\<close>

fun rounds ::
    "nat \<Rightarrow> (service_report \<Rightarrow> 's \<Rightarrow> (service_error, bool \<times> service_report, 's) mut_result)
     \<Rightarrow> (service_report \<Rightarrow> 's \<Rightarrow> (service_error, service_report, 's) mut_result)
     \<Rightarrow> service_report \<Rightarrow> 's \<Rightarrow> (service_error, service_report, 's) mut_result" where
  "rounds 0 body finish report st = finish report st"
| "rounds (Suc remaining) body finish report st =
     try_then (body report st) (\<lambda>(returns, report) st.
     if returns then (Inr report, st) else rounds remaining body finish report st)"

definition service_finish ::
    "'m guest_memory_ops \<Rightarrow> u16 \<Rightarrow> service_report \<Rightarrow> 'd mmio_transport \<times> 'm
     \<Rightarrow> (service_error, service_report, 'd mmio_transport \<times> 'm) mut_result" where
  "service_finish GM queue report = (\<lambda>(t, mem).
     case has_pending GM mem queue t of
       (Inl e, t) \<Rightarrow> (Inl e, t, mem)
     | (Inr exhausted, t) \<Rightarrow> (Inr (report\<lparr>sr_exhausted := exhausted\<rparr>), t, mem))"

definition service_queue ::
    "'m guest_memory_ops \<Rightarrow> ('d, 'm) chain_handler \<Rightarrow> u16 \<Rightarrow> u32 \<Rightarrow> 'd mmio_transport \<times> 'm
     \<Rightarrow> (service_error, service_report, 'd mmio_transport \<times> 'm) mut_result" where
  "service_queue GM CH queue budget = (\<lambda>(t, mem).
     if \<not> is_active t then (Inl (ServiceTransport NotifyBeforeDriverOk), t, mem)
     else rounds (unat budget) (service_body GM CH queue) (service_finish GM queue)
            service_report_default (t, mem))"

section \<open>What a round does\<close>

text \<open>The transport after the device was told to stop: no queue accepts work until a reset.\<close>

definition stopped :: "'d mmio_transport \<Rightarrow> bool" where
  "stopped t \<longleftrightarrow> has (t_status t) STATUS_DEVICE_NEEDS_RESET \<and> (\<forall>q \<in> set (t_queues t). \<not> is_ready q)"

text \<open>
  The cursors of one queue moved: \<open>a\<close> heads were taken and \<open>u\<close> chains published, and nothing
  else of the queue's configuration changed.
\<close>

definition moved :: "u16 \<Rightarrow> 'd mmio_transport \<Rightarrow> 'd mmio_transport \<Rightarrow> nat \<Rightarrow> nat \<Rightarrow> bool" where
  "moved queue t t' a u \<longleftrightarrow>
     t_status t' = t_status t \<and>
     (\<exists>q q'. queue_at t queue = Some q \<and> queue_at t' queue = Some q' \<and> same_config q q' \<and>
        q_next_avail q' = q_next_avail q + of_nat a \<and> q_next_used q' = q_next_used q + of_nat u)"

lemma set_needs_reset_stopped: "stopped (set_needs_reset t)"
proof -
  have "has (status_with (t_status t) 64) 64"
    by (simp add: has_def status_with_def bit_eq_iff)
  then show ?thesis by (auto simp: stopped_def set_needs_reset_def)
qed

lemma set_needs_reset_device [simp]: "t_device (set_needs_reset t) = t_device t"
  by (simp add: set_needs_reset_def)

lemma queue_at_set_queue [simp]:
  "queue_at t queue = Some q0 \<Longrightarrow> queue_at (set_queue queue q t) queue = Some q"
  by (auto simp: queue_at_def set_queue_def split: if_splits)

lemma set_queue_simps [simp]:
  "t_status (set_queue queue q t) = t_status t" "t_device (set_queue queue q t) = t_device t"
  "t_interrupt_status (set_queue queue q t) = t_interrupt_status t"
  "length (t_queues (set_queue queue q t)) = length (t_queues t)"
  by (simp_all add: set_queue_def)

lemma moved_trans:
  assumes "moved queue t t1 a u" "moved queue t1 t2 a' u'"
  shows "moved queue t t2 (a + a') (u + u')"
proof -
  from assms obtain q q1 q2 where "queue_at t queue = Some q" "queue_at t2 queue = Some q2"
    "same_config q q1" "same_config q1 q2" "t_status t2 = t_status t"
    "q_next_avail q1 = q_next_avail q + of_nat a" "q_next_avail q2 = q_next_avail q1 + of_nat a'"
    "q_next_used q1 = q_next_used q + of_nat u" "q_next_used q2 = q_next_used q1 + of_nat u'"
    unfolding moved_def by auto
  then show ?thesis unfolding moved_def using same_config_trans[of q q1 q2] by (auto simp: algebra_simps)
qed

text \<open>What a pop returns, by the kind of its result.\<close>

lemma walk_result_iff:
  "(case w of Inl v \<Rightarrow> queue_err (Chain h v) q | Inr c \<Rightarrow> (Inr (Some c), q)) = (Inr (Some c'), q')
     \<longleftrightarrow> w = Inr c' \<and> q' = q"
  "(case w of Inl v \<Rightarrow> queue_err (Chain h v) q | Inr c \<Rightarrow> (Inr (Some c), q)) \<noteq> (Inr None, q')"
  "(case w of Inl v \<Rightarrow> queue_err (Chain h v) q | Inr c \<Rightarrow> (Inr (Some c), q)) = (Inl (Chain h' v'), q')
     \<longleftrightarrow> h' = h \<and> w = Inl v' \<and> q' = queue_record (Chain h v') q"
  by (cases w; auto simp: queue_err_def)+

lemma queue_err_eq_iff: "queue_err v q = (Inl w, q') \<longleftrightarrow> w = v \<and> q' = queue_record v q"
  "queue_err v q \<noteq> (Inr x, q')"
  by (auto simp: queue_err_def)

lemma pop_Inr_Some:
  assumes "pop_descriptor_chain GM mem limits q = (Inr (Some c), q')"
  shows "chain_wf GM mem c" "is_ready q" "q_next_avail q' = q_next_avail q + 1" "q_next_used q' = q_next_used q"
  using assms
  by (auto simp: pop_descriptor_chain_def try_then_Inr_iff Let_def walk_result_iff is_ready_def
      dest!: queue_pending_Inr_same split: if_split_asm intro: walk_chain_InrD(1))

lemma pop_Inr_None:
  "pop_descriptor_chain GM mem limits q = (Inr None, q') \<Longrightarrow> q' = q"
  by (auto simp: pop_descriptor_chain_def try_then_Inr_iff Let_def walk_result_iff
      dest!: queue_pending_Inr_same split: if_split_asm)

lemma queue_pending_not_Chain: "fst (queue_pending GM mem q) \<noteq> Inl (Chain h v)"
proof -
  have no: "fst (try_then m f) \<noteq> Inl (Chain h v)"
    if "fst m \<noteq> Inl (Chain h v)" "\<And>x s. fst (f x s) \<noteq> Inl (Chain h v)" for m :: "(queue_violation, 'x, queue) mut_result"
      and f :: "'x \<Rightarrow> queue \<Rightarrow> (queue_violation, 'y, queue) mut_result"
    using that by (cases m; cases "fst m") auto
  have tried: "fst (queue_try g r q) \<noteq> Inl (Chain h v)" if "\<And>e. g e \<noteq> Chain h v"
    for g :: "'e \<Rightarrow> queue_violation" and r :: "'e + 'x" and q
    using that by (cases r) (auto simp: queue_err_def)
  show ?thesis
    unfolding queue_pending_def ready_layout_def ring_addr_def
    by (intro no tried) (auto simp: Let_def queue_err_def)
qed

lemma pop_Inl_Chain:
  assumes "pop_descriptor_chain GM mem limits q = (Inl (Chain h v), q')"
  shows "q_next_avail q' = q_next_avail q + 1" "q_next_used q' = q_next_used q"
proof -
  have "q_next_avail q' = q_next_avail q + 1 \<and> q_next_used q' = q_next_used q"
  proof (cases "queue_pending GM mem q")
    case (Pair r s)
    then have "r \<noteq> Inl (Chain h v)" using queue_pending_not_Chain[of GM mem q h v] by simp
    with Pair assms show ?thesis
      by (cases r)
         (auto simp: pop_descriptor_chain_def try_then_Inl_iff ready_layout_def ring_addr_def Let_def
            queue_try_def queue_err_eq_iff walk_result_iff
            dest!: queue_pending_Inr_same split: sum.split_asm if_split_asm)
  qed
  then show "q_next_avail q' = q_next_avail q + 1" "q_next_used q' = q_next_used q" by auto
qed

text \<open>
  What a round may do: take at most one head, publish it or drop it, and count it; or stop the
  device with an error that is not the transport's refusal.
\<close>

definition round_ok ::
    "u16 \<Rightarrow> service_report \<Rightarrow> 'd mmio_transport \<Rightarrow> service_error + (bool \<times> service_report) \<Rightarrow> 'd mmio_transport \<Rightarrow> bool" where
  "round_ok queue report t r t' \<longleftrightarrow>
     (case r of
        Inl e \<Rightarrow> (\<forall>v. e \<noteq> ServiceTransport v) \<and> stopped t'
      | Inr (returns, report') \<Rightarrow>
          (\<exists>a u. u \<le> a \<and> a \<le> 1 \<and> moved queue t t' a u \<and>
             sr_completed report' = (if u = 1 then saturating_add (sr_completed report) 1 else sr_completed report) \<and>
             sr_rejected report' = (if a - u = 1 then saturating_add (sr_rejected report) 1 else sr_rejected report)))"

lemma round_okI:
  "\<lbrakk>\<forall>v. e \<noteq> ServiceTransport v; stopped t'\<rbrakk> \<Longrightarrow> round_ok queue report t (Inl e) t'"
  "\<lbrakk>moved queue t t' 0 0; sr_completed report' = sr_completed report; sr_rejected report' = sr_rejected report\<rbrakk> \<Longrightarrow>
     round_ok queue report t (Inr (returns, report')) t'"
  "\<lbrakk>moved queue t t' 1 0; sr_completed report' = sr_completed report;
    sr_rejected report' = saturating_add (sr_rejected report) 1\<rbrakk> \<Longrightarrow>
     round_ok queue report t (Inr (returns, report')) t'"
  "\<lbrakk>moved queue t t' 1 1; sr_completed report' = saturating_add (sr_completed report) 1;
    sr_rejected report' = sr_rejected report\<rbrakk> \<Longrightarrow>
     round_ok queue report t (Inr (returns, report')) t'"
  unfolding round_ok_def
     apply simp
    apply (simp, rule exI[of _ 0], rule exI[of _ 0], simp)
   apply (simp, rule exI[of _ 1], rule exI[of _ 0], simp)
  apply (simp, rule exI[of _ 1], rule exI[of _ 1], simp)
  done

definition service_done :: "u16 \<Rightarrow> nat \<Rightarrow> service_report \<Rightarrow> 'd mmio_transport \<Rightarrow> service_report \<Rightarrow> 'd mmio_transport \<Rightarrow> bool" where
  "service_done queue n report t report' t' \<longleftrightarrow>
     (\<exists>a u. u \<le> a \<and> a \<le> n \<and> moved queue t t' a u \<and>
        unat (sr_completed report') = unat (sr_completed report) + u \<and>
        unat (sr_rejected report') = unat (sr_rejected report) + (a - u))"

lemma moved_active: "moved queue t t' a u \<Longrightarrow> is_active t' = is_active t"
  and moved_queue: "moved queue t t' a u \<Longrightarrow> \<exists>q. queue_at t' queue = Some q"
  by (auto simp: moved_def is_active_def)

lemma service_done_trans:
  assumes "moved queue t t1 a u" "u \<le> a" "service_done queue n report1 t1 report' t'"
    and "unat (sr_completed report1) = unat (sr_completed report) + u"
      "unat (sr_rejected report1) = unat (sr_rejected report) + (a - u)"
  shows "service_done queue (n + a) report t report' t'"
proof -
  from assms(3) obtain a' u' where "u' \<le> a'" "a' \<le> n" "moved queue t1 t' a' u'"
    "unat (sr_completed report') = unat (sr_completed report1) + u'"
    "unat (sr_rejected report') = unat (sr_rejected report1) + (a' - u')" unfolding service_done_def by blast
  then show ?thesis unfolding service_done_def using moved_trans[OF assms(1), of t' a' u'] assms(2,4,5)
    by (intro exI[of _ "a + a'"] exI[of _ "u + u'"]) auto
qed

lemma service_done_mono: "service_done queue n report t report' t' \<Longrightarrow> n \<le> m \<Longrightarrow> service_done queue m report t report' t'"
  unfolding service_done_def by (meson le_trans)

section \<open>Rounds add up\<close>

text \<open>
  Rounds that keep an invariant \<open>P\<close> of the loop's state and move the cursors of its transport
  \<open>tr\<close> as a round may add up, whatever the round and the finish do.
\<close>

lemma rounds_ok:
  assumes body: "\<And>report s q0 r s'. \<lbrakk>P s; is_active (tr s); queue_at (tr s) queue = Some q0;
      body report s = (r, s')\<rbrakk> \<Longrightarrow> P s' \<and> round_ok queue report (tr s) r (tr s')"
    and fin: "\<And>report s q0 r s'. \<lbrakk>P s; queue_at (tr s) queue = Some q0; fin report s = (r, s')\<rbrakk> \<Longrightarrow>
      P s' \<and> (case r of Inl e \<Rightarrow> (\<forall>v. e \<noteq> ServiceTransport v) \<and> stopped (tr s')
        | Inr report' \<Rightarrow> service_done queue 0 report (tr s) report' (tr s'))"
    and "P s" "is_active (tr s)" "queue_at (tr s) queue = Some q0"
    and "unat (sr_completed report) + unat (sr_rejected report) + n < 2 ^ 32"
    and "rounds n body fin report s = (r, s')"
  shows "P s' \<and> (case r of
      Inl e \<Rightarrow> (\<forall>v. e \<noteq> ServiceTransport v) \<and> stopped (tr s')
    | Inr report' \<Rightarrow> service_done queue n report (tr s) report' (tr s'))"
  using assms(3-)
proof (induction n arbitrary: s report q0)
  case 0
  then show ?case using fin[OF "0.prems"(1,3)] by simp
next
  case (Suc n)
  obtain rb s1 where b: "body report s = (rb, s1)" by fastforce
  have inv1: "P s1" and out: "round_ok queue report (tr s) rb (tr s1)" using body[OF Suc.prems(1-3) b] by auto
  show ?case
  proof (cases rb)
    case (Inl e)
    then have "r = Inl e" "s' = s1" using Suc.prems(5) b by auto
    then show ?thesis using inv1 out Inl by (simp add: round_ok_def)
  next
    case (Inr x)
    obtain returns report1 where x: "x = (returns, report1)" by fastforce
    obtain a u where au: "u \<le> a" "a \<le> 1" "moved queue (tr s) (tr s1) a u"
      "sr_completed report1 = (if u = 1 then saturating_add (sr_completed report) 1 else sr_completed report)"
      "sr_rejected report1 = (if a - u = 1 then saturating_add (sr_rejected report) 1 else sr_rejected report)"
      using out by (auto simp: round_ok_def Inr x)
    have cnt: "unat (sr_completed report1) = unat (sr_completed report) + u"
      "unat (sr_rejected report1) = unat (sr_rejected report) + (a - u)"
      using au Suc.prems(4) by (auto simp: unat_saturating_add le_Suc_eq)
    show ?thesis
    proof (cases returns)
      case True
      then have "r = Inr report1" "s' = s1" using Suc.prems(5) b by (auto simp: Inr x)
      then show ?thesis using inv1 au(1-3) cnt unfolding service_done_def by auto
    next
      case False
      obtain q1 where q1: "queue_at (tr s1) queue = Some q1" using moved_queue[OF au(3)] by blast
      have act: "is_active (tr s1)" using moved_active[OF au(3)] Suc.prems(2) by simp
      have "unat (sr_completed report1) + unat (sr_rejected report1) + n < 2 ^ 32" using Suc.prems(4) cnt au(1,2) by simp
      moreover have "rounds n body fin report1 s1 = (r, s')" using Suc.prems(5) b False by (simp add: Inr x)
      ultimately have ih: "P s' \<and> (case r of Inl e \<Rightarrow> (\<forall>v. e \<noteq> ServiceTransport v) \<and> stopped (tr s')
          | Inr report' \<Rightarrow> service_done queue n report1 (tr s1) report' (tr s'))"
        by (rule Suc.IH[OF inv1 act q1])
      then show ?thesis
        using service_done_trans[OF au(3,1) _ cnt] service_done_mono[of queue "n + a" report "tr s" _ _ "Suc n"] au(2)
        by (auto split: sum.splits)
    qed
  qed
qed

text \<open>A delivery loop: rounds that report the budget as used up when they are done.\<close>

lemma deliver_ok:
  fixes budget :: u32
  assumes body: "\<And>report s q0 r s'. \<lbrakk>P s; is_active (tr s); queue_at (tr s) queue = Some q0;
      body report s = (r, s')\<rbrakk> \<Longrightarrow> P s' \<and> round_ok queue report (tr s) r (tr s')"
    and "P s" "is_active (tr s)" "queue_at (tr s) queue = Some q0"
    and "rounds (unat budget) body (\<lambda>report s. (Inr (report\<lparr>sr_exhausted := True\<rparr>), s))
      service_report_default s = (r, s')"
  shows "P s' \<and> (case r of
      Inl e \<Rightarrow> (\<forall>v. e \<noteq> ServiceTransport v) \<and> stopped (tr s')
    | Inr report \<Rightarrow> unat (sr_completed report) + unat (sr_rejected report) \<le> unat budget \<and>
        moved queue (tr s) (tr s') (unat (sr_completed report) + unat (sr_rejected report)) (unat (sr_completed report)))"
proof -
  have "unat budget < 2 ^ 32" using unat_u32_less[of budget] by simp
  then have "P s' \<and> (case r of
      Inl e \<Rightarrow> (\<forall>v. e \<noteq> ServiceTransport v) \<and> stopped (tr s')
    | Inr report \<Rightarrow> service_done queue (unat budget) service_report_default (tr s) report (tr s'))"
    by (intro rounds_ok[where P=P and tr=tr, OF body _ assms(2-4) _ assms(5)])
       (auto simp: service_done_def moved_def service_report_default_def)
  then show ?thesis by (cases r) (auto simp: service_done_def service_report_default_def)
qed

section \<open>The contract of a device\<close>

text \<open>
  What the loop relies on: handling a well-formed chain keeps guest memory valid and its
  regions in place, keeps the part of the device the driver negotiated against and the
  device's own invariant \<open>dinv\<close>, and reports no more bytes than the chain can hold. The calls
  that the transport makes into the device keep \<open>dinv\<close> too.
\<close>

locale service_model = transport_model GM valid byte VD
  for GM :: "'m guest_memory_ops" and valid and byte and VD :: "'d virtio_device" +
  fixes CH :: "('d, 'm) chain_handler" and dinv :: "'d \<Rightarrow> bool"
  assumes handle_keeps:
    "\<lbrakk>valid mem; dinv d; chain_wf GM mem c; handle_chain CH queue c (d, mem) = (r, d', mem')\<rbrakk> \<Longrightarrow>
       valid mem' \<and> check_range GM mem' = check_range GM mem \<and> device_face VD d' = device_face VD d \<and>
       dinv d' \<and> (\<forall>len. r = Inr len \<longrightarrow> unat len \<le> unat (c_writable_len c))"
    and transport_keeps:
      "dinv d \<Longrightarrow> dinv (snd (dev_write_config VD off data d))"
      "dinv d \<Longrightarrow> dinv (snd (dev_activate VD f d))"
      "dinv d \<Longrightarrow> dinv (dev_reset VD d)"
begin

abbreviation sinv :: "'d mmio_transport \<times> 'm \<Rightarrow> bool" where
  "sinv \<equiv> \<lambda>(t, mem). valid mem \<and> tinv mem t \<and> dinv (t_device t)"

lemma set_queue_inv:
  assumes "tinv mem t" "queue_at t queue = Some q0" "same_config q0 q" "queue_inv GM mem q"
  shows "tinv mem (set_queue queue q t)"
  using assms queue_work_inv[OF assms(1), of "unat queue" q]
  by (auto simp: queue_at_def set_queue_def split: if_splits)

lemma queue_at_inv: "tinv mem t \<Longrightarrow> queue_at t queue = Some q \<Longrightarrow> queue_inv GM mem q"
  by (auto simp: transport_inv_def queue_at_def split: if_splits)

lemma complete_used_ok:
  assumes "valid mem" "tinv mem t" "is_active t" "queue_at t queue = Some q" "is_ready q"
    and "unat len \<le> unat (c_writable_len chain)"
  shows "\<exists>notify t' mem'. complete_used GM queue chain len (t, mem) = (Inr notify, t', mem') \<and>
    moved queue t t' 0 1 \<and> t_device t' = t_device t"
proof -
  from assms(5) obtain l where l: "q_layout q = Some l" by (auto simp: is_ready_def)
  have inv: "queue_inv GM mem q" by (rule queue_at_inv[OF assms(2,4)])
  have "q_next_used q = of_nat (unat (q_next_used q))" by simp
  moreover have "ucast len \<le> c_writable_len chain"
    using assms(6) by (simp add: word_le_nat_alt unat_ucast_up)
  ultimately obtain m where
    add: "add_used GM chain len (q, mem) =
      (Inr (), q\<lparr>q_next_used := of_nat (unat (q_next_used q) + 1)\<rparr>, m)"
    and m: "valid m" "check_range GM m = check_range GM mem"
    using add_used_ready[OF assms(1) inv l] by metis
  define q' where "q' = q\<lparr>q_next_used := of_nat (unat (q_next_used q) + 1)\<rparr>"
  have q': "queue_inv GM m q'" "q_layout q' = Some l" "same_config q q'"
    using add_used_inv[OF assms(1) inv add] l by (simp_all add: q'_def)
  have nx: "q_next_avail q' = q_next_avail q" "q_next_used q' = q_next_used q + 1" by (simp_all add: q'_def)
  obtain n where n: "needs_notification GM m q' = (Inr n, q')"
    using needs_notification_ready[OF m(1) q'(1,2)] by blast
  have idx: "unat queue < length (t_queues t)" "t_queues t ! unat queue = q"
    using assms(4) by (auto simp: queue_at_def split: if_splits)
  have "complete_used GM queue chain len (t, mem) =
      (Inr n, t\<lparr>t_queues := (t_queues t)[unat queue := q'],
         t_interrupt_status := t_interrupt_status t OR INTERRUPT_USED_BUFFER\<rparr>, m)"
    using assms(3) idx add n by (simp add: complete_used_def q'_def)
  moreover have "moved queue t (t\<lparr>t_queues := (t_queues t)[unat queue := q'],
         t_interrupt_status := t_interrupt_status t OR INTERRUPT_USED_BUFFER\<rparr>) 0 1"
    using assms(4) idx q'(3) nx by (auto simp: moved_def queue_at_def)
  ultimately show ?thesis by simp
qed

text \<open>Popping a chain in a round, by the kind of its result.\<close>

lemma pop_round:
  assumes "tinv mem t" "queue_at t queue = Some q0" "pop_descriptor_chain GM mem limits q0 = (r, q1)"
  shows "tinv mem (set_queue queue q1 t)" "queue_at (set_queue queue q1 t) queue = Some q1"
    "r = Inr None \<Longrightarrow> set_queue queue q1 t = t"
    "r = Inr (Some c) \<Longrightarrow> chain_wf GM mem c \<and> is_ready q1 \<and> moved queue t (set_queue queue q1 t) 1 0"
    "r = Inl (Chain h v) \<Longrightarrow> moved queue t (set_queue queue q1 t) 1 0"
proof -
  have same: "same_config q0 q1" using pop_same[of q0 GM mem] assms(3) by (metis snd_conv)
  have q1: "queue_inv GM mem q1" using reads_inv(2)[OF queue_at_inv[OF assms(1,2)]] assms(3) by (metis snd_conv)
  show "tinv mem (set_queue queue q1 t)" by (rule set_queue_inv[OF assms(1,2) same q1])
  show "queue_at (set_queue queue q1 t) queue = Some q1" using assms(2) by simp
  show "set_queue queue q1 t = t" if "r = Inr None"
    using pop_Inr_None[OF assms(3)[unfolded that]] assms(2) by (auto simp: set_queue_def queue_at_def split: if_splits)
  show "chain_wf GM mem c \<and> is_ready q1 \<and> moved queue t (set_queue queue q1 t) 1 0" if "r = Inr (Some c)"
    using pop_Inr_Some[OF assms(3)[unfolded that]] same assms(2)
    by (auto simp: moved_def same_config_def is_ready_def)
  show "moved queue t (set_queue queue q1 t) 1 0" if "r = Inl (Chain h v)"
    using pop_Inl_Chain[OF assms(3)[unfolded that]] same assms(2) by (auto simp: moved_def)
qed

lemma moved_device [simp]: "moved queue t (t'\<lparr>t_device := d\<rparr>) a u = moved queue t t' a u"
  by (simp add: moved_def queue_at_def)

lemma queue_at_device [simp]: "queue_at (t\<lparr>t_device := d\<rparr>) queue = queue_at t queue"
  by (simp add: queue_at_def)

lemma is_active_device [simp]: "is_active (t\<lparr>t_device := d\<rparr>) = is_active t"
  by (simp add: is_active_def)

lemma is_active_set_queue [simp]: "is_active (set_queue queue q t) = is_active t"
  by (simp add: is_active_def)

lemma stop_round:
  assumes "valid mem" "tinv mem t" "dinv (t_device t)" "\<forall>v. e \<noteq> ServiceTransport v"
  shows "sinv (set_needs_reset t, mem) \<and> round_ok queue report t0 (Inl e) (set_needs_reset t)"
  using assms set_needs_reset_inv[OF assms(2)] set_needs_reset_stopped[of t] by (auto intro: round_okI)

text \<open>Publishing the chain that a round took.\<close>

lemma complete_round:
  assumes "valid mem" "tinv mem t" "dinv (t_device t)" "is_active t" "moved queue t0 t 1 0"
    and "queue_at t queue = Some q" "is_ready q" "unat len \<le> unat (c_writable_len chain)"
  obtains notify t' mem' where "complete_used GM queue chain len (t, mem) = (Inr notify, t', mem')"
    "sinv (t', mem')" "moved queue t0 t' 1 1"
proof -
  from complete_used_ok[OF assms(1,2,4,6-8)] obtain n t' mem' where
    c: "complete_used GM queue chain len (t, mem) = (Inr n, t', mem')"
    and mv: "moved queue t t' 0 1" and dev: "t_device t' = t_device t" by auto
  show thesis
    using that[OF c] complete_used_inv[OF assms(1,2) c] dev assms(3) moved_trans[OF assms(5) mv] by simp
qed

lemma service_body_chain:
  assumes inv: "valid mem" "tinv mem t" "dinv (t_device t)" "is_active t" "queue_at t queue = Some q0"
    and pop: "pop_descriptor_chain GM mem (handler_limits CH (t_device t) queue) q0 = (Inr (Some chain), q1)"
    and body: "service_body GM CH queue report (t, mem) = (r, st')"
  shows "sinv st' \<and> round_ok queue report t r (fst st')"
proof -
  let ?t1 = "set_queue queue q1 t"
  note p = pop_round(1,2)[OF inv(2,5) pop] pop_round(4)[OF inv(2,5) pop refl]
  obtain r2 d mem2 where h: "handle_chain CH queue chain (t_device t, mem) = (r2, d, mem2)"
    by (metis prod_cases3)
  have wf: "chain_wf GM mem chain" using p(3) by simp
  note k = handle_keeps[OF inv(1,3) wf h]
  let ?t2 = "?t1\<lparr>t_device := d\<rparr>"
  have t2: "valid mem2" "tinv mem2 ?t2" "dinv (t_device ?t2)"
    using device_update_inv[OF p(1), of d] k tinv_mem_cong[of mem2 mem] by auto
  show ?thesis
  proof (cases r2)
    case (Inl fault)
    then have "r = Inl (ServiceFault fault)" "st' = (set_needs_reset ?t2, mem2)"
      using body inv(5) pop h by (auto simp: service_body_def Let_def)
    then show ?thesis using stop_round[OF t2, of "ServiceFault fault"] by simp
  next
    case (Inr len)
    have ready: "is_active ?t2" "moved queue t ?t2 1 0" "queue_at ?t2 queue = Some q1" "is_ready q1"
      "unat len \<le> unat (c_writable_len chain)"
      using inv(4) p k Inr by simp_all
    obtain n t3 mem3 where
      c: "complete_used GM queue chain len (?t2, mem2) = (Inr n, t3, mem3)" "sinv (t3, mem3)" "moved queue t t3 1 1"
      by (rule complete_round[OF t2 ready])
    have "r = Inr (False, report\<lparr>sr_interrupt := sr_interrupt report \<or> n,
        sr_completed := saturating_add (sr_completed report) 1\<rparr>)" "st' = (t3, mem3)"
      using body inv(5) pop h Inr c(1) by (auto simp: service_body_def Let_def)
    then show ?thesis using c by (auto intro: round_okI)
  qed
qed

lemma pop_result_cases:
  obtains c where "(rp :: queue_violation + descriptor_chain option) = Inr (Some c)" | "rp = Inr None"
    | h v where "rp = Inl (Chain h v)" | v where "rp = Inl v" "\<forall>h w. v \<noteq> Chain h w"
  by (cases rp) (metis, metis option.exhaust)

lemma service_body_cases:
  assumes "sinv (t, mem)" "is_active t" "queue_at t queue = Some q0"
    and body: "service_body GM CH queue report (t, mem) = (r, st')"
  shows "sinv st' \<and> round_ok queue report t r (fst st')"
proof -
  have inv: "valid mem" "tinv mem t" "dinv (t_device t)" using assms(1) by auto
  obtain rp q1 where pop: "pop_descriptor_chain GM mem (handler_limits CH (t_device t) queue) q0 = (rp, q1)"
    by fastforce
  let ?t1 = "set_queue queue q1 t"
  note p = pop_round[OF inv(2) assms(3) pop]
  show ?thesis
  proof (rule pop_result_cases[of rp])
    fix c assume "rp = Inr (Some c)"
    then show ?thesis using service_body_chain[OF inv assms(2,3) _ body] pop by simp
  next
    assume "rp = Inr None"
    then have "r = Inr (True, report)" "st' = (t, mem)"
      using body assms(3) pop p(3) by (auto simp: service_body_def)
    then show ?thesis using assms(1,3) by (auto simp: moved_def intro!: round_okI(2))
  next
    fix h v assume e: "rp = Inl (Chain h v)"
    then have "r = Inr (False, report\<lparr>sr_rejected := saturating_add (sr_rejected report) 1\<rparr>)" "st' = (?t1, mem)"
      using body assms(3) pop by (auto simp: service_body_def)
    then show ?thesis using p(1) p(5)[OF e] inv by (auto intro!: round_okI(3))
  next
    fix v assume "rp = Inl v" "\<forall>h w. v \<noteq> Chain h w"
    then have "r = Inl (ServiceQueue v)" "st' = (set_needs_reset ?t1, mem)"
      using body assms(3) pop by (auto simp: service_body_def split: queue_violation.splits)
    then show ?thesis using stop_round[OF inv(1) p(1), of "ServiceQueue v"] inv by simp
  qed
qed

text \<open>Looking at the available index, which the loops do before they pop.\<close>

lemma pending_round:
  assumes "tinv mem t" "queue_at t queue = Some q0" "queue_pending GM mem q0 = (r, q1)"
  shows "tinv mem (set_queue queue q1 t)" "r = Inr n \<Longrightarrow> set_queue queue q1 t = t"
proof -
  have same: "same_config q0 q1" using queue_pending_same[of q0 GM mem] assms(3) by (metis snd_conv)
  have q1: "queue_inv GM mem q1" using reads_inv(1)[OF queue_at_inv[OF assms(1,2)]] assms(3) by (metis snd_conv)
  show "tinv mem (set_queue queue q1 t)" by (rule set_queue_inv[OF assms(1,2) same q1])
  show "set_queue queue q1 t = t" if "r = Inr n"
    using queue_pending_Inr_same[of GM mem q0 n q1] assms(2,3) that
    by (auto simp: set_queue_def queue_at_def split: if_splits)
qed

lemma service_finish_cases:
  assumes "sinv (t, mem)" "queue_at t queue = Some q0" "service_finish GM queue report (t, mem) = (r, st')"
  shows "sinv st' \<and> (case r of Inl e \<Rightarrow> (\<forall>v. e \<noteq> ServiceTransport v) \<and> stopped (fst st')
     | Inr report' \<Rightarrow> service_done queue 0 report t report' (fst st'))"
proof -
  have inv: "valid mem" "tinv mem t" "dinv (t_device t)" using assms(1) by auto
  obtain rp q1 where p: "queue_pending GM mem q0 = (rp, q1)" by fastforce
  note q = pending_round[OF inv(2) assms(2) p]
  show ?thesis
  proof (cases rp)
    case (Inl v)
    then have "r = Inl (ServiceQueue v)" "st' = (set_needs_reset (set_queue queue q1 t), mem)"
      using assms(2,3) p by (auto simp: service_finish_def has_pending_def)
    then show ?thesis using stop_round[OF inv(1) q(1), of "ServiceQueue v"] inv by (simp add: round_ok_def)
  next
    case (Inr n)
    then have "r = Inr (report\<lparr>sr_exhausted := 0 < n\<rparr>)" "st' = (t, mem)"
      using assms(2,3) p q(2) by (auto simp: service_finish_def has_pending_def)
    then show ?thesis using assms(1,2) by (auto simp: service_done_def moved_def)
  qed
qed

text \<open>
  A whole call. An index past the queues is refused when there is budget to look at it, and
  otherwise reported as idle.
\<close>

lemma rounds_no_queue:
  assumes "queue_at t queue = None"
  shows "rounds n (service_body GM CH queue) (service_finish GM queue) report (t, mem) =
    (if n = 0 then Inr (report\<lparr>sr_exhausted := False\<rparr>)
     else Inl (ServiceTransport (NotifyOutOfRange (ucast queue))), t, mem)"
  using assms by (cases n) (simp_all add: has_pending_def service_body_def service_finish_def)

lemma service_body_state:
  "\<lbrakk>sinv s; is_active (fst s); queue_at (fst s) queue = Some q0; service_body GM CH queue report s = (r, s')\<rbrakk> \<Longrightarrow>
     sinv s' \<and> round_ok queue report (fst s) r (fst s')"
  using service_body_cases[of "fst s" "snd s" queue q0 report r s'] by simp

lemma service_finish_state:
  "\<lbrakk>sinv s; queue_at (fst s) queue = Some q0; service_finish GM queue report s = (r, s')\<rbrakk> \<Longrightarrow>
     sinv s' \<and> (case r of Inl e \<Rightarrow> (\<forall>v. e \<noteq> ServiceTransport v) \<and> stopped (fst s')
       | Inr report' \<Rightarrow> service_done queue 0 report (fst s) report' (fst s'))"
  using service_finish_cases[of "fst s" "snd s" queue q0 report r s'] by simp

lemma service_queue_cases:
  assumes "sinv (t, mem)" "service_queue GM CH queue budget (t, mem) = (r, st')"
  shows "sinv st'"
    "r = Inr report \<Longrightarrow> is_active t \<and>
       unat (sr_completed report) + unat (sr_rejected report) \<le> unat budget \<and>
       (queue_at t queue \<noteq> None \<longrightarrow>
          moved queue t (fst st') (unat (sr_completed report) + unat (sr_rejected report)) (unat (sr_completed report)))"
    "r = Inl (ServiceTransport v) \<Longrightarrow> st' = (t, mem) \<and> (\<not> is_active t \<or> queue_at t queue = None)"
    "r = Inl e \<Longrightarrow> \<forall>v. e \<noteq> ServiceTransport v \<Longrightarrow> stopped (fst st')"
proof -
  consider (inactive) "\<not> is_active t" | (none) "is_active t" "queue_at t queue = None"
    | (queue) q0 where "is_active t" "queue_at t queue = Some q0" by blast
  then have "sinv st' \<and> (case r of
      Inl e \<Rightarrow> (\<exists>v. e = ServiceTransport v) \<and> st' = (t, mem) \<and> (\<not> is_active t \<or> queue_at t queue = None) \<or>
        (\<forall>v. e \<noteq> ServiceTransport v) \<and> stopped (fst st')
    | Inr report' \<Rightarrow> is_active t \<and> unat (sr_completed report') + unat (sr_rejected report') \<le> unat budget \<and>
        (queue_at t queue = None \<or> service_done queue (unat budget) service_report_default t report' (fst st')))"
  proof cases
    case inactive
    then show ?thesis using assms by (auto simp: service_queue_def)
  next
    case none
    then show ?thesis using assms rounds_no_queue[OF none(2)]
      by (auto simp: service_queue_def service_report_default_def split: if_split_asm)
  next
    case queue
    have "unat budget < 2 ^ 32" using unat_u32_less[of budget] by simp
    moreover have "rounds (unat budget) (service_body GM CH queue) (service_finish GM queue)
        service_report_default (t, mem) = (r, st')"
      using assms(2) queue by (simp add: service_queue_def)
    ultimately have "sinv st' \<and> (case r of
      Inl e \<Rightarrow> (\<forall>v. e \<noteq> ServiceTransport v) \<and> stopped (fst st')
    | Inr report' \<Rightarrow> service_done queue (unat budget) service_report_default (fst (t, mem)) report' (fst st'))"
      using assms(1) queue
      by - (rule rounds_ok[where P=sinv and tr=fst], erule (3) service_body_state, erule (2) service_finish_state,
          simp_all add: service_report_default_def)
    then show ?thesis using queue
      by (cases r) (auto simp: service_done_def service_report_default_def)
  qed
  then show "sinv st'"
    "r = Inr report \<Longrightarrow> is_active t \<and>
       unat (sr_completed report) + unat (sr_rejected report) \<le> unat budget \<and>
       (queue_at t queue \<noteq> None \<longrightarrow>
          moved queue t (fst st') (unat (sr_completed report) + unat (sr_rejected report)) (unat (sr_completed report)))"
    "r = Inl (ServiceTransport v) \<Longrightarrow> st' = (t, mem) \<and> (\<not> is_active t \<or> queue_at t queue = None)"
    "r = Inl e \<Longrightarrow> \<forall>v. e \<noteq> ServiceTransport v \<Longrightarrow> stopped (fst st')"
    by (auto simp: service_done_def service_report_default_def)
qed

end

end
