(* ===== verification/RngDevice.thy ===== *)
theory RngDevice
  imports Service
begin

text \<open>
  virtio-rng (\<open>soma-kvm/src/virtio/devices/rng.rs\<close>, \<open>rng/backend.rs\<close>, \<open>rng/state.rs\<close>): one
  request queue filled from the host's entropy source, at most 64 KiB per request. The trait
  \<open>EntropyBackend\<close> is the locale \<open>entropy_source\<close>: a source that succeeds has filled the whole
  buffer. The device implements the contracts of the transport and of the service loop.
\<close>

section \<open>Entropy sources\<close>

datatype io_error_kind = UnexpectedEof | WouldBlock | Interrupted | OtherErrorKind nat

datatype entropy_error = EntropyUnavailable io_error_kind | EntropyShort

type_synonym 'b entropy_fill = "nat \<Rightarrow> 'b \<Rightarrow> (entropy_error, u8 list, 'b) mut_result"

text \<open>
  \<open>OsEntropy\<close>. The file is a parameter with its \<open>read_exact\<close>, which either fills the buffer or
  reports an error kind.
\<close>

definition os_entropy_fill ::
    "(nat \<Rightarrow> 'f \<Rightarrow> (io_error_kind, u8 list, 'f) mut_result) \<Rightarrow> 'f entropy_fill" where
  "os_entropy_fill read_exact n source =
     (let (r, source) = read_exact n source in
      (map_err (\<lambda>kind. if kind = UnexpectedEof then EntropyShort else EntropyUnavailable kind) r, source))"

locale entropy_source =
  fixes fill :: "'b entropy_fill"
  assumes fill_length: "fill n b = (Inr bytes, b') \<Longrightarrow> length bytes = n"

locale exact_reader =
  fixes read_exact :: "nat \<Rightarrow> 'f \<Rightarrow> (io_error_kind, u8 list, 'f) mut_result"
  assumes read_exact_length: "read_exact n f = (Inr bytes, f') \<Longrightarrow> length bytes = n"

sublocale exact_reader \<subseteq> entropy_source "os_entropy_fill read_exact"
  by unfold_locales
     (auto simp: os_entropy_fill_def Let_def map_err_Inr_iff dest: read_exact_length split: prod.splits)

text \<open>A file as the bytes that are left to read: \<open>read_exact\<close> of \<open>std::io\<close>.\<close>

definition file_read_exact :: "nat \<Rightarrow> u8 list \<Rightarrow> (io_error_kind, u8 list, u8 list) mut_result" where
  "file_read_exact n left =
     (if n \<le> length left then (Inr (take n left), drop n left) else (Inl UnexpectedEof, []))"

interpretation os: exact_reader file_read_exact
  by unfold_locales (auto simp: file_read_exact_def split: if_splits)

section \<open>The device\<close>

abbreviation (input) VIRTIO_RNG_DEVICE_ID :: u32 where "VIRTIO_RNG_DEVICE_ID \<equiv> 4"
abbreviation (input) RNG_FEATURES :: u64 where "RNG_FEATURES \<equiv> VIRTIO_F_VERSION_1"
abbreviation (input) MAX_ENTROPY_REQUEST :: nat where "MAX_ENTROPY_REQUEST \<equiv> 65536"

definition RNG_CHAIN_LIMITS :: chain_limits where
  "RNG_CHAIN_LIMITS = \<lparr>max_descriptors = 64, max_bytes = 0x100000\<rparr>"

record rng_counters =
  rc_filled :: u32
  rc_bytes :: u64
  rc_rejected :: u32

record 'b rng_device =
  rng_backend :: 'b
  rng_activated :: bool
  rng_counters :: rng_counters

definition rng_new :: "'b \<Rightarrow> 'b rng_device" where
  "rng_new backend =
     \<lparr>rng_backend = backend, rng_activated = False,
      rng_counters = \<lparr>rc_filled = 0, rc_bytes = 0, rc_rejected = 0\<rparr>\<rparr>"

definition rng_count :: "(rng_counters \<Rightarrow> rng_counters) \<Rightarrow> 'b rng_device \<Rightarrow> 'b rng_device" where
  "rng_count f d = d\<lparr>rng_counters := f (rng_counters d)\<rparr>"

definition rng_handle_chain ::
    "'m guest_memory_ops \<Rightarrow> 'b entropy_fill \<Rightarrow> u16 \<Rightarrow> descriptor_chain \<Rightarrow> 'b rng_device \<times> 'm
     \<Rightarrow> (device_fault, u32, 'b rng_device \<times> 'm) mut_result" where
  "rng_handle_chain GM fill queue chain = (\<lambda>(d, mem).
     if c_readable_len chain \<noteq> 0 then
       (Inr 0, rng_count (rc_rejected_update (\<lambda>n. saturating_add n 1)) d, mem)
     else
       let len = unat (min (c_writable_len chain) (of_nat MAX_ENTROPY_REQUEST));
           (r, backend) = fill len (rng_backend d);
           d = d\<lparr>rng_backend := backend\<rparr> in
       case r of
         Inl _ \<Rightarrow> (Inl FaultBackend, d, mem)
       | Inr bytes \<Rightarrow>
           let (r, mem) = write_writable GM chain 0 bytes mem in
           case r of
             Inl e \<Rightarrow> (Inl (FaultMemory e), d, mem)
           | Inr written \<Rightarrow>
               if written \<noteq> len then (Inl FaultProtocol, d, mem)
               else
                 (if len < 2 ^ 32 then Inr (of_nat len) else Inl FaultProtocol,
                  rng_count (rc_bytes_update (\<lambda>n. saturating_add n (of_nat len)) \<circ>
                    rc_filled_update (\<lambda>n. saturating_add n 1)) d, mem))"

definition rng_handler :: "'m guest_memory_ops \<Rightarrow> 'b entropy_fill \<Rightarrow> ('b rng_device, 'm) chain_handler" where
  "rng_handler GM fill =
     \<lparr>handler_limits = (\<lambda>_ _. RNG_CHAIN_LIMITS), handle_chain = rng_handle_chain GM fill\<rparr>"

section \<open>The snapshot record\<close>

record rng_state =
  rs_device_id :: u32
  rs_features :: u64

abbreviation (input) RNG_STATE_LEN :: nat where "RNG_STATE_LEN \<equiv> 13"

definition rng_state_capture :: rng_state where
  "rng_state_capture = \<lparr>rs_device_id = VIRTIO_RNG_DEVICE_ID, rs_features = RNG_FEATURES\<rparr>"

definition rng_state_to_bytes :: "rng_state \<Rightarrow> u8 list" where
  "rng_state_to_bytes s = [1] @ le_bytes 4 (rs_device_id s) @ le_bytes 8 (rs_features s)"

definition rng_state_from_bytes :: "u8 list \<Rightarrow> device_state_error + rng_state" where
  "rng_state_from_bytes raw =
     (if length raw \<noteq> RNG_STATE_LEN \<or> raw ! 0 \<noteq> 1 then Inl Malformed
      else and_then (u32_field Malformed (take 4 (drop 1 raw))) (\<lambda>device_id.
           Inr \<lparr>rs_device_id = device_id, rs_features = le_u64 (take 8 (drop 5 raw))\<rparr>))"

definition rng_state_apply :: "rng_state \<Rightarrow> device_state_error + unit" where
  "rng_state_apply s = (if s = rng_state_capture then Inr () else Inl Incompatible)"

definition rng_activate :: "u64 \<Rightarrow> 'b rng_device \<Rightarrow> (activate_error, unit, 'b rng_device) mut_result" where
  "rng_activate negotiated d =
     (if negotiated AND NOT RNG_FEATURES \<noteq> 0 then (Inl (UnsupportedFeatures negotiated), d)
      else (Inr (), d\<lparr>rng_activated := True\<rparr>))"

definition rng_ops :: "'b rng_device virtio_device" where
  "rng_ops =
     \<lparr>device_id = (\<lambda>_. VIRTIO_RNG_DEVICE_ID), vendor_id = (\<lambda>_. SOMA_VENDOR_ID),
      feature_allowlist = (\<lambda>_. RNG_FEATURES), queue_max_sizes = (\<lambda>_. [64]), config_len = (\<lambda>_. 0),
      dev_read_config = (\<lambda>_ _ _. Inl OutOfBounds), dev_write_config = (\<lambda>_ _ d. (Inl OutOfBounds, d)),
      dev_activate = rng_activate, dev_reset = (\<lambda>d. d\<lparr>rng_activated := False\<rparr>),
      snapshot_state = (\<lambda>_. rng_state_to_bytes rng_state_capture),
      restore_state = (\<lambda>raw d. (and_then (rng_state_from_bytes raw) rng_state_apply, d))\<rparr>"

section \<open>The contracts\<close>

lemma rng_face [simp]: "device_face rng_ops d = (4, RNG_FEATURES, [64], 0)"
  by (simp add: device_face_def rng_ops_def)

interpretation rng: device_model rng_ops
  by unfold_locales (simp_all add: rng_ops_def device_face_def)

locale rng_service = guest_memory GM valid byte + entropy_source fill
  for GM :: "'m guest_memory_ops" and valid and byte and fill :: "'b entropy_fill"
begin

text \<open>What one request does, on every branch.\<close>

lemma rng_handle_chain_rejects:
  assumes "c_readable_len chain \<noteq> 0"
  shows "rng_handle_chain GM fill queue chain (d, mem) =
    (Inr 0, rng_count (rc_rejected_update (\<lambda>n. saturating_add n 1)) d, mem)"
  using assms by (simp add: rng_handle_chain_def)

lemma rng_handle_chain_fault:
  assumes "c_readable_len chain = 0"
    and "fill (min (unat (c_writable_len chain)) 65536) (rng_backend d) = (Inl e, b)"
  shows "rng_handle_chain GM fill queue chain (d, mem) = (Inl FaultBackend, d\<lparr>rng_backend := b\<rparr>, mem)"
  using assms by (simp add: rng_handle_chain_def Let_def min_def word_le_nat_alt split: if_split_asm)

lemma rng_handle_chain_fills:
  assumes "valid mem" "chain_wf GM mem chain" "c_readable_len chain = 0"
    and "fill (min (unat (c_writable_len chain)) 65536) (rng_backend d) = (Inr bytes, b)"
  obtains mem' where
    "rng_handle_chain GM fill queue chain (d, mem) =
      (Inr (of_nat (length bytes)),
       rng_count (rc_bytes_update (\<lambda>n. saturating_add n (of_nat (length bytes))) \<circ>
         rc_filled_update (\<lambda>n. saturating_add n 1)) (d\<lparr>rng_backend := b\<rparr>), mem')"
    "length bytes = min (unat (c_writable_len chain)) 65536"
    "valid mem'" "check_range GM mem' = check_range GM mem"
    "byte mem' = (byte mem)(writable_addrs chain [\<mapsto>] bytes)"
proof -
  have len: "length bytes = min (unat (c_writable_len chain)) 65536"
    by (rule fill_length[OF assms(4)])
  have "length bytes < 2 ^ 64" using len by simp
  moreover have "min (length bytes) (length (writable_addrs chain)) = length bytes"
    using len chain_wf_lens(2)[OF assms(2)] by simp
  ultimately obtain mem' where
    w: "write_writable GM chain 0 bytes mem = (Inr (length bytes), mem')"
    and m: "valid mem'" "check_range GM mem' = check_range GM mem"
      "byte mem' = (byte mem)(writable_addrs chain [\<mapsto>] bytes)"
    using write_writable_ok[OF assms(1,2), of bytes 0] by auto
  have "unat (min (c_writable_len chain) 65536) = length bytes"
    using len by (simp add: min_def word_le_nat_alt)
  then show thesis
    using w len assms(3,4) by (intro that[OF _ len m]) (simp add: rng_handle_chain_def Let_def)
qed

end

sublocale rng_service \<subseteq> service_model GM valid byte rng_ops "rng_handler GM fill" "\<lambda>_. True"
proof unfold_locales
  fix mem d c queue r d' mem'
  assume "valid mem" and "True" and wf: "chain_wf GM mem c"
    and h: "handle_chain (rng_handler GM fill) queue c (d, mem) = (r, d', mem')"
  have "valid mem' \<and> check_range GM mem' = check_range GM mem \<and>
      (\<forall>len. r = Inr len \<longrightarrow> unat len \<le> unat (c_writable_len c))"
  proof (cases "c_readable_len c = 0")
    case False
    then show ?thesis
      using h \<open>valid mem\<close> by (auto simp: rng_handler_def rng_handle_chain_rejects)
  next
    case True
    obtain rf b where f: "fill (min (unat (c_writable_len c)) 65536) (rng_backend d) = (rf, b)" by fastforce
    show ?thesis
    proof (cases rf)
      case (Inl e)
      then show ?thesis using h \<open>valid mem\<close> rng_handle_chain_fault[OF True f[unfolded Inl]]
        by (auto simp: rng_handler_def)
    next
      case (Inr bytes)
      from rng_handle_chain_fills[OF \<open>valid mem\<close> wf True f[unfolded Inr]] obtain m where
        "rng_handle_chain GM fill queue c (d, mem) =
          (Inr (of_nat (length bytes)),
           rng_count (rc_bytes_update (\<lambda>n. saturating_add n (of_nat (length bytes))) \<circ>
             rc_filled_update (\<lambda>n. saturating_add n 1)) (d\<lparr>rng_backend := b\<rparr>), m)"
        "length bytes = min (unat (c_writable_len c)) 65536"
        "valid m" "check_range GM m = check_range GM mem" by metis
      then show ?thesis using h by (auto simp: rng_handler_def unat_of_nat)
    qed
  qed
  then show "valid mem' \<and> check_range GM mem' = check_range GM mem \<and>
      device_face rng_ops d' = device_face rng_ops d \<and> True \<and>
      (\<forall>len. r = Inr len \<longrightarrow> unat len \<le> unat (c_writable_len c))" by simp
qed simp_all

interpretation vec_rng: rng_service vec_ops vec_valid vec_byte "os_entropy_fill file_read_exact" ..

section \<open>Properties\<close>

text \<open>
  An entropy request with no readable part gets exactly the bytes of the host source, at
  most 64 KiB, in the writable buffers of the chain in order; the reported length is the number
  of bytes written and no other byte of guest memory changes. When the source fails, nothing is
  written and the device faults.
\<close>

lemma rng_request_exact:
  assumes "guest_memory GM valid byte" "entropy_source fill" "valid mem" "chain_wf GM mem chain"
    and "c_readable_len chain = 0"
    and "fill (min (unat (c_writable_len chain)) 65536) (rng_backend d) = (r, b)"
  shows "case r of
      Inl e \<Rightarrow> rng_handle_chain GM fill queue chain (d, mem) = (Inl FaultBackend, d\<lparr>rng_backend := b\<rparr>, mem)
    | Inr bytes \<Rightarrow> (\<exists>d' mem'.
        rng_handle_chain GM fill queue chain (d, mem) = (Inr (of_nat (length bytes)), d', mem') \<and>
        length bytes = min (unat (c_writable_len chain)) 65536 \<and>
        byte mem' = (byte mem)(writable_addrs chain [\<mapsto>] bytes) \<and> rng_backend d' = b \<and>
        rc_bytes (rng_counters d') = saturating_add (rc_bytes (rng_counters d)) (of_nat (length bytes)))"
proof -
  have s: "rng_service GM valid byte fill" using assms(1,2) by (rule rng_service.intro)
  show ?thesis
  proof (cases r)
    case (Inl e)
    then show ?thesis using rng_service.rng_handle_chain_fault[OF s assms(5)] assms(6) by simp
  next
    case (Inr bytes)
    show ?thesis
      by (rule rng_service.rng_handle_chain_fills[OF s assms(3,4,5) assms(6)[unfolded Inr], of queue])
         (auto simp: Inr rng_count_def)
  qed
qed

definition sample_request :: descriptor_chain where
  "sample_request = \<lparr>c_head = 0, c_segments = [\<lparr>s_addr = 2, s_len = 2, s_writable = True\<rparr>],
     c_readable_len = 0, c_writable_len = 2\<rparr>"

lemma sample_request_wf: "chain_wf vec_ops sample_bytes sample_request"
  by (simp add: sample_request_def sample_bytes_def chain_wf_def chain_readable_def chain_writable_def
      vec_ops_def vec_check_range_def vec_locate_def checked_add_def region_end_def)

lemma rng_state_codec: "rng_state_from_bytes raw = Inr s \<longleftrightarrow> raw = rng_state_to_bytes s"
proof
  assume h: "rng_state_from_bytes raw = Inr s"
  then have len: "length raw = 13" "raw ! 0 = 1"
    and s: "rs_device_id s = le_word (take 4 (drop 1 raw))" "rs_features s = le_word (take 8 (drop 5 raw))"
    by (auto simp: rng_state_from_bytes_def u32_field_eq le_u64_eq_le_word split: if_splits)
  have "raw ! 0 # take 4 (drop 1 raw) @ take 8 (drop 5 raw) = raw"
    using len(1) by (auto simp: list_eq_iff_nth_eq nth_append nth_Cons split: nat.split)
  then show "raw = rng_state_to_bytes s" using len by (simp add: rng_state_to_bytes_def s le_bytes_le_word)
next
  assume "raw = rng_state_to_bytes s"
  then show "rng_state_from_bytes raw = Inr s"
    by (simp add: rng_state_from_bytes_def rng_state_to_bytes_def u32_field_eq le_u64_eq_le_word)
qed

text \<open>
  The entropy device accepts a snapshot record exactly when it is its own 13-byte identity,
  and accepting it changes nothing: no random byte, source handle or generator state is ever in
  the record.
\<close>

lemma rng_restore_exact:
  "restore_state rng_ops raw d = (Inr (), d') \<longleftrightarrow>
     raw = [1, 4, 0, 0, 0, 0, 0, 0, 0, 1, 0, 0, 0] \<and> d' = d"
proof -
  have "rng_state_to_bytes rng_state_capture = [1, 4, 0, 0, 0, 0, 0, 0, 0, 1, 0, 0, 0]"
    by (simp add: rng_state_to_bytes_def rng_state_capture_def codec_simps)
  then show ?thesis
    using rng_state_codec[of raw rng_state_capture]
    by (auto simp: rng_ops_def and_then_Inr_iff rng_state_apply_def split: if_splits)
qed

end
