(* ===== verification/BlockBackend.thy ===== *)
theory BlockBackend
  imports RngDevice
begin

text \<open>
  The stores behind a block device (\<open>soma-kvm/src/virtio/devices/block/backend\<close>). The trait
  \<open>BlockBackend\<close> is a record of operations and its contract the locale \<open>block_store\<close>: a store has
  contents, a full read returns them, a full write changes exactly its range, and a read-only
  store never changes. The file store, the heap store and the detached shape are instances.
\<close>

section \<open>The trait\<close>

datatype backend_error = BackendIo io_error_kind | BackendReadOnly | OutOfRange

text \<open>\<open>read_at\<close> fills a buffer, which is part of the state it leaves.\<close>

record 's block_backend =
  capacity_bytes :: "'s \<Rightarrow> u64"
  backend_read_only :: "'s \<Rightarrow> bool"
  read_at :: "u64 \<Rightarrow> u8 list \<times> 's \<Rightarrow> (backend_error, nat, u8 list \<times> 's) mut_result"
  write_at :: "u64 \<Rightarrow> u8 list \<Rightarrow> 's \<Rightarrow> (backend_error, nat, 's) mut_result"
  flush :: "'s \<Rightarrow> (backend_error, unit, 's) mut_result"

locale block_store =
  fixes BB :: "'s block_backend" and content :: "'s \<Rightarrow> u8 list" and store_ok :: "'s \<Rightarrow> bool"
  assumes store_capacity: "store_ok s \<Longrightarrow> unat (capacity_bytes BB s) \<le> length (content s)"
    and read_keeps:
      "\<lbrakk>store_ok s; read_at BB offset (buf, s) = (r, buf', s')\<rbrakk> \<Longrightarrow>
         length buf' = length buf \<and> store_ok s' \<and> content s' = content s \<and>
         capacity_bytes BB s' = capacity_bytes BB s \<and> backend_read_only BB s' = backend_read_only BB s"
    and read_full:
      "\<lbrakk>store_ok s; read_at BB offset (buf, s) = (Inr (length buf), buf', s')\<rbrakk> \<Longrightarrow>
         buf' = take (length buf) (drop (unat offset) (content s))"
    and write_keeps:
      "\<lbrakk>store_ok s; write_at BB offset data s = (r, s')\<rbrakk> \<Longrightarrow>
         store_ok s' \<and> length (content s') = length (content s) \<and>
         capacity_bytes BB s' = capacity_bytes BB s \<and> backend_read_only BB s' = backend_read_only BB s"
    and write_full:
      "\<lbrakk>store_ok s; write_at BB offset data s = (Inr (length data), s')\<rbrakk> \<Longrightarrow>
         content s' = overwrite (unat offset) data (content s)"
    and write_read_only:
      "\<lbrakk>store_ok s; backend_read_only BB s; write_at BB offset data s = (r, s')\<rbrakk> \<Longrightarrow>
         content s' = content s"
    and flush_keeps:
      "\<lbrakk>store_ok s; flush BB s = (flushed, s')\<rbrakk> \<Longrightarrow>
         store_ok s' \<and> content s' = content s \<and>
         capacity_bytes BB s' = capacity_bytes BB s \<and> backend_read_only BB s' = backend_read_only BB s"

definition in_range :: "u64 \<Rightarrow> u64 \<Rightarrow> nat \<Rightarrow> backend_error + unit" where
  "in_range capacity offset len =
     (if \<not> len < 2 ^ 64 then Inl OutOfRange
      else case checked_add offset (of_nat len) of
        Some end' \<Rightarrow> if end' \<le> capacity then Inr () else Inl OutOfRange
      | None \<Rightarrow> Inl OutOfRange)"

lemma in_range_iff: "in_range capacity offset len = Inr u \<longleftrightarrow> unat offset + len \<le> unat capacity"
proof (cases "len < 2 ^ 64")
  case True
  then have "unat (of_nat len :: u64) = len" by (simp add: unat_of_nat)
  then show ?thesis using True unat_u64_less[of capacity]
    by (auto simp: in_range_def checked_add_def word_le_nat_alt unat_add_no_overflow split: if_splits)
next
  case False
  then show ?thesis using unat_u64_less[of capacity] by (simp add: in_range_def)
qed

section \<open>The file store\<close>

text \<open>
  An open file: its contents, and what the host does with the coming operations. An entry
  \<open>Some (kind, n)\<close> makes an operation fail with that error kind, a write after \<open>n\<close> bytes.
\<close>

record host_file =
  f_bytes :: "u8 list"
  f_faults :: "(io_error_kind \<times> nat) option list"

definition next_fault :: "host_file \<Rightarrow> (io_error_kind \<times> nat) option \<times> host_file" where
  "next_fault f = (case f_faults f of [] \<Rightarrow> (None, f) | x # xs \<Rightarrow> (x, f\<lparr>f_faults := xs\<rparr>))"

definition read_exact_at :: "u64 \<Rightarrow> u8 list \<times> host_file \<Rightarrow> (io_error_kind, unit, u8 list \<times> host_file) mut_result" where
  "read_exact_at offset = (\<lambda>(buf, f).
     let (fault, f) = next_fault f in
     case fault of
       Some (kind, n) \<Rightarrow> (Inl kind, buf, f)
     | None \<Rightarrow>
         if unat offset + length buf \<le> length (f_bytes f)
         then (Inr (), take (length buf) (drop (unat offset) (f_bytes f)), f)
         else (Inl UnexpectedEof, buf, f))"

definition write_all_at :: "u8 list \<Rightarrow> u64 \<Rightarrow> host_file \<Rightarrow> (io_error_kind, unit, host_file) mut_result" where
  "write_all_at data offset f =
     (let (fault, f) = next_fault f;
          put = (\<lambda>bs. f\<lparr>f_bytes := overwrite (unat offset) bs
                   (f_bytes f @ replicate (unat offset + length bs - length (f_bytes f)) 0)\<rparr>) in
      case fault of
        Some (kind, n) \<Rightarrow> (Inl kind, put (take n data))
      | None \<Rightarrow> (Inr (), put data))"

definition sync_data :: "host_file \<Rightarrow> (io_error_kind, unit, host_file) mut_result" where
  "sync_data f =
     (let (fault, f) = next_fault f in
      case fault of Some (kind, n) \<Rightarrow> (Inl kind, f) | None \<Rightarrow> (Inr (), f))"

record file_backend =
  fb_file :: host_file
  fb_capacity :: u64
  fb_read_only :: bool

text \<open>The length of a host file is below \<open>2 ^ 63\<close>; a larger list is not a file.\<close>

definition file_backend_new :: "host_file \<Rightarrow> bool \<Rightarrow> io_error_kind + file_backend" where
  "file_backend_new f ro =
     (let (fault, f) = next_fault f in
      case fault of
        Some (kind, n) \<Rightarrow> Inl kind
      | None \<Rightarrow>
          let len = of_nat (length (f_bytes f)) :: u64 in
          Inr \<lparr>fb_file = f, fb_capacity = len - len mod 512, fb_read_only = ro\<rparr>)"

definition file_read_at :: "u64 \<Rightarrow> u8 list \<times> file_backend \<Rightarrow> (backend_error, nat, u8 list \<times> file_backend) mut_result" where
  "file_read_at offset = (\<lambda>(buf, s).
     case in_range (fb_capacity s) offset (length buf) of
       Inl e \<Rightarrow> (Inl e, buf, s)
     | Inr _ \<Rightarrow>
         let (r, buf, f) = read_exact_at offset (buf, fb_file s);
             s = s\<lparr>fb_file := f\<rparr> in
         (case r of Inl kind \<Rightarrow> Inl (BackendIo kind) | Inr _ \<Rightarrow> Inr (length buf), buf, s))"

definition file_write_at :: "u64 \<Rightarrow> u8 list \<Rightarrow> file_backend \<Rightarrow> (backend_error, nat, file_backend) mut_result" where
  "file_write_at offset data s =
     (if fb_read_only s then (Inl BackendReadOnly, s)
      else case in_range (fb_capacity s) offset (length data) of
        Inl e \<Rightarrow> (Inl e, s)
      | Inr _ \<Rightarrow>
          let (r, f) = write_all_at data offset (fb_file s);
              s = s\<lparr>fb_file := f\<rparr> in
          (case r of Inl kind \<Rightarrow> Inl (BackendIo kind) | Inr _ \<Rightarrow> Inr (length data), s))"

definition file_flush :: "file_backend \<Rightarrow> (backend_error, unit, file_backend) mut_result" where
  "file_flush s =
     (if fb_read_only s then (Inl BackendReadOnly, s)
      else
        let (r, f) = sync_data (fb_file s) in
        (map_err BackendIo r, s\<lparr>fb_file := f\<rparr>))"

definition file_ops :: "file_backend block_backend" where
  "file_ops = \<lparr>capacity_bytes = fb_capacity, backend_read_only = fb_read_only, read_at = file_read_at,
     write_at = file_write_at, flush = file_flush\<rparr>"

section \<open>The heap store\<close>

record memory_backend =
  mb_bytes :: "u8 list"
  mb_read_only :: bool
  mb_flushes :: u32
  mb_short_by :: nat
  mb_fail :: "io_error_kind option"

definition memory_zeroed :: "nat \<Rightarrow> bool \<Rightarrow> memory_backend" where
  "memory_zeroed sectors ro =
     \<lparr>mb_bytes = replicate (sectors * 512) 0, mb_read_only = ro, mb_flushes = 0, mb_short_by = 0, mb_fail = None\<rparr>"

definition memory_capacity :: "memory_backend \<Rightarrow> u64" where
  "memory_capacity s = (if length (mb_bytes s) < 2 ^ 64 then of_nat (length (mb_bytes s)) else - 1)"

definition memory_read_at :: "u64 \<Rightarrow> u8 list \<times> memory_backend \<Rightarrow> (backend_error, nat, u8 list \<times> memory_backend) mut_result" where
  "memory_read_at offset = (\<lambda>(buf, s).
     case mb_fail s of
       Some kind \<Rightarrow> (Inl (BackendIo kind), buf, s)
     | None \<Rightarrow>
         (case in_range (memory_capacity s) offset (length buf) of
            Inl e \<Rightarrow> (Inl e, buf, s)
          | Inr _ \<Rightarrow>
              let start = unat offset; n = length buf - mb_short_by s in
              (Inr n, overwrite 0 (take n (drop start (mb_bytes s))) buf, s)))"

definition memory_write_at :: "u64 \<Rightarrow> u8 list \<Rightarrow> memory_backend \<Rightarrow> (backend_error, nat, memory_backend) mut_result" where
  "memory_write_at offset data s =
     (case mb_fail s of
        Some kind \<Rightarrow> (Inl (BackendIo kind), s)
      | None \<Rightarrow>
          if mb_read_only s then (Inl BackendReadOnly, s)
          else case in_range (memory_capacity s) offset (length data) of
            Inl e \<Rightarrow> (Inl e, s)
          | Inr _ \<Rightarrow>
              let start = unat offset; n = length data - mb_short_by s in
              (Inr n, s\<lparr>mb_bytes := overwrite start (take n data) (mb_bytes s)\<rparr>))"

definition memory_flush :: "memory_backend \<Rightarrow> (backend_error, unit, memory_backend) mut_result" where
  "memory_flush s =
     (case mb_fail s of
        Some kind \<Rightarrow> (Inl (BackendIo kind), s)
      | None \<Rightarrow>
          if mb_read_only s then (Inl BackendReadOnly, s)
          else (Inr (), s\<lparr>mb_flushes := saturating_add (mb_flushes s) 1\<rparr>))"

definition memory_ops :: "memory_backend block_backend" where
  "memory_ops = \<lparr>capacity_bytes = memory_capacity, backend_read_only = mb_read_only, read_at = memory_read_at,
     write_at = memory_write_at, flush = memory_flush\<rparr>"

section \<open>The detached shape\<close>

record detached =
  dt_capacity_bytes :: u64
  dt_read_only :: bool

definition detached_new :: "u64 \<Rightarrow> bool \<Rightarrow> detached" where
  "detached_new capacity ro = \<lparr>dt_capacity_bytes = capacity, dt_read_only = ro\<rparr>"

definition detached_ops :: "detached block_backend" where
  "detached_ops = \<lparr>capacity_bytes = dt_capacity_bytes, backend_read_only = dt_read_only,
     read_at = (\<lambda>offset s. (Inl OutOfRange, s)), write_at = (\<lambda>offset data s. (Inl OutOfRange, s)),
     flush = (\<lambda>s. (Inl OutOfRange, s))\<rparr>"

section \<open>The contracts\<close>

lemma next_fault_bytes [simp]: "f_bytes (snd (next_fault f)) = f_bytes f"
  by (simp add: next_fault_def split: list.split)

lemma next_fault_split: "\<exists>fault f'. next_fault f = (fault, f') \<and> f_bytes f' = f_bytes f"
  using next_fault_bytes[of f] by (metis prod.collapse)

lemma file_read_eq:
  assumes "file_read_at offset (buf, s) = (r, buf', s')"
  shows "length buf' = length buf \<and> fb_capacity s' = fb_capacity s \<and> fb_read_only s' = fb_read_only s \<and>
    f_bytes (fb_file s') = f_bytes (fb_file s) \<and>
    (\<forall>n. r = Inr n \<longrightarrow> n = length buf \<and> buf' = take (length buf) (drop (unat offset) (f_bytes (fb_file s))))"
  using assms next_fault_split[of "fb_file s"]
  by (auto simp: file_read_at_def read_exact_at_def Let_def split: sum.splits option.splits if_splits)

lemma file_write_eq:
  assumes "file_write_at offset data s = (r, s')" "unat (fb_capacity s) \<le> length (f_bytes (fb_file s))"
  shows "fb_capacity s' = fb_capacity s \<and> fb_read_only s' = fb_read_only s \<and>
    length (f_bytes (fb_file s')) = length (f_bytes (fb_file s)) \<and>
    (fb_read_only s \<longrightarrow> s' = s) \<and>
    (\<forall>n. r = Inr n \<longrightarrow> n = length data \<and>
       f_bytes (fb_file s') = overwrite (unat offset) data (f_bytes (fb_file s)))"
  using assms next_fault_split[of "fb_file s"]
  by (auto simp: file_write_at_def write_all_at_def Let_def in_range_iff length_overwrite
      split: sum.splits option.splits if_splits)

interpretation filestore: block_store file_ops "\<lambda>s. f_bytes (fb_file s)"
    "\<lambda>s. unat (fb_capacity s) \<le> length (f_bytes (fb_file s))"
proof unfold_locales
  fix s r s' assume "unat (fb_capacity s) \<le> length (f_bytes (fb_file s))" "flush file_ops s = (r, s')"
  then show "unat (fb_capacity s') \<le> length (f_bytes (fb_file s')) \<and>
      f_bytes (fb_file s') = f_bytes (fb_file s) \<and>
      capacity_bytes file_ops s' = capacity_bytes file_ops s \<and>
      backend_read_only file_ops s' = backend_read_only file_ops s"
    using next_fault_split[of "fb_file s"]
    by (auto simp: file_ops_def file_flush_def sync_data_def Let_def split: option.splits if_splits)
qed (auto simp: file_ops_def dest!: file_read_eq dest: file_write_eq)

lemma memory_capacity_le: "unat (memory_capacity s) \<le> length (mb_bytes s)"
proof (cases "length (mb_bytes s) < 2 ^ 64")
  case True
  then show ?thesis by (simp add: memory_capacity_def unat_of_nat)
next
  case False
  then show ?thesis using unat_u64_less[of "memory_capacity s"] by simp
qed

lemma memory_read_eq:
  assumes "memory_read_at offset (buf, s) = (r, buf', s')"
  shows "length buf' = length buf \<and> s' = s \<and>
    (\<forall>n. r = Inr n \<longrightarrow> n = length buf \<longrightarrow> buf' = take (length buf) (drop (unat offset) (mb_bytes s)))"
  using assms memory_capacity_le[of s]
  by (auto simp: memory_read_at_def Let_def in_range_iff overwrite_def split: sum.splits option.splits)

lemma memory_write_eq:
  assumes "memory_write_at offset data s = (r, s')"
  shows "memory_capacity s' = memory_capacity s \<and> mb_read_only s' = mb_read_only s \<and>
    length (mb_bytes s') = length (mb_bytes s) \<and> (mb_read_only s \<longrightarrow> s' = s) \<and>
    (r = Inr (length data) \<longrightarrow> mb_bytes s' = overwrite (unat offset) data (mb_bytes s))"
  using assms memory_capacity_le[of s]
  by (auto simp: memory_write_at_def Let_def in_range_iff memory_capacity_def length_overwrite
      split: sum.splits option.splits if_splits)

interpretation heapstore: block_store memory_ops mb_bytes "\<lambda>_. True"
proof unfold_locales
  fix s r s' assume "flush memory_ops s = (r, s')"
  then show "True \<and> mb_bytes s' = mb_bytes s \<and>
      capacity_bytes memory_ops s' = capacity_bytes memory_ops s \<and>
      backend_read_only memory_ops s' = backend_read_only memory_ops s"
    by (auto simp: memory_ops_def memory_flush_def memory_capacity_def split: option.splits if_splits)
qed (auto simp: memory_ops_def memory_capacity_le dest!: memory_read_eq memory_write_eq)

interpretation nostore: block_store detached_ops "\<lambda>s. replicate (unat (dt_capacity_bytes s)) 0" "\<lambda>_. True"
  by unfold_locales (auto simp: detached_ops_def)

end
