(* ===== verification/BlockRequest.thy ===== *)
theory BlockRequest
  imports BlockBackend
begin

text \<open>
  Parsing of one virtio-blk request (\<open>soma-kvm/src/virtio/devices/block/request.rs\<close>): the fixed
  header, the shape of the chain, and the byte range against the capacity, before any backend
  call. The parser accepts exactly the requests that \<open>request_for\<close> describes.
\<close>

section \<open>Data\<close>

abbreviation (input) VIRTIO_BLK_T_IN :: u32 where "VIRTIO_BLK_T_IN \<equiv> 0"
abbreviation (input) VIRTIO_BLK_T_OUT :: u32 where "VIRTIO_BLK_T_OUT \<equiv> 1"
abbreviation (input) VIRTIO_BLK_T_FLUSH :: u32 where "VIRTIO_BLK_T_FLUSH \<equiv> 4"
abbreviation (input) VIRTIO_BLK_T_GET_ID :: u32 where "VIRTIO_BLK_T_GET_ID \<equiv> 8"
abbreviation (input) VIRTIO_BLK_S_OK :: u8 where "VIRTIO_BLK_S_OK \<equiv> 0"
abbreviation (input) VIRTIO_BLK_S_IOERR :: u8 where "VIRTIO_BLK_S_IOERR \<equiv> 1"
abbreviation (input) VIRTIO_BLK_S_UNSUPP :: u8 where "VIRTIO_BLK_S_UNSUPP \<equiv> 2"
abbreviation (input) SECTOR_SIZE :: u64 where "SECTOR_SIZE \<equiv> 512"
abbreviation (input) REQUEST_HEADER_LEN :: u64 where "REQUEST_HEADER_LEN \<equiv> 16"
abbreviation (input) BLK_ID_LEN :: nat where "BLK_ID_LEN \<equiv> 20"
abbreviation (input) MAX_REQUEST_BYTES :: u64 where "MAX_REQUEST_BYTES \<equiv> 0x100000"

datatype block_op =
    BlockRead u64 u32
  | BlockWrite u64 u32
  | BlockFlush
  | BlockGetId u32

record block_request =
  br_op :: block_op
  br_status_skip :: u64

datatype request_error =
    HeaderShort
  | NoStatus
  | RequestMemory guest_memory_error
  | UnsupportedType u32
  | RequestReadOnly
  | RequestDirection
  | SectorOverflow
  | RangeOverflow
  | RequestUnaligned u64
  | BeyondCapacity
  | TooLarge u64

definition request_status :: "request_error \<Rightarrow> u8" where
  "request_status e = (case e of UnsupportedType ty \<Rightarrow> VIRTIO_BLK_S_UNSUPP | _ \<Rightarrow> VIRTIO_BLK_S_IOERR)"

record request_limits =
  rl_capacity_bytes :: u64
  rl_read_only :: bool
  rl_flush :: bool

definition data_range :: "u64 \<Rightarrow> u64 \<Rightarrow> u64 \<Rightarrow> request_error + (u64 \<times> u32)" where
  "data_range sector len capacity =
     (if len = 0 \<or> len mod SECTOR_SIZE \<noteq> 0 then Inl (RequestUnaligned len)
      else if MAX_REQUEST_BYTES < len then Inl (TooLarge len)
      else and_then (ok_or SectorOverflow (checked_mul sector SECTOR_SIZE)) (\<lambda>offset.
           and_then (ok_or RangeOverflow (checked_add offset len)) (\<lambda>end'.
           if capacity < end' then Inl BeyondCapacity
           else if unat len < 2 ^ 32 then Inr (offset, ucast len) else Inl (TooLarge len))))"

text \<open>The match on the request type.\<close>

definition request_op :: "request_limits \<Rightarrow> u32 \<Rightarrow> u64 \<Rightarrow> u64 \<Rightarrow> u64 \<Rightarrow> request_error + block_op" where
  "request_op limits ty sector extra_readable data_writable =
     (if ty = VIRTIO_BLK_T_IN then
        if extra_readable \<noteq> 0 then Inl RequestDirection
        else and_then (data_range sector data_writable (rl_capacity_bytes limits)) (\<lambda>(offset, len).
             Inr (BlockRead offset len))
      else if ty = VIRTIO_BLK_T_OUT \<and> rl_read_only limits then Inl RequestReadOnly
      else if ty = VIRTIO_BLK_T_OUT then
        if data_writable \<noteq> 0 then Inl RequestDirection
        else and_then (data_range sector extra_readable (rl_capacity_bytes limits)) (\<lambda>(offset, len).
             Inr (BlockWrite offset len))
      else if ty = VIRTIO_BLK_T_FLUSH \<and> rl_flush limits then
        if extra_readable \<noteq> 0 \<or> data_writable \<noteq> 0 then Inl RequestDirection else Inr BlockFlush
      else if ty = VIRTIO_BLK_T_GET_ID then
        if extra_readable \<noteq> 0 \<or> data_writable = 0 \<or> of_nat BLK_ID_LEN < data_writable
        then Inl RequestDirection
        else Inr (BlockGetId (if unat data_writable < 2 ^ 32 then ucast data_writable else - 1))
      else Inl (UnsupportedType ty))"

definition parse_request ::
    "'m guest_memory_ops \<Rightarrow> 'm \<Rightarrow> descriptor_chain \<Rightarrow> request_limits \<Rightarrow> request_error + block_request" where
  "parse_request GM mem chain limits =
     (let readable = c_readable_len chain; writable = c_writable_len chain in
      if writable < 1 then Inl NoStatus
      else if readable < REQUEST_HEADER_LEN then Inl HeaderShort
      else
        let (r, header) = read_readable GM mem chain 0 (replicate 16 0) in
        and_then (map_err RequestMemory r) (\<lambda>_.
        let ty = le_word (take 4 header);
            sector = le_word (take 8 (drop 8 header));
            extra_readable = readable - REQUEST_HEADER_LEN;
            data_writable = writable - 1;
            status_skip = data_writable in
        and_then (request_op limits ty sector extra_readable data_writable) (\<lambda>op.
        Inr \<lparr>br_op = op, br_status_skip = status_skip\<rparr>)))"

section \<open>The accepted requests\<close>

definition sector_range :: "nat \<Rightarrow> nat \<Rightarrow> nat \<Rightarrow> bool" where
  "sector_range capacity offset len \<longleftrightarrow>
     0 < len \<and> len mod 512 = 0 \<and> len \<le> 2 ^ 20 \<and> offset mod 512 = 0 \<and> offset + len \<le> capacity"

definition op_for :: "request_limits \<Rightarrow> u32 \<Rightarrow> u64 \<Rightarrow> nat \<Rightarrow> nat \<Rightarrow> block_op \<Rightarrow> bool" where
  "op_for limits ty sector extra room op \<longleftrightarrow>
     (case op of
        BlockRead offset len \<Rightarrow>
          ty = VIRTIO_BLK_T_IN \<and> extra = 0 \<and> unat len = room \<and> unat offset = unat sector * 512 \<and>
          sector_range (unat (rl_capacity_bytes limits)) (unat offset) room
      | BlockWrite offset len \<Rightarrow>
          ty = VIRTIO_BLK_T_OUT \<and> \<not> rl_read_only limits \<and> room = 0 \<and> unat len = extra \<and>
          unat offset = unat sector * 512 \<and>
          sector_range (unat (rl_capacity_bytes limits)) (unat offset) extra
      | BlockFlush \<Rightarrow> ty = VIRTIO_BLK_T_FLUSH \<and> rl_flush limits \<and> extra = 0 \<and> room = 0
      | BlockGetId len \<Rightarrow>
          ty = VIRTIO_BLK_T_GET_ID \<and> extra = 0 \<and> unat len = room \<and> 0 < room \<and> room \<le> 20)"

definition request_for :: "request_limits \<Rightarrow> u8 list \<Rightarrow> nat \<Rightarrow> block_request \<Rightarrow> bool" where
  "request_for limits data writable req \<longleftrightarrow>
     16 \<le> length data \<and> 0 < writable \<and> unat (br_status_skip req) = writable - 1 \<and>
     op_for limits (le_word (take 4 data)) (le_word (take 8 (drop 8 data))) (length data - 16) (writable - 1) (br_op req)"

lemma data_range_iff:
  "data_range sector len capacity = Inr (offset, n) \<longleftrightarrow>
     unat offset = unat sector * 512 \<and> unat n = unat len \<and> sector_range (unat capacity) (unat offset) (unat len)"
proof -
  have mod: "len mod 512 = 0 \<longleftrightarrow> unat len mod 512 = 0" "len = 0 \<longleftrightarrow> unat len = 0"
    by (simp_all add: word_unat_eq_iff unat_mod_distrib)
  have cast: "unat (ucast len :: u32) = unat len" if "unat len \<le> 2 ^ 20"
    using that by (simp add: unsigned_ucast_eq unsigned_take_bit_eq take_bit_nat_eq_self)
  have off: "offset = sector * 512 \<longleftrightarrow> unat offset = unat sector * 512" if "unat sector * 512 < 2 ^ 64"
    using that unat_mul_no_overflow[of sector 512] by (auto simp: word_unat_eq_iff)
  show ?thesis
  proof (cases "unat len \<noteq> 0 \<and> unat len mod 512 = 0 \<and> unat len \<le> 2 ^ 20 \<and> unat sector * 512 + unat len \<le> unat capacity")
    case True
    then have lt: "unat sector * 512 + unat len < 2 ^ 64" using unat_u64_less[of capacity] by simp
    have m: "unat (sector * 512) = unat sector * 512" using unat_mul_no_overflow[of sector 512] lt by simp
    have "unat (sector * 512 + len) = unat sector * 512 + unat len"
      using unat_add_no_overflow[of "sector * 512" len] lt m by simp
    then have "data_range sector len capacity = Inr (sector * 512, ucast len)"
      using True lt m mod by (simp add: data_range_def checked_mul_def checked_add_def word_less_nat_alt)
    moreover have "unat offset mod 512 = 0" if "unat sector * 512 = unat offset"
      by (simp add: that[symmetric])
    ultimately show ?thesis using True lt m off cast
      by (auto simp: sector_range_def word_unat_eq_iff)
  next
    case False
    have "data_range sector len capacity \<noteq> Inr (offset, n)"
    proof
      assume h: "data_range sector len capacity = Inr (offset, n)"
      then have b: "unat len \<noteq> 0" "unat len mod 512 = 0" "unat len \<le> 2 ^ 20" "unat sector * 512 < 2 ^ 64"
        "checked_add (sector * 512) len = Some (sector * 512 + len)" "sector * 512 + len \<le> capacity"
        by (auto simp: data_range_def and_then_Inr_iff checked_mul_def checked_add_def mod word_less_nat_alt
            not_less word_le_nat_alt split: if_splits)
      have "unat (sector * 512 + len) = unat sector * 512 + unat len"
        using unat_checked_add[OF b(5)] unat_mul_no_overflow[of sector 512] b(4) by simp
      with b False show False by (simp add: word_le_nat_alt)
    qed
    then show ?thesis using False by (auto simp: sector_range_def)
  qed
qed

lemma request_op_iff:
  "request_op limits ty sector extra room = Inr op \<longleftrightarrow> op_for limits ty sector (unat extra) (unat room) op"
proof -
  have id: "BlockGetId (if unat room < 2 ^ 32 then ucast room else - 1) = BlockGetId n \<longleftrightarrow> unat n = unat room"
    if "room \<le> 20" for n
    using that by (auto simp: word_unat_eq_iff word_le_nat_alt unsigned_ucast_eq unsigned_take_bit_eq take_bit_nat_eq_self)
  have z: "extra = 0 \<longleftrightarrow> unat extra = 0" "room = 0 \<longleftrightarrow> unat room = 0" by (simp_all add: word_unat_eq_iff)
  show ?thesis
    using id
    by (cases op) (auto simp: request_op_def op_for_def and_then_Inr_iff data_range_iff z word_less_nat_alt word_le_nat_alt)
qed

text \<open>The header that the parser reads, once the chain is long enough.\<close>

lemma u64_minus: "b \<le> unat a \<Longrightarrow> unat (a - of_nat b) = unat a - b" for a :: u64
  using unat_u64_less[of a] by (subst unat_sub) (simp_all add: word_le_nat_alt unat_of_nat)

context guest_memory
begin

lemma read_header:
  assumes "valid mem" "chain_wf GM mem chain" "16 \<le> unat (c_readable_len chain)"
  shows "read_readable GM mem chain 0 (replicate 16 0) = (Inr 16, take 16 (readable_data (byte mem) chain))"
  using read_readable_ok[OF assms(1,2), of "replicate 16 0" 0] chain_wf_lens(1)[OF assms(2), of "byte mem"] assms(3)
  by simp

lemma parse_request_iff:
  assumes "valid mem" "chain_wf GM mem chain"
  shows "parse_request GM mem chain limits = Inr req \<longleftrightarrow>
    request_for limits (readable_data (byte mem) chain) (unat (c_writable_len chain)) req"
proof (cases "16 \<le> unat (c_readable_len chain) \<and> 0 < unat (c_writable_len chain)")
  case False
  then show ?thesis using chain_wf_lens(1)[OF assms(2), of "byte mem"]
    by (auto simp: parse_request_def request_for_def word_less_nat_alt Let_def)
next
  case True
  define data where "data = readable_data (byte mem) chain"
  have len: "length data = unat (c_readable_len chain)"
    using chain_wf_lens(1)[OF assms(2), of "byte mem"] by (simp add: data_def)
  have sub: "unat (c_readable_len chain - 16) = length data - 16" "unat (c_writable_len chain - 1) = unat (c_writable_len chain) - 1"
    using u64_minus[of 16 "c_readable_len chain"] u64_minus[of 1 "c_writable_len chain"] True len by simp_all
  define ty :: u32 where "ty = le_word (take 4 data)"
  define sector :: u64 where "sector = le_word (take 8 (drop 8 data))"
  have "parse_request GM mem chain limits = Inr req \<longleftrightarrow>
      (\<exists>op. request_op limits ty sector (c_readable_len chain - 16) (c_writable_len chain - 1) = Inr op \<and>
         req = \<lparr>br_op = op, br_status_skip = c_writable_len chain - 1\<rparr>)"
    using True read_header[OF assms]
    by (auto simp: parse_request_def word_less_nat_alt data_def[symmetric] and_then_Inr_iff ty_def sector_def drop_take Let_def)
  moreover have "req = \<lparr>br_op = op, br_status_skip = c_writable_len chain - 1\<rparr> \<longleftrightarrow>
      br_op req = op \<and> unat (br_status_skip req) = unat (c_writable_len chain) - 1" for op
    using sub(2) by (cases req) (auto simp: word_unat_eq_iff)
  ultimately show ?thesis
    using True len sub by (auto simp: request_op_iff request_for_def data_def[symmetric] ty_def sector_def)
qed

end

section \<open>Properties\<close>

text \<open>
  C32: The parser accepts a block request exactly when the chain carries a 16-byte header and a
  status byte and its shape fits the type: a read or write moves whole sectors, at most 1 MiB,
  inside the certified capacity with no overflow, a write reaches only a writable device, a
  flush carries no data, and an identity request asks for at most 20 bytes. The data length is
  exactly what the chain has room for, and the status byte is the last writable byte.
\<close>

theorem parse_request_exact:
  assumes "guest_memory GM valid byte" "valid mem" "chain_wf GM mem chain"
  shows "parse_request GM mem chain limits = Inr req \<longleftrightarrow>
    request_for limits (readable_data (byte mem) chain) (unat (c_writable_len chain)) req"
  using guest_memory.parse_request_iff[OF assms] .

definition sample_disk_memory :: vec_guest_memory where
  "sample_disk_memory = [\<lparr>r_start = 0, r_bytes = replicate 1024 0\<rparr>]"

definition sample_disk_read :: descriptor_chain where
  "sample_disk_read = \<lparr>c_head = 0, c_segments =
     [\<lparr>s_addr = 0, s_len = 16, s_writable = False\<rparr>, \<lparr>s_addr = 256, s_len = 513, s_writable = True\<rparr>],
     c_readable_len = 16, c_writable_len = 513\<rparr>"

lemma sample_disk_ok: "vec_valid sample_disk_memory" "chain_wf vec_ops sample_disk_memory sample_disk_read"
  by (simp_all add: vec_valid_def sample_disk_memory_def sample_disk_read_def chain_wf_def chain_readable_def
      chain_writable_def vec_ops_def vec_check_range_def vec_locate_def checked_add_def region_end_def)

lemma sample_disk_byte: "x < 1024 \<Longrightarrow> vec_byte sample_disk_memory x = Some 0"
  by (simp add: sample_disk_memory_def)

lemma sample_disk_data: "readable_data (vec_byte sample_disk_memory) sample_disk_read = replicate 16 0"
  by (rule nth_equalityI)
     (simp_all add: readable_data_def segs_addrs_def seg_addrs_def chain_readable_def sample_disk_read_def
        sample_disk_byte)

lemma le_word_zeros [simp]: "le_word (replicate n 0) = 0"
  by (induction n) simp_all

theorem parse_request_exact_witness:
  "parse_request vec_ops sample_disk_memory sample_disk_read
     \<lparr>rl_capacity_bytes = 1024, rl_read_only = True, rl_flush = False\<rparr> =
   Inr \<lparr>br_op = BlockRead 0 512, br_status_skip = 512\<rparr>"
  using parse_request_exact[OF vec.guest_memory_axioms sample_disk_ok]
  by (simp add: sample_disk_data request_for_def op_for_def sector_range_def) (simp add: sample_disk_read_def)

end
