(* ===== verification/BlockDevice.thy ===== *)
theory BlockDevice
  imports BlockRequest
begin

text \<open>
  virtio-blk (\<open>soma-kvm/src/virtio/devices/block.rs\<close> and \<open>block/\<close>): construction and attachment of
  a store, execution of a parsed request, the configuration space and the identity record. The
  device is shown to refine a byte array: a completed read returns the addressed bytes, a
  completed write replaces exactly them, and the immutable root never changes.
\<close>

section \<open>The device\<close>

abbreviation (input) VIRTIO_BLK_DEVICE_ID :: u32 where "VIRTIO_BLK_DEVICE_ID \<equiv> 2"
abbreviation (input) VIRTIO_BLK_F_RO :: u64 where "VIRTIO_BLK_F_RO \<equiv> 0x20"
abbreviation (input) VIRTIO_BLK_F_BLK_SIZE :: u64 where "VIRTIO_BLK_F_BLK_SIZE \<equiv> 0x40"
abbreviation (input) VIRTIO_BLK_F_FLUSH :: u64 where "VIRTIO_BLK_F_FLUSH \<equiv> 0x200"
abbreviation (input) BLOCK_CONFIG_LEN :: nat where "BLOCK_CONFIG_LEN \<equiv> 24"
abbreviation (input) BLOCK_SERIAL_LEN :: nat where "BLOCK_SERIAL_LEN \<equiv> 20"

definition BLOCK_CHAIN_LIMITS :: chain_limits where
  "BLOCK_CHAIN_LIMITS = \<lparr>max_descriptors = 256, max_bytes = MAX_REQUEST_BYTES + REQUEST_HEADER_LEN + 1\<rparr>"

datatype block_role = ImmutableRoot | PrivateOverlay

definition role_features :: "block_role \<Rightarrow> u64" where
  "role_features role =
     (case role of
        ImmutableRoot \<Rightarrow> VIRTIO_F_VERSION_1 OR VIRTIO_BLK_F_RO OR VIRTIO_BLK_F_BLK_SIZE
      | PrivateOverlay \<Rightarrow> VIRTIO_F_VERSION_1 OR VIRTIO_BLK_F_BLK_SIZE OR VIRTIO_BLK_F_FLUSH)"

definition role_read_only :: "block_role \<Rightarrow> bool" where
  "role_read_only role \<longleftrightarrow> role = ImmutableRoot"

datatype block_config_error =
    RoleMismatch
  | InvalidBlockSize u32
  | InvalidCapacity u64
  | AttachedShapeDiffers

record block_counters =
  bc_ok :: u32
  bc_io_error :: u32
  bc_unsupported :: u32
  bc_malformed :: u32

record 's block_device =
  bd_role :: block_role
  bd_backend :: 's
  bd_blk_size :: u32
  bd_capacity_sectors :: u64
  bd_serial :: "u8 list"
  bd_activated :: bool
  bd_counters :: block_counters

definition block_new ::
    "'s block_backend \<Rightarrow> block_role \<Rightarrow> 's \<Rightarrow> u32 \<Rightarrow> u8 list \<Rightarrow> block_config_error + 's block_device" where
  "block_new BB role backend blk_size serial =
     (if backend_read_only BB backend \<noteq> role_read_only role then Inl RoleMismatch
      else if \<not> is_power_of_two blk_size \<or> \<not> (512 \<le> blk_size \<and> blk_size \<le> 4096)
      then Inl (InvalidBlockSize blk_size)
      else
        let capacity = capacity_bytes BB backend in
        if capacity = 0 \<or> capacity mod ucast blk_size \<noteq> 0 then Inl (InvalidCapacity capacity)
        else Inr \<lparr>bd_role = role, bd_backend = backend, bd_blk_size = blk_size,
                  bd_capacity_sectors = capacity div SECTOR_SIZE, bd_serial = serial, bd_activated = False,
                  bd_counters = \<lparr>bc_ok = 0, bc_io_error = 0, bc_unsupported = 0, bc_malformed = 0\<rparr>\<rparr>)"

definition block_attach ::
    "'s block_backend \<Rightarrow> 's \<Rightarrow> 's block_device \<Rightarrow> (block_config_error, unit, 's block_device) mut_result" where
  "block_attach BB backend d =
     (if backend_read_only BB backend \<noteq> role_read_only (bd_role d) then (Inl RoleMismatch, d)
      else if capacity_bytes BB backend \<noteq> bd_capacity_sectors d * SECTOR_SIZE then (Inl AttachedShapeDiffers, d)
      else (Inr (), d\<lparr>bd_backend := backend\<rparr>))"

definition block_config_bytes :: "'s block_device \<Rightarrow> u8 list" where
  "block_config_bytes d = le_bytes 8 (bd_capacity_sectors d) @ replicate 12 0 @ le_bytes 4 (bd_blk_size d)"

definition block_limits :: "'s block_device \<Rightarrow> request_limits" where
  "block_limits d =
     \<lparr>rl_capacity_bytes = bd_capacity_sectors d * SECTOR_SIZE, rl_read_only = role_read_only (bd_role d),
      rl_flush = (role_features (bd_role d) AND VIRTIO_BLK_F_FLUSH \<noteq> 0)\<rparr>"

section \<open>Requests\<close>

definition block_execute ::
    "'m guest_memory_ops \<Rightarrow> 's block_backend \<Rightarrow> block_request \<Rightarrow> descriptor_chain \<Rightarrow> 's block_device \<times> 'm
     \<Rightarrow> (device_fault, u8 \<times> u32, 's block_device \<times> 'm) mut_result" where
  "block_execute GM BB request chain = (\<lambda>(d, mem).
     case br_op request of
       BlockRead offset len \<Rightarrow>
         let sz = unat len;
             (r, buf, s) = read_at BB offset (replicate sz 0, bd_backend d);
             d = d\<lparr>bd_backend := s\<rparr> in
         if r = Inr sz then
           let (w, mem) = write_writable GM chain 0 buf mem in
           (case w of
              Inl e \<Rightarrow> (Inl (FaultMemory e), d, mem)
            | Inr n \<Rightarrow> if n \<noteq> sz then (Inl FaultProtocol, d, mem) else (Inr (VIRTIO_BLK_S_OK, len), d, mem))
         else (Inr (VIRTIO_BLK_S_IOERR, 0), d, mem)
     | BlockWrite offset len \<Rightarrow>
         let sz = unat len;
             (r, buf) = read_readable GM mem chain REQUEST_HEADER_LEN (replicate sz 0) in
         (case r of
            Inl e \<Rightarrow> (Inl (FaultMemory e), d, mem)
          | Inr n \<Rightarrow>
              if n \<noteq> sz then (Inl FaultProtocol, d, mem)
              else
                let (r, s) = write_at BB offset buf (bd_backend d);
                    d = d\<lparr>bd_backend := s\<rparr> in
                (Inr (if r = Inr sz then VIRTIO_BLK_S_OK else VIRTIO_BLK_S_IOERR, 0), d, mem))
     | BlockFlush \<Rightarrow>
         let (r, s) = flush BB (bd_backend d);
             d = d\<lparr>bd_backend := s\<rparr> in
         (Inr (if r = Inr () then VIRTIO_BLK_S_OK else VIRTIO_BLK_S_IOERR, 0), d, mem)
     | BlockGetId len \<Rightarrow>
         let sz = unat len in
         if \<not> sz \<le> BLOCK_SERIAL_LEN then (Inl FaultProtocol, d, mem)
         else
           let (w, mem) = write_writable GM chain 0 (take sz (bd_serial d)) mem in
           (case w of
              Inl e \<Rightarrow> (Inl (FaultMemory e), d, mem)
            | Inr n \<Rightarrow> if n \<noteq> sz then (Inl FaultProtocol, d, mem) else (Inr (VIRTIO_BLK_S_OK, len), d, mem)))"

definition block_count :: "u8 \<Rightarrow> request_error option \<Rightarrow> 's block_device \<Rightarrow> 's block_device" where
  "block_count status error d =
     (let bump = (\<lambda>n :: u32. saturating_add n 1) in
      d\<lparr>bd_counters :=
        (case error of
           Some (UnsupportedType ty) \<Rightarrow> bc_unsupported_update bump
         | Some _ \<Rightarrow> bc_malformed_update bump
         | None \<Rightarrow> if status = VIRTIO_BLK_S_OK then bc_ok_update bump else bc_io_error_update bump)
        (bd_counters d)\<rparr>)"

text \<open>The end of \<open>handle_chain\<close>: count, write the status byte, and report the used length.\<close>

definition block_complete ::
    "'m guest_memory_ops \<Rightarrow> descriptor_chain \<Rightarrow> u8 \<Rightarrow> u32 \<Rightarrow> u64 \<Rightarrow> request_error option \<Rightarrow> 's block_device \<times> 'm
     \<Rightarrow> (device_fault, u32, 's block_device \<times> 'm) mut_result" where
  "block_complete GM chain status data_len status_skip error = (\<lambda>(d, mem).
     let d = block_count status error d;
         (w, mem) = write_writable GM chain status_skip [status] mem in
     case w of
       Inl e \<Rightarrow> (Inl (FaultMemory e), d, mem)
     | Inr n \<Rightarrow>
         if n \<noteq> 1 then (Inl FaultProtocol, d, mem) else (Inr (saturating_add data_len 1), d, mem))"

definition block_handle_chain ::
    "'m guest_memory_ops \<Rightarrow> 's block_backend \<Rightarrow> u16 \<Rightarrow> descriptor_chain \<Rightarrow> 's block_device \<times> 'm
     \<Rightarrow> (device_fault, u32, 's block_device \<times> 'm) mut_result" where
  "block_handle_chain GM BB queue chain = (\<lambda>(d, mem).
     case parse_request GM mem chain (block_limits d) of
       Inr request \<Rightarrow>
         try_then (block_execute GM BB request chain (d, mem)) (\<lambda>(status, data_len) st.
         block_complete GM chain status data_len (br_status_skip request) None st)
     | Inl error \<Rightarrow>
         if error = NoStatus
         then (Inr 0, block_count VIRTIO_BLK_S_IOERR (Some NoStatus) d, mem)
         else block_complete GM chain (request_status error) 0
                (saturating_sub (c_writable_len chain) 1) (Some error) (d, mem))"

definition block_handler :: "'m guest_memory_ops \<Rightarrow> 's block_backend \<Rightarrow> ('s block_device, 'm) chain_handler" where
  "block_handler GM BB =
     \<lparr>handler_limits = (\<lambda>_ _. BLOCK_CHAIN_LIMITS), handle_chain = block_handle_chain GM BB\<rparr>"

section \<open>The identity record\<close>

record block_state =
  bs_device_id :: u32
  bs_features :: u64
  bs_role :: block_role
  bs_blk_size :: u32
  bs_capacity_sectors :: u64
  bs_serial :: "u8 list"

abbreviation (input) BLOCK_STATE_LEN :: nat where "BLOCK_STATE_LEN \<equiv> 46"

definition block_state_capture :: "'s block_device \<Rightarrow> block_state" where
  "block_state_capture d =
     \<lparr>bs_device_id = VIRTIO_BLK_DEVICE_ID, bs_features = role_features (bd_role d), bs_role = bd_role d,
      bs_blk_size = bd_blk_size d, bs_capacity_sectors = bd_capacity_sectors d, bs_serial = bd_serial d\<rparr>"

definition block_state_to_bytes :: "block_state \<Rightarrow> u8 list" where
  "block_state_to_bytes s =
     [1] @ le_bytes 4 (bs_device_id s) @ le_bytes 8 (bs_features s) @
     [case bs_role s of ImmutableRoot \<Rightarrow> 0 | PrivateOverlay \<Rightarrow> 1] @
     le_bytes 4 (bs_blk_size s) @ le_bytes 8 (bs_capacity_sectors s) @ bs_serial s"

definition block_state_from_bytes :: "u8 list \<Rightarrow> device_state_error + block_state" where
  "block_state_from_bytes raw =
     (if length raw \<noteq> BLOCK_STATE_LEN \<or> raw ! 0 \<noteq> 1 then Inl Malformed
      else and_then
        (if raw ! 13 = 0 then Inr ImmutableRoot else if raw ! 13 = 1 then Inr PrivateOverlay else Inl Malformed)
        (\<lambda>role.
        and_then (u32_field Malformed (take 4 (drop 1 raw))) (\<lambda>device_id.
        and_then (u32_field Malformed (take 4 (drop 14 raw))) (\<lambda>blk_size.
        Inr \<lparr>bs_device_id = device_id, bs_features = le_u64 (take 8 (drop 5 raw)), bs_role = role,
             bs_blk_size = blk_size, bs_capacity_sectors = le_u64 (take 8 (drop 18 raw)),
             bs_serial = drop 26 raw\<rparr>))))"

definition block_state_apply :: "block_state \<Rightarrow> 's block_device \<Rightarrow> device_state_error + unit" where
  "block_state_apply s d = (if s = block_state_capture d then Inr () else Inl Incompatible)"

definition block_read_config :: "'s block_device \<Rightarrow> nat \<Rightarrow> nat \<Rightarrow> config_access_error + u8 list" where
  "block_read_config d offset len =
     (if offset + len < 2 ^ 64 \<and> offset + len \<le> BLOCK_CONFIG_LEN
      then Inr (take len (drop offset (block_config_bytes d)))
      else Inl OutOfBounds)"

definition block_activate :: "u64 \<Rightarrow> 's block_device \<Rightarrow> (activate_error, unit, 's block_device) mut_result" where
  "block_activate negotiated d =
     (if negotiated AND NOT (role_features (bd_role d)) \<noteq> 0 then (Inl (UnsupportedFeatures negotiated), d)
      else (Inr (), d\<lparr>bd_activated := True\<rparr>))"

definition block_ops :: "'s block_device virtio_device" where
  "block_ops =
     \<lparr>device_id = (\<lambda>_. VIRTIO_BLK_DEVICE_ID), vendor_id = (\<lambda>_. SOMA_VENDOR_ID),
      feature_allowlist = (\<lambda>d. role_features (bd_role d)), queue_max_sizes = (\<lambda>_. [256]),
      config_len = (\<lambda>_. BLOCK_CONFIG_LEN), dev_read_config = block_read_config,
      dev_write_config = (\<lambda>_ _ d. (Inl ReadOnly, d)), dev_activate = block_activate,
      dev_reset = (\<lambda>d. d\<lparr>bd_activated := False\<rparr>),
      snapshot_state = (\<lambda>d. block_state_to_bytes (block_state_capture d)),
      restore_state = (\<lambda>raw d. (and_then (block_state_from_bytes raw) (\<lambda>s. block_state_apply s d), d))\<rparr>"

section \<open>The contracts\<close>

lemma block_face [simp]: "device_face block_ops d = (2, role_features (bd_role d), [256], 24)"
  by (simp add: device_face_def block_ops_def)

lemma length_block_config [simp]: "length (block_config_bytes d) = 24"
  by (simp add: block_config_bytes_def)

interpretation block: device_model block_ops
  by unfold_locales
     (auto simp: block_ops_def device_face_def block_activate_def block_read_config_def split: if_splits)

definition block_inv :: "'s block_backend \<Rightarrow> ('s \<Rightarrow> bool) \<Rightarrow> 's block_device \<Rightarrow> bool" where
  "block_inv BB store_ok d \<longleftrightarrow>
     store_ok (bd_backend d) \<and> backend_read_only BB (bd_backend d) = role_read_only (bd_role d) \<and>
     unat (capacity_bytes BB (bd_backend d)) = unat (bd_capacity_sectors d) * 512 \<and>
     length (bd_serial d) = BLOCK_SERIAL_LEN"

lemma block_count_simps [simp]:
  "bd_role (block_count status e d) = bd_role d" "bd_backend (block_count status e d) = bd_backend d"
  "bd_blk_size (block_count status e d) = bd_blk_size d" "bd_capacity_sectors (block_count status e d) = bd_capacity_sectors d"
  "bd_serial (block_count status e d) = bd_serial d"
  "block_inv BB ok (block_count status e d) = block_inv BB ok d"
  by (simp_all add: block_count_def Let_def block_inv_def)

lemma block_limits_capacity:
  assumes "block_inv BB store_ok d"
  shows "unat (rl_capacity_bytes (block_limits d)) = unat (bd_capacity_sectors d) * 512"
  using assms unat_mul_no_overflow[of "bd_capacity_sectors d" 512] unat_u64_less[of "capacity_bytes BB (bd_backend d)"]
  by (simp add: block_inv_def block_limits_def)

text \<open>A device that was built or attached keeps its shape.\<close>

lemma blk_size_sector:
  assumes "is_power_of_two (b :: u32)" "512 \<le> b"
  shows "512 dvd unat b"
proof -
  obtain k where k: "unat b = 2 ^ k" using is_power_of_twoE[OF assms(1)] by metis
  have "\<not> k < 9"
  proof
    assume "k < 9"
    then have "(2 :: nat) ^ k \<le> 2 ^ 8" by (intro power_increasing) auto
    then show False using assms(2) k by (simp add: word_le_nat_alt)
  qed
  then have "(2 :: nat) ^ 9 dvd 2 ^ k" by (intro le_imp_power_dvd) simp
  then show ?thesis by (simp add: k)
qed

lemma block_new_inv:
  assumes "block_new BB role s blk_size serial = Inr d" "store_ok s" "length serial = 20"
  shows "block_inv BB store_ok d" "0 < bd_capacity_sectors d"
proof -
  let ?c = "capacity_bytes BB s"
  from assms(1) have h: "backend_read_only BB s = role_read_only role" "is_power_of_two blk_size" "512 \<le> blk_size"
    "?c \<noteq> 0" "?c mod ucast blk_size = 0" and d: "bd_role d = role" "bd_backend d = s"
    "bd_capacity_sectors d = ?c div 512" "bd_serial d = serial"
    by (auto simp: block_new_def Let_def split: if_splits)
  have "unat ?c mod unat blk_size = 0"
    using h(5) by (simp add: word_unat_eq_iff unat_mod_distrib unat_ucast_up)
  then have dvd: "512 dvd unat ?c" using blk_size_sector[OF h(2,3)] by (meson dvd_trans mod_0_imp_dvd)
  have div: "unat (?c div 512) = unat ?c div 512" by (simp add: unat_div_distrib)
  show "block_inv BB store_ok d" using h dvd assms(2,3) by (simp add: block_inv_def d div)
  have "unat ?c \<noteq> 0" using h(4) by (simp add: word_unat_eq_iff)
  then have "0 < unat ?c div 512" using dvd by (auto elim: dvdE)
  then show "0 < bd_capacity_sectors d" by (simp add: d word_less_nat_alt div)
qed

lemma block_attach_inv:
  assumes "block_inv BB store_ok d" "block_attach BB s d = (r, d')" "store_ok s"
  shows "block_inv BB store_ok d'" "block_state_capture d' = block_state_capture d"
  using assms block_limits_capacity[OF assms(1)]
  by (auto simp: block_attach_def block_inv_def block_limits_def block_state_capture_def split: if_splits)

section \<open>Requests refine a byte array\<close>

text \<open>What a request means for the contents of the disk, and the data it returns to the guest.\<close>

definition disk_step :: "u8 list \<Rightarrow> u8 list \<Rightarrow> block_op \<Rightarrow> u8 list \<Rightarrow> u8 list \<times> u8 list" where
  "disk_step payload serial op c =
     (case op of
        BlockRead offset len \<Rightarrow> (c, take (unat len) (drop (unat offset) c))
      | BlockWrite offset len \<Rightarrow> (overwrite (unat offset) payload c, [])
      | BlockFlush \<Rightarrow> (c, [])
      | BlockGetId len \<Rightarrow> (c, take (unat len) serial))"

text \<open>Whether the store carries the operation out in full.\<close>

definition store_accepts :: "'s block_backend \<Rightarrow> u8 list \<Rightarrow> block_op \<Rightarrow> 's \<Rightarrow> bool" where
  "store_accepts BB payload op s \<longleftrightarrow>
     (case op of
        BlockRead offset len \<Rightarrow> fst (read_at BB offset (replicate (unat len) 0, s)) = Inr (unat len)
      | BlockWrite offset len \<Rightarrow> fst (write_at BB offset payload s) = Inr (unat len)
      | BlockFlush \<Rightarrow> fst (flush BB s) = Inr ()
      | BlockGetId len \<Rightarrow> True)"

lemma drop_last: "xs \<noteq> [] \<Longrightarrow> drop (length xs - Suc 0) xs = [last xs]"
  by (metis append_butlast_last_id append_eq_conv_conj length_butlast One_nat_def)

lemma map_upds_last:
  assumes "length A = Suc (length xs)"
  shows "(m(A [\<mapsto>] xs))(last A \<mapsto> x) = m(A [\<mapsto>] xs @ [x])"
proof -
  obtain B a where A: "A = B @ [a]" using assms by (cases A rule: rev_cases) auto
  have "m(B @ [a] [\<mapsto>] xs) = m(B [\<mapsto>] xs)" "m(B [\<mapsto>] xs @ [x]) = m(B [\<mapsto>] xs)"
    using assms A by simp_all
  then show ?thesis using assms A by (simp add: nth_append)
qed

lemma parse_no_status: "parse_request GM mem chain limits = Inl NoStatus \<longleftrightarrow> c_writable_len chain = 0"
proof -
  have "request_op limits ty sector extra room \<noteq> Inl NoStatus" for ty sector extra room
    by (auto simp: request_op_def data_range_def and_then_Inl_iff ok_or_Inl_iff)
  then show ?thesis
    by (auto simp: parse_request_def Let_def and_then_Inl_iff map_err_Inl_iff word_less_nat_alt word_unat_eq_iff
        split: prod.splits)
qed

locale block_service = guest_memory GM valid byte + block_store BB content store_ok
  for GM :: "'m guest_memory_ops" and valid and byte and BB :: "'s block_backend" and content and store_ok
begin

abbreviation binv :: "'s block_device \<Rightarrow> bool" where "binv \<equiv> block_inv BB store_ok"

lemma complete_ok:
  assumes "valid mem" "chain_wf GM mem chain" "unat skip = unat (c_writable_len chain) - 1" "0 < unat (c_writable_len chain)"
  obtains mem' where
    "block_complete GM chain status n skip e (d, mem) = (Inr (saturating_add n 1), block_count status e d, mem')"
    "valid mem'" "check_range GM mem' = check_range GM mem"
    "byte mem' = (byte mem)(last (writable_addrs chain) \<mapsto> status)"
proof -
  let ?A = "writable_addrs chain"
  have "?A \<noteq> []" using chain_wf_lens(2)[OF assms(2)] assms(4) by auto
  then have A: "drop (unat skip) ?A = [last ?A]"
    using drop_last[of ?A] chain_wf_lens(2)[OF assms(2)] assms(3) by simp
  from write_writable_ok[OF assms(1,2), of "[status]" skip] obtain mem' where
    "write_writable GM chain skip [status] mem = (Inr 1, mem')" "valid mem'"
    "check_range GM mem' = check_range GM mem" "byte mem' = (byte mem)(last ?A \<mapsto> status)"
    by (auto simp: A)
  then show thesis by (intro that[of mem']) (simp_all add: block_complete_def Let_def)
qed

lemma put_ok:
  assumes "valid mem" "chain_wf GM mem chain" "Suc (length bytes) = unat (c_writable_len chain)"
  obtains mem' where "write_writable GM chain 0 bytes mem = (Inr (length bytes), mem')"
    "valid mem'" "check_range GM mem' = check_range GM mem" "byte mem' = (byte mem)(writable_addrs chain [\<mapsto>] bytes)"
proof -
  have "length bytes < 2 ^ 64" using assms(3) unat_u64_less[of "c_writable_len chain"] by simp
  moreover have "min (length bytes) (length (writable_addrs chain)) = length bytes"
    using assms(3) chain_wf_lens(2)[OF assms(2)] by simp
  ultimately show thesis using that write_writable_ok[OF assms(1,2), of bytes 0] by auto
qed

text \<open>Execution of an accepted request, whatever the store does.\<close>

lemma execute_ok:
  fixes chain :: descriptor_chain and mem :: 'm
  defines "data \<equiv> readable_data (byte mem) chain" and "A \<equiv> writable_addrs chain"
  assumes "valid mem" "chain_wf GM mem chain" "binv d"
    and req: "request_for (block_limits d) data (length A) req"
  obtains status len d' mem' where
    "block_execute GM BB req chain (d, mem) = (Inr (status, len), d', mem')"
    "valid mem'" "check_range GM mem' = check_range GM mem" "binv d'"
    "block_state_capture d' = block_state_capture d" "unat len < length A" "unat len \<le> 2 ^ 20"
    "if store_accepts BB (drop 16 data) (br_op req) (bd_backend d)
     then status = 0 \<and> Suc (unat len) = length A \<and> unat len = length (snd (disk_step (drop 16 data) (bd_serial d) (br_op req) (content (bd_backend d)))) \<and>
       content (bd_backend d') = fst (disk_step (drop 16 data) (bd_serial d) (br_op req) (content (bd_backend d))) \<and>
       byte mem' = (byte mem)(A [\<mapsto>] snd (disk_step (drop 16 data) (bd_serial d) (br_op req) (content (bd_backend d))))
     else status = 1 \<and> len = 0 \<and> mem' = mem"
    "rl_read_only (block_limits d) \<Longrightarrow> content (bd_backend d') = content (bd_backend d)"
proof (cases "br_op req")
  case (BlockRead offset len)
  obtain r buf s where rd: "read_at BB offset (replicate (unat len) 0, bd_backend d) = (r, buf, s)" by (metis prod_cases3)
  let ?d = "d\<lparr>bd_backend := s\<rparr>"
  have ok: "store_ok (bd_backend d)" using assms(5) by (simp add: block_inv_def)
  note k = read_keeps[OF ok rd]
  have inv: "binv ?d" "block_state_capture ?d = block_state_capture d"
    using assms(5) k by (simp_all add: block_inv_def block_state_capture_def)
  have len: "Suc (unat len) = unat (c_writable_len chain)" "length A = unat (c_writable_len chain)" "unat len \<le> 2 ^ 20"
    using req BlockRead chain_wf_lens(2)[OF assms(4)] by (auto simp: request_for_def op_for_def A_def sector_range_def)
  show thesis
  proof (cases "r = Inr (unat len)")
    case True
    have buf: "length buf = unat len" "buf = take (unat len) (drop (unat offset) (content (bd_backend d)))"
      using k read_full[OF ok, of offset "replicate (unat len) 0"] rd True by simp_all
    obtain mem' where w: "write_writable GM chain 0 buf mem = (Inr (length buf), mem')" "valid mem'"
      "check_range GM mem' = check_range GM mem" "byte mem' = (byte mem)(A [\<mapsto>] buf)"
      unfolding A_def using put_ok[OF assms(3,4), of buf] len buf(1) by metis
    show thesis
      by (rule that[of 0 len ?d mem'])
         (use w inv k len rd True buf BlockRead in \<open>simp_all add: block_execute_def Let_def store_accepts_def disk_step_def\<close>)
  next
    case False
    show thesis
      by (rule that[of 1 0 ?d mem])
         (use inv k len rd False BlockRead assms(3) in \<open>auto simp: block_execute_def Let_def store_accepts_def\<close>)
  qed
next
  case (BlockWrite offset len)
  have len: "unat len = length data - 16" "16 \<le> length data" "length A = 1" "\<not> rl_read_only (block_limits d)"
    using req BlockWrite by (auto simp: request_for_def op_for_def simp del: length_greater_0_conv)
  have rd: "read_readable GM mem chain 16 (replicate (unat len) 0) = (Inr (unat len), drop 16 data)"
    using read_readable_ok[OF assms(3,4), of "replicate (unat len) 0" 16] len unat_u32_less[of len]
    by (simp add: data_def)
  obtain r s where wr: "write_at BB offset (drop 16 data) (bd_backend d) = (r, s)" by fastforce
  let ?d = "d\<lparr>bd_backend := s\<rparr>"
  have ok: "store_ok (bd_backend d)" using assms(5) by (simp add: block_inv_def)
  note k = write_keeps[OF ok wr]
  have full: "content s = overwrite (unat offset) (drop 16 data) (content (bd_backend d))" if "r = Inr (unat len)"
    using write_full[OF ok, of offset "drop 16 data" s] wr that len by simp
  have inv: "binv ?d" "block_state_capture ?d = block_state_capture d"
    using assms(5) k by (simp_all add: block_inv_def block_state_capture_def)
  show thesis
    by (rule that[of "if r = Inr (unat len) then 0 else 1" 0 ?d mem])
       (use inv rd wr full len BlockWrite assms(3) in \<open>auto simp: block_execute_def Let_def store_accepts_def disk_step_def\<close>)
next
  case BlockFlush
  have len: "length A = 1" using req BlockFlush
    by (auto simp: request_for_def op_for_def simp del: length_greater_0_conv)
  obtain r s where fl: "flush BB (bd_backend d) = (r, s)" by fastforce
  let ?d = "d\<lparr>bd_backend := s\<rparr>"
  have ok: "store_ok (bd_backend d)" using assms(5) by (simp add: block_inv_def)
  note k = flush_keeps[OF ok fl]
  have inv: "binv ?d" "block_state_capture ?d = block_state_capture d"
    using assms(5) k by (simp_all add: block_inv_def block_state_capture_def)
  show thesis
    by (rule that[of "if r = Inr () then 0 else 1" 0 ?d mem])
       (use inv k fl len BlockFlush assms(3) in \<open>auto simp: block_execute_def Let_def store_accepts_def disk_step_def\<close>)
next
  case (BlockGetId len)
  have len: "Suc (unat len) = unat (c_writable_len chain)" "length A = unat (c_writable_len chain)" "unat len \<le> 20"
    using req BlockGetId chain_wf_lens(2)[OF assms(4)] by (auto simp: request_for_def op_for_def A_def)
  have serial: "length (take (unat len) (bd_serial d)) = unat len" using assms(5) len by (simp add: block_inv_def)
  obtain mem' where w: "write_writable GM chain 0 (take (unat len) (bd_serial d)) mem = (Inr (unat len), mem')" "valid mem'"
      "check_range GM mem' = check_range GM mem" "byte mem' = (byte mem)(A [\<mapsto>] take (unat len) (bd_serial d))"
    unfolding A_def using put_ok[OF assms(3,4), of "take (unat len) (bd_serial d)"] len serial by metis
  show thesis
    by (rule that[of 0 len d mem'])
       (use w len serial BlockGetId assms(5) in \<open>auto simp: block_execute_def Let_def store_accepts_def disk_step_def\<close>)
qed

lemma handle_accepted:
  fixes chain :: descriptor_chain and mem :: 'm
  defines "data \<equiv> readable_data (byte mem) chain" and "A \<equiv> writable_addrs chain"
  assumes "valid mem" "chain_wf GM mem chain" "binv d"
    and req: "parse_request GM mem chain (block_limits d) = Inr req"
  obtains used d' mem' where
    "block_handle_chain GM BB queue chain (d, mem) = (Inr used, d', mem')"
    "valid mem'" "check_range GM mem' = check_range GM mem" "binv d'"
    "block_state_capture d' = block_state_capture d" "unat used \<le> length A"
    "let (c', out) = disk_step (drop 16 data) (bd_serial d) (br_op req) (content (bd_backend d)) in
     if store_accepts BB (drop 16 data) (br_op req) (bd_backend d)
     then unat used = length out + 1 \<and> content (bd_backend d') = c' \<and> byte mem' = (byte mem)(A [\<mapsto>] out @ [0])
     else used = 1 \<and> byte mem' = (byte mem)(last A \<mapsto> 1)"
    "rl_read_only (block_limits d) \<Longrightarrow> content (bd_backend d') = content (bd_backend d)"
proof -
  note lens = chain_wf_lens(2)[OF assms(4), folded A_def]
  have rf: "request_for (block_limits d) data (length A) req"
    using req parse_request_iff[OF assms(3,4)] by (simp add: data_def lens)
  then have skip: "unat (br_status_skip req) = unat (c_writable_len chain) - 1" "0 < unat (c_writable_len chain)"
    by (auto simp: request_for_def lens)
  obtain status len d1 mem1 where x: "block_execute GM BB req chain (d, mem) = (Inr (status, len), d1, mem1)"
    "valid mem1" "check_range GM mem1 = check_range GM mem" "binv d1"
    "block_state_capture d1 = block_state_capture d" "unat len < length A" "unat len \<le> 2 ^ 20"
    "if store_accepts BB (drop 16 data) (br_op req) (bd_backend d)
     then status = 0 \<and> Suc (unat len) = length A \<and> unat len = length (snd (disk_step (drop 16 data) (bd_serial d) (br_op req) (content (bd_backend d)))) \<and>
       content (bd_backend d1) = fst (disk_step (drop 16 data) (bd_serial d) (br_op req) (content (bd_backend d))) \<and>
       byte mem1 = (byte mem)(A [\<mapsto>] snd (disk_step (drop 16 data) (bd_serial d) (br_op req) (content (bd_backend d))))
     else status = 1 \<and> len = 0 \<and> mem1 = mem"
    "rl_read_only (block_limits d) \<Longrightarrow> content (bd_backend d1) = content (bd_backend d)"
    using execute_ok[OF assms(3-5) rf[unfolded data_def A_def], folded data_def A_def] by blast
  obtain mem' where c: "block_complete GM chain status len (br_status_skip req) None (d1, mem1) =
      (Inr (saturating_add len 1), block_count status None d1, mem')" "valid mem'"
    "check_range GM mem' = check_range GM mem1" "byte mem' = (byte mem1)(last A \<mapsto> status)"
    unfolding A_def using complete_ok[OF x(2) _ skip] assms(4) chain_wf_cong[OF x(3)] by metis
  have "unat (saturating_add len 1) = unat len + 1" using x(7) by (simp add: unat_saturating_add)
  moreover have "saturating_add len 1 = 1" if "len = 0" using that by (simp add: saturating_add_def)
  moreover have "(byte mem)(A [\<mapsto>] out, last A \<mapsto> 0) = (byte mem)(A [\<mapsto>] out @ [0])" if "Suc (length out) = length A" for out
    using map_upds_last[of A out] that by simp
  ultimately show thesis
    by (intro that[of "saturating_add len 1" "block_count status None d1" mem'])
       (use x c req in \<open>auto simp: block_handle_chain_def block_state_capture_def split: prod.splits if_splits\<close>)
qed

lemma handle_rejected:
  assumes "valid mem" "chain_wf GM mem chain" "parse_request GM mem chain (block_limits d) = Inl e"
  obtains mem' where
    "block_handle_chain GM BB queue chain (d, mem) =
      (Inr (if e = NoStatus then 0 else 1), block_count (request_status e) (Some e) d, mem')"
    "valid mem'" "check_range GM mem' = check_range GM mem"
    "e = NoStatus \<longleftrightarrow> c_writable_len chain = 0"
    "byte mem' = (if e = NoStatus then byte mem else (byte mem)(last (writable_addrs chain) \<mapsto> request_status e))"
proof -
  have no: "e = NoStatus \<longleftrightarrow> c_writable_len chain = 0"
    using assms(3) parse_no_status[of GM mem chain "block_limits d"] by auto
  show thesis
  proof (cases "e = NoStatus")
    case True
    then show thesis using assms no by (intro that[of mem]) (auto simp: block_handle_chain_def request_status_def)
  next
    case False
    then have pos: "0 < unat (c_writable_len chain)" using no by (simp add: word_unat_eq_iff)
    have skip: "unat (saturating_sub (c_writable_len chain) 1) = unat (c_writable_len chain) - 1"
      by (simp add: unat_saturating_sub)
    obtain mem' where "block_complete GM chain (request_status e) 0 (saturating_sub (c_writable_len chain) 1) (Some e) (d, mem) =
        (Inr (saturating_add 0 1), block_count (request_status e) (Some e) d, mem')" "valid mem'"
      "check_range GM mem' = check_range GM mem" "byte mem' = (byte mem)(last (writable_addrs chain) \<mapsto> request_status e)"
      by (rule complete_ok[OF assms(1,2) skip pos])
    then show thesis using assms(3) no False
      by (intro that[of mem']) (simp_all add: block_handle_chain_def saturating_add_def)
  qed
qed

end

sublocale block_service \<subseteq> service_model GM valid byte block_ops "block_handler GM BB" "block_inv BB store_ok"
proof unfold_locales
  fix mem d c queue r d' mem'
  assume a: "valid mem" "binv d" "chain_wf GM mem c"
    and h: "handle_chain (block_handler GM BB) queue c (d, mem) = (r, d', mem')"
  note lens = chain_wf_lens(2)[OF a(3)]
  show "valid mem' \<and> check_range GM mem' = check_range GM mem \<and>
      device_face block_ops d' = device_face block_ops d \<and> binv d' \<and>
      (\<forall>len. r = Inr len \<longrightarrow> unat len \<le> unat (c_writable_len c))"
  proof (cases "parse_request GM mem c (block_limits d)")
    case (Inl e)
    show ?thesis
      by (rule handle_rejected[OF a(1,3) Inl, of queue])
         (use h a in \<open>auto simp: block_handler_def word_unat_eq_iff Suc_le_eq\<close>)
  next
    case (Inr req)
    show ?thesis
      by (rule handle_accepted[OF a(1,3,2) Inr, of queue])
         (use h lens in \<open>auto simp: block_handler_def block_state_capture_def\<close>)
  qed
qed (auto simp: block_ops_def block_activate_def block_inv_def split: if_splits)

interpretation vec_file: block_service vec_ops vec_valid vec_byte file_ops "\<lambda>s. f_bytes (fb_file s)"
    "\<lambda>s. unat (fb_capacity s) \<le> length (f_bytes (fb_file s))" ..

interpretation vec_heap: block_service vec_ops vec_valid vec_byte memory_ops mb_bytes "\<lambda>_. True" ..

section \<open>The role and the image\<close>

text \<open>
  A disk of a given role: the role never changes, and the contents of an immutable root are the
  image it was built with.
\<close>

definition disk_inv ::
    "'s block_backend \<Rightarrow> ('s \<Rightarrow> u8 list) \<Rightarrow> ('s \<Rightarrow> bool) \<Rightarrow> block_role \<Rightarrow> u8 list \<Rightarrow> 's block_device \<Rightarrow> bool" where
  "disk_inv BB content store_ok role img d \<longleftrightarrow>
     block_inv BB store_ok d \<and> bd_role d = role \<and> (role = ImmutableRoot \<longrightarrow> content (bd_backend d) = img)"

context block_service
begin

lemma handle_kept:
  assumes "valid mem" "chain_wf GM mem chain" "binv d" "block_handle_chain GM BB queue chain (d, mem) = (r, d', mem')"
  shows "block_state_capture d' = block_state_capture d"
    "bd_role d = ImmutableRoot \<Longrightarrow> content (bd_backend d') = content (bd_backend d)"
proof -
  have ro: "bd_role d = ImmutableRoot \<Longrightarrow> rl_read_only (block_limits d)"
    by (simp add: block_limits_def role_read_only_def)
  have "block_state_capture d' = block_state_capture d \<and>
      (bd_role d = ImmutableRoot \<longrightarrow> content (bd_backend d') = content (bd_backend d))"
  proof (cases "parse_request GM mem chain (block_limits d)")
    case (Inl e)
    show ?thesis
      by (rule handle_rejected[OF assms(1,2) Inl, of queue]) (use assms(4) in \<open>auto simp: block_state_capture_def\<close>)
  next
    case (Inr req)
    show ?thesis by (rule handle_accepted[OF assms(1-3) Inr, of queue]) (use assms(4) ro in auto)
  qed
  then show "block_state_capture d' = block_state_capture d"
    "bd_role d = ImmutableRoot \<Longrightarrow> content (bd_backend d') = content (bd_backend d)" by auto
qed

end

locale disk_service = block_service GM valid byte BB content store_ok
  for GM :: "'m guest_memory_ops" and valid and byte and BB :: "'s block_backend" and content and store_ok +
  fixes role :: block_role and img :: "u8 list"

sublocale disk_service \<subseteq> disk:
    service_model GM valid byte block_ops "block_handler GM BB" "disk_inv BB content store_ok role img"
proof unfold_locales
  fix mem d c queue r d' mem'
  assume a: "valid mem" "disk_inv BB content store_ok role img d" "chain_wf GM mem c"
    and h: "handle_chain (block_handler GM BB) queue c (d, mem) = (r, d', mem')"
  have b: "binv d" using a(2) by (simp add: disk_inv_def)
  have h': "block_handle_chain GM BB queue c (d, mem) = (r, d', mem')" using h by (simp add: block_handler_def)
  have "bd_role d' = bd_role d" using handle_kept(1)[OF a(1,3) b h'] by (simp add: block_state_capture_def)
  then show "valid mem' \<and> check_range GM mem' = check_range GM mem \<and>
      device_face block_ops d' = device_face block_ops d \<and> disk_inv BB content store_ok role img d' \<and>
      (\<forall>len. r = Inr len \<longrightarrow> unat len \<le> unat (c_writable_len c))"
    using handle_keeps[OF a(1) b a(3) h] handle_kept(2)[OF a(1,3) b h'] a(2) by (auto simp: disk_inv_def)
qed (auto simp: block_ops_def block_activate_def block_inv_def disk_inv_def split: if_splits)

interpretation vec_root: disk_service vec_ops vec_valid vec_byte memory_ops mb_bytes "\<lambda>_. True" ImmutableRoot img for img ..

interpretation vec_overlay: disk_service vec_ops vec_valid vec_byte file_ops "\<lambda>s. f_bytes (fb_file s)"
    "\<lambda>s. unat (fb_capacity s) \<le> length (f_bytes (fb_file s))" PrivateOverlay img for img ..

section \<open>The identity record\<close>

lemma block_state_codec:
  "block_state_from_bytes raw = Inr s \<longleftrightarrow> raw = block_state_to_bytes s \<and> length (bs_serial s) = 20"
proof
  assume h: "block_state_from_bytes raw = Inr s"
  define b :: u8 where "b = (case bs_role s of ImmutableRoot \<Rightarrow> 0 | PrivateOverlay \<Rightarrow> 1)"
  from h have len: "length raw = 46" "raw ! 0 = 1" "raw ! 13 = b" "length (bs_serial s) = 20"
    and s: "bs_device_id s = le_word (take 4 (drop 1 raw))" "bs_features s = le_word (take 8 (drop 5 raw))"
      "bs_blk_size s = le_word (take 4 (drop 14 raw))" "bs_capacity_sectors s = le_word (take 8 (drop 18 raw))"
      "bs_serial s = drop 26 raw"
    by (auto simp: block_state_from_bytes_def u32_field_eq le_u64_eq_le_word and_then_Inr_iff b_def split: if_splits)
  have "block_state_to_bytes s = raw ! 0 # take 4 (drop 1 raw) @ take 8 (drop 5 raw) @ raw ! 13 #
      take 4 (drop 14 raw) @ take 8 (drop 18 raw) @ drop 26 raw"
    using len by (simp add: block_state_to_bytes_def s le_bytes_le_word b_def)
  also have "\<dots> = raw" using len(1) by (simp add: join_simps del: take_drop drop_drop)
  finally show "raw = block_state_to_bytes s \<and> length (bs_serial s) = 20" using len by simp
next
  assume h: "raw = block_state_to_bytes s \<and> length (bs_serial s) = 20"
  have "raw ! 13 = (case bs_role s of ImmutableRoot \<Rightarrow> 0 | PrivateOverlay \<Rightarrow> 1)" "raw ! 0 = 1" "length raw = 46"
    using h by (simp_all add: block_state_to_bytes_def nth_append)
  then show "block_state_from_bytes raw = Inr s"
    using h by (cases "bs_role s")
      (simp_all add: block_state_from_bytes_def u32_field_eq le_u64_eq_le_word, simp_all add: block_state_to_bytes_def)
qed

section \<open>Properties\<close>

text \<open>
  C15: A block request that the parser accepts refines one step on a byte array. When the store
  carries the operation out, a read returns exactly the addressed bytes, a write replaces
  exactly the addressed bytes by the payload, a flush and an identity request change nothing;
  the returned data followed by the status byte 0 fills the writable buffers, and no other byte
  of guest memory changes. When the store fails or is short, the guest sees the I/O error
  status and no data. The reported length is what was written.
\<close>

theorem block_refines_disk:
  assumes "guest_memory GM valid byte" "block_store BB content store_ok" "valid mem" "chain_wf GM mem chain"
    and "block_inv BB store_ok d" "parse_request GM mem chain (block_limits d) = Inr req"
  shows "let payload = drop 16 (readable_data (byte mem) chain); A = writable_addrs chain;
      (c', out) = disk_step payload (bd_serial d) (br_op req) (content (bd_backend d)) in
    \<exists>used d' mem'. block_handle_chain GM BB queue chain (d, mem) = (Inr used, d', mem') \<and>
      (if store_accepts BB payload (br_op req) (bd_backend d)
       then unat used = length out + 1 \<and> content (bd_backend d') = c' \<and> byte mem' = (byte mem)(A [\<mapsto>] out @ [0])
       else used = 1 \<and> byte mem' = (byte mem)(last A \<mapsto> 1))"
proof -
  have s: "block_service GM valid byte BB content store_ok" using assms(1,2) by (rule block_service.intro)
  show ?thesis
    by (rule block_service.handle_accepted[OF s assms(3-6), of queue]) (auto simp: Let_def split: prod.split)
qed

definition sample_disk :: "memory_backend block_device" where
  "sample_disk = \<lparr>bd_role = ImmutableRoot, bd_backend = (memory_zeroed 2 True)\<lparr>mb_bytes := replicate 1024 7\<rparr>,
     bd_blk_size = 512, bd_capacity_sectors = 2, bd_serial = replicate 20 0, bd_activated = True,
     bd_counters = \<lparr>bc_ok = 0, bc_io_error = 0, bc_unsupported = 0, bc_malformed = 0\<rparr>\<rparr>"

lemma sample_disk_inv: "block_inv memory_ops (\<lambda>_. True) sample_disk"
  by (simp add: block_inv_def sample_disk_def memory_ops_def memory_capacity_def memory_zeroed_def role_read_only_def)

lemma sample_disk_parse:
  "parse_request vec_ops sample_disk_memory sample_disk_read (block_limits sample_disk) =
     Inr \<lparr>br_op = BlockRead 0 512, br_status_skip = 512\<rparr>"
  using vec.parse_request_iff[OF sample_disk_ok]
  by (simp add: sample_disk_data request_for_def op_for_def sector_range_def)
     (simp add: sample_disk_read_def block_limits_def sample_disk_def role_read_only_def)

theorem block_refines_disk_witness:
  "\<exists>d' mem'. block_handle_chain vec_ops memory_ops 0 sample_disk_read (sample_disk, sample_disk_memory) =
     (Inr 513, d', mem') \<and>
     vec_byte mem' = (vec_byte sample_disk_memory)(writable_addrs sample_disk_read [\<mapsto>] replicate 512 7 @ [0])"
proof -
  have cap: "memory_capacity (bd_backend sample_disk) = 1024" "mb_fail (bd_backend sample_disk) = None"
    "mb_short_by (bd_backend sample_disk) = 0"
    by (simp_all add: sample_disk_def memory_capacity_def memory_zeroed_def)
  have "store_accepts memory_ops [] (BlockRead 0 512) (bd_backend sample_disk)"
    using in_range_iff[of 1024 0 512] unfolding store_accepts_def
    by (simp add: memory_ops_def memory_read_at_def cap Let_def)
  moreover have "disk_step [] (bd_serial sample_disk) (BlockRead 0 512) (mb_bytes (bd_backend sample_disk)) =
      (replicate 1024 7, replicate 512 7)"
    by (simp add: disk_step_def sample_disk_def)
  ultimately show ?thesis
    using block_refines_disk[OF vec.guest_memory_axioms heapstore.block_store_axioms sample_disk_ok sample_disk_inv
        sample_disk_parse, of 0]
    by (auto simp: sample_disk_data Let_def word_unat_eq_iff)
qed



text \<open>
  A block device accepts a snapshot record exactly when it is its own identity: same
  version, device, features, role, block size, capacity and serial. Accepting it changes
  nothing.
\<close>

lemma block_restore_exact:
  assumes "length (bd_serial d) = BLOCK_SERIAL_LEN"
  shows "restore_state block_ops raw d = (Inr (), d') \<longleftrightarrow> raw = snapshot_state block_ops d \<and> d' = d"
  using assms block_state_codec[of raw "block_state_capture d"]
  by (auto simp: block_ops_def and_then_Inr_iff block_state_apply_def block_state_capture_def split: if_splits)

text \<open>
  Building a device checks the shape of its store: the writability is the role's, the
  capacity is a positive number of whole sectors and the device reports exactly that capacity.
  A later attachment keeps the shape and the identity the guest was told, or is refused and
  changes nothing.
\<close>

lemma block_shape_kept:
  assumes "block_new BB role s blk_size serial = Inr d" "store_ok s" "length serial = BLOCK_SERIAL_LEN"
    and "store_ok s'" "block_attach BB s' d = (r, d')"
  shows "block_inv BB store_ok d \<and> 0 < bd_capacity_sectors d \<and> block_inv BB store_ok d' \<and>
    block_state_capture d' = block_state_capture d \<and> (r \<noteq> Inr () \<longrightarrow> d' = d)"
  using block_new_inv[where store_ok=store_ok, OF assms(1-3)]
    block_attach_inv[OF block_new_inv(1)[where store_ok=store_ok, OF assms(1-3)] assms(5,4)] assms(5)
  by (auto simp: block_attach_def split: if_splits)

end
