(* ===== verification/VsockPacket.thy ===== *)
theory VsockPacket
  imports Service
begin

text \<open>
  The vsock packet header and the validation of guest packets
  (\<open>soma-kvm/src/virtio/devices/vsock/packet.rs\<close>). The header codec is a bijection on 44-byte
  strings, and the parser accepts exactly the packets that \<open>packet_for\<close> describes.
\<close>

abbreviation (input) VIRTIO_VSOCK_DEVICE_ID :: u32 where "VIRTIO_VSOCK_DEVICE_ID \<equiv> 19"
abbreviation (input) HOST_CID :: u64 where "HOST_CID \<equiv> 2"
abbreviation (input) SOMA_CONTROL_PORT :: u32 where "SOMA_CONTROL_PORT \<equiv> 0x534f4d41"
abbreviation (input) VSOCK_HDR_LEN :: nat where "VSOCK_HDR_LEN \<equiv> 44"
abbreviation (input) MAX_PAYLOAD_LEN :: u32 where "MAX_PAYLOAD_LEN \<equiv> 0x10000"
abbreviation (input) VSOCK_TYPE_STREAM :: u16 where "VSOCK_TYPE_STREAM \<equiv> 1"
abbreviation (input) VSOCK_OP_REQUEST :: u16 where "VSOCK_OP_REQUEST \<equiv> 1"
abbreviation (input) VSOCK_OP_RESPONSE :: u16 where "VSOCK_OP_RESPONSE \<equiv> 2"
abbreviation (input) VSOCK_OP_RST :: u16 where "VSOCK_OP_RST \<equiv> 3"
abbreviation (input) VSOCK_OP_SHUTDOWN :: u16 where "VSOCK_OP_SHUTDOWN \<equiv> 4"
abbreviation (input) VSOCK_OP_RW :: u16 where "VSOCK_OP_RW \<equiv> 5"
abbreviation (input) VSOCK_OP_CREDIT_UPDATE :: u16 where "VSOCK_OP_CREDIT_UPDATE \<equiv> 6"
abbreviation (input) VSOCK_OP_CREDIT_REQUEST :: u16 where "VSOCK_OP_CREDIT_REQUEST \<equiv> 7"
abbreviation (input) VSOCK_SHUTDOWN_RCV :: u32 where "VSOCK_SHUTDOWN_RCV \<equiv> 1"
abbreviation (input) VSOCK_SHUTDOWN_SEND :: u32 where "VSOCK_SHUTDOWN_SEND \<equiv> 2"
abbreviation (input) VSOCK_EVENT_TRANSPORT_RESET :: u32 where "VSOCK_EVENT_TRANSPORT_RESET \<equiv> 0"

section \<open>The header\<close>

record vsock_header =
  vh_src_cid :: u64
  vh_dst_cid :: u64
  vh_src_port :: u32
  vh_dst_port :: u32
  vh_len :: u32
  vh_ty :: u16
  vh_op :: u16
  vh_flags :: u32
  vh_buf_alloc :: u32
  vh_fwd_cnt :: u32

definition vsock_header_to_bytes :: "vsock_header \<Rightarrow> u8 list" where
  "vsock_header_to_bytes h =
     le_bytes 8 (vh_src_cid h) @ le_bytes 8 (vh_dst_cid h) @ le_bytes 4 (vh_src_port h) @
     le_bytes 4 (vh_dst_port h) @ le_bytes 4 (vh_len h) @ le_bytes 2 (vh_ty h) @ le_bytes 2 (vh_op h) @
     le_bytes 4 (vh_flags h) @ le_bytes 4 (vh_buf_alloc h) @ le_bytes 4 (vh_fwd_cnt h)"

definition vsock_header_from_bytes :: "u8 list \<Rightarrow> vsock_header" where
  "vsock_header_from_bytes raw =
     \<lparr>vh_src_cid = le_word (take 8 (drop 0 raw)), vh_dst_cid = le_word (take 8 (drop 8 raw)),
      vh_src_port = le_word (take 4 (drop 16 raw)), vh_dst_port = le_word (take 4 (drop 20 raw)),
      vh_len = le_word (take 4 (drop 24 raw)), vh_ty = le_word (take 2 (drop 28 raw)),
      vh_op = le_word (take 2 (drop 30 raw)), vh_flags = le_word (take 4 (drop 32 raw)),
      vh_buf_alloc = le_word (take 4 (drop 36 raw)), vh_fwd_cnt = le_word (take 4 (drop 40 raw))\<rparr>"

section \<open>Validation\<close>

datatype packet_error =
    PacketWritable
  | NoHeader u64
  | PacketMemory guest_memory_error
  | PacketType u16
  | PacketOp u16
  | SourceCid u64
  | DestinationCid u64
  | LengthMismatch u32 u64
  | PayloadTooLarge u32
  | PayloadOnControl u16
  | PacketFlags u16 u32

definition ALLOWED_OPS :: "u16 list" where
  "ALLOWED_OPS =
     [VSOCK_OP_REQUEST, VSOCK_OP_RESPONSE, VSOCK_OP_RST, VSOCK_OP_SHUTDOWN, VSOCK_OP_RW,
      VSOCK_OP_CREDIT_UPDATE, VSOCK_OP_CREDIT_REQUEST]"

definition packet_flags_ok :: "vsock_header \<Rightarrow> bool" where
  "packet_flags_ok h =
     (if vh_op h = VSOCK_OP_SHUTDOWN
      then vh_flags h \<noteq> 0 \<and> vh_flags h AND NOT (VSOCK_SHUTDOWN_RCV OR VSOCK_SHUTDOWN_SEND) = 0
      else vh_flags h = 0)"

definition parse_tx :: "'m guest_memory_ops \<Rightarrow> 'm \<Rightarrow> descriptor_chain \<Rightarrow> u64 \<Rightarrow> packet_error + vsock_header" where
  "parse_tx GM mem chain guest_cid =
     (if c_writable_len chain \<noteq> 0 then Inl PacketWritable
      else
        let readable = c_readable_len chain; hdr_len = of_nat VSOCK_HDR_LEN in
        if readable < hdr_len then Inl (NoHeader readable)
        else
          let (r, raw) = read_readable GM mem chain 0 (replicate VSOCK_HDR_LEN 0) in
          and_then (map_err PacketMemory r) (\<lambda>_.
          let header = vsock_header_from_bytes raw; actual = readable - hdr_len in
          if vh_ty header \<noteq> VSOCK_TYPE_STREAM then Inl (PacketType (vh_ty header))
          else if vh_op header \<notin> set ALLOWED_OPS then Inl (PacketOp (vh_op header))
          else if vh_src_cid header \<noteq> guest_cid then Inl (SourceCid (vh_src_cid header))
          else if vh_dst_cid header \<noteq> HOST_CID then Inl (DestinationCid (vh_dst_cid header))
          else if ucast (vh_len header) \<noteq> actual then Inl (LengthMismatch (vh_len header) actual)
          else if MAX_PAYLOAD_LEN < vh_len header then Inl (PayloadTooLarge (vh_len header))
          else if vh_op header \<noteq> VSOCK_OP_RW \<and> vh_len header \<noteq> 0 then Inl (PayloadOnControl (vh_op header))
          else if \<not> packet_flags_ok header then Inl (PacketFlags (vh_op header) (vh_flags header))
          else Inr header))"

section \<open>The codec\<close>

lemma length_vsock_header [simp]: "length (vsock_header_to_bytes h) = 44"
  by (simp add: vsock_header_to_bytes_def)

lemma vsock_header_nonempty [simp]: "vsock_header_to_bytes h \<noteq> []"
  using length_vsock_header[of h] by (metis list.size(3) zero_neq_numeral)

lemma vsock_header_roundtrip: "vsock_header_from_bytes (vsock_header_to_bytes h) = h"
  by (simp add: vsock_header_from_bytes_def vsock_header_to_bytes_def)

lemma vsock_header_bytes_roundtrip:
  assumes "length raw = 44"
  shows "vsock_header_to_bytes (vsock_header_from_bytes raw) = raw"
proof -
  have "take 8 (drop 0 raw) @ take 8 (drop 8 raw) @ take 4 (drop 16 raw) @ take 4 (drop 20 raw) @
      take 4 (drop 24 raw) @ take 2 (drop 28 raw) @ take 2 (drop 30 raw) @ take 4 (drop 32 raw) @
      take 4 (drop 36 raw) @ drop 40 raw = raw"
    by (simp add: join_simps del: take_drop drop_drop)
  moreover have "take 4 (drop 40 raw) = drop 40 raw" using assms by simp
  ultimately show ?thesis
    using assms by (simp add: vsock_header_to_bytes_def vsock_header_from_bytes_def le_bytes_le_word)
qed

section \<open>The accepted packets\<close>

text \<open>An early return is not taken when the function succeeds.\<close>

lemma early_return_iff: "(if c then Inl e else r) = Inr x \<longleftrightarrow> \<not> c \<and> r = Inr x"
  by simp

text \<open>A packet of a guest with the given identifier: header and payload as one byte string.\<close>

definition packet_for :: "u64 \<Rightarrow> u8 list \<Rightarrow> vsock_header \<Rightarrow> bool" where
  "packet_for guest_cid data h \<longleftrightarrow>
     44 \<le> length data \<and> vsock_header_to_bytes h = take 44 data \<and>
     vh_ty h = VSOCK_TYPE_STREAM \<and> vh_op h \<in> set ALLOWED_OPS \<and> vh_src_cid h = guest_cid \<and> vh_dst_cid h = HOST_CID \<and>
     length data = 44 + unat (vh_len h) \<and> unat (vh_len h) \<le> 2 ^ 16 \<and>
     (vh_op h = VSOCK_OP_RW \<or> vh_len h = 0) \<and> packet_flags_ok h"

context guest_memory
begin

lemma parse_tx_iff:
  assumes "valid mem" "chain_wf GM mem chain"
  shows "parse_tx GM mem chain guest_cid = Inr h \<longleftrightarrow>
    c_writable_len chain = 0 \<and> packet_for guest_cid (readable_data (byte mem) chain) h"
proof (cases "c_writable_len chain = 0 \<and> 44 \<le> unat (c_readable_len chain)")
  case False
  then show ?thesis using chain_wf_lens(1)[OF assms(2), of "byte mem"]
    by (auto simp: parse_tx_def packet_for_def word_less_nat_alt Let_def)
next
  case True
  define data where "data = readable_data (byte mem) chain"
  have len: "length data = unat (c_readable_len chain)"
    using chain_wf_lens(1)[OF assms(2), of "byte mem"] by (simp add: data_def)
  have rd: "read_readable GM mem chain 0 (replicate 44 0) = (Inr 44, take 44 data)"
    using read_readable_ok[OF assms, of "replicate 44 0" 0] True len by (simp add: data_def)
  have sub: "unat (c_readable_len chain - 44) = length data - 44"
    using True len by (subst unat_sub) (simp_all add: word_le_nat_alt)
  have eq: "ucast (vh_len x) = c_readable_len chain - 44 \<longleftrightarrow> length data = 44 + unat (vh_len x)" for x
    using sub True len by (auto simp: word_unat_eq_iff unat_ucast_up)
  define x where "x = vsock_header_from_bytes (take 44 data)"
  have hdr: "x = h \<longleftrightarrow> vsock_header_to_bytes h = take 44 data"
    using vsock_header_roundtrip[of h] vsock_header_bytes_roundtrip[of "take 44 data"] True len by (auto simp: x_def)
  have "parse_tx GM mem chain guest_cid = Inr h \<longleftrightarrow>
      vh_ty x = VSOCK_TYPE_STREAM \<and> vh_op x \<in> set ALLOWED_OPS \<and> vh_src_cid x = guest_cid \<and> vh_dst_cid x = HOST_CID \<and>
      length data = 44 + unat (vh_len x) \<and> unat (vh_len x) \<le> 2 ^ 16 \<and> (vh_op x = VSOCK_OP_RW \<or> vh_len x = 0) \<and>
      packet_flags_ok x \<and> x = h"
    using True rd unfolding parse_tx_def Let_def
    by (simp add: x_def[symmetric] early_return_iff word_less_nat_alt eq not_less del: if_split)
  then show ?thesis
    using True len unfolding packet_for_def data_def[symmetric] hdr[symmetric] by auto
qed

end

section \<open>Properties\<close>

text \<open>
  The vsock header codec is a bijection: every 44-byte string is the encoding of exactly
  one header, and decoding returns it.
\<close>

lemma vsock_header_codec:
  "vsock_header_from_bytes (vsock_header_to_bytes h) = h \<and>
   (length raw = VSOCK_HDR_LEN \<longrightarrow> vsock_header_to_bytes (vsock_header_from_bytes raw) = raw)"
  using vsock_header_roundtrip vsock_header_bytes_roundtrip by blast

text \<open>
  C34: A guest packet is accepted exactly when the chain is readable only and carries a stream
  packet from the assigned guest identifier to the host, with an allowlisted operation, a
  declared length equal to the payload and at most 64 KiB, a payload only on a data packet, and
  flags only on a shutdown.
\<close>

theorem parse_tx_exact:
  assumes "guest_memory GM valid byte" "valid mem" "chain_wf GM mem chain"
  shows "parse_tx GM mem chain guest_cid = Inr h \<longleftrightarrow>
    c_writable_len chain = 0 \<and> packet_for guest_cid (readable_data (byte mem) chain) h"
  using guest_memory.parse_tx_iff[OF assms] .

definition sample_header :: vsock_header where
  "sample_header = \<lparr>vh_src_cid = 3, vh_dst_cid = 2, vh_src_port = 7, vh_dst_port = SOMA_CONTROL_PORT, vh_len = 0,
     vh_ty = 1, vh_op = 1, vh_flags = 0, vh_buf_alloc = 4096, vh_fwd_cnt = 0\<rparr>"

definition sample_vsock_memory :: vec_guest_memory where
  "sample_vsock_memory = [\<lparr>r_start = 0, r_bytes = vsock_header_to_bytes sample_header\<rparr>]"

definition sample_packet :: descriptor_chain where
  "sample_packet = \<lparr>c_head = 0, c_segments = [\<lparr>s_addr = 0, s_len = 44, s_writable = False\<rparr>],
     c_readable_len = 44, c_writable_len = 0\<rparr>"

lemma sample_packet_ok: "vec_valid sample_vsock_memory" "chain_wf vec_ops sample_vsock_memory sample_packet"
  by (simp_all add: vec_valid_def sample_vsock_memory_def sample_packet_def chain_wf_def chain_readable_def
      chain_writable_def vec_ops_def vec_check_range_def vec_locate_def checked_add_def region_end_def)

lemma sample_packet_data:
  "readable_data (vec_byte sample_vsock_memory) sample_packet = vsock_header_to_bytes sample_header"
  by (rule nth_equalityI)
     (simp_all add: readable_data_def segs_addrs_def seg_addrs_def chain_readable_def sample_packet_def
        sample_vsock_memory_def)

theorem parse_tx_exact_witness:
  "parse_tx vec_ops sample_vsock_memory sample_packet 3 = Inr sample_header"
  using parse_tx_exact[OF vec.guest_memory_axioms sample_packet_ok, of 3 sample_header]
  by (simp add: sample_packet_data packet_for_def packet_flags_ok_def ALLOWED_OPS_def)
     (simp add: sample_header_def sample_packet_def)

end
