(* ===== verification/VsockStream.thy ===== *)
theory VsockStream
  imports VsockPacket
begin

text \<open>
  One stream connection as the host sees it
  (\<open>soma-kvm/src/virtio/devices/vsock/credit.rs\<close> and \<open>vsock/connection.rs\<close>): credit counters that
  advance modulo \<open>2 ^ 32\<close>, two bounded byte buffers, and the orderly shutdown. Over any run both
  directions are first-in first-out streams, and the wrapping counters are exact.
\<close>

section \<open>Credit\<close>

abbreviation (input) HOST_BUF_ALLOC :: u32 where "HOST_BUF_ALLOC \<equiv> 0x10000"

datatype credit_error = ImpossibleAccounting u32 u32 | CreditExceeded u32

record credit =
  cr_peer_buf_alloc :: u32
  cr_peer_fwd_cnt :: u32
  cr_tx_cnt :: u32
  cr_rx_cnt :: u32
  cr_fwd_cnt :: u32

definition update_peer :: "u32 \<Rightarrow> u32 \<Rightarrow> credit \<Rightarrow> (credit_error, unit, credit) mut_result" where
  "update_peer buf_alloc fwd_cnt c =
     (let unconsumed = cr_tx_cnt c - fwd_cnt in
      if buf_alloc < unconsumed then (Inl (ImpossibleAccounting buf_alloc fwd_cnt), c)
      else (Inr (), c\<lparr>cr_peer_buf_alloc := buf_alloc, cr_peer_fwd_cnt := fwd_cnt\<rparr>))"

definition credit_new :: "u32 \<Rightarrow> u32 \<Rightarrow> credit_error + credit" where
  "credit_new peer_buf_alloc peer_fwd_cnt =
     (let c = \<lparr>cr_peer_buf_alloc = 0, cr_peer_fwd_cnt = 0, cr_tx_cnt = 0, cr_rx_cnt = 0, cr_fwd_cnt = 0\<rparr>;
          (r, c) = update_peer peer_buf_alloc peer_fwd_cnt c in
      and_then r (\<lambda>_. Inr c))"

definition peer_free :: "credit \<Rightarrow> u32" where
  "peer_free c = saturating_sub (cr_peer_buf_alloc c) (cr_tx_cnt c - cr_peer_fwd_cnt c)"

definition credit_sent :: "u32 \<Rightarrow> credit \<Rightarrow> credit" where
  "credit_sent len c = c\<lparr>cr_tx_cnt := cr_tx_cnt c + len\<rparr>"

definition in_flight :: "credit \<Rightarrow> u32" where
  "in_flight c = cr_rx_cnt c - cr_fwd_cnt c"

definition accept_rx :: "u32 \<Rightarrow> credit \<Rightarrow> (credit_error, unit, credit) mut_result" where
  "accept_rx len c =
     (case checked_add (cr_rx_cnt c - cr_fwd_cnt c) len of
        Some filled \<Rightarrow>
          if filled \<le> HOST_BUF_ALLOC then (Inr (), c\<lparr>cr_rx_cnt := cr_rx_cnt c + len\<rparr>)
          else (Inl (CreditExceeded len), c)
      | None \<Rightarrow> (Inl (CreditExceeded len), c))"

definition credit_consumed :: "u32 \<Rightarrow> credit \<Rightarrow> credit" where
  "credit_consumed len c = c\<lparr>cr_fwd_cnt := cr_fwd_cnt c + len\<rparr>"

definition local_fields :: "credit \<Rightarrow> u32 \<times> u32" where
  "local_fields c = (HOST_BUF_ALLOC, cr_fwd_cnt c)"

section \<open>The endpoint\<close>

abbreviation (input) HOST_TX_BUFFER :: nat where "HOST_TX_BUFFER \<equiv> 65536"

datatype host_shutdown = ShutdownNone | ShutdownRequested | ShutdownSent

record host_endpoint =
  ep_peer_port :: u32
  ep_generation :: u32
  ep_credit :: credit
  ep_from_guest :: "u8 list"
  ep_to_guest :: "u8 list"
  ep_open :: bool
  ep_peer_shutdown :: u32
  ep_host_shutdown :: host_shutdown
  ep_credit_update_due :: bool

definition endpoint_accept :: "u32 \<Rightarrow> u32 \<Rightarrow> u32 \<Rightarrow> u32 \<Rightarrow> credit_error + host_endpoint" where
  "endpoint_accept peer_port generation buf_alloc fwd_cnt =
     and_then (credit_new buf_alloc fwd_cnt) (\<lambda>credit.
     Inr \<lparr>ep_peer_port = peer_port, ep_generation = generation, ep_credit = credit, ep_from_guest = [],
          ep_to_guest = [], ep_open = True, ep_peer_shutdown = 0, ep_host_shutdown = ShutdownNone,
          ep_credit_update_due = False\<rparr>)"

text \<open>The loop of \<open>read\<close>: the count, the buffer, and what is left of the queue.\<close>

fun read_loop :: "nat \<Rightarrow> u8 list \<Rightarrow> u8 list \<Rightarrow> nat \<times> u8 list \<times> u8 list" where
  "read_loop count buf [] = (count, buf, [])"
| "read_loop count buf (byte # rest) =
     (if count < length buf then read_loop (Suc count) (buf[count := byte]) rest
      else (count, buf, byte # rest))"

definition endpoint_read :: "u8 list \<Rightarrow> host_endpoint \<Rightarrow> nat \<times> u8 list \<times> host_endpoint" where
  "endpoint_read buf ep =
     (let (count, buf, rest) = read_loop 0 buf (ep_from_guest ep);
          ep = ep\<lparr>ep_from_guest := rest\<rparr> in
      (count, buf,
       if 0 < count
       then ep\<lparr>ep_credit := credit_consumed (u32_or_max count) (ep_credit ep), ep_credit_update_due := True\<rparr>
       else ep))"

definition endpoint_write :: "u8 list \<Rightarrow> host_endpoint \<Rightarrow> nat \<times> host_endpoint" where
  "endpoint_write bytes ep =
     (if \<not> ep_open ep \<or> ep_peer_shutdown ep AND VSOCK_SHUTDOWN_RCV \<noteq> 0 \<or> ep_host_shutdown ep \<noteq> ShutdownNone
      then (0, ep)
      else
        let room = HOST_TX_BUFFER - length (ep_to_guest ep); n = min (length bytes) room in
        (n, ep\<lparr>ep_to_guest := ep_to_guest ep @ take n bytes\<rparr>))"

definition endpoint_shutdown :: "host_endpoint \<Rightarrow> host_endpoint" where
  "endpoint_shutdown ep =
     (if ep_host_shutdown ep = ShutdownNone then ep\<lparr>ep_host_shutdown := ShutdownRequested\<rparr> else ep)"

definition at_eof :: "host_endpoint \<Rightarrow> bool" where
  "at_eof ep \<longleftrightarrow> (ep_peer_shutdown ep AND VSOCK_SHUTDOWN_SEND \<noteq> 0 \<or> \<not> ep_open ep) \<and> ep_from_guest ep = []"

definition update_peer_credit :: "u32 \<Rightarrow> u32 \<Rightarrow> host_endpoint \<Rightarrow> (credit_error, unit, host_endpoint) mut_result" where
  "update_peer_credit buf_alloc fwd_cnt ep =
     (let (r, c) = update_peer buf_alloc fwd_cnt (ep_credit ep) in (r, ep\<lparr>ep_credit := c\<rparr>))"

definition push_from_guest :: "u8 list \<Rightarrow> host_endpoint \<Rightarrow> (credit_error, unit, host_endpoint) mut_result" where
  "push_from_guest bytes ep =
     (if \<not> length bytes < 2 ^ 32 then (Inl (CreditExceeded (- 1)), ep)
      else
        let (r, c) = accept_rx (of_nat (length bytes)) (ep_credit ep); ep = ep\<lparr>ep_credit := c\<rparr> in
        case r of
          Inl e \<Rightarrow> (Inl e, ep)
        | Inr _ \<Rightarrow> (Inr (), ep\<lparr>ep_from_guest := ep_from_guest ep @ bytes\<rparr>))"

definition take_to_guest :: "nat \<Rightarrow> host_endpoint \<Rightarrow> u8 list \<times> host_endpoint" where
  "take_to_guest mx ep =
     (let free = unat (peer_free (ep_credit ep));
          n = min (min mx free) (length (ep_to_guest ep)) in
      (take n (ep_to_guest ep),
       ep\<lparr>ep_to_guest := drop n (ep_to_guest ep), ep_credit := credit_sent (u32_or_max n) (ep_credit ep),
          ep_credit_update_due := False\<rparr>))"

definition can_send_data :: "host_endpoint \<Rightarrow> bool" where
  "can_send_data ep \<longleftrightarrow> ep_open ep \<and> ep_to_guest ep \<noteq> [] \<and> 0 < peer_free (ep_credit ep)"

definition clear_credit_update :: "host_endpoint \<Rightarrow> host_endpoint" where
  "clear_credit_update ep = ep\<lparr>ep_credit_update_due := False\<rparr>"

definition peer_shutdown :: "u32 \<Rightarrow> host_endpoint \<Rightarrow> host_endpoint" where
  "peer_shutdown flags ep =
     ep\<lparr>ep_peer_shutdown := ep_peer_shutdown ep OR (flags AND (VSOCK_SHUTDOWN_RCV OR VSOCK_SHUTDOWN_SEND))\<rparr>"

definition peer_fully_shut :: "host_endpoint \<Rightarrow> bool" where
  "peer_fully_shut ep \<longleftrightarrow> ep_peer_shutdown ep = VSOCK_SHUTDOWN_RCV OR VSOCK_SHUTDOWN_SEND"

definition shutdown_ready :: "host_endpoint \<Rightarrow> bool" where
  "shutdown_ready ep \<longleftrightarrow> ep_open ep \<and> ep_host_shutdown ep = ShutdownRequested \<and> ep_to_guest ep = []"

definition mark_shutdown_sent :: "host_endpoint \<Rightarrow> host_endpoint" where
  "mark_shutdown_sent ep = ep\<lparr>ep_host_shutdown := ShutdownSent\<rparr>"

definition endpoint_close :: "host_endpoint \<Rightarrow> host_endpoint" where
  "endpoint_close ep = ep\<lparr>ep_open := False, ep_to_guest := []\<rparr>"

section \<open>The invariant\<close>

definition credit_inv :: "credit \<Rightarrow> bool" where
  "credit_inv c \<longleftrightarrow> cr_tx_cnt c - cr_peer_fwd_cnt c \<le> cr_peer_buf_alloc c"

definition endpoint_inv :: "host_endpoint \<Rightarrow> bool" where
  "endpoint_inv ep \<longleftrightarrow>
     credit_inv (ep_credit ep) \<and> length (ep_from_guest ep) \<le> 65536 \<and>
     unat (in_flight (ep_credit ep)) = length (ep_from_guest ep) \<and>
     length (ep_to_guest ep) \<le> 65536 \<and> (\<not> ep_open ep \<longrightarrow> ep_to_guest ep = [])"

lemma update_peer_inv:
  "credit_inv c \<Longrightarrow> credit_inv (snd (update_peer b f c))"
  "in_flight (snd (update_peer b f c)) = in_flight c"
  by (auto simp: update_peer_def credit_inv_def in_flight_def Let_def)

lemma credit_new_iff:
  "credit_new b f = Inr c \<longleftrightarrow> - f \<le> b \<and>
     c = \<lparr>cr_peer_buf_alloc = b, cr_peer_fwd_cnt = f, cr_tx_cnt = 0, cr_rx_cnt = 0, cr_fwd_cnt = 0\<rparr>"
  by (auto simp: credit_new_def update_peer_def Let_def)

lemma unat_peer_free: "unat (peer_free c) = unat (cr_peer_buf_alloc c) - unat (cr_tx_cnt c - cr_peer_fwd_cnt c)"
  by (simp add: peer_free_def unat_saturating_sub)

lemma credit_sent_inv:
  assumes "credit_inv c" "n \<le> unat (peer_free c)"
  shows "credit_inv (credit_sent (of_nat n) c)" "in_flight (credit_sent (of_nat n) c) = in_flight c"
proof -
  let ?u = "cr_tx_cnt c - cr_peer_fwd_cnt c"
  have b: "unat ?u + n \<le> unat (cr_peer_buf_alloc c)"
    using assms by (auto simp: unat_peer_free credit_inv_def word_le_nat_alt)
  then have lt: "unat ?u + n < 2 ^ 32" using unat_u32_less[of "cr_peer_buf_alloc c"] by simp
  then have "unat (?u + of_nat n) = unat ?u + n"
    by (subst unat_add_no_overflow) (simp_all add: unat_of_nat)
  moreover have "cr_tx_cnt c + of_nat n - cr_peer_fwd_cnt c = ?u + of_nat n" by simp
  ultimately have "unat (cr_tx_cnt c + of_nat n - cr_peer_fwd_cnt c) = unat ?u + n" by metis
  then show "credit_inv (credit_sent (of_nat n) c)"
    using b by (simp add: credit_inv_def credit_sent_def word_le_nat_alt)
  show "in_flight (credit_sent (of_nat n) c) = in_flight c" by (simp add: in_flight_def credit_sent_def)
qed

lemma accept_rx_iff:
  "accept_rx len c = (Inr (), c') \<longleftrightarrow>
     unat (in_flight c) + unat len \<le> 65536 \<and> c' = c\<lparr>cr_rx_cnt := cr_rx_cnt c + len\<rparr>"
proof -
  have "unat (in_flight c + len) = unat (in_flight c) + unat len" if "unat (in_flight c) + unat len < 2 ^ 32"
    using that by (simp add: unat_add_no_overflow)
  then show ?thesis
    by (auto simp: accept_rx_def in_flight_def[symmetric] checked_add_def word_le_nat_alt split: if_splits)
qed

lemma accept_rx_Inl: "accept_rx len c = (Inl e, c') \<Longrightarrow> c' = c"
  by (auto simp: accept_rx_def split: option.splits if_splits)

lemma push_from_guest_iff:
  "push_from_guest bytes ep = (Inr (), ep') \<longleftrightarrow>
     unat (in_flight (ep_credit ep)) + length bytes \<le> 65536 \<and>
     ep' = ep\<lparr>ep_credit := (ep_credit ep)\<lparr>cr_rx_cnt := cr_rx_cnt (ep_credit ep) + of_nat (length bytes)\<rparr>,
        ep_from_guest := ep_from_guest ep @ bytes\<rparr>"
proof (cases "length bytes < 2 ^ 32")
  case True
  then have len: "unat (of_nat (length bytes) :: u32) = length bytes" by (simp add: unat_of_nat)
  obtain r c where a: "accept_rx (of_nat (length bytes)) (ep_credit ep) = (r, c)" by fastforce
  show ?thesis
  proof (cases r)
    case (Inl e)
    then show ?thesis using True a len accept_rx_iff[of "of_nat (length bytes)" "ep_credit ep"]
      by (auto simp: push_from_guest_def)
  next
    case (Inr u)
    then have "unat (in_flight (ep_credit ep)) + length bytes \<le> 65536 \<and>
        c = (ep_credit ep)\<lparr>cr_rx_cnt := cr_rx_cnt (ep_credit ep) + of_nat (length bytes)\<rparr>"
      using a len accept_rx_iff[of "of_nat (length bytes)" "ep_credit ep" c] by simp
    then show ?thesis using True a Inr by (auto simp: push_from_guest_def)
  qed
next
  case False
  then show ?thesis by (simp add: push_from_guest_def)
qed

lemma push_from_guest_Inl: "push_from_guest bytes ep = (Inl e, ep') \<Longrightarrow> ep' = ep"
  by (cases "accept_rx (of_nat (length bytes)) (ep_credit ep)")
     (auto simp: push_from_guest_def Let_def dest: accept_rx_Inl split: sum.splits if_splits)

lemma read_loop_eq:
  "count \<le> length buf \<Longrightarrow> read_loop count buf xs =
     (let n = min (length buf - count) (length xs) in (count + n, overwrite count (take n xs) buf, drop n xs))"
proof (induction count buf xs rule: read_loop.induct)
  case (2 count buf byte rest)
  show ?case
  proof (cases "count < length buf")
    case True
    then have "overwrite (Suc count) ys (buf[count := byte]) = overwrite count (byte # ys) buf" for ys
      by (simp add: overwrite_def take_update_swap list_update_append upd_conv_take_nth_drop take_Suc_conv_app_nth
          add.commute split: nat.split)
    moreover have "length buf - count = Suc (length buf - Suc count)" using True by simp
    ultimately show ?thesis using 2 True by (simp add: Let_def)
  qed (use 2 in \<open>simp add: overwrite_def\<close>)
qed (simp add: overwrite_def)

lemma endpoint_readD:
  assumes "endpoint_read buf ep = (n, buf', ep')"
  shows "n = min (length buf) (length (ep_from_guest ep))" "buf' = take n (ep_from_guest ep) @ drop n buf"
    "ep' = (if 0 < n then ep\<lparr>ep_from_guest := drop n (ep_from_guest ep),
       ep_credit := credit_consumed (u32_or_max n) (ep_credit ep), ep_credit_update_due := True\<rparr> else ep)"
proof -
  define k where "k = min (length buf) (length (ep_from_guest ep))"
  have loop: "read_loop 0 buf (ep_from_guest ep) = (k, take k (ep_from_guest ep) @ drop k buf, drop k (ep_from_guest ep))"
    by (simp add: read_loop_eq k_def overwrite_def Let_def)
  have "n = k" "buf' = take k (ep_from_guest ep) @ drop k buf"
    "ep' = (if 0 < k then ep\<lparr>ep_from_guest := drop k (ep_from_guest ep),
       ep_credit := credit_consumed (u32_or_max k) (ep_credit ep), ep_credit_update_due := True\<rparr>
       else ep\<lparr>ep_from_guest := drop k (ep_from_guest ep)\<rparr>)"
    using assms by (auto simp: endpoint_read_def loop Let_def split: if_splits)
  then show "n = min (length buf) (length (ep_from_guest ep))" "buf' = take n (ep_from_guest ep) @ drop n buf"
    "ep' = (if 0 < n then ep\<lparr>ep_from_guest := drop n (ep_from_guest ep),
       ep_credit := credit_consumed (u32_or_max n) (ep_credit ep), ep_credit_update_due := True\<rparr> else ep)"
    by (auto simp: k_def)
qed

section \<open>Runs\<close>

text \<open>
  A run of an endpoint, with what happened to the bytes: pushed by the guest and accepted, read
  by the host, written by the host and accepted, and taken for the guest.
\<close>

record stream_history =
  sh_pushed :: "u8 list"
  sh_read :: "u8 list"
  sh_written :: "u8 list"
  sh_taken :: "u8 list"

inductive endpoint_run :: "host_endpoint \<Rightarrow> stream_history \<Rightarrow> bool" where
    run_accept: "endpoint_accept port gen buf_alloc fwd_cnt = Inr ep \<Longrightarrow>
      endpoint_run ep \<lparr>sh_pushed = [], sh_read = [], sh_written = [], sh_taken = []\<rparr>"
  | run_read: "\<lbrakk>endpoint_run ep h; endpoint_read buf ep = (n, buf', ep')\<rbrakk> \<Longrightarrow>
      endpoint_run ep' (h\<lparr>sh_read := sh_read h @ take n buf'\<rparr>)"
  | run_write: "\<lbrakk>endpoint_run ep h; endpoint_write bytes ep = (n, ep')\<rbrakk> \<Longrightarrow>
      endpoint_run ep' (h\<lparr>sh_written := sh_written h @ take n bytes\<rparr>)"
  | run_push: "\<lbrakk>endpoint_run ep h; push_from_guest bytes ep = (Inr (), ep')\<rbrakk> \<Longrightarrow>
      endpoint_run ep' (h\<lparr>sh_pushed := sh_pushed h @ bytes\<rparr>)"
  | run_push_refused: "\<lbrakk>endpoint_run ep h; push_from_guest bytes ep = (Inl e, ep')\<rbrakk> \<Longrightarrow> endpoint_run ep' h"
  | run_take: "\<lbrakk>endpoint_run ep h; take_to_guest mx ep = (bytes, ep')\<rbrakk> \<Longrightarrow>
      endpoint_run ep' (h\<lparr>sh_taken := sh_taken h @ bytes\<rparr>)"
  | run_credit: "\<lbrakk>endpoint_run ep h; update_peer_credit buf_alloc fwd_cnt ep = (r, ep')\<rbrakk> \<Longrightarrow> endpoint_run ep' h"
  | run_peer_shutdown: "endpoint_run ep h \<Longrightarrow> endpoint_run (peer_shutdown flags ep) h"
  | run_shutdown: "endpoint_run ep h \<Longrightarrow> endpoint_run (endpoint_shutdown ep) h"
  | run_shutdown_sent: "endpoint_run ep h \<Longrightarrow> endpoint_run (mark_shutdown_sent ep) h"
  | run_clear_update: "endpoint_run ep h \<Longrightarrow> endpoint_run (clear_credit_update ep) h"
  | run_close: "endpoint_run ep h \<Longrightarrow> endpoint_run (endpoint_close ep) h"

text \<open>The state after a run: the buffers are what is between the two ends of each stream.\<close>

definition stream_ok :: "host_endpoint \<Rightarrow> stream_history \<Rightarrow> bool" where
  "stream_ok ep h \<longleftrightarrow>
     endpoint_inv ep \<and> sh_pushed h = sh_read h @ ep_from_guest ep \<and>
     (\<exists>lost. sh_written h = sh_taken h @ ep_to_guest ep @ lost \<and> (ep_open ep \<longrightarrow> lost = [])) \<and>
     cr_rx_cnt (ep_credit ep) = of_nat (length (sh_pushed h)) \<and>
     cr_fwd_cnt (ep_credit ep) = of_nat (length (sh_read h)) \<and>
     cr_tx_cnt (ep_credit ep) = of_nat (length (sh_taken h))"

lemma in_flight_of_nat:
  assumes "cr_rx_cnt c = of_nat (a + n)" "cr_fwd_cnt c = of_nat a" "n < 2 ^ 32"
  shows "unat (in_flight c) = n"
  using assms by (simp add: in_flight_def unat_of_nat)

lemma stream_read:
  assumes "stream_ok ep h" "endpoint_read buf ep = (n, buf', ep')"
  shows "stream_ok ep' (h\<lparr>sh_read := sh_read h @ take n buf'\<rparr>)"
proof -
  note rd = endpoint_readD[OF assms(2)]
  have n: "n \<le> length (ep_from_guest ep)" "take n buf' = take n (ep_from_guest ep)" using rd by simp_all
  have le: "length (ep_from_guest ep) \<le> 65536" using assms(1) by (simp add: stream_ok_def endpoint_inv_def)
  show ?thesis
  proof (cases "n = 0")
    case True
    then show ?thesis using assms(1) rd(3) by simp
  next
    case False
    then have ep': "ep' = ep\<lparr>ep_from_guest := drop n (ep_from_guest ep),
        ep_credit := (ep_credit ep)\<lparr>cr_fwd_cnt := cr_fwd_cnt (ep_credit ep) + of_nat n\<rparr>, ep_credit_update_due := True\<rparr>"
      using rd(3) n(1) le by (simp add: credit_consumed_def)
    have "unat (in_flight (ep_credit ep')) = length (ep_from_guest ep) - n"
      using assms(1) n(1) le by (intro in_flight_of_nat[of _ "length (sh_read h) + n"]) (auto simp: ep' stream_ok_def)
    then show ?thesis using assms(1) n le
      by (auto simp: ep' stream_ok_def endpoint_inv_def credit_inv_def)
  qed
qed

lemma stream_push:
  assumes "stream_ok ep h" "push_from_guest bytes ep = (Inr (), ep')"
  shows "stream_ok ep' (h\<lparr>sh_pushed := sh_pushed h @ bytes\<rparr>)"
proof -
  have p: "length (ep_from_guest ep) + length bytes \<le> 65536"
    "ep' = ep\<lparr>ep_credit := (ep_credit ep)\<lparr>cr_rx_cnt := cr_rx_cnt (ep_credit ep) + of_nat (length bytes)\<rparr>,
        ep_from_guest := ep_from_guest ep @ bytes\<rparr>"
    using assms by (auto simp: push_from_guest_iff stream_ok_def endpoint_inv_def)
  have "unat (in_flight (ep_credit ep')) = length (ep_from_guest ep) + length bytes"
    using assms(1) p by (intro in_flight_of_nat[of _ "length (sh_read h)"]) (auto simp: stream_ok_def)
  then show ?thesis using assms(1) p by (auto simp: stream_ok_def endpoint_inv_def credit_inv_def)
qed

lemma stream_take:
  assumes "stream_ok ep h" "take_to_guest mx ep = (bytes, ep')"
  shows "stream_ok ep' (h\<lparr>sh_taken := sh_taken h @ bytes\<rparr>)"
proof -
  define n where "n = min (min mx (unat (peer_free (ep_credit ep)))) (length (ep_to_guest ep))"
  have le: "n \<le> length (ep_to_guest ep)" "length (ep_to_guest ep) \<le> 65536" "n \<le> unat (peer_free (ep_credit ep))"
    using assms(1) by (auto simp: n_def stream_ok_def endpoint_inv_def)
  have ep': "bytes = take n (ep_to_guest ep)" "ep' = ep\<lparr>ep_to_guest := drop n (ep_to_guest ep),
      ep_credit := credit_sent (of_nat n) (ep_credit ep), ep_credit_update_due := False\<rparr>"
    using assms(2) le by (auto simp: take_to_guest_def Let_def n_def)
  show ?thesis
    using assms(1) le credit_sent_inv[of "ep_credit ep" n]
    by (auto simp: ep' stream_ok_def endpoint_inv_def) (auto simp: credit_sent_def)
qed

lemma stream_write:
  assumes "stream_ok ep h" "endpoint_write bytes ep = (n, ep')"
  shows "stream_ok ep' (h\<lparr>sh_written := sh_written h @ take n bytes\<rparr>)"
  using assms by (auto simp: endpoint_write_def Let_def stream_ok_def endpoint_inv_def split: if_splits)

lemma stream_flags:
  assumes "stream_ok ep h"
  shows "stream_ok (peer_shutdown flags ep) h" "stream_ok (endpoint_shutdown ep) h"
    "stream_ok (mark_shutdown_sent ep) h" "stream_ok (clear_credit_update ep) h" "stream_ok (endpoint_close ep) h"
  using assms
  by (auto simp: stream_ok_def endpoint_inv_def peer_shutdown_def endpoint_shutdown_def mark_shutdown_sent_def
      clear_credit_update_def endpoint_close_def)

lemma stream_run: "endpoint_run ep h \<Longrightarrow> stream_ok ep h"
proof (induction rule: endpoint_run.induct)
  case (run_accept port gen buf_alloc fwd_cnt ep)
  then show ?case
    by (auto simp: endpoint_accept_def and_then_Inr_iff credit_new_iff stream_ok_def endpoint_inv_def credit_inv_def
        in_flight_def)
next
  case (run_push_refused ep h bytes e ep')
  then show ?case using push_from_guest_Inl by blast
next
  case (run_credit ep h buf_alloc fwd_cnt r ep')
  then show ?case
    using update_peer_inv(1)[of "ep_credit ep" buf_alloc fwd_cnt]
    by (auto simp: update_peer_credit_def update_peer_def stream_ok_def endpoint_inv_def Let_def in_flight_def split: if_splits)
qed (blast intro: stream_read stream_push stream_take stream_write stream_flags)+

section \<open>Properties\<close>




end
