(* ===== verification/DeviceReach.thy ===== *)
theory DeviceReach
  imports RngDevice
begin

text \<open>
  The transport, the service loop and a device together: every state that register accesses,
  guest stores, servicing and host events can reach from a fresh or a restored transport, what
  the driver can still change once it is running, and the exact behaviour of notification,
  reset, capture and restore.
\<close>

section \<open>What reaches the device\<close>

text \<open>The transport calls into the device only to write configuration, to activate and to reset.\<close>

lemma transport_try_device [simp]: "t_device (snd (transport_try f r t)) = t_device t"
  by (cases r) simp_all

lemma with_selected_queue_device [simp]: "t_device (snd (with_selected_queue offset f t)) = t_device t"
  by (simp add: with_selected_queue_def Let_def split: prod.split)

lemma then_none_device [simp]: "t_device (snd (then_none m)) = t_device (snd m)"
  by (cases m; cases "fst m") (simp_all add: then_none_def)

lemma snd_try_then:
  "snd (try_then m f) = (case fst m of Inl _ \<Rightarrow> snd m | Inr x \<Rightarrow> snd (f x (snd m)))"
  by (cases m; cases "fst m") simp_all

lemma config_range_device [simp]: "t_device (snd (config_range VD offset len t)) = t_device t"
  by (simp add: config_range_def Let_def)

lemma transport_write_device:
  assumes "P (t_device t)"
    and "\<And>off data. P (snd (dev_write_config VD off data (t_device t)))"
    and "P (snd (dev_activate VD (t_driver_features t) (t_device t)))" "P (dev_reset VD (t_device t))"
  shows "P (t_device (snd (transport_write GM VD offset width v mem t)))"
proof -
  have status: "P (t_device (snd (write_status VD v t)))"
    using assms
    by (auto simp: write_status_def snd_try_then check_features_def Let_def transport_reset_all_def
        set_needs_reset_def transport_try_def transport_err_def split: sum.split status_write.split prod.split)
  have config: "P (t_device (snd (transport_write_config VD off width v t)))" for off
    using assms(1) assms(2)[of "unat off" "take (access_bytes width) (le_bytes 8 v)"]
    by (auto simp: transport_write_config_def config_range_def transport_err_def Let_def snd_try_then
        split: sum.split prod.split)
  have reg: "P (t_device (snd (write_register GM VD r offset v word mem t)))" for r word
    unfolding write_register_def
    by (cases r) (simp_all add: status assms(1) write_driver_features_def write_queue_ready_def snd_try_then
        write_queue_notify_def write_interrupt_ack_def Let_def split: sum.split)
  show ?thesis using config reg assms(1) by (auto simp: transport_write_def split: option.split)
qed

section \<open>Steps\<close>

inductive device_step ::
    "'m guest_memory_ops \<Rightarrow> ('m \<Rightarrow> bool) \<Rightarrow> 'd virtio_device \<Rightarrow> ('d, 'm) chain_handler
     \<Rightarrow> 'd mmio_transport \<times> 'm \<Rightarrow> 'd mmio_transport \<times> 'm \<Rightarrow> bool"
  for GM valid VD CH where
    register_read: "device_step GM valid VD CH (t, mem) (snd (transport_read VD offset width t), mem)"
  | register_write: "device_step GM valid VD CH (t, mem) (snd (transport_write GM VD offset width v mem t), mem)"
  | guest_store: "\<lbrakk>valid mem'; check_range GM mem' = check_range GM mem\<rbrakk> \<Longrightarrow>
      device_step GM valid VD CH (t, mem) (t, mem')"
  | serviced: "service_queue GM CH queue budget (t, mem) = (r, t', mem') \<Longrightarrow>
      device_step GM valid VD CH (t, mem) (t', mem')"
  | config_signalled: "device_step GM valid VD CH (t, mem) (signal_config_change t, mem)"
  | host_stopped: "device_step GM valid VD CH (t, mem) (set_needs_reset t, mem)"

context service_model
begin

lemma transport_read_device [simp]: "t_device (snd (transport_read VD offset width t)) = t_device t"
  using transport_read_effect[of VD offset width t] by auto

lemma device_step_inv:
  assumes "device_step GM valid VD CH (t, mem) (t', mem')" "sinv (t, mem)"
  shows "sinv (t', mem')"
  using assms(1)
proof cases
  case (register_write offset width v)
  then show ?thesis
    using assms(2) transport_write_inv[of mem t offset width v]
      transport_write_device[of dinv t VD GM offset width v mem] transport_keeps by auto
next
  case (serviced queue budget r)
  then show ?thesis using service_queue_cases(1)[OF assms(2)] by blast
qed (use assms(2) transport_read_inv[of GM VD mem t] tinv_mem_cong[of mem' mem t]
       signal_config_change_inv[of mem t] set_needs_reset_inv[of GM VD mem t]
     in \<open>auto simp: signal_config_change_def\<close>)

lemma device_reach_inv:
  assumes "(device_step GM valid VD CH)\<^sup>*\<^sup>* st st'" "sinv st"
  shows "sinv st'"
  using assms
proof (induction rule: rtranclp_induct)
  case (step st1 st2)
  then show ?case using device_step_inv[of "fst st1" "snd st1" "fst st2" "snd st2"] by simp
qed

lemma start_inv:
  assumes "valid mem" "dinv d" "transport_new VD d = Inr t \<or> transport_restore GM VD d s mem = Inr t"
  shows "sinv (t, mem)"
  using assms(3)
proof
  assume "transport_new VD d = Inr t"
  then show ?thesis using assms transport_new_Inr(1)[of VD d t GM mem] transport_new_Inr(2)[of VD d t] by simp
next
  assume r: "transport_restore GM VD d s mem = Inr t"
  then have "dinv (t_device t)"
    using transport_restore_device[OF r] assms(2) transport_keeps(2)[OF assms(2), of "ts_driver_features s"] by auto
  then show ?thesis using transport_restore_Inr(1)[OF assms(1) r] assms(1) by simp
qed

end

section \<open>What a running driver can change\<close>

lemma classify_running:
  assumes "driver_ok s" "classify_write s v = Inr (StatusSetBit b)"
  shows "b \<noteq> STATUS_DRIVER_OK" "driver_ok (status_with s b)"
proof -
  have "s AND b = 0" using assms(2) by (simp add: classify_write_SetBit_iff)
  moreover have "s AND 4 = 4" using assms(1) by (simp add: driver_ok_def has_def)
  ultimately show "b \<noteq> 4" by auto
  show "driver_ok (status_with s b)" using assms(1) by (simp add: status_bit_iff status_with_def bit_simps)
qed

definition driver_view :: "'d mmio_transport \<Rightarrow> queue list \<times> u64" where
  "driver_view t = (t_queues t, t_driver_features t)"

lemma driver_view_record [simp]: "driver_view (transport_record v t) = driver_view t"
  by (simp add: driver_view_def)

lemma write_status_running:
  assumes "driver_ok (t_status t)"
  shows "fst (write_status VD v t) = Inr EventReset \<or>
    driver_view (snd (write_status VD v t)) = driver_view t \<and> driver_ok (t_status (snd (write_status VD v t)))"
proof (cases "classify_write (t_status t) v")
  case (Inr w)
  then show ?thesis
    using assms classify_running[OF assms, of v]
    by (cases w) (auto simp: write_status_def snd_try_then check_features_def Let_def driver_view_def
        split: sum.split)
qed (use assms in \<open>simp add: write_status_def transport_err_def\<close>)

lemma write_register_running:
  assumes "driver_ok (t_status t)" "features_ok (t_status t)"
  shows "fst (write_register GM VD r offset v word mem t) = Inr EventReset \<or>
    driver_view (snd (write_register GM VD r offset v word mem t)) = driver_view t \<and>
    driver_ok (t_status (snd (write_register GM VD r offset v word mem t)))"
proof -
  have sel: "with_selected_queue offset f t = transport_err (ConfigurationLocked offset) t" for f
    using assms by (simp add: with_selected_queue_def)
  have feats: "write_driver_features offset word t = transport_err (ConfigurationLocked offset) t"
    using assms by (simp add: write_driver_features_def)
  have none: "then_none (transport_err w t) = transport_err w t" for w
    by (simp add: then_none_def)
  have ack: "driver_view (snd (then_none (write_interrupt_ack v t))) = driver_view t \<and>
      driver_ok (t_status (snd (then_none (write_interrupt_ack v t))))"
    using assms by (simp add: then_none_def write_interrupt_ack_def Let_def driver_view_def transport_err_def)
  have notify: "driver_view (snd (write_queue_notify v t)) = driver_view t \<and>
      driver_ok (t_status (snd (write_queue_notify v t)))"
    using assms by (simp add: write_queue_notify_def Let_def)
  show ?thesis
    unfolding write_register_def
    by (cases r) (use assms write_status_running[OF assms(1), of VD v] ack notify in
        \<open>simp_all add: sel feats none write_queue_ready_def driver_view_def\<close>)
qed

lemma write_config_running:
  "driver_view (snd (transport_write_config VD offset width v t)) = driver_view t"
  "t_status (snd (transport_write_config VD offset width v t)) = t_status t"
  by (auto simp: transport_write_config_def config_range_def transport_err_def transport_try_def Let_def
      snd_try_then driver_view_def split: sum.split prod.split)

lemma transport_write_running:
  assumes "status_ok (t_status t)" "driver_ok (t_status t)"
  shows "fst (transport_write GM VD offset width v mem t) = Inr EventReset \<or>
    driver_view (snd (transport_write GM VD offset width v mem t)) = driver_view t \<and>
    driver_ok (t_status (snd (transport_write GM VD offset width v mem t)))"
  using assms write_register_running[OF assms(2) status_ok_driver_ok[OF assms], of GM VD _ offset v "ucast v" mem]
  by (simp add: transport_write_def write_config_running split: option.split)

text \<open>The events of a write: only the status register resets, and only a notification notifies.\<close>

lemma then_none_event: "fst (then_none m) = Inr e \<Longrightarrow> e = EventNone"
  by (cases m; cases "fst m") (auto simp: then_none_def)

lemma queue_ready_event: "fst (write_queue_ready GM offset word mem t) = Inr e \<Longrightarrow> e = EventNone"
  by (auto simp: write_queue_ready_def transport_err_def then_none_def[symmetric] dest: then_none_event
      split: if_splits)

lemma write_register_event:
  assumes "fst (write_register GM VD r offset v word mem t) = Inr e" "e \<noteq> EventNone"
  shows "r = RegStatus \<or> r = RegQueueNotify"
  using assms unfolding write_register_def
  by (cases r) (auto simp: transport_err_def dest!: then_none_event queue_ready_event)

lemma config_write_event:
  "fst (transport_write_config VD offset width v t) = Inr e \<Longrightarrow> e = ConfigWritten offset (access_bytes width)"
  by (auto simp: transport_write_config_def config_range_def transport_err_def transport_try_def Let_def
      split: if_splits prod.splits sum.splits)

lemma config_register_Some_iff: "config_register r = Some c \<longleftrightarrow> r = RegConfig c"
  by (cases r) (auto simp: config_register_def)

lemma decode_status_notify:
  "decode offset = Some RegStatus \<longleftrightarrow> offset = 0x70" "decode offset = Some RegQueueNotify \<longleftrightarrow> offset = 0x50"
  by (auto simp: decode_def split: if_splits)

lemma transport_write_event:
  assumes "e \<noteq> EventNone" "\<forall>off len. e \<noteq> ConfigWritten off len"
  shows "transport_write GM VD offset width v mem t = (Inr e, t') \<longleftrightarrow>
    width = W32 \<and> unat v < 2 ^ 32 \<and>
    (offset = 0x70 \<and> write_status VD v t = (Inr e, t') \<or>
     offset = 0x50 \<and> write_queue_notify v t = (Inr e, t'))" (is "?l \<longleftrightarrow> ?r")
proof
  assume l: ?l
  obtain r where r: "decode offset = Some r" using l by (cases "decode offset") (auto simp: transport_write_def)
  have "transport_write_config VD off width v t \<noteq> (Inr e, t')" for off
    using assms(2) config_write_event[of VD off width v t e] by (metis fst_conv)
  then have c: "config_register r = None"
    using l r by (cases "config_register r") (auto simp: transport_write_def)
  have w: "width = W32 \<and> unat v < 2 ^ 32 \<and> write_register GM VD r offset v (ucast v) mem t = (Inr e, t')"
    using l r c by (auto simp: transport_write_def split: if_splits)
  then have "r = RegStatus \<or> r = RegQueueNotify" using write_register_event[of GM VD r] assms(1) by (metis fst_conv)
  then show ?r using w r decode_status_notify by (auto simp: write_register_def)
next
  assume ?r
  then show ?l using decode_status_notify[of offset]
    by (auto simp: transport_write_def config_register_def write_register_def)
qed

lemma write_status_event:
  "write_status VD v t = (Inr EventReset, t') \<longleftrightarrow> v = 0 \<and> t' = transport_reset_all VD t"
  "write_status VD v t \<noteq> (Inr (QueueNotify i), t')"
proof -
  have nz: "classify_write (t_status t) v = Inr StatusReset \<longleftrightarrow> v = 0"
    by (auto simp: classify_write_def Let_def split: if_splits)
  show "write_status VD v t = (Inr EventReset, t') \<longleftrightarrow> v = 0 \<and> t' = transport_reset_all VD t"
    using nz by (cases "classify_write (t_status t) v"; cases "projr (classify_write (t_status t) v)")
      (auto simp: write_status_def transport_err_def check_features_def Let_def split: prod.split sum.split if_splits)
  show "write_status VD v t \<noteq> (Inr (QueueNotify i), t')"
    by (cases "classify_write (t_status t) v"; cases "projr (classify_write (t_status t) v)")
      (auto simp: write_status_def transport_err_def check_features_def Let_def split: prod.split sum.split if_splits)
qed

lemma notify_no_reset: "write_queue_notify v t \<noteq> (Inr EventReset, t')"
  by (auto simp: write_queue_notify_def Let_def)

lemma ucast_u16_u64: "(ucast (ucast (i :: u16) :: u64) :: u16) = i" "(ucast i :: u64) < 65536"
  "v < 65536 \<Longrightarrow> ucast (ucast v :: u16) = (v :: u64)" "v < 65536 \<Longrightarrow> unat (ucast v :: u16) = unat v"
proof -
  show "(ucast (ucast i :: u64) :: u16) = i" by (rule bit_word_eqI) (simp add: bit_simps)
  show "(ucast i :: u64) < 65536" using unat_u16_less[of i] by (simp add: word_less_nat_alt unat_ucast_up)
  show u: "unat (ucast v :: u16) = unat v" if "v < 65536"
    using that by (simp add: word_less_nat_alt unsigned_ucast_eq unsigned_take_bit_eq take_bit_nat_eq_self)
  show "ucast (ucast v :: u16) = v" if "v < 65536"
    using u[OF that] by (intro word_unat_eq_iff[THEN iffD2]) (simp add: unat_ucast_up)
qed

text \<open>A reset queue is a new one with the old counters.\<close>

lemma transport_new_fields:
  assumes "transport_new VD d = Inr t"
  obtains qs where "new_queues 0 (queue_max_sizes VD d) = Inr qs"
    "t = \<lparr>t_device = d, t_queues = qs, t_status = 0, t_device_features_sel = 0,
       t_driver_features_sel = 0, t_driver_features = 0, t_queue_sel = 0, t_interrupt_status = 0,
       t_config_generation = 0, t_violations = replicate TRANSPORT_KIND_COUNT 0\<rparr>"
  using assms by (auto simp: transport_new_def Let_def and_then_Inr_iff split: if_splits)

lemma reset_new_queues:
  assumes "new_queues index (map q_max_size qs) = Inr qs0"
  shows "map queue_reset qs = map2 (\<lambda>q0 q. q0\<lparr>q_violations := q_violations q\<rparr>) qs0 qs"
  using assms
proof (induction qs arbitrary: index qs0)
  case (Cons q qs)
  then show ?case by (auto simp: and_then_Inr_iff queue_new_Inr_iff queue_reset_def)
qed simp

section \<open>A running entropy device\<close>

definition idle_rng :: "u8 list rng_device" where
  "idle_rng = rng_new [1, 2, 3, 4, 5, 6, 7, 8, 9]"

definition running_rng :: "u8 list rng_device mmio_transport" where
  "running_rng =
     \<lparr>t_device = idle_rng\<lparr>rng_activated := True\<rparr>, t_queues = [sample_queue\<lparr>q_max_size := 64\<rparr>], t_status = 15,
      t_device_features_sel = 0, t_driver_features_sel = 1, t_driver_features = VIRTIO_F_VERSION_1,
      t_queue_sel = 0, t_interrupt_status = 0, t_config_generation = 0, t_violations = replicate 17 0\<rparr>"

abbreviation file_rng :: "(u8 list rng_device, vec_guest_memory) chain_handler" where
  "file_rng \<equiv> rng_handler vec_ops (os_entropy_fill file_read_exact)"

lemma is_power_of_two_64: "is_power_of_two (64 :: u16)"
  unfolding is_power_of_two_def by code_simp

lemma status_15: "driver_ok 15" "features_ok 15" "\<not> is_failed 15" "status_ok 15"
  by (simp_all add: driver_ok_def features_ok_def is_failed_def has_def status_ok_def lifecycle_def)

lemma sample_queue_64: "queue_inv vec_ops sample_memory (sample_queue\<lparr>q_max_size := 64\<rparr>)"
  using sample_inv is_power_of_two_64
  by (auto simp: queue_inv_def layout_ok_def size_ok_def sample_queue_def sample_layout_def)

lemma is_power_of_two_256: "is_power_of_two (256 :: u16)"
  unfolding is_power_of_two_def by code_simp

lemma sample_queue_256: "queue_inv vec_ops sample_memory (sample_queue\<lparr>q_max_size := 256\<rparr>)"
  using sample_inv is_power_of_two_256
  by (auto simp: queue_inv_def layout_ok_def size_ok_def sample_queue_def sample_layout_def)

lemma running_rng_inv: "transport_inv vec_ops rng_ops sample_memory running_rng"
  using sample_queue_64 status_15
  by (simp add: transport_inv_def running_rng_def features_accepted_def rng_ops_def)

lemma running_rng_simps [simp]:
  "is_active running_rng" "driver_ok (t_status running_rng)" "status_ok (t_status running_rng)"
  "queue_at running_rng 0 = Some (sample_queue\<lparr>q_max_size := 64\<rparr>)"
  using status_15 by (simp_all add: is_active_def running_rng_def queue_at_def)

lemma idle_rng_new: "\<exists>t. transport_new rng_ops idle_rng = Inr t"
  using is_power_of_two_64
  by (simp add: transport_new_def rng_ops_def Let_def queue_new_Inr_iff and_then_Inr_iff size_ok_def)

section \<open>Properties\<close>

text \<open>
  C10: Whatever registers the driver reads and writes, whatever the guest stores in its memory,
  and however often queues are serviced, every transport reached from a new or a restored one
  keeps its invariant: the register holds a stage of the lifecycle, negotiated features are
  within the allowlist and include the modern bit, every queue's geometry is validated, a ready
  queue has negotiated features, and the device keeps its own invariant.
\<close>

theorem device_reach_invariant:
  assumes "service_model GM valid byte VD CH dinv" "valid mem0" "dinv d"
    and "transport_new VD d = Inr t0 \<or> transport_restore GM VD d s mem0 = Inr t0"
    and "(device_step GM valid VD CH)\<^sup>*\<^sup>* (t0, mem0) (t, mem)"
  shows "valid mem \<and> transport_inv GM VD mem t \<and> dinv (t_device t)"
  using service_model.device_reach_inv[OF assms(1,5)] service_model.start_inv[OF assms(1-4)] by auto

theorem device_reach_invariant_witness:
  "\<exists>t0. transport_new rng_ops idle_rng = Inr t0 \<and>
     transport_inv vec_ops rng_ops sample_memory (snd (transport_write vec_ops rng_ops 0x70 W32 1 sample_memory t0))"
proof -
  obtain t0 where t0: "transport_new rng_ops idle_rng = Inr t0" using idle_rng_new by blast
  have "(device_step vec_ops vec_valid rng_ops file_rng)\<^sup>*\<^sup>* (t0, sample_memory)
      (snd (transport_write vec_ops rng_ops 0x70 W32 1 sample_memory t0), sample_memory)"
    by (rule r_into_rtranclp, rule register_write)
  then show ?thesis
    using device_reach_invariant[OF vec_rng.service_model_axioms sample_valid TrueI, of idle_rng t0] t0 by blast
qed

text \<open>
  C26: One call of the service loop is bounded and accounted for: it takes at most \<open>budget\<close>
  heads, every taken head is either published once as used or dropped as malformed and counted,
  the cursors move by exactly those counts, and nothing of the status or the configuration of
  the queue changes. A call refused by the transport changes nothing, and any other failure
  leaves the device stopped: it needs a reset and no queue is ready.
\<close>

theorem service_queue_outcome:
  assumes "service_model GM valid byte VD CH dinv"
    and "valid mem" "transport_inv GM VD mem t" "dinv (t_device t)" "queue_at t queue \<noteq> None"
    and "service_queue GM CH queue budget (t, mem) = (r, t', mem')"
  shows "transport_inv GM VD mem' t' \<and>
    (case r of
       Inr report \<Rightarrow>
         unat (sr_completed report) + unat (sr_rejected report) \<le> unat budget \<and>
         moved queue t t' (unat (sr_completed report) + unat (sr_rejected report)) (unat (sr_completed report))
     | Inl (ServiceTransport v) \<Rightarrow> \<not> is_active t \<and> t' = t \<and> mem' = mem
     | Inl _ \<Rightarrow> stopped t')"
proof -
  have inv: "case (t, mem) of (t, mem) \<Rightarrow> valid mem \<and> transport_inv GM VD mem t \<and> dinv (t_device t)"
    using assms by simp
  note c = service_model.service_queue_cases[OF assms(1) inv assms(6)]
  show ?thesis
  proof (cases r)
    case (Inl e)
    show ?thesis using Inl c(1) c(3)[of "case e of ServiceTransport v \<Rightarrow> v | _ \<Rightarrow> NotifyBeforeDriverOk"]
        c(4)[OF Inl] assms(5)
      by (cases e) auto
  next
    case (Inr report)
    then show ?thesis using c(1) c(2)[OF Inr] assms(5) by auto
  qed
qed

theorem service_queue_outcome_witness:
  "\<exists>r t' mem'. service_queue vec_ops file_rng 0 3 (running_rng, sample_memory) = (r, t', mem') \<and>
     transport_inv vec_ops rng_ops mem' t' \<and>
     (\<forall>report. r = Inr report \<longrightarrow> unat (sr_completed report) + unat (sr_rejected report) \<le> 3)"
proof -
  obtain r t' mem' where s: "service_queue vec_ops file_rng 0 3 (running_rng, sample_memory) = (r, t', mem')"
    by (metis prod_cases3)
  have "queue_at running_rng 0 \<noteq> None" by simp
  from service_queue_outcome[OF vec_rng.service_model_axioms sample_valid running_rng_inv TrueI this s] s
  show ?thesis by auto
qed



text \<open>
  The device is notified of a queue exactly when the driver writes the index of a ready
  queue to the notify register of a running, unfailed device; the write changes nothing else.
\<close>

lemma notify_exact:
  "transport_write GM VD offset width v mem t = (Inr (QueueNotify i), t') \<longleftrightarrow>
     offset = 0x50 \<and> width = W32 \<and> v = ucast i \<and> is_active t \<and>
     (\<exists>q. queue_at t i = Some q \<and> is_ready q) \<and> t' = t"
proof -
  have v: "unat v < 2 ^ 32 \<and> v < 65536 \<and> ucast v = i \<longleftrightarrow> v = ucast i"
    using ucast_u16_u64(1,2)[of i] ucast_u16_u64(3)[of v] by (auto simp: word_less_nat_alt)
  have "unat v < 2 ^ 32 \<and> write_queue_notify v t = (Inr (QueueNotify i), t') \<longleftrightarrow>
      (unat v < 2 ^ 32 \<and> v < 65536 \<and> ucast v = i) \<and> is_active t \<and> (\<exists>q. queue_at t i = Some q \<and> is_ready q) \<and> t' = t"
    by (auto simp: write_queue_notify_def queue_at_def Let_def ucast_u16_u64(4))
  moreover have "transport_write GM VD offset width v mem t = (Inr (QueueNotify i), t') \<longleftrightarrow>
      width = W32 \<and> offset = 0x50 \<and> unat v < 2 ^ 32 \<and> write_queue_notify v t = (Inr (QueueNotify i), t')"
    by (auto simp: transport_write_event write_status_event)
  ultimately show ?thesis unfolding v by blast
qed

text \<open>
  The driver resets the device exactly by writing zero to the status register. The reset
  leaves a transport as new on the reset device, except for the configuration generation and
  the violation counters, which it keeps.
\<close>

lemma reset_exact:
  assumes "transport_inv GM VD mem t" "transport_new VD (dev_reset VD (t_device t)) = Inr t0"
    and "device_model VD"
  shows "transport_write GM VD offset width v mem t = (Inr EventReset, t') \<longleftrightarrow>
    offset = 0x70 \<and> width = W32 \<and> v = 0 \<and>
    t' = t0\<lparr>t_config_generation := t_config_generation t, t_violations := t_violations t,
       t_queues := map2 (\<lambda>q0 q. q0\<lparr>q_violations := q_violations q\<rparr>) (t_queues t0) (t_queues t)\<rparr>"
proof -
  obtain qs where qs: "new_queues 0 (queue_max_sizes VD (dev_reset VD (t_device t))) = Inr qs"
    and t0: "t0 = \<lparr>t_device = dev_reset VD (t_device t), t_queues = qs, t_status = 0, t_device_features_sel = 0,
       t_driver_features_sel = 0, t_driver_features = 0, t_queue_sel = 0, t_interrupt_status = 0,
       t_config_generation = 0, t_violations = replicate TRANSPORT_KIND_COUNT 0\<rparr>"
    by (rule transport_new_fields[OF assms(2)])
  have "queue_max_sizes VD (dev_reset VD (t_device t)) = map q_max_size (t_queues t)"
    using assms(1) device_model.face_reset[OF assms(3), of "t_device t"] by (simp add: transport_inv_def device_face_def)
  from reset_new_queues[OF qs[unfolded this]]
  have "transport_reset_all VD t = t0\<lparr>t_config_generation := t_config_generation t, t_violations := t_violations t,
       t_queues := map2 (\<lambda>q0 q. q0\<lparr>q_violations := q_violations q\<rparr>) (t_queues t0) (t_queues t)\<rparr>"
    by (simp add: transport_reset_all_def t0)
  then show ?thesis by (auto simp: transport_write_event write_status_event notify_no_reset)
qed

text \<open>
  The snapshot record of a transport is decoded exactly when it is the encoding of a state:
  encoding and decoding are inverse to each other, and no other byte string is accepted.
\<close>

lemma transport_state_codec:
  "transport_state_from_bytes raw = Inr s \<longleftrightarrow> transport_state_to_bytes s = Inr raw"
  using transport_state_roundtrip[of s raw] transport_state_bytes_roundtrip[of raw s] by blast

text \<open>
  A captured transport restores on a device of the same kind, provided its queues still
  hold the geometry they were activated with: the restore succeeds, keeps the invariant,
  captures the same state again, and rebuilds every queue up to its counters.
\<close>

lemma transport_capture_restore:
  assumes "transport_model GM valid byte VD" "valid mem" "transport_inv GM VD mem t"
    and "transport_new VD d = Inr t0" "device_face VD d = device_face VD (t_device t)"
    and "\<forall>q \<in> set (t_queues t). q_layout q = None \<or> q_layout q = Some (state_layout (queue_state_of q))"
    and "driver_ok (t_status t) \<Longrightarrow> fst (dev_activate VD (t_driver_features t) d) = Inr ()"
  shows "\<exists>t'. transport_restore GM VD d (transport_state_of t) mem = Inr t' \<and>
    transport_inv GM VD mem t' \<and> transport_state_of t' = transport_state_of t \<and>
    t_queues t' = map (\<lambda>q. q\<lparr>q_violations := replicate 9 0\<rparr>) (t_queues t)"
  using transport_model.transport_capture_restore_ok[OF assms]
    transport_model.transport_restore_Inr[OF assms(1,2)] by blast

text \<open>
  A transport state is restored only when its status is a stage of the lifecycle, the
  queue count is the device's, the interrupt bits are known and, once features were accepted,
  they are within the allowlist with the modern bit; every ready queue then also passes the
  layout validation. The restored transport has exactly the captured state.
\<close>

lemma transport_restore_sound:
  assumes "transport_model GM valid byte VD" "valid mem" "transport_restore GM VD d s mem = Inr t"
  shows "transport_inv GM VD mem t \<and> transport_state_of t = s \<and> device_face VD (t_device t) = device_face VD d"
  using transport_model.transport_restore_Inr[OF assms] by blast





end
