(* ===== verification/VsockDevice.thy ===== *)
theory VsockDevice
  imports VsockStream DeviceReach
begin

text \<open>
  The vsock device (\<open>soma-kvm/src/virtio/devices/vsock.rs\<close>, \<open>vsock/tx.rs\<close>, \<open>vsock/outbound.rs\<close>,
  \<open>vsock/rx.rs\<close> and \<open>vsock/state.rs\<close>): one connection at a time to the fixed control port, bounded
  queues of control packets and events, delivery into posted receive buffers, and a snapshot
  record that carries no connection.
\<close>

section \<open>The device\<close>

abbreviation (input) VSOCK_FEATURES :: u64 where "VSOCK_FEATURES \<equiv> VIRTIO_F_VERSION_1"
abbreviation (input) VSOCK_RX_QUEUE :: u16 where "VSOCK_RX_QUEUE \<equiv> 0"
abbreviation (input) VSOCK_TX_QUEUE :: u16 where "VSOCK_TX_QUEUE \<equiv> 1"
abbreviation (input) VSOCK_EVENT_QUEUE :: u16 where "VSOCK_EVENT_QUEUE \<equiv> 2"
abbreviation (input) VSOCK_CONFIG_LEN :: nat where "VSOCK_CONFIG_LEN \<equiv> 8"
abbreviation (input) MAX_OUTBOUND_PACKETS :: nat where "MAX_OUTBOUND_PACKETS \<equiv> 64"
abbreviation (input) MIN_GUEST_CID :: u64 where "MIN_GUEST_CID \<equiv> 3"
abbreviation (input) CID_ANY :: u64 where "CID_ANY \<equiv> 0xffffffff"

definition PACKET_LIMITS :: chain_limits where
  "PACKET_LIMITS = \<lparr>max_descriptors = 256, max_bytes = 44 + 0x10000\<rparr>"

definition EVENT_LIMITS :: chain_limits where
  "EVENT_LIMITS = \<lparr>max_descriptors = 64, max_bytes = 4096\<rparr>"

datatype vsock_config_error = InvalidCid u64

record vsock_counters =
  vc_accepted :: u32
  vc_rejected :: u32
  vc_rst_sent :: u32
  vc_tx_packets :: u32
  vc_rx_packets :: u32
  vc_rx_dropped :: u32

record outbound =
  ob_op :: u16
  ob_dst_port :: u32
  ob_flags :: u32

record vsock_device =
  vd_guest_cid :: u64
  vd_generation :: u32
  vd_endpoint :: "host_endpoint option"
  vd_outbound :: "outbound list"
  vd_events :: "u32 list"
  vd_activated :: bool
  vd_counters :: vsock_counters

definition check_cid :: "u64 \<Rightarrow> vsock_config_error + unit" where
  "check_cid cid = (if cid < MIN_GUEST_CID \<or> CID_ANY \<le> cid then Inl (InvalidCid cid) else Inr ())"

definition vsock_new :: "u64 \<Rightarrow> vsock_config_error + vsock_device" where
  "vsock_new guest_cid =
     and_then (check_cid guest_cid) (\<lambda>_.
     Inr \<lparr>vd_guest_cid = guest_cid, vd_generation = 0, vd_endpoint = None, vd_outbound = [], vd_events = [],
          vd_activated = False,
          vd_counters = \<lparr>vc_accepted = 0, vc_rejected = 0, vc_rst_sent = 0, vc_tx_packets = 0,
            vc_rx_packets = 0, vc_rx_dropped = 0\<rparr>\<rparr>)"

definition set_guest_cid :: "u64 \<Rightarrow> vsock_device \<Rightarrow> (vsock_config_error, unit, vsock_device) mut_result" where
  "set_guest_cid cid d =
     (case check_cid cid of Inl e \<Rightarrow> (Inl e, d) | Inr _ \<Rightarrow> (Inr (), d\<lparr>vd_guest_cid := cid\<rparr>))"

definition vsock_bump :: "((u32 \<Rightarrow> u32) \<Rightarrow> vsock_counters \<Rightarrow> vsock_counters) \<Rightarrow> vsock_device \<Rightarrow> vsock_device" where
  "vsock_bump field d = d\<lparr>vd_counters := field (\<lambda>n. saturating_add n 1) (vd_counters d)\<rparr>"

definition vsock_queue :: "u16 \<Rightarrow> u32 \<Rightarrow> u32 \<Rightarrow> vsock_device \<Rightarrow> vsock_device" where
  "vsock_queue op dst_port flags d =
     (if length (vd_outbound d) < MAX_OUTBOUND_PACKETS
      then d\<lparr>vd_outbound := vd_outbound d @ [\<lparr>ob_op = op, ob_dst_port = dst_port, ob_flags = flags\<rparr>]\<rparr>
      else d)"

definition close_endpoint :: "vsock_device \<Rightarrow> vsock_device" where
  "close_endpoint d =
     (case vd_endpoint d of
        None \<Rightarrow> d
      | Some ep \<Rightarrow>
          let d = d\<lparr>vd_endpoint := None\<rparr> in
          if ep_open ep
          then vsock_bump vc_rst_sent_update (vsock_queue VSOCK_OP_RST (ep_peer_port ep) 0 d)
          else d)"

definition is_quiescent :: "vsock_device \<Rightarrow> bool" where
  "is_quiescent d \<longleftrightarrow> vd_endpoint d = None \<and> vd_outbound d = [] \<and> vd_events d = []"

definition clear_transient :: "vsock_device \<Rightarrow> vsock_device" where
  "clear_transient d =
     d\<lparr>vd_endpoint := None, vd_outbound := [], vd_events := [], vd_generation := vd_generation d + 1\<rparr>"

definition after_restore :: "vsock_device \<Rightarrow> vsock_device" where
  "after_restore d =
     (let d = clear_transient d in d\<lparr>vd_events := vd_events d @ [VSOCK_EVENT_TRANSPORT_RESET]\<rparr>)"

section \<open>Guest packets\<close>

definition vsock_reject :: "vsock_device \<Rightarrow> vsock_device" where
  "vsock_reject d = vsock_bump vc_rejected_update d"

definition send_rst :: "u32 \<Rightarrow> vsock_device \<Rightarrow> vsock_device" where
  "send_rst port d = vsock_bump vc_rst_sent_update (vsock_queue VSOCK_OP_RST port 0 d)"

definition vsock_abort :: "u32 \<Rightarrow> vsock_device \<Rightarrow> vsock_device" where
  "vsock_abort port d = send_rst port (d\<lparr>vd_endpoint := map_option endpoint_close (vd_endpoint d)\<rparr>)"

definition endpoint_open :: "vsock_device \<Rightarrow> bool" where
  "endpoint_open d \<longleftrightarrow> (case vd_endpoint d of None \<Rightarrow> False | Some ep \<Rightarrow> ep_open ep)"

definition on_request :: "vsock_header \<Rightarrow> vsock_device \<Rightarrow> vsock_device" where
  "on_request header d =
     (if endpoint_open d then vsock_reject (send_rst (vh_src_port header) d)
      else
        let d = d\<lparr>vd_generation := vd_generation d + 1\<rparr> in
        case endpoint_accept (vh_src_port header) (vd_generation d) (vh_buf_alloc header) (vh_fwd_cnt header) of
          Inl _ \<Rightarrow> vsock_reject (send_rst (vh_src_port header) d)
        | Inr ep \<Rightarrow>
            vsock_bump vc_accepted_update
              (vsock_queue VSOCK_OP_RESPONSE (vh_src_port header) 0 (d\<lparr>vd_endpoint := Some ep\<rparr>)))"

definition on_connected ::
    "'m guest_memory_ops \<Rightarrow> vsock_header \<Rightarrow> descriptor_chain \<Rightarrow> 'm \<Rightarrow> vsock_device
     \<Rightarrow> (device_fault, unit, vsock_device) mut_result" where
  "on_connected GM header chain mem d =
     (case vd_endpoint d of
        None \<Rightarrow> (Inr (), d)
      | Some ep \<Rightarrow>
          let port = vh_src_port header;
              (r, ep) = update_peer_credit (vh_buf_alloc header) (vh_fwd_cnt header) ep;
              d = d\<lparr>vd_endpoint := Some ep\<rparr> in
          if \<not> is_ok r then (Inr (), vsock_reject (vsock_abort port d))
          else if vh_op header = VSOCK_OP_RST then (Inr (), d\<lparr>vd_endpoint := Some (endpoint_close ep)\<rparr>)
          else if vh_op header = VSOCK_OP_SHUTDOWN then
            let ep = peer_shutdown (vh_flags header) ep; d = d\<lparr>vd_endpoint := Some ep\<rparr> in
            (Inr (), if peer_fully_shut ep then vsock_abort port d else d)
          else if vh_op header = VSOCK_OP_RW then
            let len = unat (vh_len header);
                (r, payload) = read_readable GM mem chain (of_nat VSOCK_HDR_LEN) (replicate len 0) in
            (case r of
               Inl e \<Rightarrow> (Inl (FaultMemory e), d)
             | Inr n \<Rightarrow>
                 if n \<noteq> len then (Inl FaultProtocol, d)
                 else
                   let (r, ep) = push_from_guest payload ep; d = d\<lparr>vd_endpoint := Some ep\<rparr> in
                   (Inr (), if is_ok r then d else vsock_reject (vsock_abort port d)))
          else if vh_op header = VSOCK_OP_CREDIT_UPDATE then (Inr (), d)
          else if vh_op header = VSOCK_OP_CREDIT_REQUEST then (Inr (), vsock_queue VSOCK_OP_CREDIT_UPDATE port 0 d)
          else if vh_op header = VSOCK_OP_RESPONSE then (Inr (), vsock_reject (vsock_abort port d))
          else (Inr (), vsock_reject d))"

definition connected_to :: "u32 \<Rightarrow> vsock_device \<Rightarrow> bool" where
  "connected_to port d \<longleftrightarrow>
     (case vd_endpoint d of None \<Rightarrow> False | Some ep \<Rightarrow> ep_open ep \<and> ep_peer_port ep = port)"

definition handle_tx ::
    "'m guest_memory_ops \<Rightarrow> descriptor_chain \<Rightarrow> 'm \<Rightarrow> vsock_device \<Rightarrow> (device_fault, unit, vsock_device) mut_result" where
  "handle_tx GM chain mem d =
     (case parse_tx GM mem chain (vd_guest_cid d) of
        Inl _ \<Rightarrow> (Inr (), vsock_reject d)
      | Inr header \<Rightarrow>
          let d = vsock_bump vc_tx_packets_update d in
          if vh_dst_port header \<noteq> SOMA_CONTROL_PORT then
            (Inr (), vsock_reject (if vh_op header = VSOCK_OP_REQUEST then send_rst (vh_src_port header) d else d))
          else if vh_op header = VSOCK_OP_REQUEST then (Inr (), on_request header d)
          else if \<not> connected_to (vh_src_port header) d then
            (Inr (), vsock_reject (if vh_op header \<noteq> VSOCK_OP_RST then send_rst (vh_src_port header) d else d))
          else on_connected GM header chain mem d)"

section \<open>Host packets\<close>

definition chain_limits_for :: "u16 \<Rightarrow> chain_limits" where
  "chain_limits_for queue = (if queue = VSOCK_EVENT_QUEUE then EVENT_LIMITS else PACKET_LIMITS)"

definition has_outbound :: "vsock_device \<Rightarrow> bool" where
  "has_outbound d \<longleftrightarrow>
     vd_outbound d \<noteq> [] \<or>
     (case vd_endpoint d of
        None \<Rightarrow> False
      | Some ep \<Rightarrow> can_send_data ep \<or> shutdown_ready ep \<or> ep_open ep \<and> ep_credit_update_due ep)"

definition next_outbound :: "nat \<Rightarrow> vsock_device \<Rightarrow> (vsock_header \<times> u8 list) option \<times> vsock_device" where
  "next_outbound cap d =
     (let (buf_alloc, fwd_cnt) =
            (case vd_endpoint d of None \<Rightarrow> (HOST_BUF_ALLOC, 0) | Some ep \<Rightarrow> local_fields (ep_credit ep));
          header = \<lparr>vh_src_cid = HOST_CID, vh_dst_cid = vd_guest_cid d, vh_src_port = SOMA_CONTROL_PORT,
            vh_dst_port = 0, vh_len = 0, vh_ty = VSOCK_TYPE_STREAM, vh_op = 0, vh_flags = 0,
            vh_buf_alloc = buf_alloc, vh_fwd_cnt = fwd_cnt\<rparr> in
      case vd_outbound d of
        control # rest \<Rightarrow>
          (Some (header\<lparr>vh_op := ob_op control, vh_dst_port := ob_dst_port control, vh_flags := ob_flags control\<rparr>, []),
           d\<lparr>vd_outbound := rest\<rparr>)
      | [] \<Rightarrow>
          (case vd_endpoint d of
             None \<Rightarrow> (None, d)
           | Some ep \<Rightarrow>
               let header = header\<lparr>vh_dst_port := ep_peer_port ep\<rparr> in
               if shutdown_ready ep then
                 (Some (header\<lparr>vh_op := VSOCK_OP_SHUTDOWN, vh_flags := VSOCK_SHUTDOWN_RCV OR VSOCK_SHUTDOWN_SEND\<rparr>, []),
                  d\<lparr>vd_endpoint := Some (mark_shutdown_sent ep)\<rparr>)
               else if can_send_data ep \<and> 0 < cap then
                 let (payload, ep) = take_to_guest cap ep in
                 (Some (header\<lparr>vh_op := VSOCK_OP_RW, vh_len := u32_or_max (length payload),
                    vh_fwd_cnt := snd (local_fields (ep_credit ep))\<rparr>, payload),
                  d\<lparr>vd_endpoint := Some ep\<rparr>)
               else if ep_open ep \<and> ep_credit_update_due ep then
                 (Some (header\<lparr>vh_op := VSOCK_OP_CREDIT_UPDATE\<rparr>, []),
                  d\<lparr>vd_endpoint := Some (clear_credit_update ep)\<rparr>)
               else (None, d)))"

definition pop_event :: "vsock_device \<Rightarrow> u32 option \<times> vsock_device" where
  "pop_event d = (case vd_events d of [] \<Rightarrow> (None, d) | e # rest \<Rightarrow> (Some e, d\<lparr>vd_events := rest\<rparr>))"

text \<open>The closures that \<open>deliver_rx\<close> and \<open>deliver_events\<close> pass to \<open>deliver\<close>.\<close>

definition build_rx :: "descriptor_chain \<Rightarrow> vsock_device \<Rightarrow> u8 list option \<times> vsock_device" where
  "build_rx chain d =
     (let hdr = of_nat VSOCK_HDR_LEN in
      if c_readable_len chain \<noteq> 0 \<or> c_writable_len chain < hdr
      then (Some [], vsock_bump vc_rx_dropped_update d)
      else
        let cap = unat (min (c_writable_len chain - hdr) (ucast MAX_PAYLOAD_LEN)) in
        case next_outbound cap d of
          (None, d) \<Rightarrow> (None, d)
        | (Some (header, payload), d) \<Rightarrow>
            (Some (vsock_header_to_bytes header @ payload), vsock_bump vc_rx_packets_update d))"

definition build_event :: "descriptor_chain \<Rightarrow> vsock_device \<Rightarrow> u8 list option \<times> vsock_device" where
  "build_event chain d =
     (if c_readable_len chain \<noteq> 0 \<or> c_writable_len chain < 4
      then (Some [], vsock_bump vc_rx_dropped_update d)
      else case pop_event d of (None, d) \<Rightarrow> (None, d) | (Some e, d) \<Rightarrow> (Some (le_bytes 4 e), d))"

definition deliver_complete ::
    "'m guest_memory_ops \<Rightarrow> u16 \<Rightarrow> descriptor_chain \<Rightarrow> u32 \<Rightarrow> service_report \<Rightarrow> 'd mmio_transport \<times> 'm
     \<Rightarrow> (service_error, bool \<times> service_report, 'd mmio_transport \<times> 'm) mut_result" where
  "deliver_complete GM queue chain used report st =
     (let (r, t, mem) = complete_used GM queue chain used st in
      case r of
        Inr notify \<Rightarrow>
          (Inr (False, report\<lparr>sr_interrupt := sr_interrupt report \<or> notify,
             sr_completed := saturating_add (sr_completed report) 1\<rparr>), t, mem)
      | Inl violation \<Rightarrow> (Inl (ServiceTransport violation), set_needs_reset t, mem))"

text \<open>A round after a chain was popped.\<close>

definition deliver_chain ::
    "'m guest_memory_ops \<Rightarrow> u16 \<Rightarrow> (descriptor_chain \<Rightarrow> vsock_device \<Rightarrow> u8 list option \<times> vsock_device)
     \<Rightarrow> descriptor_chain \<Rightarrow> service_report \<Rightarrow> vsock_device mmio_transport \<times> 'm
     \<Rightarrow> (service_error, bool \<times> service_report, vsock_device mmio_transport \<times> 'm) mut_result" where
  "deliver_chain GM queue build chain report = (\<lambda>(t, mem).
     let (built, d) = build chain (t_device t); t = t\<lparr>t_device := d\<rparr> in
     case built of
       None \<Rightarrow>
         deliver_complete GM queue chain 0 report
           (t\<lparr>t_device := vsock_bump vc_rx_dropped_update (t_device t)\<rparr>, mem)
     | Some bytes \<Rightarrow>
         let (w, mem) = write_writable GM chain 0 bytes mem in
         if w = Inr (length bytes)
         then deliver_complete GM queue chain (u32_or_max (length bytes)) report (t, mem)
         else (Inl (ServiceFault FaultProtocol), set_needs_reset t, mem))"

definition deliver_body ::
    "'m guest_memory_ops \<Rightarrow> u16 \<Rightarrow> (descriptor_chain \<Rightarrow> vsock_device \<Rightarrow> u8 list option \<times> vsock_device)
     \<Rightarrow> service_report \<Rightarrow> vsock_device mmio_transport \<times> 'm
     \<Rightarrow> (service_error, bool \<times> service_report, vsock_device mmio_transport \<times> 'm) mut_result" where
  "deliver_body GM queue build report = (\<lambda>(t, mem).
     case queue_at t queue of
       None \<Rightarrow> (Inl (ServiceTransport (NotifyOutOfRange (ucast queue))), t, mem)
     | Some ring \<Rightarrow>
         let d = t_device t;
             has_work = (if queue = VSOCK_EVENT_QUEUE then 0 < length (vd_events d) else has_outbound d) in
         if \<not> has_work then (Inr (True, report), t, mem)
         else case queue_pending GM mem ring of
           (Inl violation, ring) \<Rightarrow>
             (Inl (ServiceQueue violation), set_needs_reset (set_queue queue ring t), mem)
         | (Inr n, ring) \<Rightarrow>
             if n = 0 then (Inr (True, report), set_queue queue ring t, mem)
             else (case pop_descriptor_chain GM mem (chain_limits_for queue) ring of
               (Inr None, ring) \<Rightarrow> (Inr (True, report), set_queue queue ring t, mem)
             | (Inl (Chain head violation), ring) \<Rightarrow>
                 (Inr (False, report\<lparr>sr_rejected := saturating_add (sr_rejected report) 1\<rparr>),
                  set_queue queue ring t, mem)
             | (Inl violation, ring) \<Rightarrow>
                 (Inl (ServiceQueue violation), set_needs_reset (set_queue queue ring t), mem)
             | (Inr (Some chain), ring) \<Rightarrow>
                 deliver_chain GM queue build chain report (set_queue queue ring t, mem)))"

definition vsock_deliver ::
    "'m guest_memory_ops \<Rightarrow> u32 \<Rightarrow> u16 \<Rightarrow> (descriptor_chain \<Rightarrow> vsock_device \<Rightarrow> u8 list option \<times> vsock_device)
     \<Rightarrow> vsock_device mmio_transport \<times> 'm
     \<Rightarrow> (service_error, service_report, vsock_device mmio_transport \<times> 'm) mut_result" where
  "vsock_deliver GM budget queue build = (\<lambda>(t, mem).
     if \<not> is_active t then (Inl (ServiceTransport NotifyBeforeDriverOk), t, mem)
     else rounds (unat budget) (deliver_body GM queue build)
            (\<lambda>report st. (Inr (report\<lparr>sr_exhausted := True\<rparr>), st)) service_report_default (t, mem))"

definition vsock_deliver_rx ::
    "'m guest_memory_ops \<Rightarrow> u32 \<Rightarrow> vsock_device mmio_transport \<times> 'm
     \<Rightarrow> (service_error, service_report, vsock_device mmio_transport \<times> 'm) mut_result" where
  "vsock_deliver_rx GM budget st = vsock_deliver GM budget VSOCK_RX_QUEUE build_rx st"

definition vsock_deliver_events ::
    "'m guest_memory_ops \<Rightarrow> vsock_device mmio_transport \<times> 'm
     \<Rightarrow> (service_error, service_report, vsock_device mmio_transport \<times> 'm) mut_result" where
  "vsock_deliver_events GM st = vsock_deliver GM 64 VSOCK_EVENT_QUEUE build_event st"

section \<open>The snapshot record and the device trait\<close>

record vsock_state =
  vs_device_id :: u32
  vs_features :: u64
  vs_guest_cid :: u64

abbreviation (input) VSOCK_STATE_LEN :: nat where "VSOCK_STATE_LEN \<equiv> 21"

definition vsock_state_capture :: "vsock_device \<Rightarrow> vsock_state" where
  "vsock_state_capture d =
     \<lparr>vs_device_id = VIRTIO_VSOCK_DEVICE_ID, vs_features = VSOCK_FEATURES, vs_guest_cid = vd_guest_cid d\<rparr>"

definition vsock_state_to_bytes :: "vsock_state \<Rightarrow> u8 list" where
  "vsock_state_to_bytes s =
     [1] @ le_bytes 4 (vs_device_id s) @ le_bytes 8 (vs_features s) @ le_bytes 8 (vs_guest_cid s)"

definition vsock_state_from_bytes :: "u8 list \<Rightarrow> device_state_error + vsock_state" where
  "vsock_state_from_bytes raw =
     (if length raw \<noteq> VSOCK_STATE_LEN \<or> raw ! 0 \<noteq> 1 then Inl Malformed
      else and_then (u32_field Malformed (take 4 (drop 1 raw))) (\<lambda>device_id.
           Inr \<lparr>vs_device_id = device_id, vs_features = le_u64 (take 8 (drop 5 raw)),
                vs_guest_cid = le_u64 (take 8 (drop 13 raw))\<rparr>))"

definition vsock_state_apply :: "vsock_state \<Rightarrow> vsock_device \<Rightarrow> (device_state_error, unit, vsock_device) mut_result" where
  "vsock_state_apply s d =
     (if vs_device_id s \<noteq> VIRTIO_VSOCK_DEVICE_ID \<or> vs_features s \<noteq> VSOCK_FEATURES then (Inl Incompatible, d)
      else
        let (r, d) = set_guest_cid (vs_guest_cid s) d in
        case r of Inl _ \<Rightarrow> (Inl Incompatible, d) | Inr _ \<Rightarrow> (Inr (), after_restore d))"

definition vsock_read_config :: "vsock_device \<Rightarrow> nat \<Rightarrow> nat \<Rightarrow> config_access_error + u8 list" where
  "vsock_read_config d offset len =
     (if offset + len < 2 ^ 64 \<and> offset + len \<le> VSOCK_CONFIG_LEN
      then Inr (take len (drop offset (le_bytes 8 (vd_guest_cid d))))
      else Inl OutOfBounds)"

definition vsock_activate :: "u64 \<Rightarrow> vsock_device \<Rightarrow> (activate_error, unit, vsock_device) mut_result" where
  "vsock_activate negotiated d =
     (if negotiated AND NOT VSOCK_FEATURES \<noteq> 0 then (Inl (UnsupportedFeatures negotiated), d)
      else (Inr (), d\<lparr>vd_activated := True\<rparr>))"

definition vsock_ops :: "vsock_device virtio_device" where
  "vsock_ops =
     \<lparr>device_id = (\<lambda>_. VIRTIO_VSOCK_DEVICE_ID), vendor_id = (\<lambda>_. SOMA_VENDOR_ID),
      feature_allowlist = (\<lambda>_. VSOCK_FEATURES), queue_max_sizes = (\<lambda>_. [256, 256, 64]),
      config_len = (\<lambda>_. VSOCK_CONFIG_LEN), dev_read_config = vsock_read_config,
      dev_write_config = (\<lambda>_ _ d. (Inl ReadOnly, d)), dev_activate = vsock_activate,
      dev_reset = (\<lambda>d. clear_transient (d\<lparr>vd_activated := False\<rparr>)),
      snapshot_state = (\<lambda>d. vsock_state_to_bytes (vsock_state_capture d)),
      restore_state = (\<lambda>raw d. case vsock_state_from_bytes raw of
         Inl e \<Rightarrow> (Inl e, d) | Inr s \<Rightarrow> vsock_state_apply s d)\<rparr>"

definition vsock_handle_chain ::
    "'m guest_memory_ops \<Rightarrow> u16 \<Rightarrow> descriptor_chain \<Rightarrow> vsock_device \<times> 'm
     \<Rightarrow> (device_fault, u32, vsock_device \<times> 'm) mut_result" where
  "vsock_handle_chain GM queue chain = (\<lambda>(d, mem).
     if queue \<noteq> VSOCK_TX_QUEUE then (Inl FaultProtocol, d, mem)
     else let (r, d) = handle_tx GM chain mem d in (and_then r (\<lambda>_. Inr 0), d, mem))"

definition vsock_handler :: "'m guest_memory_ops \<Rightarrow> (vsock_device, 'm) chain_handler" where
  "vsock_handler GM =
     \<lparr>handler_limits = (\<lambda>_ queue. chain_limits_for queue), handle_chain = vsock_handle_chain GM\<rparr>"

section \<open>The invariant\<close>

text \<open>
  The device drives its endpoint only through the operations of a connection, so what is known
  of every run of an endpoint is known of the endpoint the device holds.
\<close>

definition vsock_inv :: "vsock_device \<Rightarrow> bool" where
  "vsock_inv d \<longleftrightarrow>
     check_cid (vd_guest_cid d) = Inr () \<and> length (vd_outbound d) \<le> MAX_OUTBOUND_PACKETS \<and>
     length (vd_events d) \<le> 1 \<and> (\<forall>ep. vd_endpoint d = Some ep \<longrightarrow> (\<exists>h. endpoint_run ep h))"

lemma vsock_bump_simps [simp]:
  "vd_guest_cid (vsock_bump f d) = vd_guest_cid d" "vd_endpoint (vsock_bump f d) = vd_endpoint d"
  "vd_outbound (vsock_bump f d) = vd_outbound d" "vd_events (vsock_bump f d) = vd_events d"
  "vd_generation (vsock_bump f d) = vd_generation d"
  by (simp_all add: vsock_bump_def)

lemma vsock_queue_simps [simp]:
  "vd_guest_cid (vsock_queue op p f d) = vd_guest_cid d" "vd_endpoint (vsock_queue op p f d) = vd_endpoint d"
  "vd_events (vsock_queue op p f d) = vd_events d"
  by (simp_all add: vsock_queue_def)

lemma vsock_reply_simps [simp]:
  "vd_guest_cid (vsock_reject d) = vd_guest_cid d" "vd_endpoint (vsock_reject d) = vd_endpoint d"
  "vd_guest_cid (send_rst p d) = vd_guest_cid d" "vd_endpoint (send_rst p d) = vd_endpoint d"
  "vd_guest_cid (vsock_abort p d) = vd_guest_cid d"
  "vd_endpoint (vsock_abort p d) = map_option endpoint_close (vd_endpoint d)"
  by (simp_all add: vsock_reject_def send_rst_def vsock_abort_def)

lemma vsock_inv_reply [simp]:
  "vsock_inv (vsock_bump f d) = vsock_inv d" "vsock_inv (vsock_reject d) = vsock_inv d"
  by (simp_all add: vsock_inv_def vsock_reject_def)

lemma vsock_inv_queue: "vsock_inv d \<Longrightarrow> vsock_inv (vsock_queue op p f d)"
  by (auto simp: vsock_inv_def vsock_queue_def)

lemma vsock_inv_endpoint:
  "\<lbrakk>vsock_inv d; \<exists>h. endpoint_run ep h\<rbrakk> \<Longrightarrow> vsock_inv (d\<lparr>vd_endpoint := Some ep\<rparr>)"
  by (auto simp: vsock_inv_def)

lemma vsock_inv_rst: "vsock_inv d \<Longrightarrow> vsock_inv (send_rst p d)"
  by (simp add: send_rst_def vsock_inv_queue)

lemma vsock_inv_abort: "vsock_inv d \<Longrightarrow> vsock_inv (vsock_abort p d)"
  unfolding vsock_abort_def
  by (rule vsock_inv_rst) (auto simp: vsock_inv_def intro: run_close)

lemma vsock_inv_restart: "vsock_inv d \<Longrightarrow> vsock_inv (d\<lparr>vd_generation := g\<rparr>)"
  by (simp add: vsock_inv_def)

lemmas vsock_inv_intros = vsock_inv_queue vsock_inv_endpoint vsock_inv_rst vsock_inv_abort vsock_inv_restart

lemma on_request_inv: "vsock_inv d \<Longrightarrow> vsock_inv (on_request header d)"
  by (auto simp: on_request_def Let_def intro!: vsock_inv_intros intro: run_accept split: sum.split)

lemma on_connected_inv:
  assumes "vsock_inv d" "on_connected GM header chain mem d = (r, d')"
  shows "vsock_inv d'"
proof (cases "vd_endpoint d")
  case None
  then show ?thesis using assms by (simp add: on_connected_def)
next
  case (Some ep)
  then obtain h where run: "endpoint_run ep h" using assms(1) by (auto simp: vsock_inv_def)
  obtain rc e where u: "update_peer_credit (vh_buf_alloc header) (vh_fwd_cnt header) ep = (rc, e)" by fastforce
  have e: "endpoint_run e h" by (rule run_credit[OF run u])
  have push: "\<exists>h. endpoint_run e' h" if "push_from_guest payload e = (rp, e')" for payload rp e'
    using that by (cases rp) (auto dest!: run_push[OF e] run_push_refused[OF e])
  show ?thesis
    using assms Some u e
    by (auto simp: on_connected_def Let_def split: prod.split_asm sum.split_asm if_split_asm
        intro!: vsock_inv_intros dest!: push intro: run_close run_peer_shutdown)
qed

lemma handle_tx_inv: "\<lbrakk>vsock_inv d; handle_tx GM chain mem d = (r, d')\<rbrakk> \<Longrightarrow> vsock_inv d'"
  by (auto simp: handle_tx_def Let_def split: sum.split_asm if_split_asm
      intro!: vsock_inv_intros intro: on_request_inv dest!: on_connected_inv[rotated])

lemma has_outbound_next:
  assumes "0 < cap"
  shows "fst (next_outbound cap d) \<noteq> None \<longleftrightarrow> has_outbound d"
  using assms
  by (auto simp: next_outbound_def has_outbound_def Let_def split: list.split option.split prod.split)

lemma take_to_guest_bounds:
  assumes "take_to_guest cap ep = (payload, ep')" "endpoint_run ep h"
  shows "length payload \<le> cap" "length payload \<le> unat (peer_free (ep_credit ep))" "length payload \<le> 65536"
    "u32_or_max (length payload) = of_nat (length payload)"
  using assms(1) stream_run[OF assms(2)]
  by (auto simp: take_to_guest_def Let_def stream_ok_def endpoint_inv_def)

lemma next_outbound_inv:
  assumes "vsock_inv d" "next_outbound cap d = (p, d')"
  shows "vsock_inv d'"
proof (cases "vd_endpoint d")
  case None
  then show ?thesis using assms
    by (auto simp: next_outbound_def Let_def vsock_inv_def split: list.split_asm)
next
  case (Some ep)
  then obtain h where run: "endpoint_run ep h" using assms(1) by (auto simp: vsock_inv_def)
  obtain payload e where t: "take_to_guest cap ep = (payload, e)" by fastforce
  show ?thesis
  proof (cases "vd_outbound d")
    case Nil
    then show ?thesis using assms Some t run_take[OF run t]
      by (auto simp: next_outbound_def Let_def split: prod.split_asm if_split_asm
          intro!: vsock_inv_endpoint exI run_shutdown_sent run_clear_update run)
  next
    case (Cons c rest)
    then show ?thesis using assms
      by (auto simp: next_outbound_def Let_def vsock_inv_def split: prod.split_asm)
  qed
qed

text \<open>
  A packet for the guest: from the control port to the assigned identifier, with the length it
  carries, and with payload only as the head of the host's stream and within the peer's window.
\<close>

definition host_packet :: "nat \<Rightarrow> vsock_device \<Rightarrow> vsock_header \<Rightarrow> u8 list \<Rightarrow> vsock_device \<Rightarrow> bool" where
  "host_packet cap d h payload d' \<longleftrightarrow>
     vh_src_cid h = HOST_CID \<and> vh_dst_cid h = vd_guest_cid d \<and> vh_src_port h = SOMA_CONTROL_PORT \<and>
     vh_ty h = VSOCK_TYPE_STREAM \<and> unat (vh_len h) = length payload \<and> length payload \<le> cap \<and>
     (payload \<noteq> [] \<longrightarrow> vd_outbound d = [] \<and> vh_op h = VSOCK_OP_RW \<and>
        (\<exists>ep ep'. vd_endpoint d = Some ep \<and> vd_endpoint d' = Some ep' \<and> ep_open ep \<and>
           vh_dst_port h = ep_peer_port ep \<and> ep_to_guest ep = payload @ ep_to_guest ep' \<and>
           length payload \<le> unat (peer_free (ep_credit ep))))"

lemma next_outbound_packet:
  assumes "vsock_inv d" "next_outbound cap d = (Some (h, payload), d')"
  shows "host_packet cap d h payload d'"
proof (cases "vd_outbound d")
  case (Cons c rest)
  then show ?thesis using assms(2)
    by (auto simp: host_packet_def next_outbound_def Let_def split: prod.split_asm)
next
  case Nil
  then obtain ep where ep: "vd_endpoint d = Some ep"
    using assms(2) by (auto simp: next_outbound_def Let_def split: option.split_asm prod.split_asm)
  then obtain hist where run: "endpoint_run ep hist" using assms(1) by (auto simp: vsock_inv_def)
  obtain taken e where t: "take_to_guest cap ep = (taken, e)" by fastforce
  note b = take_to_guest_bounds[OF t run]
  have split: "ep_to_guest ep = taken @ ep_to_guest e"
    using t by (auto simp: take_to_guest_def Let_def)
  show ?thesis using assms(2) Nil ep t b split
    by (auto simp: host_packet_def next_outbound_def Let_def unat_of_nat can_send_data_def
        split: prod.split_asm if_split_asm)
qed

lemma build_rx_ok:
  assumes "vsock_inv d" "build_rx chain d = (b, d')"
  shows "vsock_inv d'" "b = Some bytes \<Longrightarrow> length bytes \<le> unat (c_writable_len chain) \<and> length bytes < 2 ^ 32"
proof -
  define cap where "cap = unat (min (c_writable_len chain - 44) (ucast MAX_PAYLOAD_LEN))"
  have "vsock_inv d' \<and> (b = Some bytes \<longrightarrow> length bytes \<le> unat (c_writable_len chain) \<and> length bytes < 2 ^ 32)"
  proof (cases "c_readable_len chain \<noteq> 0 \<or> c_writable_len chain < 44")
    case True
    then show ?thesis using assms by (auto simp: build_rx_def)
  next
    case False
    then have cap: "44 + cap \<le> unat (c_writable_len chain)" "cap \<le> 65536"
      using unat_sub[of 44 "c_writable_len chain"] by (auto simp: cap_def min_def word_le_nat_alt word_less_nat_alt)
    obtain p d1 where n: "next_outbound cap d = (p, d1)" by fastforce
    have b: "b = map_option (\<lambda>(header, payload). vsock_header_to_bytes header @ payload) p"
      "vsock_inv d' = vsock_inv d1"
      using assms(2) n False by (auto simp: build_rx_def cap_def Let_def split: option.split_asm prod.split_asm)
    have "length payload \<le> cap" if "p = Some (header, payload)" for header payload
      using next_outbound_packet[OF assms(1) n[unfolded that]] by (simp add: host_packet_def)
    then show ?thesis using b next_outbound_inv[OF assms(1) n] cap by fastforce
  qed
  then show "vsock_inv d'" "b = Some bytes \<Longrightarrow> length bytes \<le> unat (c_writable_len chain) \<and> length bytes < 2 ^ 32"
    by auto
qed

lemma build_event_ok:
  assumes "vsock_inv d" "build_event chain d = (b, d')"
  shows "vsock_inv d'" "b = Some bytes \<Longrightarrow> length bytes \<le> unat (c_writable_len chain) \<and> length bytes < 2 ^ 32"
  using assms
  by (auto simp: build_event_def pop_event_def vsock_inv_def word_less_nat_alt not_less
      split: if_split_asm list.split_asm)

text \<open>What the delivery loop relies on of the closure that builds a packet.\<close>

definition build_ok :: "(descriptor_chain \<Rightarrow> vsock_device \<Rightarrow> u8 list option \<times> vsock_device) \<Rightarrow> bool" where
  "build_ok build \<longleftrightarrow>
     (\<forall>c d b d'. vsock_inv d \<longrightarrow> build c d = (b, d') \<longrightarrow> vsock_inv d' \<and>
        (\<forall>bytes. b = Some bytes \<longrightarrow> length bytes \<le> unat (c_writable_len c) \<and> length bytes < 2 ^ 32))"

lemma builds_ok: "build_ok build_rx" "build_ok build_event"
  unfolding build_ok_def using build_rx_ok build_event_ok by blast+

section \<open>The contracts\<close>

lemma vsock_face [simp]: "device_face vsock_ops d = (VIRTIO_VSOCK_DEVICE_ID, VSOCK_FEATURES, [256, 256, 64], 8)"
  by (simp add: device_face_def vsock_ops_def)

interpretation vsock: device_model vsock_ops
  by unfold_locales (auto simp: vsock_ops_def device_face_def vsock_read_config_def vsock_activate_def split: if_splits)

locale vsock_service = guest_memory GM valid byte
  for GM :: "'m guest_memory_ops" and valid and byte
begin

text \<open>In valid memory no guest packet faults the device.\<close>

lemma payload_read:
  assumes "valid mem" "chain_wf GM mem chain" "parse_tx GM mem chain cid = Inr header"
  shows "read_readable GM mem chain 44 (replicate (unat (vh_len header)) 0) =
    (Inr (unat (vh_len header)), drop 44 (readable_data (byte mem) chain))"
proof -
  have "length (readable_data (byte mem) chain) = 44 + unat (vh_len header)" "unat (vh_len header) \<le> 2 ^ 16"
    using parse_tx_iff[OF assms(1,2)] assms(3) by (auto simp: packet_for_def)
  then show ?thesis using read_readable_ok[OF assms(1,2), of "replicate (unat (vh_len header)) 0" 44] by simp
qed

lemma handle_tx_Inr:
  assumes "valid mem" "chain_wf GM mem chain"
  shows "fst (handle_tx GM chain mem d) = Inr ()"
proof (cases "parse_tx GM mem chain (vd_guest_cid d)")
  case (Inl e)
  then show ?thesis by (simp add: handle_tx_def)
next
  case (Inr header)
  then show ?thesis using payload_read[OF assms Inr]
    by (simp add: handle_tx_def on_connected_def Let_def split: option.split prod.split)
qed

end

sublocale vsock_service \<subseteq> service_model GM valid byte vsock_ops "vsock_handler GM" vsock_inv
proof unfold_locales
  fix mem d c queue r d' mem'
  assume a: "valid mem" "vsock_inv d" "chain_wf GM mem c"
    and h: "handle_chain (vsock_handler GM) queue c (d, mem) = (r, d', mem')"
  obtain r1 d1 where t: "handle_tx GM c mem d = (r1, d1)" by fastforce
  show "valid mem' \<and> check_range GM mem' = check_range GM mem \<and>
      device_face vsock_ops d' = device_face vsock_ops d \<and> vsock_inv d' \<and>
      (\<forall>len. r = Inr len \<longrightarrow> unat len \<le> unat (c_writable_len c))"
    using h a t handle_tx_inv[OF a(2) t]
    by (auto simp: vsock_handler_def vsock_handle_chain_def and_then_Inr_iff split: if_splits)
qed (auto simp: vsock_ops_def vsock_activate_def clear_transient_def vsock_inv_def)

interpretation vec_vsock: vsock_service vec_ops vec_valid vec_byte ..

context vsock_service
begin

lemma deliver_complete_ok:
  assumes "valid mem" "tinv mem t" "vsock_inv (t_device t)" "is_active t" "moved queue t0 t 1 0"
    and "queue_at t queue = Some q" "is_ready q" "unat used \<le> unat (c_writable_len chain)"
    and "deliver_complete GM queue chain used report (t, mem) = (r, st')"
  shows "sinv st' \<and> round_ok queue report t0 r (fst st')"
proof -
  obtain n t3 mem3 where
    c: "complete_used GM queue chain used (t, mem) = (Inr n, t3, mem3)" "sinv (t3, mem3)" "moved queue t0 t3 1 1"
    by (rule complete_round[OF assms(1-8)])
  have "r = Inr (False, report\<lparr>sr_interrupt := sr_interrupt report \<or> n,
      sr_completed := saturating_add (sr_completed report) 1\<rparr>)" "st' = (t3, mem3)"
    using assms(9) c(1) by (auto simp: deliver_complete_def Let_def)
  then show ?thesis using c by (auto intro: round_okI)
qed

lemma deliver_chain_ok:
  assumes build: "build_ok build"
    and inv: "valid mem" "tinv mem t" "vsock_inv (t_device t)" "is_active t" "moved queue t0 t 1 0"
      "queue_at t queue = Some q" "is_ready q" "chain_wf GM mem chain"
    and body: "deliver_chain GM queue build chain report (t, mem) = (r, st')"
  shows "sinv st' \<and> round_ok queue report t0 r (fst st')"
proof -
  obtain b d where bd: "build chain (t_device t) = (b, d)" by fastforce
  have k: "vsock_inv d" "\<And>bytes. b = Some bytes \<Longrightarrow> length bytes \<le> unat (c_writable_len chain) \<and> length bytes < 2 ^ 32"
    using build inv(3) bd unfolding build_ok_def by blast+
  have keep: "tinv m (t\<lparr>t_device := d'\<rparr>)" if "check_range GM m = check_range GM mem" for d' m
    using device_update_inv[OF inv(2), of d'] tinv_mem_cong[of m mem] that by auto
  show ?thesis
  proof (cases b)
    case None
    then show ?thesis
      using body bd k inv keep
      by (intro deliver_complete_ok[where mem=mem and chain=chain and q=q and used=0])
         (auto simp: deliver_chain_def Let_def)
  next
    case (Some bytes)
    then have len: "length bytes \<le> unat (c_writable_len chain)" "length bytes < 2 ^ 32" using k by auto
    obtain m where w: "write_writable GM chain 0 bytes mem = (Inr (length bytes), m)"
      "valid m" "check_range GM m = check_range GM mem"
      using write_writable_ok[OF inv(1,8), of bytes 0] len chain_wf_lens(2)[OF inv(8)] by auto
    then show ?thesis
      using body bd Some k inv keep[of m d] len
      by (intro deliver_complete_ok[where mem=m and chain=chain and q=q and used="of_nat (length bytes)"])
         (auto simp: deliver_chain_def Let_def unat_of_nat)
  qed
qed

lemma deliver_body_ok:
  assumes build: "build_ok build"
    and "sinv (t, mem)" "is_active t" "queue_at t queue = Some q0"
    and body: "deliver_body GM queue build report (t, mem) = (r, st')"
  shows "sinv st' \<and> round_ok queue report t r (fst st')"
proof -
  have inv: "valid mem" "tinv mem t" "vsock_inv (t_device t)" using assms(2) by auto
  define work where "work = (if queue = VSOCK_EVENT_QUEUE then 0 < length (vd_events (t_device t)) else has_outbound (t_device t))"
  obtain rn q1 where pend: "queue_pending GM mem q0 = (rn, q1)" by fastforce
  note pr = pending_round[OF inv(2) assms(4) pend]
  have idle: ?thesis if "r = Inr (True, report)" "st' = (t, mem)"
    using that assms(2,4) by (auto simp: moved_def intro!: round_okI(2))
  consider (none) "\<not> work \<or> rn = Inr 0" | (bad) v where "work" "rn = Inl v" | (go) n where "work" "rn = Inr n" "n \<noteq> 0"
    by (cases rn) auto
  then show ?thesis
  proof cases
    case none
    then have "r = Inr (True, report) \<and> st' = (t, mem)"
      using body assms(4) pend pr(2) by (auto simp: deliver_body_def Let_def work_def split: if_split_asm)
    then show ?thesis using idle by blast
  next
    case bad
    then have "r = Inl (ServiceQueue v)" "st' = (set_needs_reset (set_queue queue q1 t), mem)"
      using body assms(4) pend by (auto simp: deliver_body_def Let_def work_def split: if_split_asm)
    then show ?thesis using stop_round[OF inv(1) pr(1), of "ServiceQueue v"] inv by simp
  next
    case go
    have q1: "q1 = q0" using queue_pending_Inr_same[of GM mem q0 n q1] pend go(2) by simp
    obtain rp q2 where pop: "pop_descriptor_chain GM mem (chain_limits_for queue) q0 = (rp, q2)" by fastforce
    let ?t2 = "set_queue queue q2 t"
    note p = pop_round[OF inv(2) assms(4) pop]
    have run: "deliver_body GM queue build report (t, mem) =
        (case rp of
           Inr None \<Rightarrow> (Inr (True, report), ?t2, mem)
         | Inl (Chain head violation) \<Rightarrow>
             (Inr (False, report\<lparr>sr_rejected := saturating_add (sr_rejected report) 1\<rparr>), ?t2, mem)
         | Inl violation \<Rightarrow> (Inl (ServiceQueue violation), set_needs_reset ?t2, mem)
         | Inr (Some chain) \<Rightarrow> deliver_chain GM queue build chain report (?t2, mem))"
      using assms(4) pend go q1 pop by (auto simp: deliver_body_def Let_def work_def split: if_split_asm)
    show ?thesis
    proof (rule pop_result_cases[of rp])
      fix c assume e: "rp = Inr (Some c)"
      then show ?thesis using body run inv assms(3) p(1,2) p(4)[OF e]
        by (intro deliver_chain_ok[where t="?t2" and mem=mem and chain=c and q=q2, OF build]) auto
    next
      assume e: "rp = Inr None"
      then have "r = Inr (True, report)" "st' = (t, mem)" using body run p(3)[OF e] by auto
      then show ?thesis by (rule idle)
    next
      fix h v assume e: "rp = Inl (Chain h v)"
      then show ?thesis using body run p(1) p(5)[OF e] inv by (auto intro!: round_okI(3))
    next
      fix v assume "rp = Inl v" "\<forall>h w. v \<noteq> Chain h w"
      then have "r = Inl (ServiceQueue v)" "st' = (set_needs_reset ?t2, mem)"
        using body run by (auto split: queue_violation.splits)
      then show ?thesis using stop_round[OF inv(1) p(1), of "ServiceQueue v"] inv by simp
    qed
  qed
qed

lemma deliver_state:
  "\<lbrakk>build_ok build; sinv s; is_active (fst s); queue_at (fst s) queue = Some q0;
    deliver_body GM queue build report s = (r, s')\<rbrakk> \<Longrightarrow> sinv s' \<and> round_ok queue report (fst s) r (fst s')"
  using deliver_body_ok[of build "fst s" "snd s" queue q0 report r s'] by simp

lemma vsock_deliver_ok:
  assumes build: "build_ok build"
    and inv: "sinv (t, mem)" "queue_at t queue = Some q0"
    and "vsock_deliver GM budget queue build (t, mem) = (r, st')"
  shows "sinv st' \<and> (case r of
      Inl (ServiceTransport v) \<Rightarrow> \<not> is_active t \<and> st' = (t, mem)
    | Inl _ \<Rightarrow> stopped (fst st')
    | Inr report \<Rightarrow> unat (sr_completed report) + unat (sr_rejected report) \<le> unat budget \<and>
        moved queue t (fst st') (unat (sr_completed report) + unat (sr_rejected report)) (unat (sr_completed report)))"
proof (cases "is_active t")
  case False
  then show ?thesis using assms by (auto simp: vsock_deliver_def)
next
  case True
  then have "rounds (unat budget) (deliver_body GM queue build) (\<lambda>report st. (Inr (report\<lparr>sr_exhausted := True\<rparr>), st))
      service_report_default (t, mem) = (r, st')"
    using assms(4) by (simp add: vsock_deliver_def)
  then have "sinv st' \<and> (case r of
      Inl e \<Rightarrow> (\<forall>v. e \<noteq> ServiceTransport v) \<and> stopped (fst st')
    | Inr report \<Rightarrow> unat (sr_completed report) + unat (sr_rejected report) \<le> unat budget \<and>
        moved queue (fst (t, mem)) (fst st') (unat (sr_completed report) + unat (sr_rejected report)) (unat (sr_completed report)))"
    using inv True
    by - (rule deliver_ok[where P=sinv and tr=fst], erule (3) deliver_state[OF build], simp_all)
  then show ?thesis by (auto split: sum.splits service_error.splits)
qed

end

section \<open>The snapshot record\<close>

lemma vsock_state_codec: "vsock_state_from_bytes raw = Inr s \<longleftrightarrow> raw = vsock_state_to_bytes s"
proof
  assume h: "vsock_state_from_bytes raw = Inr s"
  then have len: "length raw = 21" "raw ! 0 = 1"
    and s: "vs_device_id s = le_word (take 4 (drop 1 raw))" "vs_features s = le_word (take 8 (drop 5 raw))"
      "vs_guest_cid s = le_word (take 8 (drop 13 raw))"
    by (auto simp: vsock_state_from_bytes_def u32_field_eq le_u64_eq_le_word split: if_splits)
  have "raw ! 0 # take 4 (drop 1 raw) @ take 8 (drop 5 raw) @ take 8 (drop 13 raw) = raw"
    using len(1) by (auto simp: list_eq_iff_nth_eq nth_append nth_Cons split: nat.split)
  then show "raw = vsock_state_to_bytes s" using len by (simp add: vsock_state_to_bytes_def s le_bytes_le_word)
next
  assume "raw = vsock_state_to_bytes s"
  then show "vsock_state_from_bytes raw = Inr s"
    by (simp add: vsock_state_from_bytes_def vsock_state_to_bytes_def u32_field_eq le_u64_eq_le_word)
qed

section \<open>Properties\<close>

definition sample_vsock :: vsock_device where
  "sample_vsock = \<lparr>vd_guest_cid = 3, vd_generation = 0, vd_endpoint = None, vd_outbound = [], vd_events = [],
     vd_activated = False, vd_counters = \<lparr>vc_accepted = 0, vc_rejected = 0, vc_rst_sent = 0, vc_tx_packets = 0,
       vc_rx_packets = 0, vc_rx_dropped = 0\<rparr>\<rparr>"

lemma sample_vsock_ok:
  "vsock_inv sample_vsock" "vsock_new 3 = Inr sample_vsock" "vd_outbound sample_vsock = []" "vd_endpoint sample_vsock = None"
  by (simp_all add: vsock_inv_def sample_vsock_def vsock_new_def check_cid_def)

definition host_stream :: "vsock_device \<Rightarrow> u8 list" where
  "host_stream d = (case vd_endpoint d of None \<Rightarrow> [] | Some ep \<Rightarrow> ep_from_guest ep)"

text \<open>What one guest packet may do to the bytes the host reads.\<close>

lemma on_connected_stream:
  assumes "on_connected GM header chain mem d = (r, d')"
  shows "host_stream d' = host_stream d \<or>
    vh_op header = VSOCK_OP_RW \<and>
    host_stream d' = host_stream d @ snd (read_readable GM mem chain 44 (replicate (unat (vh_len header)) 0))"
proof (cases "vd_endpoint d")
  case None
  then show ?thesis using assms by (simp add: on_connected_def)
next
  case (Some ep)
  obtain rc e where u: "update_peer_credit (vh_buf_alloc header) (vh_fwd_cnt header) ep = (rc, e)" by fastforce
  have e: "ep_from_guest e = ep_from_guest ep" using u by (auto simp: update_peer_credit_def split: prod.splits)
  have push: "ep_from_guest e' = ep_from_guest ep \<or> ep_from_guest e' = ep_from_guest ep @ payload"
    if "push_from_guest payload e = (rp, e')" for payload rp e'
    using that e push_from_guest_iff[of payload e e'] push_from_guest_Inl[of payload e _ e'] by (cases rp) auto
  show ?thesis
    using assms Some u e
    by (auto simp: on_connected_def Let_def host_stream_def endpoint_close_def peer_shutdown_def vsock_inv_def
        split: prod.split_asm sum.split_asm if_split_asm dest!: push)
qed

lemma on_request_stream:
  "host_stream (on_request header d) = host_stream d \<or> \<not> endpoint_open d \<and> host_stream (on_request header d) = []"
  by (auto simp: on_request_def host_stream_def endpoint_accept_def and_then_Inr_iff Let_def split: sum.split)

lemma handle_tx_stream:
  assumes "handle_tx GM chain mem d = (r, d')"
  shows "host_stream d' = host_stream d \<or>
    (\<exists>h. parse_tx GM mem chain (vd_guest_cid d) = Inr h \<and> vh_dst_port h = SOMA_CONTROL_PORT \<and>
       (vh_op h = VSOCK_OP_RW \<and> connected_to (vh_src_port h) d \<and>
          host_stream d' = host_stream d @ snd (read_readable GM mem chain 44 (replicate (unat (vh_len h)) 0)) \<or>
        vh_op h = VSOCK_OP_REQUEST \<and> \<not> endpoint_open d \<and> host_stream d' = []))"
proof (cases "parse_tx GM mem chain (vd_guest_cid d)")
  case (Inl e)
  then show ?thesis using assms by (auto simp: handle_tx_def host_stream_def)
next
  case (Inr h)
  have bump [simp]: "host_stream (vsock_bump f x) = host_stream x" "connected_to p (vsock_bump f x) = connected_to p x"
    "endpoint_open (vsock_bump f x) = endpoint_open x" "host_stream (vsock_reject x) = host_stream x"
    "host_stream (send_rst p x) = host_stream x" for f x p
    by (simp_all add: host_stream_def connected_to_def endpoint_open_def)
  show ?thesis
    using assms Inr on_request_stream[of h "vsock_bump vc_tx_packets_update d"]
      on_connected_stream[of GM h chain mem "vsock_bump vc_tx_packets_update d" r d']
    by (auto simp: handle_tx_def Let_def split: if_split_asm)
qed

lemma handle_tx_cid:
  assumes "handle_tx GM chain mem d = (r, d')"
  shows "vd_guest_cid d' = vd_guest_cid d"
  using assms
  by (auto simp: handle_tx_def on_connected_def on_request_def Let_def
      split: sum.split_asm if_split_asm option.split_asm prod.split_asm)

text \<open>
  C33: A guest packet can neither fault the vsock device nor touch guest memory, and the bytes
  the host reads change in two ways only: a data packet of the connected peer, for the control
  port and from the assigned identifier, appends exactly its payload; and a connection request
  while no connection is open starts an empty stream.
\<close>

theorem vsock_packet_safe:
  assumes "guest_memory GM valid byte" "valid mem" "chain_wf GM mem chain" "vsock_inv d"
    and "vsock_handle_chain GM VSOCK_TX_QUEUE chain (d, mem) = (r, d', mem')"
  shows "r = Inr 0 \<and> mem' = mem \<and> vsock_inv d' \<and> vd_guest_cid d' = vd_guest_cid d \<and>
    (host_stream d' = host_stream d \<or>
     (\<exists>h. c_writable_len chain = 0 \<and> packet_for (vd_guest_cid d) (readable_data (byte mem) chain) h \<and>
        vh_dst_port h = SOMA_CONTROL_PORT \<and>
        (vh_op h = VSOCK_OP_RW \<and> connected_to (vh_src_port h) d \<and>
           host_stream d' = host_stream d @ drop 44 (readable_data (byte mem) chain) \<or>
         vh_op h = VSOCK_OP_REQUEST \<and> \<not> endpoint_open d \<and> host_stream d' = [])))"
proof -
  have vs: "vsock_service GM valid byte" using assms(1) by (rule vsock_service.intro)
  obtain r1 d1 where t: "handle_tx GM chain mem d = (r1, d1)" by fastforce
  have r1: "r1 = Inr ()" using vsock_service.handle_tx_Inr[OF vs assms(2,3), of d] t by simp
  then have d1: "r = Inr 0" "d' = d1" "mem' = mem" using assms(5) t by (auto simp: vsock_handle_chain_def)
  show ?thesis
    using handle_tx_inv[OF assms(4) t] handle_tx_cid[OF t] handle_tx_stream[OF t] d1
      vsock_service.payload_read[OF vs assms(2,3)] guest_memory.parse_tx_iff[OF assms(1-3)]
    by (auto)
qed

theorem vsock_packet_safe_witness:
  "\<exists>d d'. vsock_new 3 = Inr d \<and>
     vsock_handle_chain vec_ops 1 sample_packet (d, sample_vsock_memory) = (Inr 0, d', sample_vsock_memory) \<and>
     connected_to 7 d'"
proof -
  define d where "d = projr (vsock_new 3)"
  have d: "vsock_new 3 = Inr d" "vd_guest_cid d = 3" "vd_endpoint d = None" "vsock_inv d" "vd_outbound d = []"
    by (simp_all add: d_def vsock_new_def check_cid_def vsock_inv_def)
  obtain r d' mem' where h: "vsock_handle_chain vec_ops 1 sample_packet (d, sample_vsock_memory) = (r, d', mem')"
    by (metis prod_cases3)
  note s = vsock_packet_safe[OF vec.guest_memory_axioms sample_packet_ok d(4) h]
  have "parse_tx vec_ops sample_vsock_memory sample_packet 3 = Inr sample_header"
    using vec.parse_tx_iff[OF sample_packet_ok, of 3 sample_header]
    by (simp add: sample_packet_data packet_for_def packet_flags_ok_def ALLOWED_OPS_def)
       (simp add: sample_header_def sample_packet_def)
  then have "d' = on_request sample_header (vsock_bump vc_tx_packets_update d)"
    using h d by (simp add: vsock_handle_chain_def handle_tx_def sample_header_def Let_def)
  then have "connected_to 7 d'"
    using d by (simp add: on_request_def endpoint_open_def sample_header_def endpoint_accept_def credit_new_def
        update_peer_def connected_to_def)
  then show ?thesis using s h d(1) by auto
qed

text \<open>
  A packet the host sends is addressed from the control port to the assigned identifier,
  declares the payload it carries, and carries payload only as the head of the bytes the host
  wrote, within the peer's credit and the buffer. The work test of the delivery loop is exact:
  there is a packet for a buffer with room exactly when the device reports one.
\<close>

lemma vsock_outbound_exact:
  assumes "vsock_inv d" "0 < cap" "next_outbound cap d = (p, d')"
  shows "(p \<noteq> None \<longleftrightarrow> has_outbound d) \<and> vsock_inv d' \<and>
    (\<forall>h payload. p = Some (h, payload) \<longrightarrow> host_packet cap d h payload d')"
  using assms has_outbound_next[OF assms(2), of d] next_outbound_inv[OF assms(1,3)] next_outbound_packet[OF assms(1)]
  by auto

text \<open>
  C35: Delivering packets or events to the guest is bounded and accounted for like servicing: at
  most the budget of buffers is taken, every one is published once or dropped and counted, the
  device and transport invariants are kept, and a failure other than an inactive transport
  leaves the device stopped.
\<close>

theorem vsock_deliver_outcome:
  assumes "guest_memory GM valid byte" "valid mem" "transport_inv GM vsock_ops mem t" "vsock_inv (t_device t)"
    and "queue = VSOCK_RX_QUEUE \<and> run = vsock_deliver_rx GM budget \<or>
      queue = VSOCK_EVENT_QUEUE \<and> budget = 64 \<and> run = vsock_deliver_events GM"
    and "run (t, mem) = (r, t', mem')"
  shows "valid mem' \<and> transport_inv GM vsock_ops mem' t' \<and> vsock_inv (t_device t') \<and>
    (case r of
       Inr report \<Rightarrow>
         unat (sr_completed report) + unat (sr_rejected report) \<le> unat budget \<and>
         moved queue t t' (unat (sr_completed report) + unat (sr_rejected report)) (unat (sr_completed report))
     | Inl (ServiceTransport v) \<Rightarrow> \<not> is_active t \<and> t' = t \<and> mem' = mem
     | Inl _ \<Rightarrow> stopped t')"
proof -
  have vs: "vsock_service GM valid byte" using assms(1) by (rule vsock_service.intro)
  obtain build where run: "vsock_deliver GM budget queue build (t, mem) = (r, t', mem')" "build_ok build"
    using assms(5,6) builds_ok unfolding vsock_deliver_rx_def vsock_deliver_events_def by metis
  have "map q_max_size (t_queues t) = [256, 256, 64]" using assms(3) by (simp add: transport_inv_def vsock_ops_def)
  from arg_cong[OF this, of length] have "length (t_queues t) = 3" by simp
  then obtain q0 where q0: "queue_at t queue = Some q0" using assms(5) by (auto simp: queue_at_def)
  have inv: "case (t, mem) of (t, mem) \<Rightarrow> valid mem \<and> transport_inv GM vsock_ops mem t \<and> vsock_inv (t_device t)"
    using assms by simp
  show ?thesis
    using vsock_service.vsock_deliver_ok[OF vs run(2) inv q0 run(1)] by (auto split: sum.splits service_error.splits)
qed

definition running_vsock :: "vsock_device mmio_transport" where
  "running_vsock =
     \<lparr>t_device = after_restore (sample_vsock\<lparr>vd_activated := True\<rparr>),
      t_queues = map (\<lambda>mx. sample_queue\<lparr>q_max_size := mx\<rparr>) [256, 256, 64], t_status = 15,
      t_device_features_sel = 0, t_driver_features_sel = 1, t_driver_features = VIRTIO_F_VERSION_1,
      t_queue_sel = 0, t_interrupt_status = 0, t_config_generation = 0, t_violations = replicate 17 0\<rparr>"

lemma running_vsock_inv:
  "transport_inv vec_ops vsock_ops sample_memory running_vsock" "vsock_inv (t_device running_vsock)"
  using sample_queue_64 sample_queue_256 status_15 sample_vsock_ok(1)
  by (simp_all add: transport_inv_def running_vsock_def features_accepted_def vsock_ops_def vsock_inv_def
      after_restore_def clear_transient_def)

theorem vsock_deliver_outcome_witness:
  "\<exists>r t' mem'. vsock_deliver_events vec_ops (running_vsock, sample_memory) = (r, t', mem') \<and>
     transport_inv vec_ops vsock_ops mem' t' \<and>
     (\<forall>report. r = Inr report \<longrightarrow> unat (sr_completed report) + unat (sr_rejected report) \<le> 64)"
proof -
  obtain r t' mem' where s: "vsock_deliver_events vec_ops (running_vsock, sample_memory) = (r, t', mem')"
    by (metis prod_cases3)
  from vsock_deliver_outcome[OF vec.guest_memory_axioms sample_valid running_vsock_inv, of 2 "vsock_deliver_events vec_ops" 64, OF _ s] s
  show ?thesis by auto
qed

text \<open>
  A vsock snapshot record is accepted exactly when it is the 21-byte record of an
  assignable identifier. Accepting it leaves no connection, queued packet, credit or buffered
  byte, and exactly one transport-reset event for the guest; a refused record changes nothing.
\<close>

lemma vsock_restore_exact:
  "(restore_state vsock_ops raw d = (Inr (), d') \<longleftrightarrow>
     (\<exists>cid. check_cid cid = Inr () \<and> raw = [1, 19, 0, 0, 0, 0, 0, 0, 0, 1, 0, 0, 0] @ le_bytes 8 cid \<and>
        d' = d\<lparr>vd_guest_cid := cid, vd_endpoint := None, vd_outbound := [],
          vd_events := [VSOCK_EVENT_TRANSPORT_RESET], vd_generation := vd_generation d + 1\<rparr>)) \<and>
   (restore_state vsock_ops raw d = (Inl e, d'') \<longrightarrow> d'' = d)"
proof -
  define s where "s cid = \<lparr>vs_device_id = 19, vs_features = VSOCK_FEATURES, vs_guest_cid = cid\<rparr>" for cid
  have bytes: "vsock_state_to_bytes (s cid) = [1, 19, 0, 0, 0, 0, 0, 0, 0, 1, 0, 0, 0] @ le_bytes 8 cid" for cid
    by (simp add: vsock_state_to_bytes_def s_def codec_simps)
  have app: "vsock_state_apply x d = (Inr (), d') \<longleftrightarrow>
      (\<exists>cid. check_cid cid = Inr () \<and> x = s cid \<and> d' = d\<lparr>vd_guest_cid := cid, vd_endpoint := None, vd_outbound := [],
        vd_events := [VSOCK_EVENT_TRANSPORT_RESET], vd_generation := vd_generation d + 1\<rparr>)" for x
    by (cases x) (auto simp: vsock_state_apply_def s_def set_guest_cid_def after_restore_def clear_transient_def
        split: sum.splits)
  have "restore_state vsock_ops raw d = (Inr (), d') \<longleftrightarrow>
      (\<exists>x. raw = vsock_state_to_bytes x \<and> vsock_state_apply x d = (Inr (), d'))"
    unfolding vsock_state_codec[symmetric] by (auto simp: vsock_ops_def split: sum.split)
  moreover have "d'' = d" if "restore_state vsock_ops raw d = (Inl e, d'')"
    using that by (auto simp: vsock_ops_def vsock_state_apply_def set_guest_cid_def split: sum.splits if_splits)
  ultimately show ?thesis unfolding app using bytes by metis
qed

end
