(* ===== verification/NetDevice.thy ===== *)
theory NetDevice
  imports DeviceReach
begin

text \<open>
  The network device (\<open>soma-kvm/src/virtio/devices/net.rs\<close>, \<open>net/frame.rs\<close>, \<open>net/state.rs\<close>,
  \<open>net/attachment.rs\<close>, \<open>net/backend.rs\<close> and \<open>net/rx.rs\<close>): transmit and receive behind a link gate
  that only the host raises. The trait \<open>NetBackend\<close> is a record of operations with the locale
  \<open>frame_path\<close> as its contract; the TAP descriptor and the loopback are instances. What the host
  kernel does with the descriptor is a parameter of the TAP backend.
\<close>

section \<open>Backends\<close>

datatype net_backend_error = NetIo io_error_kind | ShortWrite

record 'b net_backend =
  nb_transmit :: "u8 list \<Rightarrow> 'b \<Rightarrow> (net_backend_error, unit, 'b) mut_result"
  nb_receive :: "u8 list \<times> 'b \<Rightarrow> (net_backend_error, nat option, u8 list \<times> 'b) mut_result"

text \<open>\<open>File::write\<close> and \<open>File::read\<close> on the descriptor.\<close>

record 'f tap_file =
  tap_write :: "u8 list \<Rightarrow> 'f \<Rightarrow> (io_error_kind, nat, 'f) mut_result"
  tap_read :: "u8 list \<times> 'f \<Rightarrow> (io_error_kind, nat, u8 list \<times> 'f) mut_result"

definition tap_transmit :: "'f tap_file \<Rightarrow> u8 list \<Rightarrow> 'f \<Rightarrow> (net_backend_error, unit, 'f) mut_result" where
  "tap_transmit F frame tap =
     (let (r, tap) = tap_write F frame tap in
      case r of
        Inl kind \<Rightarrow> (Inl (NetIo kind), tap)
      | Inr written \<Rightarrow> (if written = length frame then Inr () else Inl ShortWrite, tap))"

definition tap_receive :: "'f tap_file \<Rightarrow> u8 list \<times> 'f \<Rightarrow> (net_backend_error, nat option, u8 list \<times> 'f) mut_result" where
  "tap_receive F st =
     (let (r, st) = tap_read F st in
      case r of
        Inr len \<Rightarrow> (Inr (if len = 0 then None else Some len), st)
      | Inl kind \<Rightarrow> (if kind = WouldBlock \<or> kind = Interrupted then Inr None else Inl (NetIo kind), st))"

definition tap_ops :: "'f tap_file \<Rightarrow> 'f net_backend" where
  "tap_ops F = \<lparr>nb_transmit = tap_transmit F, nb_receive = tap_receive F\<rparr>"

abbreviation (input) LOOPBACK_QUEUE_LIMIT :: nat where "LOOPBACK_QUEUE_LIMIT \<equiv> 64"

record loopback =
  lb_sent :: "u8 list list"
  lb_inbound :: "u8 list list"
  lb_echo :: bool
  lb_fail :: "io_error_kind option"

definition push_inbound :: "u8 list \<Rightarrow> loopback \<Rightarrow> loopback" where
  "push_inbound frame l =
     (if length (lb_inbound l) < LOOPBACK_QUEUE_LIMIT then l\<lparr>lb_inbound := lb_inbound l @ [frame]\<rparr> else l)"

definition take_sent :: "loopback \<Rightarrow> u8 list list \<times> loopback" where
  "take_sent l = (lb_sent l, l\<lparr>lb_sent := []\<rparr>)"

definition loopback_transmit :: "u8 list \<Rightarrow> loopback \<Rightarrow> (net_backend_error, unit, loopback) mut_result" where
  "loopback_transmit frame l =
     (case lb_fail l of
        Some kind \<Rightarrow> (Inl (NetIo kind), l)
      | None \<Rightarrow>
          let l = (if length (lb_sent l) < LOOPBACK_QUEUE_LIMIT then l\<lparr>lb_sent := lb_sent l @ [frame]\<rparr> else l) in
          (Inr (), if lb_echo l then push_inbound frame l else l))"

definition loopback_receive ::
    "u8 list \<times> loopback \<Rightarrow> (net_backend_error, nat option, u8 list \<times> loopback) mut_result" where
  "loopback_receive = (\<lambda>(buf, l).
     case lb_fail l of
       Some kind \<Rightarrow> (Inl (NetIo kind), buf, l)
     | None \<Rightarrow>
         (case lb_inbound l of
            [] \<Rightarrow> (Inr None, buf, l)
          | frame # rest \<Rightarrow>
              let len = min (length frame) (length buf) in
              (Inr (Some len), overwrite 0 (take len frame) buf, l\<lparr>lb_inbound := rest\<rparr>)))"

definition loopback_ops :: "loopback net_backend" where
  "loopback_ops = \<lparr>nb_transmit = loopback_transmit, nb_receive = loopback_receive\<rparr>"

text \<open>
  What the device relies on: a read fills the buffer it is given and reports no more bytes than
  the buffer has.
\<close>

locale frame_path =
  fixes NB :: "'b net_backend"
  assumes receive_buffer:
    "nb_receive NB (buf, b) = (r, buf', b') \<Longrightarrow> length buf' = length buf \<and> (\<forall>n. r = Inr (Some n) \<longrightarrow> n \<le> length buf)"

locale tap_descriptor =
  fixes F :: "'f tap_file"
  assumes read_buffer:
    "tap_read F (buf, f) = (r, buf', f') \<Longrightarrow> length buf' = length buf \<and> (\<forall>n. r = Inr n \<longrightarrow> n \<le> length buf)"

sublocale tap_descriptor \<subseteq> frame_path "tap_ops F"
proof
  fix buf b r buf' b'
  assume "nb_receive (tap_ops F) (buf, b) = (r, buf', b')"
  then show "length buf' = length buf \<and> (\<forall>n. r = Inr (Some n) \<longrightarrow> n \<le> length buf)"
    using read_buffer[of buf b]
    by (auto simp: tap_ops_def tap_receive_def Let_def split: prod.splits sum.splits if_splits)
qed

interpretation loop: frame_path loopback_ops
  by unfold_locales
     (auto simp: loopback_ops_def loopback_receive_def overwrite_def Let_def split: option.splits list.splits)

text \<open>
  A descriptor as the kernel presents it: the frames that wait to be read, one per read, the
  errors the host reports instead, and the frames that were sent.
\<close>

record host_tap =
  ht_incoming :: "(io_error_kind + u8 list) list"
  ht_outgoing :: "u8 list list"

definition host_tap_write :: "u8 list \<Rightarrow> host_tap \<Rightarrow> (io_error_kind, nat, host_tap) mut_result" where
  "host_tap_write frame h = (Inr (length frame), h\<lparr>ht_outgoing := ht_outgoing h @ [frame]\<rparr>)"

definition host_tap_read :: "u8 list \<times> host_tap \<Rightarrow> (io_error_kind, nat, u8 list \<times> host_tap) mut_result" where
  "host_tap_read = (\<lambda>(buf, h).
     case ht_incoming h of
       [] \<Rightarrow> (Inl WouldBlock, buf, h)
     | Inl kind # rest \<Rightarrow> (Inl kind, buf, h\<lparr>ht_incoming := rest\<rparr>)
     | Inr frame # rest \<Rightarrow>
         let n = min (length frame) (length buf) in
         (Inr n, overwrite 0 (take n frame) buf, h\<lparr>ht_incoming := rest\<rparr>))"

definition host_tap_ops :: "host_tap tap_file" where
  "host_tap_ops = \<lparr>tap_write = host_tap_write, tap_read = host_tap_read\<rparr>"

interpretation tap: tap_descriptor host_tap_ops
  by unfold_locales
     (auto simp: host_tap_ops_def host_tap_read_def overwrite_def Let_def split: list.splits sum.splits)

section \<open>Frames\<close>

abbreviation (input) VIRTIO_NET_HDR_LEN :: nat where "VIRTIO_NET_HDR_LEN \<equiv> 12"
abbreviation (input) MIN_FRAME_LEN :: nat where "MIN_FRAME_LEN \<equiv> 14"
abbreviation (input) MAX_FRAME_LEN :: nat where "MAX_FRAME_LEN \<equiv> 1514"

datatype frame_error =
    FrameTooShort u64
  | FrameTooLong u64
  | FrameWritable
  | HeaderNonZero
  | FrameMemory guest_memory_error

definition validate_tx :: "'m guest_memory_ops \<Rightarrow> 'm \<Rightarrow> descriptor_chain \<Rightarrow> frame_error + nat" where
  "validate_tx GM mem chain =
     (if c_writable_len chain \<noteq> 0 then Inl FrameWritable
      else
        let len = c_readable_len chain;
            mn = of_nat (VIRTIO_NET_HDR_LEN + MIN_FRAME_LEN); mx = of_nat (VIRTIO_NET_HDR_LEN + MAX_FRAME_LEN) in
        if len < mn then Inl (FrameTooShort len)
        else if mx < len then Inl (FrameTooLong len)
        else
          let (r, header) = read_readable GM mem chain 0 (replicate VIRTIO_NET_HDR_LEN 0) in
          and_then (map_err FrameMemory r) (\<lambda>_.
          if header \<noteq> replicate VIRTIO_NET_HDR_LEN 0 then Inl HeaderNonZero
          else Inr (unat (len - of_nat VIRTIO_NET_HDR_LEN))))"

definition rx_frame_ok :: "nat \<Rightarrow> bool" where
  "rx_frame_ok len \<longleftrightarrow> MIN_FRAME_LEN \<le> len \<and> len \<le> MAX_FRAME_LEN"

section \<open>The device\<close>

abbreviation (input) VIRTIO_NET_DEVICE_ID :: u32 where "VIRTIO_NET_DEVICE_ID \<equiv> 1"
abbreviation (input) NET_FEATURES :: u64 where "NET_FEATURES \<equiv> VIRTIO_F_VERSION_1 OR 32"
abbreviation (input) NET_RX_QUEUE :: u16 where "NET_RX_QUEUE \<equiv> 0"
abbreviation (input) NET_TX_QUEUE :: u16 where "NET_TX_QUEUE \<equiv> 1"
abbreviation (input) NET_CONFIG_LEN :: nat where "NET_CONFIG_LEN \<equiv> 8"

definition TX_LIMITS :: chain_limits where
  "TX_LIMITS = \<lparr>max_descriptors = 256, max_bytes = of_nat (VIRTIO_NET_HDR_LEN + MAX_FRAME_LEN)\<rparr>"

definition RX_LIMITS :: chain_limits where
  "RX_LIMITS = \<lparr>max_descriptors = 256, max_bytes = 0x10000\<rparr>"

text \<open>A \<open>[u8; 6]\<close>.\<close>

type_synonym mac = "u8 \<times> u8 \<times> u8 \<times> u8 \<times> u8 \<times> u8"

fun mac_bytes :: "mac \<Rightarrow> u8 list" where
  "mac_bytes (a, b, c, d, e, f) = [a, b, c, d, e, f]"

record net_counters =
  nc_tx_ok :: u32
  nc_tx_dropped :: u32
  nc_rx_ok :: u32
  nc_rx_dropped :: u32

record 'b net_device =
  nd_backend :: 'b
  nd_mac :: mac
  nd_link_up :: bool
  nd_activated :: bool
  nd_counters :: net_counters

definition net_new :: "'b \<Rightarrow> mac \<Rightarrow> 'b net_device" where
  "net_new backend mac =
     \<lparr>nd_backend = backend, nd_mac = mac, nd_link_up = False, nd_activated = False,
      nd_counters = \<lparr>nc_tx_ok = 0, nc_tx_dropped = 0, nc_rx_ok = 0, nc_rx_dropped = 0\<rparr>\<rparr>"

definition set_mac :: "mac \<Rightarrow> 'b net_device \<Rightarrow> 'b net_device" where
  "set_mac mac d = d\<lparr>nd_mac := mac\<rparr>"

definition set_link :: "bool \<Rightarrow> 'b net_device \<Rightarrow> 'b net_device" where
  "set_link up d = d\<lparr>nd_link_up := up\<rparr>"

definition net_attach :: "'b \<Rightarrow> mac \<Rightarrow> 'b net_device \<Rightarrow> 'b net_device" where
  "net_attach backend mac d = set_mac mac (d\<lparr>nd_backend := backend\<rparr>)"

definition receive_frame :: "'b net_backend \<Rightarrow> u8 list \<Rightarrow> 'b net_device \<Rightarrow> (unit + nat option) \<times> u8 list \<times> 'b net_device" where
  "receive_frame NB buf d =
     (let (r, buf, b) = nb_receive NB (buf, nd_backend d) in
      (map_err (\<lambda>_. ()) r, buf, d\<lparr>nd_backend := b\<rparr>))"

definition net_bump :: "((u32 \<Rightarrow> u32) \<Rightarrow> net_counters \<Rightarrow> net_counters) \<Rightarrow> 'b net_device \<Rightarrow> 'b net_device" where
  "net_bump field d = d\<lparr>nd_counters := field (\<lambda>n. saturating_add n 1) (nd_counters d)\<rparr>"

definition drop_tx :: "'b net_device \<Rightarrow> u32 \<times> 'b net_device" where
  "drop_tx d = (0, net_bump nc_tx_dropped_update d)"

definition net_handle_chain ::
    "'m guest_memory_ops \<Rightarrow> 'b net_backend \<Rightarrow> u16 \<Rightarrow> descriptor_chain \<Rightarrow> 'b net_device \<times> 'm
     \<Rightarrow> (device_fault, u32, 'b net_device \<times> 'm) mut_result" where
  "net_handle_chain GM NB queue chain = (\<lambda>(d, mem).
     let dropped = (let (n, d) = drop_tx d in (Inr n, d, mem)) in
     if queue \<noteq> NET_TX_QUEUE then (Inl FaultProtocol, d, mem)
     else case validate_tx GM mem chain of
       Inl _ \<Rightarrow> dropped
     | Inr frame_len \<Rightarrow>
         if \<not> nd_link_up d then dropped
         else
           let (r, frame) = read_readable GM mem chain (of_nat VIRTIO_NET_HDR_LEN) (replicate frame_len 0) in
           case r of
             Inl e \<Rightarrow> (Inl (FaultMemory e), d, mem)
           | Inr n \<Rightarrow>
               if n \<noteq> frame_len then (Inl FaultProtocol, d, mem)
               else
                 let (r, b) = nb_transmit NB frame (nd_backend d); d = d\<lparr>nd_backend := b\<rparr> in
                 case r of
                   Inr _ \<Rightarrow> (Inr 0, net_bump nc_tx_ok_update d, mem)
                 | Inl _ \<Rightarrow> (let (n, d) = drop_tx d in (Inr n, d, mem)))"

definition net_handler :: "'m guest_memory_ops \<Rightarrow> 'b net_backend \<Rightarrow> ('b net_device, 'm) chain_handler" where
  "net_handler GM NB =
     \<lparr>handler_limits = (\<lambda>_ queue. if queue = NET_TX_QUEUE then TX_LIMITS else RX_LIMITS),
      handle_chain = net_handle_chain GM NB\<rparr>"

section \<open>Receiving\<close>

abbreviation (input) RX_BUFFER_LEN :: nat where "RX_BUFFER_LEN \<equiv> VIRTIO_NET_HDR_LEN + MAX_FRAME_LEN + 1"

text \<open>A popped chain gets the header and the frame, or is returned empty when they do not fit.\<close>

definition net_fill ::
    "'m guest_memory_ops \<Rightarrow> descriptor_chain \<Rightarrow> nat \<Rightarrow> u8 list \<Rightarrow> 'b net_device \<times> 'm
     \<Rightarrow> (device_fault, u32, 'b net_device \<times> 'm) mut_result" where
  "net_fill GM chain total_len buf = (\<lambda>(d, mem).
     if c_readable_len chain = 0 \<and> of_nat total_len \<le> c_writable_len chain then
       let (w, mem) = write_writable GM chain 0 (take total_len buf) mem in
       if w = Inr total_len then (Inr (u32_or_max total_len), net_bump nc_rx_ok_update d, mem)
       else (Inl FaultProtocol, d, mem)
     else (Inr 0, net_bump nc_rx_dropped_update d, mem))"

text \<open>A round after a deliverable frame of the given length was read.\<close>

definition net_rx_frame ::
    "'m guest_memory_ops \<Rightarrow> nat \<Rightarrow> queue \<Rightarrow> service_report \<Rightarrow> 'b net_device mmio_transport \<times> 'm \<times> u8 list
     \<Rightarrow> (service_error, bool \<times> service_report, 'b net_device mmio_transport \<times> 'm \<times> u8 list) mut_result" where
  "net_rx_frame GM frame_len ring report = (\<lambda>(t, mem, buf).
     let total_len = VIRTIO_NET_HDR_LEN + frame_len in
     case pop_descriptor_chain GM mem RX_LIMITS ring of
       (Inr None, ring) \<Rightarrow> (Inr (True, report), set_queue NET_RX_QUEUE ring t, mem, buf)
     | (Inl (Chain head violation), ring) \<Rightarrow>
         (Inr (False, report\<lparr>sr_rejected := saturating_add (sr_rejected report) 1\<rparr>),
          (set_queue NET_RX_QUEUE ring t)\<lparr>t_device := net_bump nc_rx_dropped_update (t_device t)\<rparr>, mem, buf)
     | (Inl violation, ring) \<Rightarrow>
         (Inl (ServiceQueue violation), set_needs_reset (set_queue NET_RX_QUEUE ring t), mem, buf)
     | (Inr (Some chain), ring) \<Rightarrow>
         let t = set_queue NET_RX_QUEUE ring t;
             (r, d, mem) = net_fill GM chain total_len buf (t_device t, mem);
             t = t\<lparr>t_device := d\<rparr> in
         (case r of
            Inl fault \<Rightarrow> (Inl (ServiceFault fault), set_needs_reset t, mem, buf)
          | Inr used \<Rightarrow>
              let (r, t, mem) = complete_used GM NET_RX_QUEUE chain used (t, mem) in
              (case r of
                 Inl violation \<Rightarrow> (Inl (ServiceTransport violation), set_needs_reset t, mem, buf)
               | Inr notify \<Rightarrow>
                   (Inr (False, report\<lparr>sr_interrupt := sr_interrupt report \<or> notify,
                      sr_completed := saturating_add (sr_completed report) 1\<rparr>), t, mem, buf))))"

definition net_rx_body ::
    "'m guest_memory_ops \<Rightarrow> 'b net_backend \<Rightarrow> service_report \<Rightarrow> 'b net_device mmio_transport \<times> 'm \<times> u8 list
     \<Rightarrow> (service_error, bool \<times> service_report, 'b net_device mmio_transport \<times> 'm \<times> u8 list) mut_result" where
  "net_rx_body GM NB report = (\<lambda>(t, mem, buf).
     case queue_at t NET_RX_QUEUE of
       None \<Rightarrow> (Inl (ServiceTransport (NotifyOutOfRange (ucast NET_RX_QUEUE))), t, mem, buf)
     | Some ring \<Rightarrow>
         if \<not> nd_link_up (t_device t) then (Inr (True, report), t, mem, buf)
         else case queue_pending GM mem ring of
           (Inl violation, ring) \<Rightarrow>
             (Inl (ServiceQueue violation), set_needs_reset (set_queue NET_RX_QUEUE ring t), mem, buf)
         | (Inr n, ring) \<Rightarrow>
             let t = set_queue NET_RX_QUEUE ring t in
             if n = 0 then (Inr (True, report), t, mem, buf)
             else
               let (got, frame, d) = receive_frame NB (drop VIRTIO_NET_HDR_LEN buf) (t_device t);
                   buf = take VIRTIO_NET_HDR_LEN buf @ frame;
                   t = t\<lparr>t_device := d\<rparr> in
               (case got of
                  Inl _ \<Rightarrow> (Inl (ServiceFault FaultBackend), set_needs_reset t, mem, buf)
                | Inr None \<Rightarrow> (Inr (True, report), t, mem, buf)
                | Inr (Some frame_len) \<Rightarrow>
                    if \<not> rx_frame_ok frame_len
                    then (Inr (False, report), t\<lparr>t_device := net_bump nc_rx_dropped_update d\<rparr>, mem, buf)
                    else net_rx_frame GM frame_len ring report (t, mem, buf)))"

definition net_deliver_rx ::
    "'m guest_memory_ops \<Rightarrow> 'b net_backend \<Rightarrow> u32 \<Rightarrow> 'b net_device mmio_transport \<times> 'm
     \<Rightarrow> (service_error, service_report, 'b net_device mmio_transport \<times> 'm) mut_result" where
  "net_deliver_rx GM NB budget = (\<lambda>(t, mem).
     if \<not> is_active t then (Inl (ServiceTransport NotifyBeforeDriverOk), t, mem)
     else
       let (r, t, mem, buf) = rounds (unat budget) (net_rx_body GM NB)
             (\<lambda>report st. (Inr (report\<lparr>sr_exhausted := True\<rparr>), st)) service_report_default
             (t, mem, replicate RX_BUFFER_LEN 0) in
       (r, t, mem))"

section \<open>The snapshot record and the device trait\<close>

record net_state =
  ns_device_id :: u32
  ns_features :: u64
  ns_mac :: mac
  ns_link_up :: bool

abbreviation (input) NET_STATE_LEN :: nat where "NET_STATE_LEN \<equiv> 20"

definition net_state_capture :: "'b net_device \<Rightarrow> net_state" where
  "net_state_capture d =
     \<lparr>ns_device_id = VIRTIO_NET_DEVICE_ID, ns_features = NET_FEATURES, ns_mac = nd_mac d, ns_link_up = nd_link_up d\<rparr>"

definition net_state_to_bytes :: "net_state \<Rightarrow> u8 list" where
  "net_state_to_bytes s =
     [1] @ le_bytes 4 (ns_device_id s) @ le_bytes 8 (ns_features s) @ mac_bytes (ns_mac s) @ [of_bool (ns_link_up s)]"

definition net_state_from_bytes :: "u8 list \<Rightarrow> device_state_error + net_state" where
  "net_state_from_bytes raw =
     (if length raw \<noteq> NET_STATE_LEN \<or> raw ! 0 \<noteq> 1 then Inl Malformed
      else and_then (if raw ! 19 = 0 then Inr False else if raw ! 19 = 1 then Inr True else Inl Malformed) (\<lambda>link_up.
           let mac = (raw ! 13, raw ! 14, raw ! 15, raw ! 16, raw ! 17, raw ! 18) in
           and_then (u32_field Malformed (take 4 (drop 1 raw))) (\<lambda>device_id.
           Inr \<lparr>ns_device_id = device_id, ns_features = le_u64 (take 8 (drop 5 raw)), ns_mac = mac,
                ns_link_up = link_up\<rparr>)))"

definition net_state_apply :: "net_state \<Rightarrow> 'b net_device \<Rightarrow> (device_state_error, unit, 'b net_device) mut_result" where
  "net_state_apply s d =
     (if ns_device_id s \<noteq> VIRTIO_NET_DEVICE_ID \<or> ns_features s \<noteq> NET_FEATURES \<or> ns_link_up s
      then (Inl Incompatible, d)
      else (Inr (), set_link False (set_mac (ns_mac s) d)))"

definition net_read_config :: "'b net_device \<Rightarrow> nat \<Rightarrow> nat \<Rightarrow> config_access_error + u8 list" where
  "net_read_config d offset len =
     (let raw = mac_bytes (nd_mac d) @ [0, 0] in
      if offset + len < 2 ^ 64 \<and> offset + len \<le> NET_CONFIG_LEN
      then Inr (take len (drop offset raw)) else Inl OutOfBounds)"

definition net_activate :: "u64 \<Rightarrow> 'b net_device \<Rightarrow> (activate_error, unit, 'b net_device) mut_result" where
  "net_activate negotiated d =
     (if negotiated AND NOT NET_FEATURES \<noteq> 0 then (Inl (UnsupportedFeatures negotiated), d)
      else (Inr (), d\<lparr>nd_activated := True\<rparr>))"

definition net_ops :: "'b net_device virtio_device" where
  "net_ops =
     \<lparr>device_id = (\<lambda>_. VIRTIO_NET_DEVICE_ID), vendor_id = (\<lambda>_. SOMA_VENDOR_ID),
      feature_allowlist = (\<lambda>_. NET_FEATURES), queue_max_sizes = (\<lambda>_. [256, 256]),
      config_len = (\<lambda>_. NET_CONFIG_LEN), dev_read_config = net_read_config,
      dev_write_config = (\<lambda>_ _ d. (Inl ReadOnly, d)), dev_activate = net_activate,
      dev_reset = (\<lambda>d. d\<lparr>nd_activated := False\<rparr>),
      snapshot_state = (\<lambda>d. net_state_to_bytes (net_state_capture d)),
      restore_state = (\<lambda>raw d. case net_state_from_bytes raw of
         Inl e \<Rightarrow> (Inl e, d) | Inr s \<Rightarrow> net_state_apply s d)\<rparr>"

section \<open>The contracts\<close>

lemma net_face [simp]: "device_face net_ops d = (VIRTIO_NET_DEVICE_ID, NET_FEATURES, [256, 256], 8)"
  by (simp add: device_face_def net_ops_def)

lemma length_mac_bytes [simp]: "length (mac_bytes m) = 6"
  by (cases m rule: mac_bytes.cases) simp

interpretation net: device_model net_ops
  by unfold_locales
     (auto simp: net_ops_def device_face_def net_read_config_def net_activate_def Let_def split: if_splits)

lemma net_bump_simps [simp]:
  "nd_backend (net_bump f d) = nd_backend d" "nd_mac (net_bump f d) = nd_mac d"
  "nd_link_up (net_bump f d) = nd_link_up d" "nd_activated (net_bump f d) = nd_activated d"
  by (simp_all add: net_bump_def)

text \<open>The bytes of a transmit chain that carry a frame: a zero header and a frame within the bounds.\<close>

definition frame_bytes :: "u8 list \<Rightarrow> bool" where
  "frame_bytes data \<longleftrightarrow> 26 \<le> length data \<and> length data \<le> 1526 \<and> take 12 data = replicate 12 0"

locale net_service = guest_memory GM valid byte + frame_path NB
  for GM :: "'m guest_memory_ops" and valid and byte and NB :: "'b net_backend"
begin

lemma validate_tx_iff:
  assumes "valid mem" "chain_wf GM mem chain"
  shows "validate_tx GM mem chain = Inr n \<longleftrightarrow>
    c_writable_len chain = 0 \<and> frame_bytes (readable_data (byte mem) chain) \<and>
    n = length (readable_data (byte mem) chain) - 12"
proof -
  define data where "data = readable_data (byte mem) chain"
  have len: "length data = unat (c_readable_len chain)"
    using chain_wf_lens(1)[OF assms(2), of "byte mem"] by (simp add: data_def)
  have rd: "read_readable GM mem chain 0 (replicate 12 0) = (Inr 12, take 12 data)" if "12 \<le> length data"
    using read_readable_ok[OF assms, of "replicate 12 0" 0] that by (simp add: data_def)
  have sub: "unat (c_readable_len chain - 12) = length data - 12" if "12 \<le> length data"
    using that len by (subst unat_sub) (simp_all add: word_le_nat_alt)
  show ?thesis
  proof (cases "c_writable_len chain = 0 \<and> 26 \<le> length data \<and> length data \<le> 1526")
    case True
    then show ?thesis unfolding data_def[symmetric]
      using rd sub len by (auto simp: validate_tx_def frame_bytes_def Let_def word_less_nat_alt)
  next
    case False
    then show ?thesis unfolding data_def[symmetric]
      using len by (auto simp: validate_tx_def frame_bytes_def Let_def word_less_nat_alt)
  qed
qed

text \<open>One transmit chain, on every branch.\<close>

lemma net_transmit:
  assumes "valid mem" "chain_wf GM mem chain"
  defines "data \<equiv> readable_data (byte mem) chain"
  shows "net_handle_chain GM NB NET_TX_QUEUE chain (d, mem) =
    (if c_writable_len chain = 0 \<and> frame_bytes data \<and> nd_link_up d
     then let (r, b) = nb_transmit NB (drop 12 data) (nd_backend d) in
       (Inr 0, net_bump (if is_ok r then nc_tx_ok_update else nc_tx_dropped_update) (d\<lparr>nd_backend := b\<rparr>), mem)
     else (Inr 0, net_bump nc_tx_dropped_update d, mem))"
proof (cases "c_writable_len chain = 0 \<and> frame_bytes data")
  case True
  then have v: "validate_tx GM mem chain = Inr (length data - 12)"
    using validate_tx_iff[OF assms(1,2)] by (simp add: data_def)
  have "length data < 2 ^ 64" using True by (simp add: frame_bytes_def)
  then have "read_readable GM mem chain 12 (replicate (length data - 12) 0) = (Inr (length data - 12), drop 12 data)"
    using read_readable_ok[OF assms(1,2), of "replicate (length data - 12) 0" 12] by (simp add: data_def)
  then show ?thesis using True v
    by (auto simp: net_handle_chain_def drop_tx_def Let_def split: prod.split sum.split)
next
  case False
  then obtain e where "validate_tx GM mem chain = Inl e"
    using validate_tx_iff[OF assms(1,2)] by (cases "validate_tx GM mem chain") (auto simp: data_def)
  then show ?thesis using False by (auto simp: net_handle_chain_def drop_tx_def Let_def)
qed

end

sublocale net_service \<subseteq> service_model GM valid byte net_ops "net_handler GM NB" "\<lambda>_. True"
proof unfold_locales
  fix mem d c queue r d' mem'
  assume a: "valid mem" "chain_wf GM mem c"
    and h: "handle_chain (net_handler GM NB) queue c (d, mem) = (r, d', mem')"
  have "mem' = mem \<and> (\<forall>len. r = Inr len \<longrightarrow> len = 0)"
  proof (cases "queue = NET_TX_QUEUE")
    case True
    then show ?thesis using h net_transmit[OF a, of d]
      by (auto simp: net_handler_def Let_def split: if_splits prod.splits)
  next
    case False
    then show ?thesis using h by (auto simp: net_handler_def net_handle_chain_def Let_def)
  qed
  then show "valid mem' \<and> check_range GM mem' = check_range GM mem \<and>
      device_face net_ops d' = device_face net_ops d \<and> True \<and>
      (\<forall>len. r = Inr len \<longrightarrow> unat len \<le> unat (c_writable_len c))" using a by auto
qed simp_all

interpretation vec_net: net_service vec_ops vec_valid vec_byte loopback_ops ..

interpretation vec_tap: net_service vec_ops vec_valid vec_byte "tap_ops host_tap_ops" ..

context net_service
begin

text \<open>
  The loop's state: the transport's invariant, and a buffer whose header bytes are zero and
  stay so.
\<close>

abbreviation rx_inv :: "'b net_device mmio_transport \<times> 'm \<times> u8 list \<Rightarrow> bool" where
  "rx_inv \<equiv> \<lambda>(t, mem, buf). sinv (t, mem) \<and> length buf = RX_BUFFER_LEN \<and> take 12 buf = replicate 12 0"

lemma net_fill_cases:
  assumes "valid mem" "chain_wf GM mem chain" "length buf = RX_BUFFER_LEN" "total_len \<le> RX_BUFFER_LEN"
  obtains (fits) mem' where
      "net_fill GM chain total_len buf (d, mem) = (Inr (of_nat total_len), net_bump nc_rx_ok_update d, mem')"
      "c_readable_len chain = 0" "total_len \<le> unat (c_writable_len chain)"
      "valid mem'" "check_range GM mem' = check_range GM mem"
      "byte mem' = (byte mem)(writable_addrs chain [\<mapsto>] take total_len buf)"
    | (drops) "net_fill GM chain total_len buf (d, mem) = (Inr 0, net_bump nc_rx_dropped_update d, mem)"
      "c_readable_len chain \<noteq> 0 \<or> unat (c_writable_len chain) < total_len"
proof (cases "c_readable_len chain = 0 \<and> total_len \<le> unat (c_writable_len chain)")
  case True
  have eq: "of_nat total_len \<le> c_writable_len chain \<longleftrightarrow> total_len \<le> unat (c_writable_len chain)"
    using assms(4) by (simp add: word_le_nat_alt unat_of_nat)
  obtain m where w: "write_writable GM chain 0 (take total_len buf) mem = (Inr total_len, m)"
    "valid m" "check_range GM m = check_range GM mem"
    "byte m = (byte mem)(writable_addrs chain [\<mapsto>] take total_len buf)"
    using write_writable_ok[OF assms(1,2), of "take total_len buf" 0] assms(3,4) True chain_wf_lens(2)[OF assms(2)] by auto
  have "net_fill GM chain total_len buf (d, mem) = (Inr (of_nat total_len), net_bump nc_rx_ok_update d, m)"
    using True eq w(1) assms(4) by (simp add: net_fill_def)
  then show thesis using True w(2-4) by (intro fits) auto
next
  case False
  have eq: "of_nat total_len \<le> c_writable_len chain \<longleftrightarrow> total_len \<le> unat (c_writable_len chain)"
    using assms(4) by (simp add: word_le_nat_alt unat_of_nat)
  show thesis using False eq by (intro drops) (auto simp: net_fill_def)
qed

lemma moved_from_device: "moved queue (t\<lparr>t_device := d\<rparr>) t' a u = moved queue t t' a u"
  by (auto simp: moved_def queue_at_def)

lemma round_ok_device [simp]: "round_ok queue report (t\<lparr>t_device := d\<rparr>) r t' = round_ok queue report t r t'"
  unfolding round_ok_def moved_from_device ..

lemma net_rx_chain_ok:
  assumes inv: "rx_inv (t, mem, buf)" "is_active t" "queue_at t NET_RX_QUEUE = Some ring" "frame_len \<le> MAX_FRAME_LEN"
    and pop: "pop_descriptor_chain GM mem RX_LIMITS ring = (Inr (Some chain), q1)"
    and body: "net_rx_frame GM frame_len ring report (t, mem, buf) = (r, s')"
  shows "rx_inv s' \<and> round_ok NET_RX_QUEUE report t r (fst s')"
proof -
  have st: "valid mem" "tinv mem t" using inv(1) by auto
  let ?t1 = "set_queue NET_RX_QUEUE q1 t"
  note p = pop_round(1,2)[OF st(2) inv(3) pop] pop_round(4)[OF st(2) inv(3) pop refl]
  have wf: "chain_wf GM mem chain" using p(3) by simp
  define n where "n = 12 + frame_len"
  then have n: "n \<le> RX_BUFFER_LEN" "n < 2 ^ 32" using inv(4) by simp_all
  obtain used d mem2 where f: "net_fill GM chain n buf (t_device t, mem) = (Inr used, d, mem2)"
    and m: "valid mem2" "check_range GM mem2 = check_range GM mem" "unat used \<le> unat (c_writable_len chain)"
    by (rule net_fill_cases[OF st(1) wf _ n(1), of buf "t_device t"])
       (use inv(1) st n(2) in \<open>auto simp: unat_of_nat\<close>)
  let ?t2 = "?t1\<lparr>t_device := d\<rparr>"
  have t2: "tinv mem2 ?t2" using device_update_inv[OF p(1), of d] m tinv_mem_cong[of mem2 mem] by auto
  have ready: "is_active ?t2" "moved NET_RX_QUEUE t ?t2 1 0" "queue_at ?t2 NET_RX_QUEUE = Some q1" "is_ready q1"
    using inv(2) p by simp_all
  obtain notify t3 mem3 where
    c: "complete_used GM NET_RX_QUEUE chain used (?t2, mem2) = (Inr notify, t3, mem3)" "sinv (t3, mem3)" "moved NET_RX_QUEUE t t3 1 1"
    by (rule complete_round[OF m(1) t2 TrueI ready m(3)])
  have "r = Inr (False, report\<lparr>sr_interrupt := sr_interrupt report \<or> notify,
      sr_completed := saturating_add (sr_completed report) 1\<rparr>)" "s' = (t3, mem3, buf)"
    using body pop f c(1) by (auto simp: net_rx_frame_def Let_def n_def)
  then show ?thesis using c inv(1) by (auto intro: round_okI)
qed

lemma net_rx_frame_ok:
  assumes inv: "rx_inv (t, mem, buf)" "is_active t" "queue_at t NET_RX_QUEUE = Some ring" "frame_len \<le> MAX_FRAME_LEN"
    and body: "net_rx_frame GM frame_len ring report (t, mem, buf) = (r, s')"
  shows "rx_inv s' \<and> round_ok NET_RX_QUEUE report t r (fst s')"
proof -
  have st: "valid mem" "tinv mem t" using inv(1) by auto
  obtain rp q1 where pop: "pop_descriptor_chain GM mem RX_LIMITS ring = (rp, q1)" by fastforce
  let ?t1 = "set_queue NET_RX_QUEUE q1 t"
  note p = pop_round[OF st(2) inv(3) pop]
  show ?thesis
  proof (rule pop_result_cases[of rp])
    fix c assume "rp = Inr (Some c)"
    then show ?thesis using net_rx_chain_ok[OF inv _ body] pop by simp
  next
    assume e: "rp = Inr None"
    then have "r = Inr (True, report)" "s' = (t, mem, buf)"
      using body pop p(3)[OF e] by (auto simp: net_rx_frame_def)
    then show ?thesis using inv(1,3) by (auto simp: moved_def intro!: round_okI(2))
  next
    fix h v assume e: "rp = Inl (Chain h v)"
    then have "r = Inr (False, report\<lparr>sr_rejected := saturating_add (sr_rejected report) 1\<rparr>)"
      "s' = (?t1\<lparr>t_device := net_bump nc_rx_dropped_update (t_device t)\<rparr>, mem, buf)"
      using body pop by (auto simp: net_rx_frame_def)
    then show ?thesis using device_update_inv[OF p(1)] p(5)[OF e] inv(1) by (auto intro!: round_okI(3))
  next
    fix v assume "rp = Inl v" "\<forall>h w. v \<noteq> Chain h w"
    then have "r = Inl (ServiceQueue v)" "s' = (set_needs_reset ?t1, mem, buf)"
      using body pop by (auto simp: net_rx_frame_def split: queue_violation.splits)
    then show ?thesis using stop_round[OF st(1) p(1), of "ServiceQueue v"] inv(1) by simp
  qed
qed

lemma net_rx_body_ok:
  assumes inv: "rx_inv (t, mem, buf)" "is_active t" "queue_at t NET_RX_QUEUE = Some q0"
    and body: "net_rx_body GM NB report (t, mem, buf) = (r, s')"
  shows "rx_inv s' \<and> round_ok NET_RX_QUEUE report t r (fst s')"
proof -
  have st: "valid mem" "tinv mem t" using inv(1) by auto
  obtain rn q1 where pend: "queue_pending GM mem q0 = (rn, q1)" by fastforce
  note pr = pending_round[OF st(2) inv(3) pend]
  obtain got tail d where rf: "receive_frame NB (drop 12 buf) (t_device t) = (got, tail, d)" by (metis prod_cases3)
  have tail: "length tail = length (drop 12 buf)"
    using rf receive_buffer[of "drop 12 buf" "nd_backend (t_device t)"]
    by (auto simp: receive_frame_def Let_def split: prod.splits)
  let ?buf = "take 12 buf @ tail" and ?t = "t\<lparr>t_device := d\<rparr>"
  have inv2: "rx_inv (?t, mem, ?buf)" using inv(1) tail device_update_inv[OF st(2), of d] by auto
  consider (idle) "\<not> nd_link_up (t_device t) \<or> rn = Inr 0" | (bad) v where "nd_link_up (t_device t)" "rn = Inl v"
    | (go) n where "nd_link_up (t_device t)" "rn = Inr n" "n \<noteq> 0" by (cases rn) auto
  then show ?thesis
  proof cases
    case idle
    then have "r = Inr (True, report)" "s' = (t, mem, buf)"
      using body inv(3) pend pr(2) by (auto simp: net_rx_body_def Let_def split: if_split_asm)
    then show ?thesis using inv(1,3) by (auto simp: moved_def intro!: round_okI(2))
  next
    case bad
    then have "r = Inl (ServiceQueue v)" "s' = (set_needs_reset (set_queue NET_RX_QUEUE q1 t), mem, buf)"
      using body inv(3) pend by (auto simp: net_rx_body_def)
    then show ?thesis using stop_round[OF st(1) pr(1), of "ServiceQueue v"] inv(1) by simp
  next
    case go
    have q1: "q1 = q0" using queue_pending_Inr_same[of GM mem q0 n q1] pend go(2) by simp
    then have same: "set_queue NET_RX_QUEUE q0 t = t" using pr(2)[OF go(2)] by simp
    have run: "(r, s') = (case got of
        Inl _ \<Rightarrow> (Inl (ServiceFault FaultBackend), set_needs_reset ?t, mem, ?buf)
      | Inr None \<Rightarrow> (Inr (True, report), ?t, mem, ?buf)
      | Inr (Some frame_len) \<Rightarrow>
          if \<not> rx_frame_ok frame_len then (Inr (False, report), ?t\<lparr>t_device := net_bump nc_rx_dropped_update d\<rparr>, mem, ?buf)
          else net_rx_frame GM frame_len q0 report (?t, mem, ?buf))"
      using body inv(3) pend go q1 rf by (auto simp: net_rx_body_def Let_def same split: sum.split option.split)
    have still: "moved NET_RX_QUEUE t t 0 0" using inv(3) by (auto simp: moved_def)
    consider (fault) u where "got = Inl u" | (none) "got = Inr None"
      | (drop) n where "got = Inr (Some n)" "\<not> rx_frame_ok n" | (frame) n where "got = Inr (Some n)" "rx_frame_ok n"
      by (cases got) (metis, metis option.exhaust)
    then show ?thesis
    proof cases
      case fault
      then show ?thesis using run inv2 stop_round[of mem ?t "ServiceFault FaultBackend"] by simp
    next
      case none
      then show ?thesis using run inv2 still by (auto intro!: round_okI(2))
    next
      case drop
      then show ?thesis using run inv2 still device_update_inv[OF st(2)] by (auto intro!: round_okI(2))
    next
      case frame
      then have "net_rx_frame GM n q0 report (?t, mem, ?buf) = (r, s')" "n \<le> MAX_FRAME_LEN"
        using run by (simp_all add: rx_frame_ok_def)
      then show ?thesis using net_rx_frame_ok[OF inv2, of q0 n report r s'] inv(2,3) by simp
    qed
  qed
qed

lemma net_rx_state:
  "\<lbrakk>rx_inv s; is_active (fst s); queue_at (fst s) NET_RX_QUEUE = Some q0; net_rx_body GM NB report s = (r, s')\<rbrakk> \<Longrightarrow>
     rx_inv s' \<and> round_ok NET_RX_QUEUE report (fst s) r (fst s')"
  using net_rx_body_ok[of "fst s" "fst (snd s)" "snd (snd s)" q0 report r s'] by simp

lemma net_deliver_ok:
  assumes "sinv (t, mem)" "queue_at t NET_RX_QUEUE = Some q0" "net_deliver_rx GM NB budget (t, mem) = (r, t', mem')"
  shows "sinv (t', mem') \<and> (case r of
      Inl (ServiceTransport v) \<Rightarrow> \<not> is_active t \<and> (t', mem') = (t, mem)
    | Inl _ \<Rightarrow> stopped t'
    | Inr report \<Rightarrow> unat (sr_completed report) + unat (sr_rejected report) \<le> unat budget \<and>
        moved NET_RX_QUEUE t t' (unat (sr_completed report) + unat (sr_rejected report)) (unat (sr_completed report)))"
proof (cases "is_active t")
  case False
  then show ?thesis using assms by (auto simp: net_deliver_rx_def)
next
  case True
  then obtain buf where "rounds (unat budget) (net_rx_body GM NB) (\<lambda>report st. (Inr (report\<lparr>sr_exhausted := True\<rparr>), st))
      service_report_default (t, mem, replicate RX_BUFFER_LEN 0) = (r, t', mem', buf)"
    using assms(3) by (auto simp: net_deliver_rx_def Let_def split: prod.splits)
  then have "rx_inv (t', mem', buf) \<and> (case r of
      Inl e \<Rightarrow> (\<forall>v. e \<noteq> ServiceTransport v) \<and> stopped (fst (t', mem', buf))
    | Inr report \<Rightarrow> unat (sr_completed report) + unat (sr_rejected report) \<le> unat budget \<and>
        moved NET_RX_QUEUE (fst (t, mem, replicate RX_BUFFER_LEN (0 :: u8))) (fst (t', mem', buf))
          (unat (sr_completed report) + unat (sr_rejected report)) (unat (sr_completed report)))"
    using assms(1,2) True
    by - (rule deliver_ok[where P=rx_inv and tr=fst], erule (3) net_rx_state, simp_all)
  then show ?thesis by (auto split: sum.splits service_error.splits)
qed

end

section \<open>The snapshot record\<close>

lemma net_state_codec: "net_state_from_bytes raw = Inr s \<longleftrightarrow> raw = net_state_to_bytes s"
proof
  assume h: "net_state_from_bytes raw = Inr s"
  then have len: "length raw = 20" "raw ! 0 = 1" "raw ! 19 = of_bool (ns_link_up s)"
    and s: "ns_device_id s = le_word (take 4 (drop 1 raw))" "ns_features s = le_word (take 8 (drop 5 raw))"
      "ns_mac s = (raw ! 13, raw ! 14, raw ! 15, raw ! 16, raw ! 17, raw ! 18)"
    by (auto simp: net_state_from_bytes_def u32_field_eq le_u64_eq_le_word Let_def split: if_splits)
  have "raw ! 0 # take 4 (drop 1 raw) @ take 8 (drop 5 raw) @
      [raw ! 13, raw ! 14, raw ! 15, raw ! 16, raw ! 17, raw ! 18, raw ! 19] = raw"
    using len(1) by (auto simp: list_eq_iff_nth_eq nth_append nth_Cons eval_nat_numeral less_Suc_eq split: nat.split)
  then show "raw = net_state_to_bytes s" using len by (simp add: net_state_to_bytes_def s le_bytes_le_word)
next
  assume "raw = net_state_to_bytes s"
  then show "net_state_from_bytes raw = Inr s"
    by (cases "ns_mac s" rule: mac_bytes.cases)
       (simp add: net_state_from_bytes_def net_state_to_bytes_def u32_field_eq le_u64_eq_le_word nth_append)
qed

section \<open>Properties\<close>

text \<open>
  C36: Transmitting is exact and gated. Every transmit chain completes with length zero and
  leaves guest memory alone; the backend is called exactly when the host has raised the link
  and the chain is readable only with a zero header and a frame of 14 to 1514 bytes, and then
  with exactly that frame.
\<close>

theorem net_transmit_exact:
  assumes "guest_memory GM valid byte" "frame_path NB" "valid mem" "chain_wf GM mem chain"
    and "net_handle_chain GM NB NET_TX_QUEUE chain (d, mem) = (r, d', mem')"
  shows "r = Inr 0 \<and> mem' = mem \<and> nd_link_up d' = nd_link_up d \<and>
    nd_backend d' =
      (if nd_link_up d \<and> c_writable_len chain = 0 \<and> frame_bytes (readable_data (byte mem) chain)
       then snd (nb_transmit NB (drop 12 (readable_data (byte mem) chain)) (nd_backend d))
       else nd_backend d)"
proof -
  have s: "net_service GM valid byte NB" using assms(1,2) by (rule net_service.intro)
  show ?thesis
    using net_service.net_transmit[OF s assms(3,4), of d] assms(5)
    by (auto simp: Let_def split: if_splits prod.splits)
qed

definition sample_frame_memory :: vec_guest_memory where
  "sample_frame_memory = [\<lparr>r_start = 0, r_bytes = replicate 12 0 @ replicate 14 5\<rparr>]"

definition sample_frame_chain :: descriptor_chain where
  "sample_frame_chain = \<lparr>c_head = 0, c_segments = [\<lparr>s_addr = 0, s_len = 26, s_writable = False\<rparr>],
     c_readable_len = 26, c_writable_len = 0\<rparr>"

definition empty_loopback :: loopback where
  "empty_loopback = \<lparr>lb_sent = [], lb_inbound = [], lb_echo = False, lb_fail = None\<rparr>"

lemma sample_frame_ok: "vec_valid sample_frame_memory" "chain_wf vec_ops sample_frame_memory sample_frame_chain"
  by (simp_all add: vec_valid_def sample_frame_memory_def sample_frame_chain_def chain_wf_def chain_readable_def
      chain_writable_def vec_ops_def vec_check_range_def vec_locate_def checked_add_def region_end_def)

lemma sample_frame_data:
  "readable_data (vec_byte sample_frame_memory) sample_frame_chain = replicate 12 0 @ replicate 14 5"
  by (rule nth_equalityI)
     (simp_all add: readable_data_def segs_addrs_def seg_addrs_def chain_readable_def sample_frame_chain_def
        sample_frame_memory_def)

theorem net_transmit_exact_witness:
  "\<exists>d' mem'. net_handle_chain vec_ops loopback_ops 1 sample_frame_chain
     (set_link True (net_new empty_loopback (2, 0, 0, 0, 0, 1)), sample_frame_memory) = (Inr 0, d', mem') \<and>
     lb_sent (nd_backend d') = [replicate 14 5]"
proof -
  let ?d = "set_link True (net_new empty_loopback (2, 0, 0, 0, 0, 1))"
  obtain r d' mem' where h: "net_handle_chain vec_ops loopback_ops 1 sample_frame_chain (?d, sample_frame_memory) = (r, d', mem')"
    by (metis prod_cases3)
  have "frame_bytes (replicate 12 0 @ replicate 14 5)" "c_writable_len sample_frame_chain = 0" "nd_link_up ?d"
    "snd (nb_transmit loopback_ops (replicate 14 5) (nd_backend ?d)) = empty_loopback\<lparr>lb_sent := [replicate 14 5]\<rparr>"
    by (simp_all add: frame_bytes_def sample_frame_chain_def set_link_def net_new_def loopback_ops_def
        loopback_transmit_def empty_loopback_def)
  then show ?thesis
    using net_transmit_exact[OF vec.guest_memory_axioms loop.frame_path_axioms sample_frame_ok h] h
    by (simp add: sample_frame_data)
qed

text \<open>
  Receiving is bounded, accounted for and gated. At most the budget of buffers is taken,
  every one is published once or dropped and counted, and a failure other than an inactive
  transport leaves the device stopped. While the link is down nothing is taken from the backend
  and neither the device, the queues nor guest memory change.
\<close>

lemma net_deliver_outcome:
  assumes "guest_memory GM valid byte" "frame_path NB" "valid mem" "transport_inv GM net_ops mem t"
    and "net_deliver_rx GM NB budget (t, mem) = (r, t', mem')"
  shows "valid mem' \<and> transport_inv GM net_ops mem' t' \<and>
    (case r of
       Inr report \<Rightarrow>
         unat (sr_completed report) + unat (sr_rejected report) \<le> unat budget \<and>
         moved NET_RX_QUEUE t t' (unat (sr_completed report) + unat (sr_rejected report)) (unat (sr_completed report))
     | Inl (ServiceTransport v) \<Rightarrow> \<not> is_active t \<and> t' = t \<and> mem' = mem
     | Inl _ \<Rightarrow> stopped t') \<and>
    (\<not> nd_link_up (t_device t) \<longrightarrow> t' = t \<and> mem' = mem)"
proof -
  have s: "net_service GM valid byte NB" using assms(1,2) by (rule net_service.intro)
  have "map q_max_size (t_queues t) = [256, 256]" using assms(4) by (simp add: transport_inv_def net_ops_def)
  from arg_cong[OF this, of length] have "length (t_queues t) = 2" by simp
  then obtain q0 where q0: "queue_at t 0 = Some q0" by (auto simp: queue_at_def)
  have "t' = t \<and> mem' = mem" if "\<not> nd_link_up (t_device t)"
    using assms(5) q0 that
    by (cases "unat budget") (auto simp: net_deliver_rx_def net_rx_body_def Let_def split: if_splits)
  moreover have inv: "case (t, mem) of (t, mem) \<Rightarrow> valid mem \<and> transport_inv GM net_ops mem t \<and> True"
    using assms by simp
  ultimately show ?thesis
    using net_service.net_deliver_ok[OF s inv q0 assms(5)] by (auto split: sum.splits service_error.splits)
qed

definition running_net :: "loopback net_device mmio_transport" where
  "running_net =
     \<lparr>t_device = set_link True (net_new (push_inbound (replicate 20 3) empty_loopback) (2, 0, 0, 0, 0, 1)),
      t_queues = map (\<lambda>mx. sample_queue\<lparr>q_max_size := mx\<rparr>) [256, 256], t_status = 15,
      t_device_features_sel = 0, t_driver_features_sel = 1, t_driver_features = VIRTIO_F_VERSION_1,
      t_queue_sel = 0, t_interrupt_status = 0, t_config_generation = 0, t_violations = replicate 17 0\<rparr>"

lemma running_net_inv: "transport_inv vec_ops net_ops sample_memory running_net"
  using sample_queue_256 status_15
  by (simp add: transport_inv_def running_net_def features_accepted_def net_ops_def)

text \<open>
  A received frame reaches the guest verbatim behind a zero header: a writable-only chain
  with room gets exactly header and frame, in its buffers in order, and the reported length is
  theirs; any other chain is returned empty, counted as dropped, with memory unchanged.
\<close>

lemma net_fill_exact:
  assumes "guest_memory GM valid byte" "valid mem" "chain_wf GM mem chain"
    and "length frame \<le> MAX_FRAME_LEN" "length frame + length spare = MAX_FRAME_LEN + 1"
  shows "\<exists>mem'. valid mem' \<and>
    net_fill GM chain (12 + length frame) (replicate 12 0 @ frame @ spare) (d, mem) =
      (if c_readable_len chain = 0 \<and> 12 + length frame \<le> unat (c_writable_len chain)
       then (Inr (of_nat (12 + length frame)), net_bump nc_rx_ok_update d, mem')
       else (Inr 0, net_bump nc_rx_dropped_update d, mem)) \<and>
    (if c_readable_len chain = 0 \<and> 12 + length frame \<le> unat (c_writable_len chain)
     then byte mem' = (byte mem)(writable_addrs chain [\<mapsto>] replicate 12 0 @ frame) else mem' = mem)"
proof -
  have s: "net_service GM valid byte loopback_ops" using assms(1) loop.frame_path_axioms by (rule net_service.intro)
  show ?thesis
    by (rule net_service.net_fill_cases[OF s assms(2,3), of "replicate 12 0 @ frame @ spare" "12 + length frame" d])
       (use assms(2,4,5) in auto)
qed

text \<open>
  A network snapshot record is accepted exactly when it is the 20-byte record of some
  address with the link down; accepting it installs that address and lowers the link, and a
  refused record, such as one captured with the link up, changes nothing.
\<close>

lemma net_restore_exact:
  "(restore_state net_ops raw d = (Inr (), d') \<longleftrightarrow>
     (\<exists>m. raw = [1, 1, 0, 0, 0, 32, 0, 0, 0, 1, 0, 0, 0] @ mac_bytes m @ [0] \<and>
        d' = d\<lparr>nd_mac := m, nd_link_up := False\<rparr>)) \<and>
   (restore_state net_ops raw d = (Inl e, d'') \<longrightarrow> d'' = d)"
proof -
  define s where "s m = \<lparr>ns_device_id = 1, ns_features = NET_FEATURES, ns_mac = m, ns_link_up = False\<rparr>" for m
  have bytes: "net_state_to_bytes (s m) = [1, 1, 0, 0, 0, 32, 0, 0, 0, 1, 0, 0, 0] @ mac_bytes m @ [0]" for m
    by (simp add: net_state_to_bytes_def s_def codec_simps)
  have app: "net_state_apply x d = (Inr (), d') \<longleftrightarrow>
      (\<exists>m. x = s m \<and> d' = d\<lparr>nd_mac := m, nd_link_up := False\<rparr>)" for x
    by (cases x) (auto simp: net_state_apply_def s_def set_mac_def set_link_def)
  have "restore_state net_ops raw d = (Inr (), d') \<longleftrightarrow>
      (\<exists>x. raw = net_state_to_bytes x \<and> net_state_apply x d = (Inr (), d'))"
    unfolding net_state_codec[symmetric] by (auto simp: net_ops_def split: sum.split)
  moreover have "d'' = d" if "restore_state net_ops raw d = (Inl e, d'')"
    using that by (auto simp: net_ops_def net_state_apply_def split: sum.splits if_splits)
  ultimately show ?thesis unfolding app using bytes by metis
qed

end
