(* ===== verification/Bus.thy ===== *)
theory Bus
  imports BusTable BlockDevice VsockDevice NetDevice
begin

text \<open>
  The MMIO bus (\<open>soma-kvm/src/virtio/bus.rs\<close>, \<open>bus/access.rs\<close> and \<open>bus/slots.rs\<close>): the present
  transports at their fixed pages, dispatch of guest accesses, servicing and delivery per slot,
  and the snapshot records of the whole bus. The stores, the frame path and the entropy source
  of the devices are the record \<open>bus_env\<close>.
\<close>

section \<open>Data\<close>

record ('m, 'r, 'o, 'n, 'e) bus_env =
  env_memory :: "'m guest_memory_ops"
  env_root :: "'r block_backend"
  env_overlay :: "'o block_backend"
  env_net :: "'n net_backend"
  env_entropy :: "'e entropy_fill"

record ('r, 'o, 'n, 'e) bus_devices =
  dv_root :: "'r block_device"
  dv_overlay :: "'o block_device option"
  dv_net :: "'n net_device option"
  dv_vsock :: vsock_device
  dv_rng :: "'e rng_device"

record ('r, 'o, 'n, 'e) mmio_bus =
  bus_root :: "'r block_device mmio_transport"
  bus_overlay :: "'o block_device mmio_transport option"
  bus_net :: "'n net_device mmio_transport option"
  bus_vsock :: "vsock_device mmio_transport"
  bus_rng :: "'e rng_device mmio_transport"

datatype bus_config_error =
    BusBlockRole slot block_role
  | BusTransportConfig slot transport_config_error

datatype bus_violation =
    UnmappedAddress u64
  | BusTransport slot transport_violation

record bus_event =
  be_slot :: slot
  be_event :: transport_event

definition bus_event_notify :: "bus_event \<Rightarrow> (slot \<times> u16) option" where
  "bus_event_notify e = (case be_event e of QueueNotify queue \<Rightarrow> Some (be_slot e, queue) | _ \<Rightarrow> None)"

definition devices_set :: "('r, 'o, 'n, 'e) bus_devices \<Rightarrow> device_set" where
  "devices_set d = device_set_new (dv_overlay d \<noteq> None) (dv_net d \<noteq> None)"

definition bus_device_set :: "('r, 'o, 'n, 'e) mmio_bus \<Rightarrow> device_set" where
  "bus_device_set b = device_set_new (bus_overlay b \<noteq> None) (bus_net b \<noteq> None)"

section \<open>Construction\<close>

definition check_role :: "slot \<Rightarrow> 's block_device \<Rightarrow> block_role \<Rightarrow> bus_config_error + unit" where
  "check_role slot d expected = (if bd_role d = expected then Inr () else Inl (BusBlockRole slot (bd_role d)))"

definition bus_transport :: "'d virtio_device \<Rightarrow> slot \<Rightarrow> 'd \<Rightarrow> bus_config_error + 'd mmio_transport" where
  "bus_transport VD slot d = map_err (BusTransportConfig slot) (transport_new VD d)"

text \<open>\<open>Option<Result>::transpose\<close> after \<open>map\<close>.\<close>

definition transpose_map :: "('a \<Rightarrow> 'x + 'b) \<Rightarrow> 'a option \<Rightarrow> 'x + 'b option" where
  "transpose_map f v = (case v of None \<Rightarrow> Inr None | Some a \<Rightarrow> and_then (f a) (\<lambda>b. Inr (Some b)))"

definition bus_new :: "('r, 'o, 'n, 'e) bus_devices \<Rightarrow> bus_config_error + ('r, 'o, 'n, 'e) mmio_bus" where
  "bus_new devices =
     and_then (check_role SlotRoot (dv_root devices) ImmutableRoot) (\<lambda>_.
     and_then (case dv_overlay devices of
         None \<Rightarrow> Inr () | Some overlay \<Rightarrow> check_role SlotOverlay overlay PrivateOverlay) (\<lambda>_.
     and_then (bus_transport block_ops SlotRoot (dv_root devices)) (\<lambda>root.
     and_then (transpose_map (bus_transport block_ops SlotOverlay) (dv_overlay devices)) (\<lambda>overlay.
     and_then (transpose_map (bus_transport net_ops SlotNet) (dv_net devices)) (\<lambda>net.
     and_then (bus_transport vsock_ops SlotVsock (dv_vsock devices)) (\<lambda>vsock.
     and_then (bus_transport rng_ops SlotRng (dv_rng devices)) (\<lambda>rng.
     Inr \<lparr>bus_root = root, bus_overlay = overlay, bus_net = net, bus_vsock = vsock, bus_rng = rng\<rparr>)))))))"

section \<open>Access to one slot\<close>

text \<open>Running a body on the transport of a slot; an absent optional slot gives \<open>absent\<close>.\<close>

definition on_root ::
    "('r block_device mmio_transport \<times> 'm \<Rightarrow> 'a \<times> 'r block_device mmio_transport \<times> 'm)
     \<Rightarrow> ('r, 'o, 'n, 'e) mmio_bus \<times> 'm \<Rightarrow> 'a \<times> ('r, 'o, 'n, 'e) mmio_bus \<times> 'm" where
  "on_root f = (\<lambda>(b, mem). let (a, t, mem) = f (bus_root b, mem) in (a, b\<lparr>bus_root := t\<rparr>, mem))"

definition on_overlay ::
    "'a \<Rightarrow> ('o block_device mmio_transport \<times> 'm \<Rightarrow> 'a \<times> 'o block_device mmio_transport \<times> 'm)
     \<Rightarrow> ('r, 'o, 'n, 'e) mmio_bus \<times> 'm \<Rightarrow> 'a \<times> ('r, 'o, 'n, 'e) mmio_bus \<times> 'm" where
  "on_overlay absent f = (\<lambda>(b, mem).
     case bus_overlay b of
       None \<Rightarrow> (absent, b, mem)
     | Some t \<Rightarrow> let (a, t, mem) = f (t, mem) in (a, b\<lparr>bus_overlay := Some t\<rparr>, mem))"

definition on_net ::
    "'a \<Rightarrow> ('n net_device mmio_transport \<times> 'm \<Rightarrow> 'a \<times> 'n net_device mmio_transport \<times> 'm)
     \<Rightarrow> ('r, 'o, 'n, 'e) mmio_bus \<times> 'm \<Rightarrow> 'a \<times> ('r, 'o, 'n, 'e) mmio_bus \<times> 'm" where
  "on_net absent f = (\<lambda>(b, mem).
     case bus_net b of
       None \<Rightarrow> (absent, b, mem)
     | Some t \<Rightarrow> let (a, t, mem) = f (t, mem) in (a, b\<lparr>bus_net := Some t\<rparr>, mem))"

definition on_vsock ::
    "(vsock_device mmio_transport \<times> 'm \<Rightarrow> 'a \<times> vsock_device mmio_transport \<times> 'm)
     \<Rightarrow> ('r, 'o, 'n, 'e) mmio_bus \<times> 'm \<Rightarrow> 'a \<times> ('r, 'o, 'n, 'e) mmio_bus \<times> 'm" where
  "on_vsock f = (\<lambda>(b, mem). let (a, t, mem) = f (bus_vsock b, mem) in (a, b\<lparr>bus_vsock := t\<rparr>, mem))"

definition on_rng ::
    "('e rng_device mmio_transport \<times> 'm \<Rightarrow> 'a \<times> 'e rng_device mmio_transport \<times> 'm)
     \<Rightarrow> ('r, 'o, 'n, 'e) mmio_bus \<times> 'm \<Rightarrow> 'a \<times> ('r, 'o, 'n, 'e) mmio_bus \<times> 'm" where
  "on_rng f = (\<lambda>(b, mem). let (a, t, mem) = f (bus_rng b, mem) in (a, b\<lparr>bus_rng := t\<rparr>, mem))"

definition some_result :: "('s \<Rightarrow> 'a \<times> 's) \<Rightarrow> 's \<Rightarrow> 'a option \<times> 's" where
  "some_result f s = (let (a, s) = f s in (Some a, s))"

definition with_slot ::
    "slot \<Rightarrow> ('r block_device mmio_transport \<times> 'm \<Rightarrow> 'a \<times> 'r block_device mmio_transport \<times> 'm)
     \<Rightarrow> ('o block_device mmio_transport \<times> 'm \<Rightarrow> 'a \<times> 'o block_device mmio_transport \<times> 'm)
     \<Rightarrow> ('n net_device mmio_transport \<times> 'm \<Rightarrow> 'a \<times> 'n net_device mmio_transport \<times> 'm)
     \<Rightarrow> (vsock_device mmio_transport \<times> 'm \<Rightarrow> 'a \<times> vsock_device mmio_transport \<times> 'm)
     \<Rightarrow> ('e rng_device mmio_transport \<times> 'm \<Rightarrow> 'a \<times> 'e rng_device mmio_transport \<times> 'm)
     \<Rightarrow> ('r, 'o, 'n, 'e) mmio_bus \<times> 'm \<Rightarrow> 'a option \<times> ('r, 'o, 'n, 'e) mmio_bus \<times> 'm" where
  "with_slot slot root overlay net vsock rng =
     (case slot of
        SlotRoot \<Rightarrow> on_root (some_result root)
      | SlotOverlay \<Rightarrow> on_overlay None (some_result overlay)
      | SlotNet \<Rightarrow> on_net None (some_result net)
      | SlotVsock \<Rightarrow> on_vsock (some_result vsock)
      | SlotRng \<Rightarrow> on_rng (some_result rng))"

definition read_in :: "'d virtio_device \<Rightarrow> u64 \<Rightarrow> access_width \<Rightarrow> 'd mmio_transport \<times> 'm
    \<Rightarrow> (transport_violation, u64, 'd mmio_transport \<times> 'm) mut_result" where
  "read_in VD offset width = (\<lambda>(t, mem). let (r, t) = transport_read VD offset width t in (r, t, mem))"

definition write_in :: "'m guest_memory_ops \<Rightarrow> 'd virtio_device \<Rightarrow> u64 \<Rightarrow> access_width \<Rightarrow> u64 \<Rightarrow> 'd mmio_transport \<times> 'm
    \<Rightarrow> (transport_violation, transport_event, 'd mmio_transport \<times> 'm) mut_result" where
  "write_in GM VD offset width v = (\<lambda>(t, mem).
     let (r, t) = transport_write GM VD offset width v mem t in (r, t, mem))"

text \<open>What a bus access makes of the answer of a slot.\<close>

definition slot_answer :: "u64 \<Rightarrow> slot \<Rightarrow> (transport_violation + 'a) option \<Rightarrow> bus_violation + 'a" where
  "slot_answer gpa slot a =
     and_then (ok_or (UnmappedAddress gpa) a) (\<lambda>r. map_err (BusTransport slot) r)"

definition dispatch_read ::
    "u64 \<Rightarrow> access_width \<Rightarrow> ('r, 'o, 'n, 'e) mmio_bus \<times> 'm
     \<Rightarrow> (bus_violation, u64, ('r, 'o, 'n, 'e) mmio_bus \<times> 'm) mut_result" where
  "dispatch_read gpa width st =
     (case from_gpa gpa of
        None \<Rightarrow> (Inl (UnmappedAddress gpa), st)
      | Some (slot, offset) \<Rightarrow>
          let (a, st) = with_slot slot (read_in block_ops offset width) (read_in block_ops offset width)
                (read_in net_ops offset width) (read_in vsock_ops offset width) (read_in rng_ops offset width) st in
          (slot_answer gpa slot a, st))"

definition dispatch_write ::
    "'m guest_memory_ops \<Rightarrow> u64 \<Rightarrow> access_width \<Rightarrow> u64 \<Rightarrow> ('r, 'o, 'n, 'e) mmio_bus \<times> 'm
     \<Rightarrow> (bus_violation, bus_event, ('r, 'o, 'n, 'e) mmio_bus \<times> 'm) mut_result" where
  "dispatch_write GM gpa width v st =
     (case from_gpa gpa of
        None \<Rightarrow> (Inl (UnmappedAddress gpa), st)
      | Some (slot, offset) \<Rightarrow>
          let (a, st) = with_slot slot (write_in GM block_ops offset width v) (write_in GM block_ops offset width v)
                (write_in GM net_ops offset width v) (write_in GM vsock_ops offset width v)
                (write_in GM rng_ops offset width v) st in
          (and_then (slot_answer gpa slot a) (\<lambda>event. Inr \<lparr>be_slot = slot, be_event = event\<rparr>), st))"

definition bus_interrupt_status :: "('r, 'o, 'n, 'e) mmio_bus \<Rightarrow> slot \<Rightarrow> u32" where
  "bus_interrupt_status b slot =
     (case slot of
        SlotRoot \<Rightarrow> t_interrupt_status (bus_root b)
      | SlotOverlay \<Rightarrow> (case bus_overlay b of None \<Rightarrow> 0 | Some t \<Rightarrow> t_interrupt_status t)
      | SlotNet \<Rightarrow> (case bus_net b of None \<Rightarrow> 0 | Some t \<Rightarrow> t_interrupt_status t)
      | SlotVsock \<Rightarrow> t_interrupt_status (bus_vsock b)
      | SlotRng \<Rightarrow> t_interrupt_status (bus_rng b))"

definition interrupt_pending :: "('r, 'o, 'n, 'e) mmio_bus \<Rightarrow> slot \<Rightarrow> bool" where
  "interrupt_pending b slot \<longleftrightarrow> bus_interrupt_status b slot \<noteq> 0"

text \<open>The sink and the source are the machine's: parameters here.\<close>

definition bus_signal :: "slot \<Rightarrow> (u32 \<Rightarrow> 's \<Rightarrow> ('x, unit, 's) mut_result) \<Rightarrow> 's \<Rightarrow> ('x, unit, 's) mut_result" where
  "bus_signal slot sink s = sink (gsi slot) s"

definition queue_indices :: "slot \<Rightarrow> u16 list" where
  "queue_indices slot = map of_nat [0..<unat (queue_count slot)]"

fun register_all ::
    "(u64 \<Rightarrow> slot \<Rightarrow> u16 \<Rightarrow> 's \<Rightarrow> ('x, unit, 's) mut_result) \<Rightarrow> (slot \<times> u16) list \<Rightarrow> 's \<Rightarrow> ('x, unit, 's) mut_result" where
  "register_all register [] s = (Inr (), s)"
| "register_all register ((slot, queue) # rest) s =
     try_then (register (notify_addr slot) slot queue s) (\<lambda>_. register_all register rest)"

definition register_notify_sources ::
    "('r, 'o, 'n, 'e) mmio_bus \<Rightarrow> (u64 \<Rightarrow> slot \<Rightarrow> u16 \<Rightarrow> 's \<Rightarrow> ('x, unit, 's) mut_result) \<Rightarrow> 's \<Rightarrow> ('x, unit, 's) mut_result" where
  "register_notify_sources b register s =
     register_all register
       (concat (map (\<lambda>slot. map (Pair slot) (queue_indices slot)) (present (bus_device_set b)))) s"

section \<open>Work\<close>

text \<open>A pass of the vsock transmit queue, which also flushes the replies it produced.\<close>

definition merge_reports :: "service_report \<Rightarrow> service_report \<Rightarrow> service_report" where
  "merge_reports report other =
     report\<lparr>sr_interrupt := sr_interrupt report \<or> sr_interrupt other,
            sr_completed := saturating_add (sr_completed report) (sr_completed other)\<rparr>"

definition vsock_transmit_pass ::
    "'m guest_memory_ops \<Rightarrow> u16 \<Rightarrow> u32 \<Rightarrow> vsock_device mmio_transport \<times> 'm
     \<Rightarrow> (service_error, service_report, vsock_device mmio_transport \<times> 'm) mut_result" where
  "vsock_transmit_pass GM queue budget st =
     try_then (service_queue GM (vsock_handler GM) queue budget st) (\<lambda>report st.
     try_then (vsock_deliver_rx GM budget st) (\<lambda>replies st. (Inr (merge_reports report replies), st)))"

definition vsock_inbound_pass ::
    "'m guest_memory_ops \<Rightarrow> u32 \<Rightarrow> vsock_device mmio_transport \<times> 'm
     \<Rightarrow> (service_error, service_report, vsock_device mmio_transport \<times> 'm) mut_result" where
  "vsock_inbound_pass GM budget st =
     try_then (vsock_deliver_rx GM budget st) (\<lambda>report st.
     try_then (vsock_deliver_events GM st) (\<lambda>events st. (Inr (merge_reports report events), st)))"

definition bus_service ::
    "('m, 'r, 'o, 'n, 'e) bus_env \<Rightarrow> slot \<Rightarrow> u16 \<Rightarrow> u32 \<Rightarrow> ('r, 'o, 'n, 'e) mmio_bus \<times> 'm
     \<Rightarrow> (service_error, service_report, ('r, 'o, 'n, 'e) mmio_bus \<times> 'm) mut_result" where
  "bus_service E slot queue budget st =
     (let GM = env_memory E in
      if queue_count slot \<le> queue then (Inl (ServiceTransport (NotifyOutOfRange (ucast queue))), st)
      else case slot of
        SlotRoot \<Rightarrow> on_root (service_queue GM (block_handler GM (env_root E)) queue budget) st
      | SlotOverlay \<Rightarrow>
          on_overlay (Inr service_report_default) (service_queue GM (block_handler GM (env_overlay E)) queue budget) st
      | SlotNet \<Rightarrow>
          if queue = NET_RX_QUEUE
          then on_net (Inr service_report_default) (net_deliver_rx GM (env_net E) budget) st
          else on_net (Inr service_report_default) (service_queue GM (net_handler GM (env_net E)) queue budget) st
      | SlotVsock \<Rightarrow>
          if queue = VSOCK_RX_QUEUE then on_vsock (vsock_deliver_rx GM budget) st
          else if queue = VSOCK_EVENT_QUEUE then on_vsock (vsock_deliver_events GM) st
          else on_vsock (vsock_transmit_pass GM queue budget) st
      | SlotRng \<Rightarrow> on_rng (service_queue GM (rng_handler GM (env_entropy E)) queue budget) st)"

definition deliver_inbound ::
    "('m, 'r, 'o, 'n, 'e) bus_env \<Rightarrow> slot \<Rightarrow> u32 \<Rightarrow> ('r, 'o, 'n, 'e) mmio_bus \<times> 'm
     \<Rightarrow> (service_error, service_report, ('r, 'o, 'n, 'e) mmio_bus \<times> 'm) mut_result" where
  "deliver_inbound E slot budget st =
     (let GM = env_memory E in
      case slot of
        SlotNet \<Rightarrow> on_net (Inr service_report_default) (net_deliver_rx GM (env_net E) budget) st
      | SlotVsock \<Rightarrow> on_vsock (vsock_inbound_pass GM budget) st
      | _ \<Rightarrow> (Inr service_report_default, st))"

definition pending_in ::
    "'m guest_memory_ops \<Rightarrow> u16 \<Rightarrow> 'd mmio_transport \<times> 'm
     \<Rightarrow> (queue_violation + u16) option option \<times> 'd mmio_transport \<times> 'm" where
  "pending_in GM index = (\<lambda>(t, mem).
     case queue_at t index of
       None \<Rightarrow> (None, t, mem)
     | Some queue \<Rightarrow>
         if is_ready queue
         then let (r, queue) = queue_pending GM mem queue in (Some (Some r), set_queue index queue t, mem)
         else (Some None, t, mem))"

text \<open>The nested loops of \<open>pending_work\<close>, over the pairs of slot and queue they visit.\<close>

fun pending_loop ::
    "'m guest_memory_ops \<Rightarrow> (slot \<times> u16) list \<Rightarrow> u32 list list \<Rightarrow> ('r, 'o, 'n, 'e) mmio_bus \<times> 'm
     \<Rightarrow> (slot \<times> u16 \<times> queue_violation, u32 list list, ('r, 'o, 'n, 'e) mmio_bus \<times> 'm) mut_result" where
  "pending_loop GM [] pending st = (Inr pending, st)"
| "pending_loop GM ((slot, index) # rest) pending st =
     (let (queue, st) = with_slot slot (pending_in GM index) (pending_in GM index) (pending_in GM index)
            (pending_in GM index) (pending_in GM index) st in
      case queue of
        Some (Some (Some (Inl violation))) \<Rightarrow> (Inl (slot, index, violation), st)
      | Some (Some (Some (Inr count))) \<Rightarrow>
          let s = unat (slot_index slot) in
          pending_loop GM rest (pending[s := (pending ! s)[unat index := ucast count]]) st
      | _ \<Rightarrow> pending_loop GM rest pending st)"

definition pending_work ::
    "'m guest_memory_ops \<Rightarrow> ('r, 'o, 'n, 'e) mmio_bus \<times> 'm
     \<Rightarrow> (slot \<times> u16 \<times> queue_violation, u32 list list, ('r, 'o, 'n, 'e) mmio_bus \<times> 'm) mut_result" where
  "pending_work GM st =
     pending_loop GM (concat (map (\<lambda>slot. map (Pair slot) (queue_indices slot)) ALL_SLOTS))
       (replicate SLOT_COUNT (replicate MAX_QUEUES 0)) st"

section \<open>Snapshots\<close>

record slot_snapshot =
  ss_slot :: slot
  ss_transport :: transport_state
  ss_device :: "u8 list"

datatype slot_restore_error =
    SlotMismatch slot slot
  | SlotSetMismatch nat nat
  | SlotDevice slot device_state_error
  | SlotTransport slot restore_error

definition snapshot_of :: "'d virtio_device \<Rightarrow> slot \<Rightarrow> 'd mmio_transport \<Rightarrow> slot_snapshot" where
  "snapshot_of VD slot t =
     \<lparr>ss_slot = slot, ss_transport = transport_state_of t, ss_device = snapshot_state VD (t_device t)\<rparr>"

definition bus_snapshot :: "slot \<Rightarrow> ('r, 'o, 'n, 'e) mmio_bus \<Rightarrow> slot_snapshot option" where
  "bus_snapshot slot b =
     (case slot of
        SlotRoot \<Rightarrow> Some (snapshot_of block_ops slot (bus_root b))
      | SlotOverlay \<Rightarrow> map_option (snapshot_of block_ops slot) (bus_overlay b)
      | SlotNet \<Rightarrow> map_option (snapshot_of net_ops slot) (bus_net b)
      | SlotVsock \<Rightarrow> Some (snapshot_of vsock_ops slot (bus_vsock b))
      | SlotRng \<Rightarrow> Some (snapshot_of rng_ops slot (bus_rng b)))"

definition snapshot_all :: "('r, 'o, 'n, 'e) mmio_bus \<Rightarrow> slot_snapshot list" where
  "snapshot_all b = List.map_filter (\<lambda>slot. bus_snapshot slot b) (present (bus_device_set b))"

text \<open>The loop that compares the records with the present slots.\<close>

fun check_records :: "slot list \<Rightarrow> slot_snapshot list \<Rightarrow> slot_restore_error + unit" where
  "check_records (expected # slots) (record # records) =
     (if ss_slot record \<noteq> expected then Inl (SlotMismatch expected (ss_slot record)) else check_records slots records)"
| "check_records slots records = Inr ()"

definition apply_device ::
    "'d virtio_device \<Rightarrow> slot \<Rightarrow> 'd \<Rightarrow> slot_snapshot \<Rightarrow> slot_restore_error + 'd" where
  "apply_device VD slot d snapshot =
     (let (r, d) = restore_state VD (ss_device snapshot) d in
      and_then (map_err (SlotDevice slot) r) (\<lambda>_. Inr d))"

definition apply_optional ::
    "'d virtio_device \<Rightarrow> slot \<Rightarrow> 'd option \<Rightarrow> slot_snapshot option \<Rightarrow> slot_restore_error + 'd option" where
  "apply_optional VD slot d snapshot =
     (case (d, snapshot) of
        (Some d, Some snapshot) \<Rightarrow> and_then (apply_device VD slot d snapshot) (\<lambda>d. Inr (Some d))
      | _ \<Rightarrow> Inr d)"

definition restore_transport ::
    "'m guest_memory_ops \<Rightarrow> 'd virtio_device \<Rightarrow> slot \<Rightarrow> 'd \<Rightarrow> slot_snapshot \<Rightarrow> 'm
     \<Rightarrow> slot_restore_error + 'd mmio_transport" where
  "restore_transport GM VD slot d snapshot mem =
     map_err (SlotTransport slot) (transport_restore GM VD d (ss_transport snapshot) mem)"

definition restore_optional ::
    "'m guest_memory_ops \<Rightarrow> 'd virtio_device \<Rightarrow> slot \<Rightarrow> 'd option \<Rightarrow> slot_snapshot option \<Rightarrow> 'm
     \<Rightarrow> slot_restore_error + 'd mmio_transport option" where
  "restore_optional GM VD slot d snapshot mem =
     (case (d, snapshot) of
        (Some d, Some snapshot) \<Rightarrow> and_then (restore_transport GM VD slot d snapshot mem) (\<lambda>t. Inr (Some t))
      | _ \<Rightarrow> Inr None)"

definition bus_restore ::
    "'m guest_memory_ops \<Rightarrow> ('r, 'o, 'n, 'e) bus_devices \<Rightarrow> slot_snapshot list \<Rightarrow> 'm
     \<Rightarrow> slot_restore_error + ('r, 'o, 'n, 'e) mmio_bus" where
  "bus_restore GM devices snapshots mem =
     (let slots = present (devices_set devices);
          find_record = (\<lambda>slot. List.find (\<lambda>record. ss_slot record = slot) snapshots) in
      if length snapshots \<noteq> length slots then Inl (SlotSetMismatch (length slots) (length snapshots))
      else and_then (check_records slots snapshots) (\<lambda>_.
        case (find_record SlotRoot, find_record SlotVsock, find_record SlotRng) of
          (Some root_record, Some vsock_record, Some rng_record) \<Rightarrow>
            and_then (apply_device block_ops SlotRoot (dv_root devices) root_record) (\<lambda>root.
            and_then (apply_optional block_ops SlotOverlay (dv_overlay devices) (find_record SlotOverlay)) (\<lambda>overlay.
            and_then (apply_optional net_ops SlotNet (dv_net devices) (find_record SlotNet)) (\<lambda>net.
            and_then (apply_device vsock_ops SlotVsock (dv_vsock devices) vsock_record) (\<lambda>vsock.
            and_then (apply_device rng_ops SlotRng (dv_rng devices) rng_record) (\<lambda>rng.
            and_then (restore_transport GM block_ops SlotRoot root root_record mem) (\<lambda>root.
            and_then (restore_optional GM block_ops SlotOverlay overlay (find_record SlotOverlay) mem) (\<lambda>overlay.
            and_then (restore_optional GM net_ops SlotNet net (find_record SlotNet) mem) (\<lambda>net.
            and_then (restore_transport GM vsock_ops SlotVsock vsock vsock_record mem) (\<lambda>vsock.
            and_then (restore_transport GM rng_ops SlotRng rng rng_record mem) (\<lambda>rng.
            Inr \<lparr>bus_root = root, bus_overlay = overlay, bus_net = net, bus_vsock = vsock, bus_rng = rng\<rparr>))))))))))
        | _ \<Rightarrow> Inl (SlotSetMismatch (length slots) (length snapshots))))"

end
