(* ===== verification/BusReach.thy ===== *)
theory BusReach
  imports Bus
begin

text \<open>
  The bus as a whole: every state that guest accesses, guest stores, servicing, delivery and the
  host can reach keeps the invariants of all transports and devices, a step on one slot leaves
  the others alone, and a restored bus is the captured one.
\<close>

section \<open>What a step on one transport keeps\<close>

definition keeps ::
    "'m guest_memory_ops \<Rightarrow> ('m \<Rightarrow> bool) \<Rightarrow> 'd virtio_device \<Rightarrow> ('d \<Rightarrow> bool)
     \<Rightarrow> ('d mmio_transport \<times> 'm \<Rightarrow> 'a \<times> 'd mmio_transport \<times> 'm) \<Rightarrow> bool" where
  "keeps GM valid VD dinv f \<longleftrightarrow>
     (\<forall>t mem a t' mem'. valid mem \<longrightarrow> transport_inv GM VD mem t \<longrightarrow> dinv (t_device t) \<longrightarrow> f (t, mem) = (a, t', mem') \<longrightarrow>
        valid mem' \<and> check_range GM mem' = check_range GM mem \<and> transport_inv GM VD mem' t' \<and> dinv (t_device t'))"

lemma keepsI:
  assumes "\<And>t mem a t' mem'. \<lbrakk>valid mem; transport_inv GM VD mem t; dinv (t_device t); f (t, mem) = (a, t', mem')\<rbrakk> \<Longrightarrow>
    valid mem' \<and> check_range GM mem' = check_range GM mem \<and> transport_inv GM VD mem' t' \<and> dinv (t_device t')"
  shows "keeps GM valid VD dinv f"
  using assms unfolding keeps_def by blast

lemma keepsD:
  assumes "keeps GM valid VD dinv f" "valid mem" "transport_inv GM VD mem t" "dinv (t_device t)" "f (t, mem) = (a, t', mem')"
  shows "valid mem'" "check_range GM mem' = check_range GM mem" "transport_inv GM VD mem' t'" "dinv (t_device t')"
  using assms unfolding keeps_def by blast+

lemma keeps_some_result: "keeps GM valid VD dinv f \<Longrightarrow> keeps GM valid VD dinv (some_result f)"
  by (rule keepsI) (auto simp: some_result_def Let_def split: prod.split_asm dest: keepsD)

lemma keeps_return: "keeps GM valid VD dinv (\<lambda>st. (a, st))"
  by (simp add: keeps_def)

lemma keeps_try_then:
  assumes f: "keeps GM valid VD dinv f" and g: "\<And>x. keeps GM valid VD dinv (g x)"
  shows "keeps GM valid VD dinv (\<lambda>st. try_then (f st) g)"
proof (rule keepsI)
  fix t mem a t' mem'
  assume h: "valid mem" "transport_inv GM VD mem t" "dinv (t_device t)" "try_then (f (t, mem)) g = (a, t', mem')"
  obtain r t1 m1 where r: "f (t, mem) = (r, t1, m1)" by (metis prod_cases3)
  note k = keepsD[OF f h(1-3) r]
  show "valid mem' \<and> check_range GM mem' = check_range GM mem \<and> transport_inv GM VD mem' t' \<and> dinv (t_device t')"
  proof (cases r)
    case (Inl e)
    then show ?thesis using h(4) r k by auto
  next
    case (Inr x)
    then show ?thesis using h(4) r k keepsD[OF g[of x] k(1,3,4), of a t' mem'] by auto
  qed
qed

text \<open>Memory whose regions stay where they are is guest memory as well.\<close>

context guest_memory
begin

lemma fixed_ranges: "guest_memory GM (\<lambda>m. valid m \<and> check_range GM m = R) byte"
proof unfold_locales
  fix mem a and bs :: "u8 list"
  assume "valid mem \<and> check_range GM mem = R" "length bs < 2 ^ 64" "check_range GM mem a (of_nat (length bs)) = Inr ()"
  then show "\<exists>mem'. write_bytes GM mem a bs = Inr mem' \<and> (valid mem' \<and> check_range GM mem' = R) \<and>
      check_range GM mem' = check_range GM mem \<and>
      (\<forall>x. byte mem' x = (if unat a \<le> x \<and> x < unat a + length bs then Some (bs ! (x - unat a)) else byte mem x))"
    using write_ok[of mem bs a] by auto
qed (auto simp del: not_None_eq dest: range_bound range_defined intro: range_sub read_ok read_err write_err)

end

context service_model
begin

lemma fixed_service: "service_model GM (\<lambda>m. valid m \<and> check_range GM m = R) byte VD CH dinv"
proof -
  have "service_model_axioms GM (\<lambda>m. valid m \<and> check_range GM m = R) VD CH dinv"
    by unfold_locales (use handle_keeps transport_keeps in blast)+
  then show ?thesis
    using transport_model.intro[OF fixed_ranges device_model_axioms] by (intro service_model.intro)
qed

lemma keeps_read: "keeps GM valid VD dinv (read_in VD offset width)"
proof (rule keepsI)
  fix t mem a t' mem'
  assume "valid mem" "tinv mem t" "dinv (t_device t)" "read_in VD offset width (t, mem) = (a, t', mem')"
  moreover from this have "t' = snd (transport_read VD offset width t)" "mem' = mem"
    by (auto simp: read_in_def Let_def split: prod.splits)
  ultimately show "valid mem' \<and> check_range GM mem' = check_range GM mem \<and> tinv mem' t' \<and> dinv (t_device t')"
    using transport_read_inv[of GM VD mem t offset width] by simp
qed

lemma keeps_write: "keeps GM valid VD dinv (write_in GM VD offset width v)"
proof (rule keepsI)
  fix t mem a t' mem'
  assume "valid mem" "tinv mem t" "dinv (t_device t)" "write_in GM VD offset width v (t, mem) = (a, t', mem')"
  moreover from this have "t' = snd (transport_write GM VD offset width v mem t)" "mem' = mem"
    by (auto simp: write_in_def Let_def split: prod.splits)
  ultimately show "valid mem' \<and> check_range GM mem' = check_range GM mem \<and> tinv mem' t' \<and> dinv (t_device t')"
    using transport_write_inv[of mem t offset width v] transport_keeps
      transport_write_device[of dinv t VD GM offset width v mem] by auto
qed

lemma keeps_service: "keeps GM valid VD dinv (service_queue GM CH queue budget)"
proof (rule keepsI)
  fix t mem a t' mem'
  assume h: "valid mem" "tinv mem t" "dinv (t_device t)" "service_queue GM CH queue budget (t, mem) = (a, t', mem')"
  then have "case (t, mem) of (t, m) \<Rightarrow> (valid m \<and> check_range GM m = check_range GM mem) \<and> tinv m t \<and> dinv (t_device t)"
    by simp
  from service_model.service_queue_cases(1)[OF fixed_service this h(4)]
  show "valid mem' \<and> check_range GM mem' = check_range GM mem \<and> tinv mem' t' \<and> dinv (t_device t')"
    by simp
qed

lemma keeps_pending: "keeps GM valid VD dinv (pending_in GM index)"
proof (rule keepsI)
  fix t mem a t' mem'
  assume h: "valid mem" "tinv mem t" "dinv (t_device t)" "pending_in GM index (t, mem) = (a, t', mem')"
  show "valid mem' \<and> check_range GM mem' = check_range GM mem \<and> tinv mem' t' \<and> dinv (t_device t')"
    using h pending_round(1)[OF h(2)]
    by (auto simp: pending_in_def Let_def split: option.split_asm if_split_asm prod.split_asm)
qed

end

context net_service
begin

lemma keeps_net_deliver: "keeps GM valid net_ops (\<lambda>_. True) (net_deliver_rx GM NB budget)"
proof (rule keepsI)
  fix t mem a t' mem'
  assume h: "valid mem" "tinv mem t" "True" "net_deliver_rx GM NB budget (t, mem) = (a, t', mem')"
  have s: "net_service GM (\<lambda>m. valid m \<and> check_range GM m = check_range GM mem) byte NB"
    using fixed_ranges frame_path_axioms by (rule net_service.intro)
  have "map q_max_size (t_queues t) = [256, 256]" using h(2) by (simp add: transport_inv_def net_ops_def)
  from arg_cong[OF this, of length] have "length (t_queues t) = 2" by simp
  then obtain q0 where q0: "queue_at t 0 = Some q0" by (auto simp: queue_at_def)
  show "valid mem' \<and> check_range GM mem' = check_range GM mem \<and> tinv mem' t' \<and> True"
    using net_service.net_deliver_ok[OF s _ q0 h(4)] h by simp
qed

end

context vsock_service
begin

lemma keeps_vsock_deliver:
  assumes "build_ok build" "queue \<in> {0, 2}"
  shows "keeps GM valid vsock_ops vsock_inv (vsock_deliver GM budget queue build)"
proof (rule keepsI)
  fix t mem a t' mem'
  assume h: "valid mem" "tinv mem t" "vsock_inv (t_device t)" "vsock_deliver GM budget queue build (t, mem) = (a, t', mem')"
  have s: "vsock_service GM (\<lambda>m. valid m \<and> check_range GM m = check_range GM mem) byte"
    using fixed_ranges by (rule vsock_service.intro)
  have "map q_max_size (t_queues t) = [256, 256, 64]" using h(2) by (simp add: transport_inv_def vsock_ops_def)
  from arg_cong[OF this, of length] have "length (t_queues t) = 3" by simp
  then obtain q0 where q0: "queue_at t queue = Some q0" using assms(2) by (auto simp: queue_at_def)
  show "valid mem' \<and> check_range GM mem' = check_range GM mem \<and> tinv mem' t' \<and> vsock_inv (t_device t')"
    using vsock_service.vsock_deliver_ok[OF s assms(1) _ q0 h(4)] h by simp
qed

lemma keeps_vsock:
  "keeps GM valid vsock_ops vsock_inv (vsock_deliver_rx GM budget)"
  "keeps GM valid vsock_ops vsock_inv (vsock_deliver_events GM)"
  "keeps GM valid vsock_ops vsock_inv (vsock_transmit_pass GM queue budget)"
  "keeps GM valid vsock_ops vsock_inv (vsock_inbound_pass GM budget)"
proof -
  show rx: "keeps GM valid vsock_ops vsock_inv (vsock_deliver_rx GM budget)"
    using keeps_vsock_deliver[OF builds_ok(1), of 0 budget] unfolding vsock_deliver_rx_def[abs_def] by simp
  show ev: "keeps GM valid vsock_ops vsock_inv (vsock_deliver_events GM)"
    using keeps_vsock_deliver[OF builds_ok(2), of 2 64] unfolding vsock_deliver_events_def[abs_def] by simp
  show "keeps GM valid vsock_ops vsock_inv (vsock_transmit_pass GM queue budget)"
    unfolding vsock_transmit_pass_def[abs_def] by (intro keeps_try_then keeps_service rx keeps_return)
  show "keeps GM valid vsock_ops vsock_inv (vsock_inbound_pass GM budget)"
    unfolding vsock_inbound_pass_def[abs_def] by (intro keeps_try_then rx ev keeps_return)
qed

end

section \<open>The invariant of the bus\<close>

definition bus_inv ::
    "('m, 'r, 'o, 'n, 'e) bus_env \<Rightarrow> ('r \<Rightarrow> u8 list) \<Rightarrow> ('r \<Rightarrow> bool) \<Rightarrow> u8 list \<Rightarrow> ('o \<Rightarrow> u8 list) \<Rightarrow> ('o \<Rightarrow> bool)
     \<Rightarrow> 'm \<Rightarrow> ('r, 'o, 'n, 'e) mmio_bus \<Rightarrow> bool" where
  "bus_inv E root_content root_ok img over_content over_ok mem b \<longleftrightarrow>
     transport_inv (env_memory E) block_ops mem (bus_root b) \<and>
     disk_inv (env_root E) root_content root_ok ImmutableRoot img (t_device (bus_root b)) \<and>
     (\<forall>t. bus_overlay b = Some t \<longrightarrow> transport_inv (env_memory E) block_ops mem t \<and>
        disk_inv (env_overlay E) over_content over_ok PrivateOverlay [] (t_device t)) \<and>
     (\<forall>t. bus_net b = Some t \<longrightarrow> transport_inv (env_memory E) net_ops mem t) \<and>
     transport_inv (env_memory E) vsock_ops mem (bus_vsock b) \<and> vsock_inv (t_device (bus_vsock b)) \<and>
     transport_inv (env_memory E) rng_ops mem (bus_rng b)"

text \<open>What the host does to the devices of a running bus.\<close>

inductive host_step ::
    "('m, 'r, 'o, 'n, 'e) bus_env \<Rightarrow> ('o \<Rightarrow> bool) \<Rightarrow> ('r, 'o, 'n, 'e) mmio_bus \<Rightarrow> ('r, 'o, 'n, 'e) mmio_bus \<Rightarrow> bool"
  for E over_ok where
    overlay_attached: "\<lbrakk>bus_overlay b = Some t; over_ok s; block_attach (env_overlay E) s (t_device t) = (r, d)\<rbrakk> \<Longrightarrow>
      host_step E over_ok b (b\<lparr>bus_overlay := Some (t\<lparr>t_device := d\<rparr>)\<rparr>)"
  | net_attached: "bus_net b = Some t \<Longrightarrow>
      host_step E over_ok b (b\<lparr>bus_net := Some (t\<lparr>t_device := net_attach backend m (t_device t)\<rparr>)\<rparr>)"
  | link_changed: "bus_net b = Some t \<Longrightarrow>
      host_step E over_ok b (b\<lparr>bus_net := Some (t\<lparr>t_device := set_link up (t_device t)\<rparr>)\<rparr>)"
  | stream_read: "\<lbrakk>vd_endpoint (t_device (bus_vsock b)) = Some ep; endpoint_read buf ep = (n, buf', ep')\<rbrakk> \<Longrightarrow>
      host_step E over_ok b (b\<lparr>bus_vsock := (bus_vsock b)\<lparr>t_device := (t_device (bus_vsock b))\<lparr>vd_endpoint := Some ep'\<rparr>\<rparr>\<rparr>)"
  | stream_write: "\<lbrakk>vd_endpoint (t_device (bus_vsock b)) = Some ep; endpoint_write bytes ep = (n, ep')\<rbrakk> \<Longrightarrow>
      host_step E over_ok b (b\<lparr>bus_vsock := (bus_vsock b)\<lparr>t_device := (t_device (bus_vsock b))\<lparr>vd_endpoint := Some ep'\<rparr>\<rparr>\<rparr>)"
  | stream_shutdown: "vd_endpoint (t_device (bus_vsock b)) = Some ep \<Longrightarrow>
      host_step E over_ok b (b\<lparr>bus_vsock := (bus_vsock b)\<lparr>t_device := (t_device (bus_vsock b))\<lparr>vd_endpoint := Some (endpoint_shutdown ep)\<rparr>\<rparr>\<rparr>)"
  | stream_closed:
      "host_step E over_ok b (b\<lparr>bus_vsock := (bus_vsock b)\<lparr>t_device := close_endpoint (t_device (bus_vsock b))\<rparr>\<rparr>)"
  | cid_assigned:
      "host_step E over_ok b (b\<lparr>bus_vsock := (bus_vsock b)\<lparr>t_device := snd (set_guest_cid cid (t_device (bus_vsock b)))\<rparr>\<rparr>)"
  | vsock_config_signalled: "host_step E over_ok b (b\<lparr>bus_vsock := signal_config_change (bus_vsock b)\<rparr>)"
  | net_config_signalled: "bus_net b = Some t \<Longrightarrow> host_step E over_ok b (b\<lparr>bus_net := Some (signal_config_change t)\<rparr>)"

inductive bus_step ::
    "('m, 'r, 'o, 'n, 'e) bus_env \<Rightarrow> ('m \<Rightarrow> bool) \<Rightarrow> ('o \<Rightarrow> bool)
     \<Rightarrow> ('r, 'o, 'n, 'e) mmio_bus \<times> 'm \<Rightarrow> ('r, 'o, 'n, 'e) mmio_bus \<times> 'm \<Rightarrow> bool"
  for E valid over_ok where
    bus_read: "bus_step E valid over_ok st (snd (dispatch_read gpa width st))"
  | bus_write: "bus_step E valid over_ok st (snd (dispatch_write (env_memory E) gpa width v st))"
  | guest_stored: "\<lbrakk>valid mem'; check_range (env_memory E) mem' = check_range (env_memory E) mem\<rbrakk> \<Longrightarrow>
      bus_step E valid over_ok (b, mem) (b, mem')"
  | bus_serviced: "bus_step E valid over_ok st (snd (bus_service E slot queue budget st))"
  | bus_delivered: "bus_step E valid over_ok st (snd (deliver_inbound E slot budget st))"
  | bus_counted: "bus_step E valid over_ok st (snd (pending_work (env_memory E) st))"
  | host_acted: "host_step E over_ok b b' \<Longrightarrow> bus_step E valid over_ok (b, mem) (b', mem)"

locale bus_model =
  rt: disk_service "env_memory E" valid byte "env_root E" root_content root_ok ImmutableRoot img +
  ov: disk_service "env_memory E" valid byte "env_overlay E" over_content over_ok PrivateOverlay "[]" +
  nt: net_service "env_memory E" valid byte "env_net E" +
  vs: vsock_service "env_memory E" valid byte +
  en: rng_service "env_memory E" valid byte "env_entropy E"
  for E :: "('m, 'r, 'o, 'n, 'e) bus_env" and valid byte root_content root_ok img over_content over_ok
begin

abbreviation binv :: "('r, 'o, 'n, 'e) mmio_bus \<times> 'm \<Rightarrow> bool" where
  "binv \<equiv> \<lambda>(b, mem). valid mem \<and> bus_inv E root_content root_ok img over_content over_ok mem b"

abbreviation root_keeps where
  "root_keeps \<equiv> keeps (env_memory E) valid block_ops (disk_inv (env_root E) root_content root_ok ImmutableRoot img)"

abbreviation overlay_keeps where
  "overlay_keeps \<equiv> keeps (env_memory E) valid block_ops (disk_inv (env_overlay E) over_content over_ok PrivateOverlay [])"

lemma bus_inv_mem:
  "\<lbrakk>check_range (env_memory E) mem' = check_range (env_memory E) mem;
    bus_inv E root_content root_ok img over_content over_ok mem b\<rbrakk> \<Longrightarrow>
     bus_inv E root_content root_ok img over_content over_ok mem' b"
  using rt.tinv_mem_cong[of mem' mem] ov.tinv_mem_cong[of mem' mem] nt.tinv_mem_cong[of mem' mem]
    vs.tinv_mem_cong[of mem' mem] en.tinv_mem_cong[of mem' mem] by (simp add: bus_inv_def)

text \<open>A body that keeps its own transport keeps the bus.\<close>

lemma on_root_inv:
  assumes "binv st" "root_keeps f"
  shows "binv (snd (on_root f st))"
proof -
  obtain b mem where st: "st = (b, mem)" by fastforce
  obtain a t' mem' where f: "f (bus_root b, mem) = (a, t', mem')" by (metis prod_cases3)
  have inv: "valid mem" "bus_inv E root_content root_ok img over_content over_ok mem b" using assms(1) by (auto simp: st)
  then have "valid mem'" "check_range (env_memory E) mem' = check_range (env_memory E) mem"
    "transport_inv (env_memory E) block_ops mem' t'"
    "disk_inv (env_root E) root_content root_ok ImmutableRoot img (t_device t')"
    using keepsD[OF assms(2) _ _ _ f] by (auto simp: bus_inv_def)
  then show ?thesis using bus_inv_mem[OF _ inv(2), of mem'] f by (auto simp: st on_root_def bus_inv_def)
qed

lemma on_overlay_inv:
  assumes "binv st" "overlay_keeps f"
  shows "binv (snd (on_overlay absent f st))"
proof -
  obtain b mem where st: "st = (b, mem)" by fastforce
  have inv: "valid mem" "bus_inv E root_content root_ok img over_content over_ok mem b" using assms(1) by (auto simp: st)
  show ?thesis
  proof (cases "bus_overlay b")
    case None
    then show ?thesis using inv by (simp add: st on_overlay_def)
  next
    case (Some t)
    obtain a t' mem' where f: "f (t, mem) = (a, t', mem')" by (metis prod_cases3)
    have "valid mem'" "check_range (env_memory E) mem' = check_range (env_memory E) mem"
      "transport_inv (env_memory E) block_ops mem' t'"
      "disk_inv (env_overlay E) over_content over_ok PrivateOverlay [] (t_device t')"
      using keepsD[OF assms(2) _ _ _ f] inv Some by (auto simp: bus_inv_def)
    then show ?thesis using bus_inv_mem[OF _ inv(2), of mem'] f Some by (auto simp: st on_overlay_def bus_inv_def)
  qed
qed

lemma on_net_inv:
  assumes "binv st" "keeps (env_memory E) valid net_ops (\<lambda>_. True) f"
  shows "binv (snd (on_net absent f st))"
proof -
  obtain b mem where st: "st = (b, mem)" by fastforce
  have inv: "valid mem" "bus_inv E root_content root_ok img over_content over_ok mem b" using assms(1) by (auto simp: st)
  show ?thesis
  proof (cases "bus_net b")
    case None
    then show ?thesis using inv by (simp add: st on_net_def)
  next
    case (Some t)
    obtain a t' mem' where f: "f (t, mem) = (a, t', mem')" by (metis prod_cases3)
    have "valid mem'" "check_range (env_memory E) mem' = check_range (env_memory E) mem"
      "transport_inv (env_memory E) net_ops mem' t'"
      using keepsD[OF assms(2) _ _ _ f] inv Some by (auto simp: bus_inv_def)
    then show ?thesis using bus_inv_mem[OF _ inv(2), of mem'] f Some by (auto simp: st on_net_def bus_inv_def)
  qed
qed

lemma on_vsock_inv:
  assumes "binv st" "keeps (env_memory E) valid vsock_ops vsock_inv f"
  shows "binv (snd (on_vsock f st))"
proof -
  obtain b mem where st: "st = (b, mem)" by fastforce
  obtain a t' mem' where f: "f (bus_vsock b, mem) = (a, t', mem')" by (metis prod_cases3)
  have inv: "valid mem" "bus_inv E root_content root_ok img over_content over_ok mem b" using assms(1) by (auto simp: st)
  then have "valid mem'" "check_range (env_memory E) mem' = check_range (env_memory E) mem"
    "transport_inv (env_memory E) vsock_ops mem' t'" "vsock_inv (t_device t')"
    using keepsD[OF assms(2) _ _ _ f] by (auto simp: bus_inv_def)
  then show ?thesis using bus_inv_mem[OF _ inv(2), of mem'] f by (auto simp: st on_vsock_def bus_inv_def)
qed

lemma on_rng_inv:
  assumes "binv st" "keeps (env_memory E) valid rng_ops (\<lambda>_. True) f"
  shows "binv (snd (on_rng f st))"
proof -
  obtain b mem where st: "st = (b, mem)" by fastforce
  obtain a t' mem' where f: "f (bus_rng b, mem) = (a, t', mem')" by (metis prod_cases3)
  have inv: "valid mem" "bus_inv E root_content root_ok img over_content over_ok mem b" using assms(1) by (auto simp: st)
  then have "valid mem'" "check_range (env_memory E) mem' = check_range (env_memory E) mem"
    "transport_inv (env_memory E) rng_ops mem' t'"
    using keepsD[OF assms(2) _ _ _ f] by (auto simp: bus_inv_def)
  then show ?thesis using bus_inv_mem[OF _ inv(2), of mem'] f by (auto simp: st on_rng_def bus_inv_def)
qed

lemmas on_slot_inv = on_root_inv on_overlay_inv on_net_inv on_vsock_inv on_rng_inv

lemma with_slot_inv:
  assumes "binv st" "root_keeps fr" "overlay_keeps fo" "keeps (env_memory E) valid net_ops (\<lambda>_. True) fn"
    "keeps (env_memory E) valid vsock_ops vsock_inv fv" "keeps (env_memory E) valid rng_ops (\<lambda>_. True) fe"
  shows "binv (snd (with_slot slot fr fo fn fv fe st))"
  unfolding with_slot_def
  by (cases slot) (simp_all add: on_slot_inv assms keeps_some_result)

lemma dispatch_inv:
  assumes "binv st"
  shows "binv (snd (dispatch_read gpa width st))" "binv (snd (dispatch_write (env_memory E) gpa width v st))"
proof -
  have "binv (snd (with_slot slot (read_in block_ops offset width) (read_in block_ops offset width)
      (read_in net_ops offset width) (read_in vsock_ops offset width) (read_in rng_ops offset width) st))" for slot offset
    using assms by (intro with_slot_inv rt.disk.keeps_read ov.disk.keeps_read nt.keeps_read vs.keeps_read en.keeps_read)
  then show "binv (snd (dispatch_read gpa width st))"
    using assms by (cases "from_gpa gpa") (simp_all add: dispatch_read_def Let_def case_prod_unfold)
  have "binv (snd (with_slot slot (write_in (env_memory E) block_ops offset width v) (write_in (env_memory E) block_ops offset width v)
      (write_in (env_memory E) net_ops offset width v) (write_in (env_memory E) vsock_ops offset width v)
      (write_in (env_memory E) rng_ops offset width v) st))" for slot offset
    using assms by (intro with_slot_inv rt.disk.keeps_write ov.disk.keeps_write nt.keeps_write vs.keeps_write en.keeps_write)
  then show "binv (snd (dispatch_write (env_memory E) gpa width v st))"
    using assms by (cases "from_gpa gpa") (simp_all add: dispatch_write_def Let_def case_prod_unfold)
qed

lemma work_inv:
  assumes "binv st"
  shows "binv (snd (bus_service E slot queue budget st))" "binv (snd (deliver_inbound E slot budget st))"
  using assms
  by (cases slot; simp add: bus_service_def deliver_inbound_def Let_def on_slot_inv rt.disk.keeps_service
      ov.disk.keeps_service nt.keeps_service nt.keeps_net_deliver vs.keeps_vsock en.keeps_service)+

lemma pending_inv: "binv st \<Longrightarrow> binv (snd (pending_loop (env_memory E) slots pending st))"
proof (induction slots arbitrary: pending st)
  case (Cons x slots)
  obtain slot index where x: "x = (slot, index)" by fastforce
  obtain q st1 where w: "with_slot slot (pending_in (env_memory E) index) (pending_in (env_memory E) index)
      (pending_in (env_memory E) index) (pending_in (env_memory E) index) (pending_in (env_memory E) index) st = (q, st1)"
    by (meson surj_pair)
  have "binv st1"
    using with_slot_inv[OF Cons.prems rt.disk.keeps_pending ov.disk.keeps_pending nt.keeps_pending vs.keeps_pending
        en.keeps_pending, of slot index index index index index] w by simp
  then show ?case using Cons.IH w by (auto simp: x Let_def split: option.split sum.split)
qed simp

lemma host_inv:
  assumes "host_step E over_ok b b'" "bus_inv E root_content root_ok img over_content over_ok mem b"
  shows "bus_inv E root_content root_ok img over_content over_ok mem b'"
  using assms(1)
proof cases
  case (overlay_attached t s r d)
  have t: "ov.tinv mem t" "disk_inv (env_overlay E) over_content over_ok PrivateOverlay [] (t_device t)"
    using assms(2) overlay_attached by (auto simp: bus_inv_def)
  have "block_inv (env_overlay E) over_ok (t_device t)" using t(2) by (simp add: disk_inv_def)
  note block_attach_inv[OF this overlay_attached(4,3)]
  then have "block_inv (env_overlay E) over_ok d" "bd_role d = bd_role (t_device t)"
    by (auto simp: block_state_capture_def)
  then show ?thesis using ov.device_update_inv[OF t(1), of d] t(2) assms(2) overlay_attached
    by (auto simp: bus_inv_def disk_inv_def)
next
  case (stream_read ep buf n buf' ep')
  then show ?thesis using assms(2) vs.device_update_inv run_read
    by (fastforce simp: bus_inv_def vsock_inv_def)
next
  case (stream_write ep bytes n ep')
  then show ?thesis using assms(2) vs.device_update_inv run_write
    by (fastforce simp: bus_inv_def vsock_inv_def)
next
  case (stream_shutdown ep)
  then show ?thesis using assms(2) vs.device_update_inv run_shutdown
    by (fastforce simp: bus_inv_def vsock_inv_def)
next
  case stream_closed
  have "vsock_inv (close_endpoint d)" if "vsock_inv d" for d
    using that vsock_inv_queue[of "d\<lparr>vd_endpoint := None\<rparr>"]
    by (auto simp: close_endpoint_def vsock_inv_def Let_def split: option.split)
  then show ?thesis using stream_closed assms(2) vs.device_update_inv by (auto simp: bus_inv_def)
next
  case (cid_assigned cid)
  have "vsock_inv (snd (set_guest_cid cid d))" if "vsock_inv d" for d
    using that by (auto simp: set_guest_cid_def vsock_inv_def split: sum.split)
  then show ?thesis using cid_assigned assms(2) vs.device_update_inv by (auto simp: bus_inv_def)
qed (use assms(2) nt.device_update_inv vs.signal_config_change_inv nt.signal_config_change_inv in
      \<open>auto simp: bus_inv_def signal_config_change_def\<close>)

lemma bus_step_inv:
  assumes "bus_step E valid over_ok st st'" "binv st"
  shows "binv st'"
  using assms(1)
proof cases
  case (guest_stored mem' mem b)
  then show ?thesis using assms(2) bus_inv_mem by auto
next
  case (host_acted b b' mem)
  then show ?thesis using assms(2) host_inv by auto
qed (use assms(2) dispatch_inv work_inv pending_inv in \<open>simp_all add: pending_work_def\<close>)

lemma bus_reach_inv:
  assumes "(bus_step E valid over_ok)\<^sup>*\<^sup>* st st'" "binv st"
  shows "binv st'"
  using assms by (induction rule: rtranclp_induct) (auto dest: bus_step_inv)

end

end
