(* ===== verification/BusSnapshot.thy ===== *)
theory BusSnapshot
  imports BusReach
begin

text \<open>
  Snapshots of the whole bus (\<open>soma-kvm/src/virtio/bus/slots.rs\<close>): what the device records promise,
  when \<open>MmioBus::restore\<close> succeeds, and the isolation of the slots from one another.
\<close>

section \<open>The contract of a device record\<close>

locale recorded_device = device_model VD
  for VD :: "'d virtio_device" +
  fixes dok :: "'d \<Rightarrow> bool" and twin :: "'d \<Rightarrow> 'd \<Rightarrow> bool"
  assumes startable: "\<exists>t. transport_new VD d = Inr t"
    and record_kept: "\<lbrakk>dok d; restore_state VD raw d = (Inr (), d')\<rbrakk> \<Longrightarrow> snapshot_state VD d' = raw"
    and activate_record: "snapshot_state VD (snd (dev_activate VD f d)) = snapshot_state VD d"
    and activate_accepts: "f AND NOT (feature_allowlist VD d) = 0 \<Longrightarrow> fst (dev_activate VD f d) = Inr ()"
    and record_accepted: "\<lbrakk>dok d0; twin d0 d\<rbrakk> \<Longrightarrow> fst (restore_state VD (snapshot_state VD d) d0) = Inr ()"
    and twin_face: "\<lbrakk>dok d0; twin d0 d\<rbrakk> \<Longrightarrow> device_face VD d0 = device_face VD d"

lemmas new_queues_simps = transport_new_def Let_def queue_new_Inr_iff and_then_Inr_iff size_ok_def
  is_power_of_two_256 is_power_of_two_64

interpretation block_rec: recorded_device block_ops "\<lambda>d. length (bd_serial d) = BLOCK_SERIAL_LEN"
  "\<lambda>d0 d. block_state_capture d0 = block_state_capture d"
proof unfold_locales
  fix d :: "'s block_device" and f :: u64
  show "\<exists>t. transport_new block_ops d = Inr t"
    by (cases "bd_role d") (simp_all add: new_queues_simps block_ops_def role_features_def)
  show "snapshot_state block_ops (snd (dev_activate block_ops f d)) = snapshot_state block_ops d"
    by (simp add: block_ops_def block_activate_def block_state_capture_def)
  show "fst (dev_activate block_ops f d) = Inr ()" if "f AND NOT (feature_allowlist block_ops d) = 0"
    using that by (simp add: block_ops_def block_activate_def)
next
  fix d0 d :: "'s block_device"
  assume h: "length (bd_serial d0) = BLOCK_SERIAL_LEN" "block_state_capture d0 = block_state_capture d"
  then have "restore_state block_ops (snapshot_state block_ops d) d0 = (Inr (), d0)"
    by (simp add: block_restore_exact) (simp add: block_ops_def)
  then show "fst (restore_state block_ops (snapshot_state block_ops d) d0) = Inr ()" by simp
  show "device_face block_ops d0 = device_face block_ops d"
    using h by (simp add: block_ops_def device_face_def block_state_capture_def)
qed (simp add: block_restore_exact)

interpretation rng_rec: recorded_device rng_ops "\<lambda>_. True" "\<lambda>_ _. True"
proof unfold_locales
  fix d :: "'s rng_device" and f :: u64
  show "\<exists>t. transport_new rng_ops d = Inr t"
    by (simp add: new_queues_simps rng_ops_def)
  show "fst (dev_activate rng_ops f d) = Inr ()" if "f AND NOT (feature_allowlist rng_ops d) = 0"
    using that by (simp add: rng_ops_def rng_activate_def)
next
  fix d0 d :: "'s rng_device"
  have "restore_state rng_ops (snapshot_state rng_ops d) d0 = (Inr (), d0)"
    by (simp add: rng_restore_exact)
      (simp add: rng_ops_def rng_state_to_bytes_def rng_state_capture_def codec_simps)
  then show "fst (restore_state rng_ops (snapshot_state rng_ops d) d0) = Inr ()" by simp
next
  fix d d' :: "'s rng_device" and raw
  assume "restore_state rng_ops raw d = (Inr (), d')"
  then show "snapshot_state rng_ops d' = raw"
    by (simp add: rng_restore_exact)
      (simp add: rng_ops_def rng_state_to_bytes_def rng_state_capture_def codec_simps)
qed (simp_all add: rng_ops_def device_face_def)

interpretation net_rec: recorded_device net_ops "\<lambda>_. True" "\<lambda>_ d. \<not> nd_link_up d"
proof unfold_locales
  fix d :: "'s net_device" and f :: u64
  show "\<exists>t. transport_new net_ops d = Inr t"
    by (simp add: new_queues_simps net_ops_def)
  show "snapshot_state net_ops (snd (dev_activate net_ops f d)) = snapshot_state net_ops d"
    by (simp add: net_ops_def net_activate_def net_state_capture_def)
  show "fst (dev_activate net_ops f d) = Inr ()" if "f AND NOT (feature_allowlist net_ops d) = 0"
    using that by (simp add: net_ops_def net_activate_def)
next
  fix d0 d :: "'s net_device"
  assume "\<not> nd_link_up d"
  moreover have "net_state_from_bytes (snapshot_state net_ops d) = Inr (net_state_capture d)"
    by (simp add: net_state_codec net_ops_def)
  ultimately show "fst (restore_state net_ops (snapshot_state net_ops d) d0) = Inr ()"
    by (simp add: net_ops_def net_state_apply_def net_state_capture_def)
next
  fix d d' :: "'s net_device" and raw
  assume "restore_state net_ops raw d = (Inr (), d')"
  then obtain s where "raw = net_state_to_bytes s" "net_state_apply s d = (Inr (), d')"
    by (auto simp: net_ops_def net_state_codec[symmetric] split: sum.splits)
  then show "snapshot_state net_ops d' = raw"
    by (cases s) (auto simp: net_ops_def net_state_apply_def net_state_capture_def set_mac_def set_link_def
        split: if_splits)
qed (simp_all add: net_ops_def device_face_def)

interpretation vsock_rec: recorded_device vsock_ops "\<lambda>_. True" "\<lambda>_ d. check_cid (vd_guest_cid d) = Inr ()"
proof unfold_locales
  fix d :: vsock_device and f :: u64
  show "\<exists>t. transport_new vsock_ops d = Inr t"
    by (simp add: new_queues_simps vsock_ops_def)
  show "snapshot_state vsock_ops (snd (dev_activate vsock_ops f d)) = snapshot_state vsock_ops d"
    by (simp add: vsock_ops_def vsock_activate_def vsock_state_capture_def)
  show "fst (dev_activate vsock_ops f d) = Inr ()" if "f AND NOT (feature_allowlist vsock_ops d) = 0"
    using that by (simp add: vsock_ops_def vsock_activate_def)
next
  fix d0 d :: vsock_device
  assume "check_cid (vd_guest_cid d) = Inr ()"
  moreover have "vsock_state_from_bytes (snapshot_state vsock_ops d) = Inr (vsock_state_capture d)"
    by (simp add: vsock_state_codec vsock_ops_def)
  ultimately show "fst (restore_state vsock_ops (snapshot_state vsock_ops d) d0) = Inr ()"
    by (simp add: vsock_ops_def vsock_state_apply_def vsock_state_capture_def set_guest_cid_def)
next
  fix d d' :: vsock_device and raw
  assume "restore_state vsock_ops raw d = (Inr (), d')"
  then obtain s where "raw = vsock_state_to_bytes s" "vsock_state_apply s d = (Inr (), d')"
    by (auto simp: vsock_ops_def vsock_state_codec[symmetric] split: sum.splits)
  then show "snapshot_state vsock_ops d' = raw"
    by (cases s) (auto simp: vsock_ops_def vsock_state_apply_def vsock_state_capture_def set_guest_cid_def
        after_restore_def clear_transient_def split: if_splits sum.splits)
qed (simp_all add: vsock_ops_def device_face_def)

section \<open>When the records of a bus are accepted\<close>

text \<open>One slot rebuilt from its record, and an optional one from the records it has.\<close>

definition slot_restored ::
    "'m guest_memory_ops \<Rightarrow> 'm \<Rightarrow> 'd virtio_device \<Rightarrow> slot \<Rightarrow> 'd \<Rightarrow> slot_snapshot \<Rightarrow> 'd mmio_transport \<Rightarrow> bool" where
  "slot_restored GM mem VD slot d s t \<longleftrightarrow>
     ss_slot s = slot \<and>
     (\<exists>d'. apply_device VD slot d s = Inr d' \<and> restore_transport GM VD slot d' s mem = Inr t)"

definition optional_restored ::
    "'m guest_memory_ops \<Rightarrow> 'm \<Rightarrow> 'd virtio_device \<Rightarrow> slot \<Rightarrow> 'd option \<Rightarrow> slot_snapshot list
     \<Rightarrow> 'd mmio_transport option \<Rightarrow> bool" where
  "optional_restored GM mem VD slot d ss t \<longleftrightarrow>
     (case d of
        None \<Rightarrow> ss = [] \<and> t = None
      | Some d \<Rightarrow> \<exists>s t'. ss = [s] \<and> t = Some t' \<and> slot_restored GM mem VD slot d s t')"

lemma check_records_iff:
  "length slots = length records \<Longrightarrow> check_records slots records = Inr () \<longleftrightarrow> map ss_slot records = slots"
  by (induction slots records rule: check_records.induct) auto

lemma present_devices:
  "present (devices_set devices) =
     SlotRoot # (if dv_overlay devices = None then [] else [SlotOverlay]) @
     (if dv_net devices = None then [] else [SlotNet]) @ [SlotVsock, SlotRng]"
  by (simp add: present_def devices_set_def device_set_new_def set_has_def ALL_SLOTS_def)

lemma present_bus:
  "present (bus_device_set b) =
     SlotRoot # (if bus_overlay b = None then [] else [SlotOverlay]) @
     (if bus_net b = None then [] else [SlotNet]) @ [SlotVsock, SlotRng]"
  by (simp add: present_def bus_device_set_def device_set_new_def set_has_def ALL_SLOTS_def)

lemma snapshot_all_shape:
  "snapshot_all b =
     snapshot_of block_ops SlotRoot (bus_root b) #
     map (snapshot_of block_ops SlotOverlay) (case bus_overlay b of None \<Rightarrow> [] | Some t \<Rightarrow> [t]) @
     map (snapshot_of net_ops SlotNet) (case bus_net b of None \<Rightarrow> [] | Some t \<Rightarrow> [t]) @
     [snapshot_of vsock_ops SlotVsock (bus_vsock b), snapshot_of rng_ops SlotRng (bus_rng b)]"
  by (auto simp: snapshot_all_def present_bus bus_snapshot_def map_filter_simps split: option.split)

lemma restored_optional_iff:
  "(\<exists>d'. apply_optional VD slot d s = Inr d' \<and> restore_optional GM VD slot d' s mem = Inr t) \<longleftrightarrow>
     (case (d, s) of
        (Some d, Some s) \<Rightarrow> \<exists>d' t'. apply_device VD slot d s = Inr d' \<and>
            restore_transport GM VD slot d' s mem = Inr t' \<and> t = Some t'
      | _ \<Rightarrow> t = None)"
  by (auto simp: apply_optional_def restore_optional_def and_then_Inr_iff split: option.split)

lemma bus_restore_stages:
  "bus_restore GM devices snapshots mem = Inr b \<longleftrightarrow>
     map ss_slot snapshots = present (devices_set devices) \<and>
     (let record = (\<lambda>slot. List.find (\<lambda>r. ss_slot r = slot) snapshots) in
      (\<exists>s d. record SlotRoot = Some s \<and> apply_device block_ops SlotRoot (dv_root devices) s = Inr d \<and>
         restore_transport GM block_ops SlotRoot d s mem = Inr (bus_root b)) \<and>
      (\<exists>d. apply_optional block_ops SlotOverlay (dv_overlay devices) (record SlotOverlay) = Inr d \<and>
         restore_optional GM block_ops SlotOverlay d (record SlotOverlay) mem = Inr (bus_overlay b)) \<and>
      (\<exists>d. apply_optional net_ops SlotNet (dv_net devices) (record SlotNet) = Inr d \<and>
         restore_optional GM net_ops SlotNet d (record SlotNet) mem = Inr (bus_net b)) \<and>
      (\<exists>s d. record SlotVsock = Some s \<and> apply_device vsock_ops SlotVsock (dv_vsock devices) s = Inr d \<and>
         restore_transport GM vsock_ops SlotVsock d s mem = Inr (bus_vsock b)) \<and>
      (\<exists>s d. record SlotRng = Some s \<and> apply_device rng_ops SlotRng (dv_rng devices) s = Inr d \<and>
         restore_transport GM rng_ops SlotRng d s mem = Inr (bus_rng b)))"
proof (cases "length snapshots = length (present (devices_set devices))")
  case True
  then show ?thesis unfolding bus_restore_def Let_def
    by (cases b) (auto simp: check_records_iff and_then_Inr_iff split: option.split)
next
  case False
  then show ?thesis by (auto simp: bus_restore_def Let_def dest: arg_cong[of _ _ length])
qed

lemma bus_restore_iff:
  "bus_restore GM devices snapshots mem = Inr b \<longleftrightarrow>
     (\<exists>root overlay net vsock rng. snapshots = root # overlay @ net @ [vsock, rng] \<and>
        slot_restored GM mem block_ops SlotRoot (dv_root devices) root (bus_root b) \<and>
        optional_restored GM mem block_ops SlotOverlay (dv_overlay devices) overlay (bus_overlay b) \<and>
        optional_restored GM mem net_ops SlotNet (dv_net devices) net (bus_net b) \<and>
        slot_restored GM mem vsock_ops SlotVsock (dv_vsock devices) vsock (bus_vsock b) \<and>
        slot_restored GM mem rng_ops SlotRng (dv_rng devices) rng (bus_rng b))"
    (is "?L \<longleftrightarrow> ?R")
proof
  assume ?L
  note L = this[unfolded bus_restore_stages Let_def restored_optional_iff]
  show ?R
    by (rule exI[of _ "hd snapshots"], rule exI[of _ "filter (\<lambda>s. ss_slot s = SlotOverlay) snapshots"],
        rule exI[of _ "filter (\<lambda>s. ss_slot s = SlotNet) snapshots"], rule exI[of _ "last (butlast snapshots)"],
        rule exI[of _ "last snapshots"],
        use L in \<open>cases "dv_overlay devices"; cases "dv_net devices"\<close>)
      (auto simp: present_devices map_eq_Cons_conv slot_restored_def optional_restored_def)
next
  assume ?R
  then obtain root overlay net vsock rng where s: "snapshots = root # overlay @ net @ [vsock, rng]"
    and r: "slot_restored GM mem block_ops SlotRoot (dv_root devices) root (bus_root b)"
      "optional_restored GM mem block_ops SlotOverlay (dv_overlay devices) overlay (bus_overlay b)"
      "optional_restored GM mem net_ops SlotNet (dv_net devices) net (bus_net b)"
      "slot_restored GM mem vsock_ops SlotVsock (dv_vsock devices) vsock (bus_vsock b)"
      "slot_restored GM mem rng_ops SlotRng (dv_rng devices) rng (bus_rng b)" by blast
  then have order: "map ss_slot snapshots = present (devices_set devices)"
    by (auto simp: present_devices slot_restored_def optional_restored_def split: option.splits)
  show ?L
    unfolding bus_restore_stages Let_def restored_optional_iff using order r
    by (cases "dv_overlay devices"; cases "dv_net devices")
      (auto simp: s slot_restored_def optional_restored_def)
qed

context recorded_device
begin

lemma restored_record:
  assumes "guest_memory GM valid byte" "valid mem" "dok d" "slot_restored GM mem VD slot d s t"
  shows "snapshot_of VD slot t = s"
proof -
  from assms(4) obtain d' where slot: "ss_slot s = slot" and d': "restore_state VD (ss_device s) d = (Inr (), d')"
    and t: "transport_restore GM VD d' (ss_transport s) mem = Inr t"
    by (auto simp: slot_restored_def apply_device_def restore_transport_def and_then_Inr_iff split: prod.splits)
  have "transport_model GM valid byte VD"
    using assms(1) device_model_axioms by (rule transport_model.intro)
  from transport_model.transport_restore_Inr(2)[OF this assms(2) t] have "transport_state_of t = ss_transport s" .
  moreover have "snapshot_state VD (t_device t) = ss_device s"
    using transport_restore_device[OF t] record_kept[OF assms(3) d'] activate_record by auto
  ultimately show ?thesis using slot by (simp add: snapshot_of_def)
qed

lemma record_restored:
  assumes "guest_memory GM valid byte" "valid mem" "dok fresh" "twin fresh (t_device t)" "transport_inv GM VD mem t"
    and synced: "\<forall>q \<in> set (t_queues t). q_layout q = None \<or> q_layout q = Some (state_layout (queue_state_of q))"
  shows "\<exists>t'. slot_restored GM mem VD slot fresh (snapshot_of VD slot t) t'"
proof -
  obtain d where d: "restore_state VD (snapshot_state VD (t_device t)) fresh = (Inr (), d)"
    using record_accepted[OF assms(3,4)] by (metis prod.collapse)
  then have face: "device_face VD d = device_face VD (t_device t)"
    using face_restore[of "snapshot_state VD (t_device t)" fresh] twin_face[OF assms(3,4)] by simp
  obtain t0 where t0: "transport_new VD d = Inr t0" using startable by blast
  have act: "fst (dev_activate VD (t_driver_features t) d) = Inr ()" if "driver_ok (t_status t)"
    using that assms(5) face activate_accepts[of "t_driver_features t" d] status_ok_driver_ok[of "t_status t"]
    by (auto simp: transport_inv_def features_accepted_def device_face_def)
  have "transport_model GM valid byte VD"
    using assms(1) device_model_axioms by (rule transport_model.intro)
  from transport_model.transport_capture_restore_ok[OF this assms(2,5) t0 face synced act]
  show ?thesis using d
    by (auto simp: slot_restored_def snapshot_of_def apply_device_def restore_transport_def)
qed

end

lemma bus_restore_snapshot:
  assumes "guest_memory GM valid byte" "valid mem" "bus_restore GM devices snapshots mem = Inr b"
    and "length (bd_serial (dv_root devices)) = BLOCK_SERIAL_LEN"
    and "\<forall>d. dv_overlay devices = Some d \<longrightarrow> length (bd_serial d) = BLOCK_SERIAL_LEN"
  shows "snapshot_all b = snapshots"
proof -
  note M = assms(1,2)
  from assms(3)[unfolded bus_restore_iff] obtain root overlay net vsock rng where
    s: "snapshots = root # overlay @ net @ [vsock, rng]"
    and r: "slot_restored GM mem block_ops SlotRoot (dv_root devices) root (bus_root b)"
      "optional_restored GM mem block_ops SlotOverlay (dv_overlay devices) overlay (bus_overlay b)"
      "optional_restored GM mem net_ops SlotNet (dv_net devices) net (bus_net b)"
      "slot_restored GM mem vsock_ops SlotVsock (dv_vsock devices) vsock (bus_vsock b)"
      "slot_restored GM mem rng_ops SlotRng (dv_rng devices) rng (bus_rng b)" by blast
  have "map (snapshot_of block_ops SlotOverlay) (case bus_overlay b of None \<Rightarrow> [] | Some t \<Rightarrow> [t]) = overlay"
    using r(2) assms(5) block_rec.restored_record[OF M] by (auto simp: optional_restored_def split: option.splits)
  moreover have "map (snapshot_of net_ops SlotNet) (case bus_net b of None \<Rightarrow> [] | Some t \<Rightarrow> [t]) = net"
    using r(3) net_rec.restored_record[OF M TrueI] by (auto simp: optional_restored_def split: option.splits)
  ultimately show ?thesis
    using block_rec.restored_record[OF M assms(4) r(1)] vsock_rec.restored_record[OF M TrueI r(4)]
      rng_rec.restored_record[OF M TrueI r(5)] by (simp add: snapshot_all_shape s)
qed

text \<open>The queues of every transport on a bus.\<close>

definition bus_queues :: "('r, 'o, 'n, 'e) mmio_bus \<Rightarrow> queue list" where
  "bus_queues b =
     t_queues (bus_root b) @ (case bus_overlay b of None \<Rightarrow> [] | Some t \<Rightarrow> t_queues t) @
     (case bus_net b of None \<Rightarrow> [] | Some t \<Rightarrow> t_queues t) @ t_queues (bus_vsock b) @ t_queues (bus_rng b)"

lemma optional_record_restored:
  assumes "d = None \<longleftrightarrow> t = None"
    and "\<And>d0 t0. \<lbrakk>d = Some d0; t = Some t0\<rbrakk> \<Longrightarrow> \<exists>t'. slot_restored GM mem VD slot d0 (snapshot_of VD slot t0) t'"
  shows "\<exists>t'. optional_restored GM mem VD slot d
    (map (snapshot_of VD slot) (case t of None \<Rightarrow> [] | Some t \<Rightarrow> [t])) t'"
  using assms by (cases d; cases t) (auto simp: optional_restored_def)

context bus_model
begin

lemma bus_capture_accepted:
  fixes devices :: "('r, 'o, 'n, 'e) bus_devices"
  assumes "valid mem" and inv: "bus_inv E root_content root_ok img over_content over_ok mem b"
    and serial: "length (bd_serial (dv_root devices)) = BLOCK_SERIAL_LEN"
      "\<forall>d. dv_overlay devices = Some d \<longrightarrow> length (bd_serial d) = BLOCK_SERIAL_LEN"
    and set: "devices_set devices = bus_device_set b"
    and root: "block_state_capture (dv_root devices) = block_state_capture (t_device (bus_root b))"
    and overlay: "\<forall>d t. dv_overlay devices = Some d \<and> bus_overlay b = Some t \<longrightarrow>
      block_state_capture d = block_state_capture (t_device t)"
    and link: "\<forall>t. bus_net b = Some t \<longrightarrow> \<not> nd_link_up (t_device t)"
    and synced: "\<forall>q \<in> set (bus_queues b). q_layout q = None \<or> q_layout q = Some (state_layout (queue_state_of q))"
  shows "\<exists>b'. bus_restore (env_memory E) devices (snapshot_all b) mem = Inr b'"
proof -
  note M = rt.guest_memory_axioms assms(1) and I = inv[unfolded bus_inv_def]
  note accept = block_rec.record_restored[OF M] net_rec.record_restored[OF M TrueI]
    vsock_rec.record_restored[OF M TrueI] rng_rec.record_restored[OF M TrueI TrueI]
  have sets: "dv_overlay devices = None \<longleftrightarrow> bus_overlay b = None" "dv_net devices = None \<longleftrightarrow> bus_net b = None"
    using set by (auto simp: devices_set_def bus_device_set_def device_set_new_def)
  obtain tr where tr: "slot_restored (env_memory E) mem block_ops SlotRoot (dv_root devices)
      (snapshot_of block_ops SlotRoot (bus_root b)) tr"
    using accept(1)[where slot=SlotRoot, OF serial(1) root] I synced by (auto simp: bus_queues_def)
  have "\<exists>t'. optional_restored (env_memory E) mem block_ops SlotOverlay (dv_overlay devices)
      (map (snapshot_of block_ops SlotOverlay) (case bus_overlay b of None \<Rightarrow> [] | Some t \<Rightarrow> [t])) t'"
    by (rule optional_record_restored[OF sets(1)], rule accept(1))
      (use I overlay serial(2) synced in \<open>auto simp: bus_queues_def\<close>)
  then obtain to where to: "optional_restored (env_memory E) mem block_ops SlotOverlay (dv_overlay devices)
      (map (snapshot_of block_ops SlotOverlay) (case bus_overlay b of None \<Rightarrow> [] | Some t \<Rightarrow> [t])) to" ..
  have "\<exists>t'. optional_restored (env_memory E) mem net_ops SlotNet (dv_net devices)
      (map (snapshot_of net_ops SlotNet) (case bus_net b of None \<Rightarrow> [] | Some t \<Rightarrow> [t])) t'"
    by (rule optional_record_restored[OF sets(2)], rule accept(2))
      (use I link synced in \<open>auto simp: bus_queues_def\<close>)
  then obtain tn where tn: "optional_restored (env_memory E) mem net_ops SlotNet (dv_net devices)
      (map (snapshot_of net_ops SlotNet) (case bus_net b of None \<Rightarrow> [] | Some t \<Rightarrow> [t])) tn" ..
  obtain tv where tv: "slot_restored (env_memory E) mem vsock_ops SlotVsock (dv_vsock devices)
      (snapshot_of vsock_ops SlotVsock (bus_vsock b)) tv"
    using accept(3)[where slot=SlotVsock and t="bus_vsock b" and fresh="dv_vsock devices"] I synced by (auto simp: bus_queues_def vsock_inv_def)
  obtain tg where tg: "slot_restored (env_memory E) mem rng_ops SlotRng (dv_rng devices)
      (snapshot_of rng_ops SlotRng (bus_rng b)) tg"
    using accept(4)[where slot=SlotRng and t="bus_rng b" and fresh="dv_rng devices"] I synced by (auto simp: bus_queues_def)
  show ?thesis unfolding bus_restore_iff
    by (rule exI[of _ "\<lparr>bus_root = tr, bus_overlay = to, bus_net = tn, bus_vsock = tv, bus_rng = tg\<rparr>"])
      (use tr to tn tv tg in \<open>auto simp: snapshot_all_shape\<close>)
qed

end

section \<open>Starting a bus\<close>

definition devices_ok ::
    "('m, 'r, 'o, 'n, 'e) bus_env \<Rightarrow> ('r \<Rightarrow> u8 list) \<Rightarrow> ('r \<Rightarrow> bool) \<Rightarrow> u8 list \<Rightarrow> ('o \<Rightarrow> u8 list) \<Rightarrow> ('o \<Rightarrow> bool)
     \<Rightarrow> ('r, 'o, 'n, 'e) bus_devices \<Rightarrow> bool" where
  "devices_ok E root_content root_ok img over_content over_ok devices \<longleftrightarrow>
     disk_inv (env_root E) root_content root_ok ImmutableRoot img (dv_root devices) \<and>
     (\<forall>d. dv_overlay devices = Some d \<longrightarrow> disk_inv (env_overlay E) over_content over_ok PrivateOverlay [] d) \<and>
     vsock_inv (dv_vsock devices)"

definition started ::
    "('m, 'r, 'o, 'n, 'e) bus_env \<Rightarrow> 'm \<Rightarrow> 'd virtio_device \<Rightarrow> 'd \<Rightarrow> 'd mmio_transport \<Rightarrow> bool" where
  "started E mem VD d t \<longleftrightarrow>
     transport_new VD d = Inr t \<or> (\<exists>s. transport_restore (env_memory E) VD d s mem = Inr t)"

lemma apply_block:
  assumes "apply_device block_ops slot d s = Inr d'" "block_inv BB store_ok d"
  shows "d' = d"
proof -
  from assms(1) have "restore_state block_ops (ss_device s) d = (Inr (), d')"
    by (auto simp: apply_device_def and_then_Inr_iff split: prod.splits)
  then show ?thesis using assms(2) by (simp add: block_restore_exact block_inv_def)
qed

lemma apply_vsock:
  assumes "apply_device vsock_ops slot d s = Inr d'" "vsock_inv d"
  shows "vsock_inv d'"
proof -
  from assms(1) have "restore_state vsock_ops (ss_device s) d = (Inr (), d')"
    by (auto simp: apply_device_def and_then_Inr_iff split: prod.splits)
  then show ?thesis
    by (auto simp: vsock_ops_def vsock_state_apply_def set_guest_cid_def after_restore_def clear_transient_def
        vsock_inv_def split: if_splits sum.splits)
qed

lemma transpose_map_Inr_iff:
  "transpose_map f v = Inr w \<longleftrightarrow>
     (case v of None \<Rightarrow> w = None | Some a \<Rightarrow> \<exists>b. f a = Inr b \<and> w = Some b)"
  by (auto simp: transpose_map_def and_then_Inr_iff split: option.split)

lemma bus_new_iff:
  "bus_new devices = Inr b \<longleftrightarrow>
     bd_role (dv_root devices) = ImmutableRoot \<and>
     (\<forall>d. dv_overlay devices = Some d \<longrightarrow> bd_role d = PrivateOverlay) \<and>
     transport_new block_ops (dv_root devices) = Inr (bus_root b) \<and>
     transpose_map (transport_new block_ops) (dv_overlay devices) = Inr (bus_overlay b) \<and>
     transpose_map (transport_new net_ops) (dv_net devices) = Inr (bus_net b) \<and>
     transport_new vsock_ops (dv_vsock devices) = Inr (bus_vsock b) \<and>
     transport_new rng_ops (dv_rng devices) = Inr (bus_rng b)"
  by (cases b) (auto simp: bus_new_def and_then_Inr_iff check_role_def transpose_map_Inr_iff bus_transport_def
      split: option.split)

context bus_model
begin

lemma bus_started:
  assumes "valid mem"
    and root: "disk_inv (env_root E) root_content root_ok ImmutableRoot img root" "started E mem block_ops root (bus_root b)"
    and overlay: "\<And>t. bus_overlay b = Some t \<Longrightarrow>
      \<exists>d. disk_inv (env_overlay E) over_content over_ok PrivateOverlay [] d \<and> started E mem block_ops d t"
    and net: "\<And>t. bus_net b = Some t \<Longrightarrow> \<exists>d. started E mem net_ops d t"
    and vsock: "vsock_inv vsock" "started E mem vsock_ops vsock (bus_vsock b)"
    and rng: "started E mem rng_ops rng (bus_rng b)"
  shows "binv (b, mem)"
proof -
  have "ov.tinv mem t \<and> disk_inv (env_overlay E) over_content over_ok PrivateOverlay [] (t_device t)"
    if "bus_overlay b = Some t" for t
  proof -
    from overlay[OF that] obtain d s where
      "disk_inv (env_overlay E) over_content over_ok PrivateOverlay [] d"
      "transport_new block_ops d = Inr t \<or> transport_restore (env_memory E) block_ops d s mem = Inr t"
      by (auto simp: started_def)
    from ov.disk.start_inv[OF assms(1) this] show ?thesis by simp
  qed
  moreover have "nt.tinv mem t" if "bus_net b = Some t" for t
  proof -
    from net[OF that] obtain d s where
      "transport_new net_ops d = Inr t \<or> transport_restore (env_memory E) net_ops d s mem = Inr t"
      by (auto simp: started_def)
    from nt.start_inv[OF assms(1) TrueI this] show ?thesis by simp
  qed
  moreover have "rt.tinv mem (bus_root b) \<and>
      disk_inv (env_root E) root_content root_ok ImmutableRoot img (t_device (bus_root b))"
    using rt.disk.start_inv[OF assms(1) root(1), of "bus_root b"] root(2) by (auto simp: started_def)
  moreover have "vs.tinv mem (bus_vsock b) \<and> vsock_inv (t_device (bus_vsock b))"
    using vs.start_inv[OF assms(1) vsock(1), of "bus_vsock b"] vsock(2) by (auto simp: started_def)
  moreover have "en.tinv mem (bus_rng b)"
    using en.start_inv[OF assms(1) TrueI, of rng "bus_rng b"] rng by (auto simp: started_def)
  ultimately show ?thesis using assms(1) by (simp add: bus_inv_def)
qed

lemma bus_new_inv:
  assumes "valid mem" "devices_ok E root_content root_ok img over_content over_ok devices" "bus_new devices = Inr b"
  shows "binv (b, mem)" "bus_device_set b = devices_set devices"
proof -
  note new = assms(3)[unfolded bus_new_iff transpose_map_Inr_iff] assms(2)[unfolded devices_ok_def]
  show "binv (b, mem)"
    by (rule bus_started[OF assms(1), of "dv_root devices" _ "dv_vsock devices" "dv_rng devices"])
      (use new in \<open>auto simp: started_def split: option.splits\<close>)
  show "bus_device_set b = devices_set devices"
    using new by (auto simp: bus_device_set_def devices_set_def split: option.splits)
qed

lemma bus_restore_inv:
  assumes "valid mem" "devices_ok E root_content root_ok img over_content over_ok devices"
    and "bus_restore (env_memory E) devices snapshots mem = Inr b"
  shows "binv (b, mem)" "bus_device_set b = devices_set devices"
proof -
  note ok = assms(2)[unfolded devices_ok_def]
  from assms(3)[unfolded bus_restore_iff] obtain root overlay net vsock rng where
    r: "slot_restored (env_memory E) mem block_ops SlotRoot (dv_root devices) root (bus_root b)"
      "optional_restored (env_memory E) mem block_ops SlotOverlay (dv_overlay devices) overlay (bus_overlay b)"
      "optional_restored (env_memory E) mem net_ops SlotNet (dv_net devices) net (bus_net b)"
      "slot_restored (env_memory E) mem vsock_ops SlotVsock (dv_vsock devices) vsock (bus_vsock b)"
      "slot_restored (env_memory E) mem rng_ops SlotRng (dv_rng devices) rng (bus_rng b)" by blast
  have block: "started E mem block_ops d t"
    if "slot_restored (env_memory E) mem block_ops slot d s t" "disk_inv BB content store_ok role bs d"
    for slot s t BB content store_ok role bs and d :: "'x block_device"
    using that apply_block[of slot d s _ BB store_ok]
    by (auto simp: slot_restored_def restore_transport_def started_def disk_inv_def)
  obtain vd where vd: "vsock_inv vd" "started E mem vsock_ops vd (bus_vsock b)"
    using r(4) ok apply_vsock[of SlotVsock "dv_vsock devices" vsock]
    by (auto simp: slot_restored_def restore_transport_def started_def)
  obtain rd where rd: "started E mem rng_ops rd (bus_rng b)"
    using r(5) by (auto simp: slot_restored_def restore_transport_def started_def)
  have root: "started E mem block_ops (dv_root devices) (bus_root b)" using block[OF r(1)] ok by blast
  show "binv (b, mem)"
  proof (rule bus_started[OF assms(1) _ root _ _ vd rd])
    show "\<exists>d. disk_inv (env_overlay E) over_content over_ok PrivateOverlay [] d \<and> started E mem block_ops d t"
      if "bus_overlay b = Some t" for t
      using that r(2) ok block by (fastforce simp: optional_restored_def split: option.splits)
    show "\<exists>d. started E mem net_ops d t" if "bus_net b = Some t" for t
      using that r(3) by (auto simp: optional_restored_def slot_restored_def restore_transport_def started_def
          split: option.splits)
  qed (use ok in simp)
  show "bus_device_set b = devices_set devices"
    using r(2,3) by (auto simp: bus_device_set_def devices_set_def optional_restored_def split: option.splits)
qed

end

section \<open>Isolation of the slots\<close>

definition slot_same :: "slot \<Rightarrow> ('r, 'o, 'n, 'e) mmio_bus \<Rightarrow> ('r, 'o, 'n, 'e) mmio_bus \<Rightarrow> bool" where
  "slot_same slot b b' \<longleftrightarrow>
     (case slot of
        SlotRoot \<Rightarrow> bus_root b' = bus_root b
      | SlotOverlay \<Rightarrow> bus_overlay b' = bus_overlay b
      | SlotNet \<Rightarrow> bus_net b' = bus_net b
      | SlotVsock \<Rightarrow> bus_vsock b' = bus_vsock b
      | SlotRng \<Rightarrow> bus_rng b' = bus_rng b)"

lemma slot_same_refl [simp]: "slot_same slot b b"
  by (cases slot) (simp_all add: slot_same_def)

lemma on_slot_same [simp]:
  "other \<noteq> SlotRoot \<Longrightarrow> slot_same other (fst st) (fst (snd (on_root f st)))"
  "other \<noteq> SlotOverlay \<Longrightarrow> slot_same other (fst st) (fst (snd (on_overlay a g st)))"
  "other \<noteq> SlotNet \<Longrightarrow> slot_same other (fst st) (fst (snd (on_net a h st)))"
  "other \<noteq> SlotVsock \<Longrightarrow> slot_same other (fst st) (fst (snd (on_vsock i st)))"
  "other \<noteq> SlotRng \<Longrightarrow> slot_same other (fst st) (fst (snd (on_rng j st)))"
  by (cases other; simp add: slot_same_def on_root_def on_overlay_def on_net_def on_vsock_def on_rng_def Let_def
      case_prod_unfold split: option.split)+

lemma with_slot_same [simp]:
  "other \<noteq> slot \<Longrightarrow> slot_same other (fst st) (fst (snd (with_slot slot f g h i j st)))"
  by (cases slot) (simp_all add: with_slot_def)

lemma on_slot_set [simp]:
  "bus_device_set (fst (snd (on_root f st))) = bus_device_set (fst st)"
  "bus_device_set (fst (snd (on_overlay a g st))) = bus_device_set (fst st)"
  "bus_device_set (fst (snd (on_net a h st))) = bus_device_set (fst st)"
  "bus_device_set (fst (snd (on_vsock i st))) = bus_device_set (fst st)"
  "bus_device_set (fst (snd (on_rng j st))) = bus_device_set (fst st)"
  by (simp_all add: bus_device_set_def on_root_def on_overlay_def on_net_def on_vsock_def on_rng_def Let_def
      case_prod_unfold split: option.split)

lemma with_slot_set [simp]:
  "bus_device_set (fst (snd (with_slot slot f g h i j st))) = bus_device_set (fst st)"
  by (cases slot) (simp_all add: with_slot_def)

lemma pending_loop_set:
  "bus_device_set (fst (snd (pending_loop GM pairs pending st))) = bus_device_set (fst st)"
proof (induction GM pairs pending st rule: pending_loop.induct)
  case (2 GM slot index rest pending st)
  obtain q st' where w: "with_slot slot (pending_in GM index) (pending_in GM index) (pending_in GM index)
      (pending_in GM index) (pending_in GM index) st = (q, st')" by (meson surj_pair)
  then have "bus_device_set (fst st') = bus_device_set (fst st)"
    using with_slot_set[of slot "pending_in GM index" "pending_in GM index" "pending_in GM index"
        "pending_in GM index" "pending_in GM index" st] by simp
  then show ?case using 2 w by (auto simp: Let_def split: option.split sum.split)
qed simp

lemma host_step_set: "host_step E over_ok b b' \<Longrightarrow> bus_device_set b' = bus_device_set b"
  by (induction rule: host_step.induct) (auto simp: bus_device_set_def)

lemma bus_step_set: "bus_step E valid over_ok st st' \<Longrightarrow> bus_device_set (fst st') = bus_device_set (fst st)"
proof (induction rule: bus_step.induct)
  case (bus_read st gpa width)
  then show ?case by (simp add: dispatch_read_def Let_def case_prod_unfold split: option.split)
next
  case (bus_write st gpa width v)
  then show ?case by (simp add: dispatch_write_def Let_def case_prod_unfold split: option.split)
next
  case (bus_serviced st slot queue budget)
  then show ?case by (cases slot) (simp_all add: bus_service_def Let_def)
next
  case (bus_delivered st slot budget)
  then show ?case by (cases slot) (simp_all add: deliver_inbound_def Let_def)
qed (simp_all add: pending_work_def pending_loop_set host_step_set)

lemma bus_reach_set:
  "(bus_step E valid over_ok)\<^sup>*\<^sup>* st st' \<Longrightarrow> bus_device_set (fst st') = bus_device_set (fst st)"
  by (induction rule: rtranclp_induct) (auto dest: bus_step_set)

section \<open>A concrete bus\<close>

definition sample_env ::
    "(vec_guest_memory, memory_backend, memory_backend, loopback, u8 list) bus_env" where
  "sample_env = \<lparr>env_memory = vec_ops, env_root = memory_ops, env_overlay = memory_ops, env_net = loopback_ops,
     env_entropy = os_entropy_fill file_read_exact\<rparr>"

definition sample_overlay :: "memory_backend block_device" where
  "sample_overlay = sample_disk\<lparr>bd_role := PrivateOverlay, bd_backend := memory_zeroed 2 False\<rparr>"

definition sample_devices :: "(memory_backend, memory_backend, loopback, u8 list) bus_devices" where
  "sample_devices = \<lparr>dv_root = sample_disk, dv_overlay = Some sample_overlay,
     dv_net = Some (net_new empty_loopback (2, 0, 0, 0, 0, 1)), dv_vsock = sample_vsock, dv_rng = idle_rng\<rparr>"

text \<open>A transport whose driver has finished its initialisation.\<close>

definition running :: "'d virtio_device \<Rightarrow> 'd \<Rightarrow> 'd mmio_transport" where
  "running VD d =
     \<lparr>t_device = d, t_queues = map (\<lambda>mx. sample_queue\<lparr>q_max_size := mx\<rparr>) (queue_max_sizes VD d), t_status = 15,
      t_device_features_sel = 0, t_driver_features_sel = 1, t_driver_features = VIRTIO_F_VERSION_1,
      t_queue_sel = 0, t_interrupt_status = 0, t_config_generation = 0, t_violations = replicate 17 0\<rparr>"

definition running_bus :: "(memory_backend, memory_backend, loopback, u8 list) mmio_bus" where
  "running_bus = \<lparr>bus_root = running block_ops sample_disk, bus_overlay = Some (running block_ops sample_overlay),
     bus_net = Some (running net_ops (net_new empty_loopback (2, 0, 0, 0, 0, 1))),
     bus_vsock = running vsock_ops sample_vsock, bus_rng = running rng_ops idle_rng\<rparr>"

interpretation sample: bus_model sample_env vec_valid vec_byte mb_bytes "\<lambda>_. True" img mb_bytes "\<lambda>_. True" for img
  using vec_heap.block_service_axioms vec_net.net_service_axioms vec_vsock.vsock_service_axioms vec_rng.rng_service_axioms
  by (intro bus_model.intro disk_service.intro) (simp_all add: sample_env_def)

lemma running_device [simp]: "t_device (running VD d) = d"
  by (simp add: running_def)

lemma running_inv:
  assumes "set (queue_max_sizes VD d) \<subseteq> {64, 256}" "VIRTIO_F_VERSION_1 AND NOT (feature_allowlist VD d) = 0"
  shows "transport_inv vec_ops VD sample_memory (running VD d)"
  using assms sample_queue_64 sample_queue_256 status_15
  by (auto simp: transport_inv_def running_def features_accepted_def comp_def)

lemma sample_devices_ok:
  "devices_ok sample_env mb_bytes (\<lambda>_. True) (replicate 1024 7) mb_bytes (\<lambda>_. True) sample_devices"
  using sample_disk_inv sample_vsock_ok(1)
  by (simp add: devices_ok_def sample_devices_def disk_inv_def sample_env_def block_inv_def sample_overlay_def
      sample_disk_def memory_ops_def memory_capacity_def memory_zeroed_def role_read_only_def)

lemma running_bus_inv:
  "bus_inv sample_env mb_bytes (\<lambda>_. True) (replicate 1024 7) mb_bytes (\<lambda>_. True) sample_memory running_bus"
proof -
  have "transport_inv vec_ops block_ops sample_memory (running block_ops sample_disk)"
    "transport_inv vec_ops block_ops sample_memory (running block_ops sample_overlay)"
    by (rule running_inv; simp add: block_ops_def sample_disk_def sample_overlay_def role_features_def)+
  moreover have "transport_inv vec_ops net_ops sample_memory (running net_ops d)"
    for d :: "loopback net_device" by (rule running_inv) (simp_all add: net_ops_def)
  moreover have "transport_inv vec_ops vsock_ops sample_memory (running vsock_ops d)" for d
    by (rule running_inv) (simp_all add: vsock_ops_def)
  moreover have "transport_inv vec_ops rng_ops sample_memory (running rng_ops idle_rng)"
    by (rule running_inv) (simp_all add: rng_ops_def)
  ultimately show ?thesis using sample_devices_ok
    by (simp add: bus_inv_def running_bus_def sample_env_def devices_ok_def sample_devices_def)
qed

lemma sample_serials:
  "length (bd_serial (dv_root sample_devices)) = BLOCK_SERIAL_LEN"
  "\<forall>d. dv_overlay sample_devices = Some d \<longrightarrow> length (bd_serial d) = BLOCK_SERIAL_LEN"
  by (simp_all add: sample_devices_def sample_disk_def sample_overlay_def)

lemma running_bus_fresh:
  "devices_set sample_devices = bus_device_set running_bus"
  "block_state_capture (dv_root sample_devices) = block_state_capture (t_device (bus_root running_bus))"
  "\<forall>d t. dv_overlay sample_devices = Some d \<and> bus_overlay running_bus = Some t \<longrightarrow>
     block_state_capture d = block_state_capture (t_device t)"
  "\<forall>t. bus_net running_bus = Some t \<longrightarrow> \<not> nd_link_up (t_device t)"
  "\<forall>q \<in> set (bus_queues running_bus). q_layout q = None \<or> q_layout q = Some (state_layout (queue_state_of q))"
  by (auto simp: devices_set_def bus_device_set_def sample_devices_def running_bus_def net_new_def)
    (auto simp: bus_queues_def running_def sample_queue_def sample_layout_def state_layout_def queue_state_of_def)

lemma running_bus_restores:
  "\<exists>b. bus_restore vec_ops sample_devices (snapshot_all running_bus) sample_memory = Inr b"
  using sample.bus_capture_accepted[OF sample_valid running_bus_inv sample_serials running_bus_fresh]
  by (simp add: sample_env_def)

section \<open>Properties\<close>

text \<open>
  C1: Whatever a guest and the host do to a bus that was built or restored from sound devices,
  every transport and device on it keeps its invariant, the image behind the immutable root is
  the one it started with, and the set of devices does not change. The steps are guest reads and
  writes at any address and of any width, stores to guest memory, servicing and delivery of any
  queue, counting of pending work, and the host operations on the disks, the link and the stream.
\<close>

theorem bus_reach_invariant:
  assumes "bus_model E valid byte root_content root_ok over_content over_ok" "valid mem"
    and "devices_ok E root_content root_ok img over_content over_ok devices"
    and "bus_new devices = Inr b \<or> bus_restore (env_memory E) devices snapshots mem = Inr b"
    and "(bus_step E valid over_ok)\<^sup>*\<^sup>* (b, mem) (b', mem')"
  shows "bus_inv E root_content root_ok img over_content over_ok mem' b' \<and>
    root_content (bd_backend (t_device (bus_root b'))) = img \<and> bus_device_set b' = devices_set devices"
proof -
  have "valid mem \<and> bus_inv E root_content root_ok img over_content over_ok mem b"
    and set: "bus_device_set b = devices_set devices"
    using assms(4) bus_model.bus_new_inv[OF assms(1-3), of b]
      bus_model.bus_restore_inv[OF assms(1-3), of snapshots b] by auto
  then have "bus_inv E root_content root_ok img over_content over_ok mem' b'"
    using bus_model.bus_reach_inv[OF assms(1,5)] by simp
  then show ?thesis using bus_reach_set[OF assms(5)] set by (simp add: bus_inv_def disk_inv_def)
qed

theorem bus_reach_invariant_witness:
  "\<exists>b b'. bus_new sample_devices = Inr b \<and>
     b' = fst (snd (dispatch_write vec_ops 0xd0000070 W32 1 (b, sample_memory))) \<and>
     mb_bytes (bd_backend (t_device (bus_root b'))) = replicate 1024 7 \<and>
     bus_device_set b' = devices_set sample_devices"
proof -
  obtain tr tov tn tv tg where t: "transport_new block_ops sample_disk = Inr tr"
    "transport_new block_ops sample_overlay = Inr tov"
    "transport_new net_ops (net_new empty_loopback (2, 0, 0, 0, 0, 1)) = Inr tn"
    "transport_new vsock_ops sample_vsock = Inr tv" "transport_new rng_ops idle_rng = Inr tg"
    using block_rec.startable net_rec.startable vsock_rec.startable rng_rec.startable by metis
  let ?b = "\<lparr>bus_root = tr, bus_overlay = Some tov, bus_net = Some tn, bus_vsock = tv, bus_rng = tg\<rparr>"
  let ?st = "snd (dispatch_write (env_memory sample_env) 0xd0000070 W32 1 (?b, sample_memory))"
  have b: "bus_new sample_devices = Inr ?b"
    using t by (simp add: bus_new_iff transpose_map_Inr_iff sample_devices_def) (simp add: sample_disk_def sample_overlay_def)
  have "(bus_step sample_env vec_valid (\<lambda>_. True))\<^sup>*\<^sup>* (?b, sample_memory) (fst ?st, snd ?st)"
    unfolding prod.collapse by (rule r_into_rtranclp, rule bus_step.bus_write)
  from bus_reach_invariant[OF sample.bus_model_axioms sample_valid sample_devices_ok disjI1[OF b] this]
  show ?thesis using b by (auto simp: sample_env_def)
qed



text \<open>
  C31: A bus is restored only from records that name exactly the present slots in table order,
  and capturing the restored bus gives back those very records, transport state and device
  bytes alike.
\<close>

theorem bus_restore_recaptures:
  assumes "guest_memory GM valid byte" "valid mem" "bus_restore GM devices snapshots mem = Inr b"
    and "length (bd_serial (dv_root devices)) = BLOCK_SERIAL_LEN"
    and "\<forall>d. dv_overlay devices = Some d \<longrightarrow> length (bd_serial d) = BLOCK_SERIAL_LEN"
  shows "map ss_slot snapshots = present (devices_set devices) \<and> snapshot_all b = snapshots"
  using bus_restore_snapshot[OF assms] assms(3) by (simp add: bus_restore_stages)

theorem bus_restore_recaptures_witness:
  "\<exists>b. bus_restore vec_ops sample_devices (snapshot_all running_bus) sample_memory = Inr b \<and>
     map ss_slot (snapshot_all running_bus) = ALL_SLOTS \<and> snapshot_all b = snapshot_all running_bus"
proof -
  obtain b where b: "bus_restore vec_ops sample_devices (snapshot_all running_bus) sample_memory = Inr b"
    using running_bus_restores by blast
  from bus_restore_recaptures[OF vec.guest_memory_axioms sample_valid b sample_serials] b
  show ?thesis by (auto simp: present_def devices_set_def sample_devices_def set_has_def device_set_new_def ALL_SLOTS_def)
qed

text \<open>
  C3: A captured bus can be restored: with the network link lowered and every queue still holding
  the geometry it was activated with, fresh devices with the same disk identities accept the
  records, whatever the stage each driver had reached, and the restored bus captures as before.
\<close>

theorem bus_capture_restores:
  fixes devices :: "('r, 'o, 'n, 'e) bus_devices" and b :: "('r, 'o, 'n, 'e) mmio_bus"
  assumes "bus_model E valid byte root_content root_ok over_content over_ok" "valid mem"
    and "bus_inv E root_content root_ok img over_content over_ok mem b"
    and "length (bd_serial (dv_root devices)) = BLOCK_SERIAL_LEN"
    and "\<forall>d. dv_overlay devices = Some d \<longrightarrow> length (bd_serial d) = BLOCK_SERIAL_LEN"
    and "devices_set devices = bus_device_set b"
    and "block_state_capture (dv_root devices) = block_state_capture (t_device (bus_root b))"
    and "\<forall>d t. dv_overlay devices = Some d \<and> bus_overlay b = Some t \<longrightarrow>
      block_state_capture d = block_state_capture (t_device t)"
    and "\<forall>t. bus_net b = Some t \<longrightarrow> \<not> nd_link_up (t_device t)"
    and "\<forall>q \<in> set (bus_queues b). q_layout q = None \<or> q_layout q = Some (state_layout (queue_state_of q))"
  shows "\<exists>b'. bus_restore (env_memory E) devices (snapshot_all b) mem = Inr b' \<and> snapshot_all b' = snapshot_all b"
proof -
  obtain b' where b': "bus_restore (env_memory E) devices (snapshot_all b) mem = Inr b'"
    using bus_model.bus_capture_accepted[OF assms] by blast
  have "guest_memory (env_memory E) valid byte"
    using assms(1) by (simp add: bus_model_def net_service_def)
  from bus_restore_snapshot[OF this assms(2) b' assms(4,5)] b' show ?thesis by blast
qed

theorem bus_capture_restores_witness:
  "\<exists>b. bus_restore vec_ops sample_devices (snapshot_all running_bus) sample_memory = Inr b \<and>
     snapshot_all b = snapshot_all running_bus"
  using bus_capture_restores[OF sample.bus_model_axioms sample_valid running_bus_inv sample_serials running_bus_fresh]
  by (simp add: sample_env_def)

end
