(* ===== verification/Wire.thy ===== *)
theory Wire
  imports Prelude
begin

text \<open>
  The big-endian primitives every snapshot codec is built from
  (\<open>soma-kvm/src/snapshot/wire.rs\<close> and \<open>digest.rs\<close>). A \<open>Writer\<close> is the bytes written so far and a
  \<open>Reader\<close> the bytes not yet read; the position of the source is the part already dropped. An
  array \<open>[u8; N]\<close> is a list of that length. The locale \<open>wire_codec\<close> is the contract of a
  \<open>write\<close>/\<open>read\<close> pair: a value is read exactly where its own encoding stands.
\<close>

named_theorems wire_simps \<open>when a reader succeeds\<close>
named_theorems write_simps \<open>what a writer appends\<close>

section \<open>Big-endian integers\<close>

definition be_bytes :: "nat \<Rightarrow> 'a::len word \<Rightarrow> u8 list" where
  "be_bytes n w = rev (le_bytes n w)"

definition be_word :: "u8 list \<Rightarrow> 'a::len word" where
  "be_word bs = le_word (rev bs)"

lemma length_be_bytes [simp]: "length (be_bytes n w) = n"
  by (simp add: be_bytes_def)

lemma be_word_iff:
  assumes "LENGTH('a::len) = 8 * n"
  shows "length bs = n \<and> be_word bs = (w :: 'a word) \<longleftrightarrow> bs = be_bytes n w"
  using assms le_bytes_le_word[of "rev bs" n, where 'a='a] le_word_le_bytes[of n w]
  by (auto simp: be_word_def be_bytes_def)

lemma be_bytes_inject [simp]:
  "be_bytes 2 (a :: u16) = be_bytes 2 a' \<longleftrightarrow> a = a'"
  "be_bytes 4 (b :: u32) = be_bytes 4 b' \<longleftrightarrow> b = b'"
  "be_bytes 8 (c :: u64) = be_bytes 8 c' \<longleftrightarrow> c = c'"
  by (auto simp: be_bytes_def dest: arg_cong[of _ _ le_word])
    (metis le_word_roundtrip)+

section \<open>Errors and writers\<close>

datatype wire_error =
    WireTruncated nat nat
  | InvalidPresence u8
  | LengthExceedsBound u64 u64
  | TrailingBytes nat

type_synonym writer = "u8 list"
type_synonym reader = "u8 list"
type_synonym ('e, 'a) reading = "reader \<Rightarrow> ('e, 'a, reader) mut_result"

definition put_u8 :: "u8 \<Rightarrow> writer \<Rightarrow> writer" where
  "put_u8 v w = w @ [v]"

definition put_u16 :: "u16 \<Rightarrow> writer \<Rightarrow> writer" where
  "put_u16 v w = w @ be_bytes 2 v"

definition put_u32 :: "u32 \<Rightarrow> writer \<Rightarrow> writer" where
  "put_u32 v w = w @ be_bytes 4 v"

definition put_u64 :: "u64 \<Rightarrow> writer \<Rightarrow> writer" where
  "put_u64 v w = w @ be_bytes 8 v"

text \<open>An \<open>i64\<close> is its two's complement bits.\<close>

definition put_i64 :: "u64 \<Rightarrow> writer \<Rightarrow> writer" where
  "put_i64 v w = w @ be_bytes 8 v"

definition put_bytes :: "u8 list \<Rightarrow> writer \<Rightarrow> writer" where
  "put_bytes v w = w @ v"

text \<open>\<open>u8::from(present)\<close>.\<close>

definition presence_byte :: "bool \<Rightarrow> u8" where
  "presence_byte present = (if present then 1 else 0)"

lemma presence_byte_inject [simp]: "presence_byte p = presence_byte q \<longleftrightarrow> p = q"
  by (simp add: presence_byte_def)

definition put_presence :: "bool \<Rightarrow> writer \<Rightarrow> writer" where
  "put_presence present w = w @ [presence_byte present]"

lemmas put_defs [write_simps] =
  put_u8_def put_u16_def put_u32_def put_u64_def put_i64_def put_bytes_def put_presence_def

text \<open>A sequence of writes, in the order of the source.\<close>

definition writes :: "(writer \<Rightarrow> writer) list \<Rightarrow> writer \<Rightarrow> writer" where
  "writes fs w = fold (\<lambda>f w. f w) fs w"

lemma writes_simps [write_simps]: "writes [] w = w" "writes (f # fs) w = writes fs (f w)"
  by (simp_all add: writes_def)

section \<open>Readers\<close>

definition read_take :: "nat \<Rightarrow> (wire_error, u8 list) reading" where
  "read_take len r =
     (let available = length r in
      if available < len then (Inl (WireTruncated len available), r) else (Inr (take len r), drop len r))"

definition read_array :: "nat \<Rightarrow> (wire_error, u8 list) reading" where
  "read_array n r = read_take n r"

definition reader_u8 :: "(wire_error, u8) reading" where
  "reader_u8 r = try_then (read_array 1 r) (\<lambda>a r. (Inr (a ! 0), r))"

definition reader_u16 :: "(wire_error, u16) reading" where
  "reader_u16 r = try_then (read_array 2 r) (\<lambda>a r. (Inr (be_word a), r))"

definition reader_u32 :: "(wire_error, u32) reading" where
  "reader_u32 r = try_then (read_array 4 r) (\<lambda>a r. (Inr (be_word a), r))"

definition reader_u64 :: "(wire_error, u64) reading" where
  "reader_u64 r = try_then (read_array 8 r) (\<lambda>a r. (Inr (be_word a), r))"

definition reader_i64 :: "(wire_error, u64) reading" where
  "reader_i64 r = try_then (read_array 8 r) (\<lambda>a r. (Inr (be_word a), r))"

definition read_presence :: "(wire_error, bool) reading" where
  "read_presence r =
     try_then (reader_u8 r) (\<lambda>b r.
       if b = 0 then (Inr False, r) else if b = 1 then (Inr True, r) else (Inl (InvalidPresence b), r))"

definition bounded :: "u64 \<Rightarrow> u64 \<Rightarrow> wire_error + unit" where
  "bounded len bound = (if bound < len then Inl (LengthExceedsBound len bound) else Inr ())"

definition count_u16 :: "u16 \<Rightarrow> (wire_error, u16) reading" where
  "count_u16 bound r =
     try_then (reader_u16 r) (\<lambda>count r.
     try_then (bounded (ucast count) (ucast bound), r) (\<lambda>_ r. (Inr count, r)))"

text \<open>The conversion to \<open>usize\<close> cannot fail on the 64-bit hosts the program supports.\<close>

definition length_u32 :: "u32 \<Rightarrow> (wire_error, nat) reading" where
  "length_u32 bound r =
     try_then (reader_u32 r) (\<lambda>len r.
     try_then (bounded (ucast len) (ucast bound), r) (\<lambda>_ r. (Inr (unat len), r)))"

definition bounded_u32 :: "u32 \<Rightarrow> (wire_error, u8 list) reading" where
  "bounded_u32 bound r = try_then (length_u32 bound r) (\<lambda>len r. read_take len r)"

definition read_finish :: "reader \<Rightarrow> wire_error + unit" where
  "read_finish r = (if length r = 0 then Inr () else Inl (TrailingBytes (length r)))"

text \<open>The error conversion of \<open>?\<close>, and the loop that reads a given number of entries.\<close>

definition from_err :: "('e \<Rightarrow> 'f) \<Rightarrow> ('e, 'a) reading \<Rightarrow> ('f, 'a) reading" where
  "from_err f rd r = (let (v, r) = rd r in (map_err f v, r))"

primrec read_many :: "nat \<Rightarrow> ('e, 'a) reading \<Rightarrow> ('e, 'a list) reading" where
  "read_many 0 rd r = (Inr [], r)"
| "read_many (Suc n) rd r =
     try_then (rd r) (\<lambda>x r. try_then (read_many n rd r) (\<lambda>xs r. (Inr (x # xs), r)))"

section \<open>When a reader succeeds\<close>

lemma read_take_iff [wire_simps]:
  "read_take n r = (Inr bs, r') \<longleftrightarrow> length bs = n \<and> r = bs @ r'"
  by (auto simp: read_take_def Let_def)

lemma read_array_iff [wire_simps]:
  "read_array n r = (Inr bs, r') \<longleftrightarrow> length bs = n \<and> r = bs @ r'"
  by (simp add: read_array_def read_take_iff)

lemma read_word_iff:
  assumes "LENGTH('a::len) = 8 * n"
  shows "try_then (read_array n r) (\<lambda>a r. (Inr (be_word a :: 'a word), r)) = (Inr v, r') \<longleftrightarrow>
    r = be_bytes n v @ r'"
  using be_word_iff[OF assms] by (fastforce simp: try_then_Inr_iff read_array_iff)

lemma read_ints_iff [wire_simps]:
  "reader_u8 r = (Inr a, r') \<longleftrightarrow> r = a # r'"
  "reader_u16 r = (Inr b, r') \<longleftrightarrow> r = be_bytes 2 b @ r'"
  "reader_u32 r = (Inr c, r') \<longleftrightarrow> r = be_bytes 4 c @ r'"
  "reader_u64 r = (Inr d, r') \<longleftrightarrow> r = be_bytes 8 d @ r'"
  "reader_i64 r = (Inr d, r') \<longleftrightarrow> r = be_bytes 8 d @ r'"
proof -
  show "reader_u8 r = (Inr a, r') \<longleftrightarrow> r = a # r'"
    by (auto simp: reader_u8_def try_then_Inr_iff read_array_iff length_Suc_conv)
qed (simp_all add: reader_u16_def reader_u32_def reader_u64_def reader_i64_def read_word_iff)

lemma read_presence_iff [wire_simps]:
  "read_presence r = (Inr p, r') \<longleftrightarrow> r = presence_byte p # r'"
proof -
  have "(if b = 0 then (Inr False, s) else if b = 1 then (Inr True, s) else (Inl (InvalidPresence b), s)) = (Inr p, r') \<longleftrightarrow>
      b = presence_byte p \<and> s = r'" for b s by (auto simp: presence_byte_def)
  then show ?thesis by (simp add: read_presence_def try_then_Inr_iff wire_simps)
qed

lemma bounded_iff [simp]: "bounded len bound = Inr u \<longleftrightarrow> len \<le> bound"
  by (auto simp: bounded_def)

lemma count_u16_iff [wire_simps]:
  "count_u16 bound r = (Inr n, r') \<longleftrightarrow> n \<le> bound \<and> r = be_bytes 2 n @ r'"
  by (auto simp: count_u16_def try_then_Inr_iff wire_simps word_le_nat_alt unat_ucast_up)

lemma length_u32_iff [wire_simps]:
  "length_u32 bound r = (Inr n, r') \<longleftrightarrow>
     n \<le> unat bound \<and> r = be_bytes 4 (of_nat n :: u32) @ r'"
proof -
  have "n \<le> unat bound \<Longrightarrow> unat (of_nat n :: u32) = n"
    using unat_u32_less[of bound] by (simp add: unsigned_of_nat take_bit_nat_eq_self)
  then show ?thesis
    by (auto simp: length_u32_def try_then_Inr_iff wire_simps word_le_nat_alt unat_ucast_up)
qed

lemma bounded_u32_iff [wire_simps]:
  "bounded_u32 bound r = (Inr bs, r') \<longleftrightarrow>
     length bs \<le> unat bound \<and> r = be_bytes 4 (of_nat (length bs) :: u32) @ bs @ r'"
  by (auto simp: bounded_u32_def try_then_Inr_iff wire_simps)

lemma read_finish_iff [simp]: "read_finish r = Inr u \<longleftrightarrow> r = []"
  by (simp add: read_finish_def)

lemma from_err_iff [wire_simps]: "from_err f rd r = (Inr x, r') \<longleftrightarrow> rd r = (Inr x, r')"
  by (cases "rd r") (auto simp: from_err_def)

lemma fst_Inr_iff: "fst m = Inr x \<longleftrightarrow> (\<exists>r. m = (Inr x, r))"
  by (cases m) auto

text \<open>Reading back what was written.\<close>

lemma read_back:
  "reader_u8 (a # r) = (Inr a, r)" "reader_u16 (be_bytes 2 b @ r) = (Inr b, r)"
  "reader_u32 (be_bytes 4 c @ r) = (Inr c, r)" "reader_u64 (be_bytes 8 d @ r) = (Inr d, r)"
  "length bs = n \<Longrightarrow> read_array n (bs @ r) = (Inr bs, r)" "length bs = n \<Longrightarrow> read_take n (bs @ r) = (Inr bs, r)"
  "n \<le> unat bound \<Longrightarrow> length_u32 bound (be_bytes 4 (of_nat n :: u32) @ r) = (Inr n, r)"
  "n' \<le> bound' \<Longrightarrow> count_u16 bound' (be_bytes 2 n' @ r) = (Inr n', r)" "read_finish [] = Inr ()"
  by (simp_all add: wire_simps)

lemma refuse_iff [wire_simps]:
  "(if c then (Inl e, s) else m) = (Inr x, r) \<longleftrightarrow> \<not> c \<and> m = (Inr x, r)"
  by simp

lemma either_iff: "(if c then m else n) = (Inr x, r) \<longleftrightarrow> c \<and> m = (Inr x, r) \<or> \<not> c \<and> n = (Inr x, r)"
  by simp

text \<open>Lengths as counted fields: \<open>u64::try_from(len).unwrap_or(u64::MAX)\<close> and its narrower forms with a default.\<close>

definition u64_len :: "nat \<Rightarrow> u64" where
  "u64_len n = (if n < 2 ^ 64 then of_nat n else - 1)"

definition u32_len_or :: "u32 \<Rightarrow> nat \<Rightarrow> u32" where
  "u32_len_or other n = (if n < 2 ^ 32 then of_nat n else other)"

definition u16_len_or :: "u16 \<Rightarrow> nat \<Rightarrow> u16" where
  "u16_len_or other n = (if n < 2 ^ 16 then of_nat n else other)"

section \<open>The contract of a codec\<close>

text \<open>A write only appends; a sequence of such writes is the concatenation of what each appends.\<close>

named_theorems appends_simps

definition appends :: "(writer \<Rightarrow> writer) \<Rightarrow> bool" where
  "appends f \<longleftrightarrow> (\<forall>w. f w = w @ f [])"

lemma appendsI: "(\<And>w. f w = w @ f []) \<Longrightarrow> appends f"
  unfolding appends_def by blast

lemma appendsD: "appends f \<Longrightarrow> f w = w @ f []"
  unfolding appends_def by blast

lemma writes_flat: "list_all appends fs \<Longrightarrow> writes fs w = w @ concat (map (\<lambda>f. f []) fs)"
proof (induction fs arbitrary: w)
  case (Cons f fs)
  then have "f w = w @ f []" by (intro appendsD) simp
  then show ?case using Cons.IH[of "f w"] Cons.prems by (simp add: writes_simps)
qed (simp add: writes_simps)

lemma appends_puts [appends_simps]:
  "appends (put_u8 a)" "appends (put_u16 b)" "appends (put_u32 c)" "appends (put_u64 d)" "appends (put_i64 e)"
  "appends (put_bytes bs)" "appends (put_presence p)" "appends id"
  by (rule appendsI; simp add: write_simps)+

locale wire_codec =
  fixes enc :: "'a \<Rightarrow> writer \<Rightarrow> writer" and dec :: "('e, 'a) reading" and ok :: "'a \<Rightarrow> bool"
  assumes enc_append: "enc x w = w @ enc x []"
    and dec_iff: "dec r = (Inr x, r') \<longleftrightarrow> ok x \<and> r = enc x [] @ r'"
begin

lemma enc_many: "fold enc xs w = w @ fold enc xs []"
proof (induction xs arbitrary: w)
  case (Cons x xs)
  show ?case using Cons[of "enc x w"] Cons[of "enc x []"] enc_append[of x w] by simp
qed simp

lemma appends_enc [appends_simps]: "appends (enc x)" "appends (fold enc xs)"
  by (rule appendsI, rule enc_append) (rule appendsI, rule enc_many)

lemma enc_Cons: "fold enc (x # xs) [] = enc x [] @ fold enc xs []"
  using enc_many[of xs "enc x []"] by simp

lemma read_many_iff:
  "read_many n dec r = (Inr xs, r') \<longleftrightarrow> length xs = n \<and> list_all ok xs \<and> r = fold enc xs [] @ r'"
proof (induction n arbitrary: r xs r')
  case (Suc n)
  show ?case
    by (cases xs) (auto simp: try_then_Inr_iff dec_iff Suc enc_many[of _ "enc _ []"])
qed auto

lemma dec_back: "ok x \<Longrightarrow> dec (enc x [] @ r) = (Inr x, r)"
  by (simp add: dec_iff)

lemma many_back: "\<lbrakk>length xs = n; list_all ok xs\<rbrakk> \<Longrightarrow> read_many n dec (fold enc xs [] @ r) = (Inr xs, r)"
  by (simp add: read_many_iff)

lemma from_err_codec: "wire_codec enc (from_err f dec) ok"
  by unfold_locales (rule enc_append, simp add: wire_simps dec_iff)

text \<open>A table behind a bounded 16-bit count.\<close>

lemma table_iff:
  "try_then (from_err f (count_u16 bound) r) (\<lambda>count r. try_then (read_many (unat count) dec r) k) = (Inr y, r') \<longleftrightarrow>
     (\<exists>xs s. length xs \<le> unat bound \<and> list_all ok xs \<and>
        r = be_bytes 2 (of_nat (length xs) :: u16) @ fold enc xs [] @ s \<and> k xs s = (Inr y, r'))"
proof -
  have count: "unat (of_nat (length xs) :: u16) = length xs" if "length xs \<le> unat bound" for xs :: "'a list"
    using that unat_u16_less[of bound] by (simp add: unsigned_of_nat take_bit_nat_eq_self)
  have "(\<exists>c :: u16. c \<le> bound \<and> r = be_bytes 2 c @ s \<and> length xs = unat c) \<longleftrightarrow>
      length xs \<le> unat bound \<and> r = be_bytes 2 (of_nat (length xs) :: u16) @ s" for xs :: "'a list" and s
    using count by (auto simp: word_le_nat_alt)
  then show ?thesis by (simp add: try_then_Inr_iff wire_simps read_many_iff) blast
qed

text \<open>A structure read as an array of its fields.\<close>

lemma struct_codec:
  assumes "\<And>x. length (fields x) = n" "\<And>x. build (fields x) = x"
    and "\<And>xs. length xs = n \<Longrightarrow> fields (build xs) = xs"
  shows "wire_codec (\<lambda>x. fold enc (fields x)) (\<lambda>r. try_then (read_many n dec r) (\<lambda>xs r. (Inr (build xs), r)))
    (\<lambda>x. list_all ok (fields x))"
proof unfold_locales
  fix x w
  show "fold enc (fields x) w = w @ fold enc (fields x) []" by (rule enc_many)
next
  fix r x r'
  show "try_then (read_many n dec r) (\<lambda>xs r. (Inr (build xs), r)) = (Inr x, r') \<longleftrightarrow>
      list_all ok (fields x) \<and> r = fold enc (fields x) [] @ r'"
    using assms by (auto simp: try_then_Inr_iff read_many_iff)
qed

lemma enc_inj: "\<lbrakk>ok x; ok y; enc x [] = enc y []\<rbrakk> \<Longrightarrow> x = y"
  using dec_iff[of "enc x []" x "[]"] dec_iff[of "enc x []" y "[]"] by simp

end

interpretation u8c: wire_codec put_u8 reader_u8 "\<lambda>_. True"
  by unfold_locales (simp_all add: write_simps wire_simps)

interpretation u16c: wire_codec put_u16 reader_u16 "\<lambda>_. True"
  by unfold_locales (simp_all add: write_simps wire_simps)

interpretation u32c: wire_codec put_u32 reader_u32 "\<lambda>_. True"
  by unfold_locales (simp_all add: write_simps wire_simps)

interpretation u64c: wire_codec put_u64 reader_u64 "\<lambda>_. True"
  by unfold_locales (simp_all add: write_simps wire_simps)

interpretation arrayc: wire_codec put_bytes "read_array n" "\<lambda>bs. length bs = n" for n
  by unfold_locales (simp_all add: write_simps wire_simps)

interpretation presencec: wire_codec put_presence read_presence "\<lambda>_. True"
  by unfold_locales (simp_all add: write_simps wire_simps)

text \<open>A list of known length is the list of its elements.\<close>

lemma list_eq_nths: "length xs = n \<Longrightarrow> map (nth xs) [0..<n] = xs"
  using map_nth[of xs] by simp

text \<open>The first entry whose key an earlier one has: the duplicate check of the bounded tables.\<close>

fun first_duplicate :: "('a \<Rightarrow> 'k) \<Rightarrow> 'k list \<Rightarrow> 'a list \<Rightarrow> 'a option" where
  "first_duplicate key seen [] = None"
| "first_duplicate key seen (x # xs) =
     (if key x \<in> set seen then Some x else first_duplicate key (seen @ [key x]) xs)"

lemma first_duplicate_None:
  "first_duplicate key seen xs = None \<longleftrightarrow> distinct (map key xs) \<and> set seen \<inter> key ` set xs = {}"
  by (induction key seen xs rule: first_duplicate.induct) auto

lemma first_duplicate_case:
  "(case first_duplicate key [] xs of None \<Rightarrow> Inr v | Some e \<Rightarrow> Inl (f e)) = Inr x \<longleftrightarrow> distinct (map key xs) \<and> x = v"
  using first_duplicate_None[of key "[]" xs] by (auto split: option.splits)

text \<open>The first adjacent pair that does not ascend strictly: the order check over \<open>windows(2)\<close>.\<close>

fun first_descent :: "u16 list \<Rightarrow> (u16 \<times> u16) option" where
  "first_descent (previous # next # rest) =
     (if next \<le> previous then Some (previous, next) else first_descent (next # rest))"
| "first_descent _ = None"

lemma first_descent_None: "first_descent codes = None \<longleftrightarrow> sorted_wrt (<) codes"
proof (induction codes rule: first_descent.induct)
  case (1 previous n rest)
  then show ?case by (auto simp: not_le intro: order.strict_trans)
qed simp_all

lemma first_descent_case:
  "(case first_descent codes of Some (p, n) \<Rightarrow> Inl (f p n) | None \<Rightarrow> m) = Inr x \<longleftrightarrow> sorted_wrt (<) codes \<and> m = Inr x"
  using first_descent_None[of codes] by (auto split: option.splits)

section \<open>Digests\<close>

text \<open>
  The hash itself is the \<open>sha2\<close> crate's and so a parameter of everything below: a function of
  bytes of which only the length of its results is used.
\<close>

abbreviation (input) DIGEST_LEN :: nat where "DIGEST_LEN \<equiv> 32"

type_synonym digest = "u8 list"

definition digest_is_zero :: "digest \<Rightarrow> bool" where
  "digest_is_zero d \<longleftrightarrow> list_all (\<lambda>byte. byte = 0) d"

end
