(* ===== verification/SnapSection.thy ===== *)
theory SnapSection
  imports Wire
begin

text \<open>
  The sections of a snapshot manifest (\<open>soma-kvm/src/snapshot/section.rs\<close>): roles, construction,
  encoding and the decoder of an ascending sequence of digest-covered sections.
\<close>

section \<open>Roles\<close>

abbreviation (input) SECTION_VERSION :: u16 where "SECTION_VERSION \<equiv> 1"
abbreviation (input) MAX_SECTION_BYTES :: u32 where "MAX_SECTION_BYTES \<equiv> 0x100000"
abbreviation (input) MAX_SECTIONS :: u16 where "MAX_SECTIONS \<equiv> 32"
abbreviation (input) FLAG_CRITICAL :: u8 where "FLAG_CRITICAL \<equiv> 1"

datatype section_role =
    RoleVmState | RoleVcpu0 | RoleIrqchip | RoleIrqRouting | RoleKvmClock | RolePit
  | RoleDevice0 | RoleDevice1 | RoleDevice2 | RoleDevice3 | RoleDevice4 | RoleRepairPointMarker

definition ALL_ROLES :: "section_role list" where
  "ALL_ROLES = [RoleVmState, RoleVcpu0, RoleIrqchip, RoleIrqRouting, RoleKvmClock, RolePit,
     RoleDevice0, RoleDevice1, RoleDevice2, RoleDevice3, RoleDevice4, RoleRepairPointMarker]"

fun role_code :: "section_role \<Rightarrow> u16" where
  "role_code RoleVmState = 0x0001"
| "role_code RoleVcpu0 = 0x0002"
| "role_code RoleIrqchip = 0x0003"
| "role_code RoleIrqRouting = 0x0004"
| "role_code RoleKvmClock = 0x0005"
| "role_code RolePit = 0x0006"
| "role_code RoleDevice0 = 0x0010"
| "role_code RoleDevice1 = 0x0011"
| "role_code RoleDevice2 = 0x0012"
| "role_code RoleDevice3 = 0x0013"
| "role_code RoleDevice4 = 0x0014"
| "role_code RoleRepairPointMarker = 0x0020"

definition role_from_code :: "u16 \<Rightarrow> section_role option" where
  "role_from_code code = List.find (\<lambda>role. role_code role = code) ALL_ROLES"

definition role_is_required :: "section_role \<Rightarrow> bool" where
  "role_is_required role \<longleftrightarrow> role \<notin> {RolePit, RoleDevice1, RoleDevice2}"

fun role_device_slot :: "section_role \<Rightarrow> u8 option" where
  "role_device_slot RoleDevice0 = Some 0"
| "role_device_slot RoleDevice1 = Some 1"
| "role_device_slot RoleDevice2 = Some 2"
| "role_device_slot RoleDevice3 = Some 3"
| "role_device_slot RoleDevice4 = Some 4"
| "role_device_slot _ = None"

section \<open>Sections\<close>

datatype section_error =
    SectionWire wire_error
  | SectionPayloadTooLarge u64
  | UnknownCriticalRole u16
  | SectionUnsupportedVersion u16 u16
  | ReservedFlags u8
  | KnownRoleNotCritical section_role
  | SectionDigestMismatch u16
  | RoleOrder u16 u16

record snap_section =
  sec_role :: section_role
  sec_payload :: "u8 list"

definition section_new :: "section_role \<Rightarrow> u8 list \<Rightarrow> section_error + snap_section" where
  "section_new role payload =
     (let len = u64_len (length payload) in
      if ucast MAX_SECTION_BYTES < len then Inl (SectionPayloadTooLarge len)
      else Inr \<lparr>sec_role = role, sec_payload = payload\<rparr>)"

definition section_digest :: "(u8 list \<Rightarrow> digest) \<Rightarrow> snap_section \<Rightarrow> digest" where
  "section_digest sha s = sha (sec_payload s)"

definition section_encode :: "(u8 list \<Rightarrow> digest) \<Rightarrow> snap_section \<Rightarrow> writer \<Rightarrow> writer" where
  "section_encode sha s =
     writes [put_u16 (role_code (sec_role s)), put_u16 SECTION_VERSION, put_u8 FLAG_CRITICAL,
       put_u32 (u32_len_or MAX_SECTION_BYTES (length (sec_payload s))),
       put_bytes (section_digest sha s), put_bytes (sec_payload s)]"

definition decode_body :: "(u8 list \<Rightarrow> digest) \<Rightarrow> u16 \<Rightarrow> (section_error, snap_section option) reading" where
  "decode_body sha code r =
     try_then (from_err SectionWire reader_u16 r) (\<lambda>version r.
     try_then (from_err SectionWire reader_u8 r) (\<lambda>flags r.
     if flags AND NOT FLAG_CRITICAL \<noteq> 0 then (Inl (ReservedFlags flags), r)
     else
       let critical = (flags AND FLAG_CRITICAL \<noteq> 0); role = role_from_code code in
       try_then
         (case role of
            Some known \<Rightarrow>
              if version \<noteq> SECTION_VERSION then (Inl (SectionUnsupportedVersion code version), r)
              else if \<not> critical then (Inl (KnownRoleNotCritical known), r) else (Inr (), r)
          | None \<Rightarrow> if critical then (Inl (UnknownCriticalRole code), r) else (Inr (), r)) (\<lambda>_ r.
       try_then (from_err SectionWire (length_u32 MAX_SECTION_BYTES) r) (\<lambda>len r.
       try_then (from_err SectionWire (read_array DIGEST_LEN) r) (\<lambda>expected r.
       try_then (from_err SectionWire (read_take len) r) (\<lambda>payload r.
       if sha payload \<noteq> expected then (Inl (SectionDigestMismatch code), r)
       else (Inr (map_option (\<lambda>role. \<lparr>sec_role = role, sec_payload = payload\<rparr>) role), r)))))))"

primrec decode_sequence ::
    "(u8 list \<Rightarrow> digest) \<Rightarrow> nat \<Rightarrow> u16 option \<Rightarrow> (section_error, snap_section list) reading" where
  "decode_sequence sha 0 previous r = (Inr [], r)"
| "decode_sequence sha (Suc count) previous r =
     try_then (from_err SectionWire reader_u16 r) (\<lambda>code r.
     try_then
       (case previous of
          Some previous \<Rightarrow> if code \<le> previous then (Inl (RoleOrder previous code), r) else (Inr (), r)
        | None \<Rightarrow> (Inr (), r)) (\<lambda>_ r.
     try_then (decode_body sha code r) (\<lambda>section r.
     try_then (decode_sequence sha count (Some code) r) (\<lambda>rest r.
     (Inr (case section of Some s \<Rightarrow> s # rest | None \<Rightarrow> rest), r)))))"

section \<open>What the decoder accepts\<close>

text \<open>An entry as it stands in the file, known or not.\<close>

record entry =
  en_code :: u16
  en_version :: u16
  en_flags :: u8
  en_payload :: "u8 list"

definition entry_bytes :: "(u8 list \<Rightarrow> digest) \<Rightarrow> entry \<Rightarrow> u8 list" where
  "entry_bytes sha e =
     be_bytes 2 (en_code e) @ be_bytes 2 (en_version e) @ [en_flags e] @
     be_bytes 4 (of_nat (length (en_payload e)) :: u32) @ sha (en_payload e) @ en_payload e"

definition entry_ok :: "entry \<Rightarrow> bool" where
  "entry_ok e \<longleftrightarrow>
     length (en_payload e) \<le> 2 ^ 20 \<and>
     (if role_from_code (en_code e) = None then en_flags e = 0 else en_version e = 1 \<and> en_flags e = 1)"

definition entry_section :: "entry \<Rightarrow> snap_section option" where
  "entry_section e = map_option (\<lambda>role. \<lparr>sec_role = role, sec_payload = en_payload e\<rparr>) (role_from_code (en_code e))"

definition section_entry :: "snap_section \<Rightarrow> entry" where
  "section_entry s = \<lparr>en_code = role_code (sec_role s), en_version = 1, en_flags = 1, en_payload = sec_payload s\<rparr>"

text \<open>Codes strictly above the previous one, and strictly ascending.\<close>

fun ascends :: "u16 option \<Rightarrow> u16 list \<Rightarrow> bool" where
  "ascends previous [] \<longleftrightarrow> True"
| "ascends previous (code # codes) \<longleftrightarrow> (\<forall>p. previous = Some p \<longrightarrow> p < code) \<and> ascends (Some code) codes"

lemma ascends_iff: "ascends previous codes \<longleftrightarrow> sorted_wrt (<) codes \<and> (\<forall>p. previous = Some p \<longrightarrow> (\<forall>c \<in> set codes. p < c))"
proof (induction previous codes rule: ascends.induct)
  case (2 previous code codes)
  then show ?case by (auto intro: order.strict_trans)
qed simp

lemma role_from_code_code [simp]: "role_from_code (role_code role) = Some role"
  by (cases role) (simp_all add: role_from_code_def ALL_ROLES_def)

lemma role_from_code_Some: "role_from_code code = Some role \<longleftrightarrow> code = role_code role"
proof
  assume "role_from_code code = Some role"
  then show "code = role_code role" unfolding role_from_code_def find_Some_iff by auto
qed simp

lemma section_entry_section [simp]: "entry_section (section_entry s) = Some s"
  by (simp add: entry_section_def section_entry_def)

lemma flag_cases: "(flags :: u8) AND - 2 = 0 \<longleftrightarrow> flags = 0 \<or> flags = 1"
proof
  assume h: "flags AND - 2 = 0"
  have "(- 2 :: u8) = NOT 1" by simp
  then have "flags = (flags AND - 2) OR (flags AND 1)" by (intro bit_word_eqI) (auto simp: bit_simps)
  then have "flags = flags AND 1" using h by simp
  then show "flags = 0 \<or> flags = 1" by (metis and_one_eq of_bool_def mod_2_eq_odd)
qed auto

lemma decode_body_fields:
  assumes "\<And>bs. length (sha bs) = 32"
  shows "decode_body sha code r = (Inr s, r') \<longleftrightarrow>
    (\<exists>(version :: u16) flags payload. length payload \<le> 2 ^ 20 \<and>
      (if role_from_code code = None then flags = 0 else version = 1 \<and> flags = 1) \<and>
      r = be_bytes 2 version @ [flags] @ be_bytes 4 (of_nat (length payload) :: u32) @ sha payload @ payload @ r' \<and>
      s = map_option (\<lambda>role. \<lparr>sec_role = role, sec_payload = payload\<rparr>) (role_from_code code))" (is "?L \<longleftrightarrow> ?R")
proof
  assume L: ?L
  show ?R
  proof (cases "role_from_code code")
    case None
    with L obtain version :: u16 and payload where "length payload \<le> 2 ^ 20" "s = None"
      "r = be_bytes 2 version @ [0] @ be_bytes 4 (of_nat (length payload) :: u32) @ sha payload @ payload @ r'"
      by (auto simp: decode_body_def Let_def try_then_Inr_iff wire_simps flag_cases simp del: if_split)
    with None show ?thesis by auto
  next
    case (Some role)
    with L obtain payload where "length payload \<le> 2 ^ 20" "s = Some \<lparr>sec_role = role, sec_payload = payload\<rparr>"
      "r = be_bytes 2 (1 :: u16) @ [1] @ be_bytes 4 (of_nat (length payload) :: u32) @ sha payload @ payload @ r'"
      by (auto simp: decode_body_def Let_def try_then_Inr_iff wire_simps flag_cases simp del: if_split)
    with Some show ?thesis by auto
  qed
next
  assume ?R
  then show ?L
    by (cases "role_from_code code")
      (auto simp: decode_body_def from_err_def read_back assms)
qed

lemma decode_body_iff:
  assumes "\<And>bs. length (sha bs) = 32"
  shows "decode_body sha code r = (Inr s, r') \<longleftrightarrow>
    (\<exists>e. en_code e = code \<and> entry_ok e \<and> be_bytes 2 code @ r = entry_bytes sha e @ r' \<and> s = entry_section e)"
proof -
  have "decode_body sha code r = (Inr s, r') \<longleftrightarrow>
    (\<exists>(version :: u16) flags payload. length payload \<le> 2 ^ 20 \<and>
      (if role_from_code code = None then flags = 0 else version = 1 \<and> flags = 1) \<and>
      r = be_bytes 2 version @ [flags] @ be_bytes 4 (of_nat (length payload) :: u32) @ sha payload @ payload @ r' \<and>
      s = map_option (\<lambda>role. \<lparr>sec_role = role, sec_payload = payload\<rparr>) (role_from_code code))"
    by (rule decode_body_fields[OF assms])
  also have "\<dots> \<longleftrightarrow> (\<exists>e. en_code e = code \<and> entry_ok e \<and> be_bytes 2 code @ r = entry_bytes sha e @ r' \<and> s = entry_section e)"
    (is "?L \<longleftrightarrow> ?R")
  proof
    assume ?L
    then obtain version :: u16 and flags payload where "length payload \<le> 2 ^ 20 \<and>
        (if role_from_code code = None then flags = 0 else version = 1 \<and> flags = 1) \<and>
        r = be_bytes 2 version @ [flags] @ be_bytes 4 (of_nat (length payload) :: u32) @ sha payload @ payload @ r' \<and>
        s = map_option (\<lambda>role. \<lparr>sec_role = role, sec_payload = payload\<rparr>) (role_from_code code)" by blast
    then show ?R
      by (intro exI[of _ "\<lparr>en_code = code, en_version = version, en_flags = flags, en_payload = payload\<rparr>"])
        (simp add: entry_ok_def entry_bytes_def entry_section_def)
  next
    assume ?R
    then obtain e where e: "en_code e = code" "entry_ok e" "be_bytes 2 code @ r = entry_bytes sha e @ r'" "s = entry_section e"
      by blast
    from e(3) have "r = be_bytes 2 (en_version e) @ [en_flags e] @ be_bytes 4 (of_nat (length (en_payload e)) :: u32) @
        sha (en_payload e) @ en_payload e @ r'"
      unfolding entry_bytes_def e(1) append_assoc same_append_eq .
    then show ?L using e(2) unfolding e(4) entry_section_def e(1) entry_ok_def by blast
  qed
  finally show ?thesis .
qed

lemma decode_sequence_iff:
  assumes "\<And>bs. length (sha bs) = 32"
  shows "decode_sequence sha n previous r = (Inr sections, r') \<longleftrightarrow>
    (\<exists>es. length es = n \<and> ascends previous (map en_code es) \<and> list_all entry_ok es \<and>
      r = concat (map (entry_bytes sha) es) @ r' \<and> sections = List.map_filter entry_section es)"
proof (induction n arbitrary: previous r sections r')
  case (Suc n)
  have "decode_sequence sha (Suc n) previous r = (Inr sections, r') \<longleftrightarrow>
      (\<exists>code rest s mid sections'. r = be_bytes 2 code @ rest \<and> (\<forall>p. previous = Some p \<longrightarrow> p < code) \<and>
        decode_body sha code rest = (Inr s, mid) \<and> decode_sequence sha n (Some code) mid = (Inr sections', r') \<and>
        sections = (case s of Some s \<Rightarrow> s # sections' | None \<Rightarrow> sections'))"
    by (cases previous) (auto simp: try_then_Inr_iff wire_simps not_le split: if_splits)
  also have "\<dots> \<longleftrightarrow> (\<exists>e es. length es = n \<and> ascends previous (map en_code (e # es)) \<and> list_all entry_ok (e # es) \<and>
      r = concat (map (entry_bytes sha) (e # es)) @ r' \<and> sections = List.map_filter entry_section (e # es))" (is "?L \<longleftrightarrow> ?R")
  proof
    assume ?L
    then show ?R unfolding decode_body_iff[OF assms] Suc
      by (fastforce simp: map_filter_simps split: option.splits)
  next
    assume ?R
    then obtain e es where e: "length es = n" "ascends previous (map en_code (e # es))" "list_all entry_ok (e # es)"
      "r = concat (map (entry_bytes sha) (e # es)) @ r'" "sections = List.map_filter entry_section (e # es)" by blast
    define rest where "rest = drop 2 (entry_bytes sha e) @ concat (map (entry_bytes sha) es) @ r'"
    have split: "entry_bytes sha e = be_bytes 2 (en_code e) @ drop 2 (entry_bytes sha e)"
      by (simp add: entry_bytes_def)
    show ?L
      unfolding decode_body_iff[OF assms] Suc
      by (rule exI[of _ "en_code e"], rule exI[of _ rest], rule exI[of _ "entry_section e"],
          rule exI[of _ "concat (map (entry_bytes sha) es) @ r'"], rule exI[of _ "List.map_filter entry_section es"])
        (use e split in \<open>auto simp: rest_def map_filter_simps split: option.split\<close>)
  qed
  also have "\<dots> \<longleftrightarrow> (\<exists>es. length es = Suc n \<and> ascends previous (map en_code es) \<and> list_all entry_ok es \<and>
      r = concat (map (entry_bytes sha) es) @ r' \<and> sections = List.map_filter entry_section es)"
    by (simp only: length_Suc_conv) blast
  finally show ?case .
qed (auto simp: map_filter_simps)

lemma section_encode_entry:
  assumes "length (sec_payload s) \<le> 2 ^ 20"
  shows "section_encode sha s w = w @ entry_bytes sha (section_entry s)" "entry_ok (section_entry s)"
  using assms by (simp_all add: section_encode_def write_simps entry_bytes_def section_entry_def section_digest_def
      u32_len_or_def entry_ok_def)

end
