(* ===== verification/SnapManifest.thy ===== *)
theory SnapManifest
  imports SnapSection
begin

text \<open>
  The snapshot manifest (\<open>soma-kvm/src/snapshot/manifest.rs\<close> with \<open>manifest/host.rs\<close> and
  \<open>manifest/header.rs\<close>) and the descriptor of its memory object (\<open>memory.rs\<close>).
\<close>

section \<open>Memory descriptor\<close>

abbreviation (input) MAX_MEMORY_BYTES :: u64 where "MAX_MEMORY_BYTES \<equiv> 3 * 1024 * 1024 * 1024"

datatype memory_error =
    MemWire wire_error
  | MemZeroSize
  | SizeExceedsBound u64 u64
  | NotPageAligned u64 u32
  | MemZeroDigest
  | MemSizeMismatch u64 u64
  | MemDigestMismatch digest digest

record memory_descriptor =
  md_digest :: digest
  md_size :: u64

definition memory_new :: "digest \<Rightarrow> u64 \<Rightarrow> u32 \<Rightarrow> memory_error + memory_descriptor" where
  "memory_new digest sz page_size =
     (if sz = 0 then Inl MemZeroSize
      else if MAX_MEMORY_BYTES < sz then Inl (SizeExceedsBound sz MAX_MEMORY_BYTES)
      else if page_size = 0 \<or> sz mod ucast page_size \<noteq> 0 then Inl (NotPageAligned sz page_size)
      else if digest_is_zero digest then Inl MemZeroDigest
      else Inr \<lparr>md_digest = digest, md_size = sz\<rparr>)"

definition verify_length :: "memory_descriptor \<Rightarrow> u64 \<Rightarrow> memory_error + unit" where
  "verify_length d actual = (if actual = md_size d then Inr () else Inl (MemSizeMismatch (md_size d) actual))"

definition verify_generation :: "memory_descriptor \<Rightarrow> digest \<Rightarrow> u64 \<Rightarrow> memory_error + unit" where
  "verify_generation d digest sz =
     and_then (verify_length d sz) (\<lambda>_.
     if digest = md_digest d then Inr () else Inl (MemDigestMismatch (md_digest d) digest))"

definition verify_bytes :: "(u8 list \<Rightarrow> digest) \<Rightarrow> memory_descriptor \<Rightarrow> u8 list \<Rightarrow> memory_error + unit" where
  "verify_bytes sha d bytes =
     and_then (verify_length d (u64_len (length bytes))) (\<lambda>_.
     let actual = sha bytes in
     if actual = md_digest d then Inr () else Inl (MemDigestMismatch (md_digest d) actual))"

definition memory_encode :: "memory_descriptor \<Rightarrow> writer \<Rightarrow> writer" where
  "memory_encode d = writes [put_bytes (md_digest d), put_u64 (md_size d)]"

definition memory_decode :: "u32 \<Rightarrow> (memory_error, memory_descriptor) reading" where
  "memory_decode page_size r =
     try_then (from_err MemWire (read_array DIGEST_LEN) r) (\<lambda>digest r.
     try_then (from_err MemWire reader_u64 r) (\<lambda>size r. (memory_new digest size page_size, r)))"

definition memory_ok :: "u32 \<Rightarrow> memory_descriptor \<Rightarrow> bool" where
  "memory_ok page_size d \<longleftrightarrow> length (md_digest d) = 32 \<and> \<not> digest_is_zero (md_digest d) \<and>
     0 < unat (md_size d) \<and> unat (md_size d) \<le> 3 * 2 ^ 30 \<and> page_size \<noteq> 0 \<and> unat page_size dvd unat (md_size d)"

lemma size_mod_page: "sz mod ucast page = 0 \<longleftrightarrow> unat page dvd unat sz" for sz :: u64 and page :: u32
  by (simp add: word_unat_eq_iff unat_mod unat_ucast_up dvd_eq_mod_eq_0)

lemma memory_new_iff:
  "length digest = 32 \<Longrightarrow>
   memory_new digest sz page_size = Inr d \<longleftrightarrow> d = \<lparr>md_digest = digest, md_size = sz\<rparr> \<and> memory_ok page_size d"
  by (auto simp: memory_new_def memory_ok_def size_mod_page word_le_nat_alt word_less_nat_alt unat_gt_0)

interpretation memory_codec: wire_codec memory_encode "memory_decode page_size" "memory_ok page_size" for page_size
proof unfold_locales
  fix d r r'
  have "length (md_digest d) = 32" if "memory_ok page_size d" using that by (simp add: memory_ok_def)
  then show "memory_decode page_size r = (Inr d, r') \<longleftrightarrow> memory_ok page_size d \<and> r = memory_encode d [] @ r'"
    by (cases d) (auto simp: memory_decode_def memory_encode_def try_then_Inr_iff wire_simps write_simps memory_new_iff)
qed (simp add: memory_encode_def write_simps)

section \<open>Host requirements\<close>

abbreviation (input) MAX_REQUIRED_CAPABILITIES :: u16 where "MAX_REQUIRED_CAPABILITIES \<equiv> 32"

datatype host_capability =
    CapUserMemory | CapIrqChip | CapIrqFd | CapIoEventFd | CapImmediateExit | CapXsave | CapXcrs | CapVcpuEvents
  | CapMpState | CapNestedState | CapAdjustClock | CapSetTssAddr | CapPit2

definition ALL_CAPABILITIES :: "host_capability list" where
  "ALL_CAPABILITIES = [CapUserMemory, CapIrqChip, CapIrqFd, CapIoEventFd, CapImmediateExit, CapXsave, CapXcrs,
     CapVcpuEvents, CapMpState, CapNestedState, CapAdjustClock, CapSetTssAddr, CapPit2]"

fun capability_code :: "host_capability \<Rightarrow> u16" where
  "capability_code CapUserMemory = 1"
| "capability_code CapIrqChip = 2"
| "capability_code CapIrqFd = 3"
| "capability_code CapIoEventFd = 4"
| "capability_code CapImmediateExit = 5"
| "capability_code CapXsave = 6"
| "capability_code CapXcrs = 7"
| "capability_code CapVcpuEvents = 8"
| "capability_code CapMpState = 9"
| "capability_code CapNestedState = 10"
| "capability_code CapAdjustClock = 11"
| "capability_code CapSetTssAddr = 12"
| "capability_code CapPit2 = 13"

definition capability_from_code :: "u16 \<Rightarrow> host_capability option" where
  "capability_from_code code = List.find (\<lambda>cap. capability_code cap = code) ALL_CAPABILITIES"

datatype host_requirements_error =
    TooManyCapabilities u16
  | UnknownCapability u16
  | CapabilityOrder u16 u16
  | ZeroMemorySlots

record host_requirements =
  hr_kvm_api_version :: u32
  hr_capabilities :: "host_capability list"
  hr_min_memory_slots :: u16

definition host_new :: "u32 \<Rightarrow> host_capability list \<Rightarrow> u16 \<Rightarrow> host_requirements_error + host_requirements" where
  "host_new kvm_api_version capabilities min_memory_slots =
     (if unat MAX_REQUIRED_CAPABILITIES < length capabilities
        then Inl (TooManyCapabilities (u16_len_or (- 1) (length capabilities)))
      else case first_descent (map capability_code capabilities) of
        Some (previous, next) \<Rightarrow> Inl (CapabilityOrder previous next)
      | None \<Rightarrow>
          if min_memory_slots = 0 then Inl ZeroMemorySlots
          else Inr \<lparr>hr_kvm_api_version = kvm_api_version, hr_capabilities = capabilities,
            hr_min_memory_slots = min_memory_slots\<rparr>)"

datatype manifest_error =
    MfWire wire_error
  | BadMagic
  | UnsupportedSchemaVersion u16
  | UnknownArchitecture u16
  | InvalidPageSize u32
  | ZeroCandidateId
  | MfHostRequirements host_requirements_error
  | MfMemory memory_error
  | ZeroVcpuCount
  | TooManySections u16
  | MfSection section_error
  | MissingRequiredSection section_role

text \<open>The bodies of the two loops over capabilities.\<close>

definition capability_write :: "host_capability \<Rightarrow> writer \<Rightarrow> writer" where
  "capability_write cap = put_u16 (capability_code cap)"

definition capability_read :: "(manifest_error, host_capability) reading" where
  "capability_read r =
     try_then (from_err MfWire reader_u16 r) (\<lambda>code r.
     (ok_or (MfHostRequirements (UnknownCapability code)) (capability_from_code code), r))"

definition host_encode :: "host_requirements \<Rightarrow> writer \<Rightarrow> writer" where
  "host_encode h =
     writes [put_u32 (hr_kvm_api_version h), put_u16 (u16_len_or (- 1) (length (hr_capabilities h))),
       fold capability_write (hr_capabilities h), put_u16 (hr_min_memory_slots h)]"

definition host_decode :: "(manifest_error, host_requirements) reading" where
  "host_decode r =
     try_then (from_err MfWire reader_u32 r) (\<lambda>kvm_api_version r.
     try_then (from_err MfWire (count_u16 MAX_REQUIRED_CAPABILITIES) r) (\<lambda>count r.
     try_then (read_many (unat count) capability_read r) (\<lambda>capabilities r.
     try_then (from_err MfWire reader_u16 r) (\<lambda>min_memory_slots r.
     (map_err MfHostRequirements (host_new kvm_api_version capabilities min_memory_slots), r)))))"

definition host_ok :: "host_requirements \<Rightarrow> bool" where
  "host_ok h \<longleftrightarrow> length (hr_capabilities h) \<le> 32 \<and> sorted_wrt (<) (map capability_code (hr_capabilities h)) \<and>
     hr_min_memory_slots h \<noteq> 0"

lemma capability_from_code_Some: "capability_from_code code = Some cap \<longleftrightarrow> code = capability_code cap"
proof
  assume "capability_from_code code = Some cap"
  then show "code = capability_code cap" unfolding capability_from_code_def find_Some_iff by auto
next
  assume "code = capability_code cap"
  then show "capability_from_code code = Some cap"
    by (cases cap) (simp_all add: capability_from_code_def ALL_CAPABILITIES_def)
qed

interpretation capability_codec: wire_codec capability_write capability_read "\<lambda>_. True"
  by unfold_locales
    (auto simp: capability_read_def capability_write_def try_then_Inr_iff wire_simps write_simps ok_or_Inr_iff
      capability_from_code_Some)

lemma host_new_iff:
  "host_new v caps slots = Inr h \<longleftrightarrow>
     h = \<lparr>hr_kvm_api_version = v, hr_capabilities = caps, hr_min_memory_slots = slots\<rparr> \<and> host_ok h"
  by (auto simp: host_new_def host_ok_def first_descent_case)

interpretation host_codec: wire_codec host_encode host_decode host_ok
proof unfold_locales
  fix h r r'
  have "host_encode h [] = be_bytes 4 (hr_kvm_api_version h) @ be_bytes 2 (of_nat (length (hr_capabilities h)) :: u16) @
      fold capability_write (hr_capabilities h) [] @ be_bytes 2 (hr_min_memory_slots h)"
    if "length (hr_capabilities h) \<le> 32"
    using that by (simp add: host_encode_def writes_flat appends_simps) (simp add: write_simps u16_len_or_def)
  then show "host_decode r = (Inr h, r') \<longleftrightarrow> host_ok h \<and> r = host_encode h [] @ r'"
    unfolding host_decode_def try_then_Inr_iff[of "from_err MfWire reader_u32 r"] capability_codec.table_iff
    by (cases h) (auto simp: try_then_Inr_iff wire_simps map_err_Inr_iff host_new_iff list_all_iff host_ok_def)
qed (simp add: host_encode_def writes_flat appends_simps)

section \<open>Header\<close>

datatype architecture = X86_64

fun architecture_code :: "architecture \<Rightarrow> u16" where
  "architecture_code X86_64 = 1"

definition architecture_from_code :: "u16 \<Rightarrow> architecture option" where
  "architecture_from_code code = (if code = 1 then Some X86_64 else None)"

text \<open>The newtypes \<open>PageSize\<close> and \<open>CandidateId\<close> are their contents; \<open>new\<close> is their only constructor.\<close>

definition page_size_new :: "u32 \<Rightarrow> manifest_error + u32" where
  "page_size_new v = (if is_power_of_two v \<and> 4096 \<le> v \<and> v \<le> 0x40000000 then Inr v else Inl (InvalidPageSize v))"

definition candidate_id_new :: "u8 list \<Rightarrow> manifest_error + u8 list" where
  "candidate_id_new bytes = (if list_all (\<lambda>byte. byte = 0) bytes then Inl ZeroCandidateId else Inr bytes)"

record manifest_header =
  mh_architecture :: architecture
  mh_page_size :: u32
  mh_candidate_id :: "u8 list"
  mh_machine_contract :: digest
  mh_device_contract :: digest
  mh_cpu_template :: digest
  mh_host :: host_requirements
  mh_memory :: memory_descriptor
  mh_vcpu_count :: u16
  mh_guest_protocol_version :: u16

definition header_encode :: "manifest_header \<Rightarrow> writer \<Rightarrow> writer" where
  "header_encode h =
     writes [put_u16 (architecture_code (mh_architecture h)), put_u32 (mh_page_size h), put_bytes (mh_candidate_id h),
       put_bytes (mh_machine_contract h), put_bytes (mh_device_contract h), put_bytes (mh_cpu_template h),
       host_encode (mh_host h), memory_encode (mh_memory h), put_u16 (mh_vcpu_count h),
       put_u16 (mh_guest_protocol_version h)]"

abbreviation (input) man_u16 where "man_u16 \<equiv> from_err MfWire reader_u16"
abbreviation (input) man_digest where "man_digest \<equiv> from_err MfWire (read_array DIGEST_LEN)"

definition header_decode :: "(manifest_error, manifest_header) reading" where
  "header_decode r =
     try_then (man_u16 r) (\<lambda>architecture_code r.
     try_then (ok_or (UnknownArchitecture architecture_code) (architecture_from_code architecture_code), r) (\<lambda>architecture r.
     try_then (from_err MfWire reader_u32 r) (\<lambda>page r.
     try_then (page_size_new page, r) (\<lambda>page_size r.
     try_then (from_err MfWire (read_array 32) r) (\<lambda>candidate r.
     try_then (candidate_id_new candidate, r) (\<lambda>candidate_id r.
     try_then (man_digest r) (\<lambda>machine_contract r.
     try_then (man_digest r) (\<lambda>device_contract r.
     try_then (man_digest r) (\<lambda>cpu_template r.
     try_then (host_decode r) (\<lambda>host r.
     try_then (from_err MfMemory (memory_decode page_size) r) (\<lambda>memory r.
     try_then (man_u16 r) (\<lambda>vcpu_count r.
     if vcpu_count = 0 then (Inl ZeroVcpuCount, r)
     else
       try_then (man_u16 r) (\<lambda>guest_protocol_version r.
       (Inr \<lparr>mh_architecture = architecture, mh_page_size = page_size, mh_candidate_id = candidate_id,
          mh_machine_contract = machine_contract, mh_device_contract = device_contract, mh_cpu_template = cpu_template,
          mh_host = host, mh_memory = memory, mh_vcpu_count = vcpu_count,
          mh_guest_protocol_version = guest_protocol_version\<rparr>, r))))))))))))))"

definition header_ok :: "manifest_header \<Rightarrow> bool" where
  "header_ok h \<longleftrightarrow>
     is_power_of_two (mh_page_size h) \<and> 4096 \<le> mh_page_size h \<and> mh_page_size h \<le> 2 ^ 30 \<and>
     length (mh_candidate_id h) = 32 \<and> \<not> list_all (\<lambda>byte. byte = 0) (mh_candidate_id h) \<and>
     length (mh_machine_contract h) = 32 \<and> length (mh_device_contract h) = 32 \<and> length (mh_cpu_template h) = 32 \<and>
     host_ok (mh_host h) \<and> memory_ok (mh_page_size h) (mh_memory h) \<and> mh_vcpu_count h \<noteq> 0"

lemma architecture_from_code_Some: "architecture_from_code code = Some a \<longleftrightarrow> code = architecture_code a"
  by (cases a) (simp add: architecture_from_code_def)

lemma page_size_new_Inr: "page_size_new v = Inr p \<longleftrightarrow> p = v \<and> is_power_of_two v \<and> 4096 \<le> v \<and> v \<le> 2 ^ 30"
  by (auto simp: page_size_new_def)

lemma candidate_id_new_Inr: "candidate_id_new v = Inr c \<longleftrightarrow> c = v \<and> \<not> list_all (\<lambda>byte. byte = 0) v"
  by (auto simp: candidate_id_new_def)

interpretation header_codec: wire_codec header_encode header_decode header_ok
proof unfold_locales
  fix h r r'
  have "header_encode h [] = be_bytes 2 (architecture_code (mh_architecture h)) @ be_bytes 4 (mh_page_size h) @
      mh_candidate_id h @ mh_machine_contract h @ mh_device_contract h @ mh_cpu_template h @ host_encode (mh_host h) [] @
      memory_encode (mh_memory h) [] @ be_bytes 2 (mh_vcpu_count h) @ be_bytes 2 (mh_guest_protocol_version h)"
    by (simp add: header_encode_def writes_flat appends_simps) (simp add: put_u16_def put_u32_def put_bytes_def)
  then show "header_decode r = (Inr h, r') \<longleftrightarrow> header_ok h \<and> r = header_encode h [] @ r'"
    by (cases h) (auto simp: header_decode_def header_ok_def try_then_Inr_iff wire_simps ok_or_Inr_iff page_size_new_Inr
        candidate_id_new_Inr architecture_from_code_Some host_codec.dec_iff memory_codec.dec_iff)
qed (simp add: header_encode_def writes_flat appends_simps)

section \<open>Manifest\<close>

text \<open>\<open>b"SOMASNP\0"\<close>.\<close>

definition MAGIC :: "u8 list" where
  "MAGIC = [0x53, 0x4F, 0x4D, 0x41, 0x53, 0x4E, 0x50, 0]"

abbreviation (input) SCHEMA_VERSION :: u16 where "SCHEMA_VERSION \<equiv> 2"

record manifest =
  mf_header :: manifest_header
  mf_sections :: "snap_section list"

definition manifest_new :: "manifest_header \<Rightarrow> snap_section list \<Rightarrow> manifest_error + manifest" where
  "manifest_new header sections =
     (if unat MAX_SECTIONS < length sections then Inl (TooManySections (u16_len_or (- 1) (length sections)))
      else case first_descent (map (\<lambda>s. role_code (sec_role s)) sections) of
        Some (previous, next) \<Rightarrow> Inl (MfSection (RoleOrder previous next))
      | None \<Rightarrow>
          (case List.find (\<lambda>role. role_is_required role \<and> role \<notin> set (map sec_role sections)) ALL_ROLES of
             Some role \<Rightarrow> Inl (MissingRequiredSection role)
           | None \<Rightarrow> Inr \<lparr>mf_header = header, mf_sections = sections\<rparr>))"

definition manifest_section :: "manifest \<Rightarrow> section_role \<Rightarrow> snap_section option" where
  "manifest_section m role = List.find (\<lambda>s. sec_role s = role) (mf_sections m)"

definition manifest_encode :: "(u8 list \<Rightarrow> digest) \<Rightarrow> manifest \<Rightarrow> u8 list" where
  "manifest_encode sha m =
     writes [put_bytes MAGIC, put_u16 SCHEMA_VERSION, header_encode (mf_header m),
       put_u16 (u16_len_or MAX_SECTIONS (length (mf_sections m))), fold (section_encode sha) (mf_sections m)] []"

definition manifest_decode :: "(u8 list \<Rightarrow> digest) \<Rightarrow> u8 list \<Rightarrow> manifest_error + manifest" where
  "manifest_decode sha bytes =
     (let read =
        try_then (from_err MfWire (read_array 8) bytes) (\<lambda>magic r.
        if magic \<noteq> MAGIC then (Inl BadMagic, r)
        else
          try_then (man_u16 r) (\<lambda>schema r.
          if schema \<noteq> SCHEMA_VERSION then (Inl (UnsupportedSchemaVersion schema), r)
          else
            try_then (header_decode r) (\<lambda>header r.
            try_then (man_u16 r) (\<lambda>count r.
            if MAX_SECTIONS < count then (Inl (TooManySections count), r)
            else
              try_then (from_err MfSection (decode_sequence sha (unat count) None) r) (\<lambda>sections r.
              try_then (map_err MfWire (read_finish r), r) (\<lambda>_ r. (manifest_new header sections, r))))))) in
      fst read)"

text \<open>What holds of a manifest once decoded, and of one that \<open>new\<close> built from a valid header and sections.\<close>

definition manifest_ok :: "manifest \<Rightarrow> bool" where
  "manifest_ok m \<longleftrightarrow>
     header_ok (mf_header m) \<and> length (mf_sections m) \<le> 32 \<and>
     sorted_wrt (<) (map (\<lambda>s. role_code (sec_role s)) (mf_sections m)) \<and>
     (\<forall>s \<in> set (mf_sections m). length (sec_payload s) \<le> 2 ^ 20) \<and>
     {role. role_is_required role} \<subseteq> sec_role ` set (mf_sections m)"

text \<open>The bytes of a manifest with the given entries, known or not.\<close>

definition manifest_bytes :: "(u8 list \<Rightarrow> digest) \<Rightarrow> manifest_header \<Rightarrow> entry list \<Rightarrow> u8 list" where
  "manifest_bytes sha h es =
     MAGIC @ be_bytes 2 SCHEMA_VERSION @ header_encode h [] @ be_bytes 2 (of_nat (length es) :: u16) @
     concat (map (entry_bytes sha) es)"

lemma length_MAGIC [simp]: "length MAGIC = 8"
  by (simp add: MAGIC_def)

lemma ALL_ROLES_all: "role \<in> set ALL_ROLES"
  by (cases role) (simp_all add: ALL_ROLES_def)

lemma manifest_new_iff:
  "manifest_new h sections = Inr m \<longleftrightarrow>
     m = \<lparr>mf_header = h, mf_sections = sections\<rparr> \<and> length sections \<le> 32 \<and>
     sorted_wrt (<) (map (\<lambda>s. role_code (sec_role s)) sections) \<and>
     {role. role_is_required role} \<subseteq> sec_role ` set sections"
proof -
  have "List.find (\<lambda>role. role_is_required role \<and> role \<notin> set (map sec_role sections)) ALL_ROLES = None \<longleftrightarrow>
      {role. role_is_required role} \<subseteq> sec_role ` set sections"
    using ALL_ROLES_all by (auto simp: find_None_iff)
  then show ?thesis
    by (auto simp: manifest_new_def first_descent_case split: option.splits)
qed

text \<open>The sections a decoder keeps of ascending entries.\<close>

lemma kept_roles:
  "List.map_filter entry_section es =
     map (\<lambda>e. \<lparr>sec_role = the (role_from_code (en_code e)), sec_payload = en_payload e\<rparr>)
       (filter (\<lambda>e. role_from_code (en_code e) \<noteq> None) es)"
  by (induction es) (auto simp: map_filter_simps entry_section_def)

lemma kept_payloads: "\<lbrakk>list_all entry_ok es; s \<in> set (List.map_filter entry_section es)\<rbrakk> \<Longrightarrow> length (sec_payload s) \<le> 2 ^ 20"
  by (auto simp: kept_roles list_all_iff entry_ok_def)

lemma kept_all: "List.map_filter entry_section (map section_entry sections) = sections"
  by (induction sections) (auto simp: map_filter_simps)

lemma manifest_decode_iff:
  assumes "\<And>bs. length (sha bs) = 32"
  shows "manifest_decode sha bytes = Inr m \<longleftrightarrow> manifest_ok m \<and>
    (\<exists>es. length es \<le> 32 \<and> sorted_wrt (<) (map en_code es) \<and> list_all entry_ok es \<and>
      bytes = manifest_bytes sha (mf_header m) es \<and> mf_sections m = List.map_filter entry_section es)"
proof -
  have "manifest_decode sha bytes = Inr m \<longleftrightarrow> (\<exists>header (count :: u16) sections r. count \<le> 32 \<and>
      header_ok header \<and> bytes = MAGIC @ be_bytes 2 SCHEMA_VERSION @ header_encode header [] @ be_bytes 2 count @ r \<and>
      decode_sequence sha (unat count) None r = (Inr sections, []) \<and> manifest_new header sections = Inr m)"
    (is "?A \<longleftrightarrow> ?B")
  proof
    assume ?A
    then show ?B
      by (auto simp: manifest_decode_def fst_Inr_iff try_then_Inr_iff wire_simps header_codec.dec_iff not_less)
  next
    assume ?B
    then show ?A
      by (auto simp: manifest_decode_def from_err_def read_back header_codec.dec_back not_less)
  qed
  also have "\<dots> \<longleftrightarrow> manifest_ok m \<and>
    (\<exists>es. length es \<le> 32 \<and> sorted_wrt (<) (map en_code es) \<and> list_all entry_ok es \<and>
      bytes = manifest_bytes sha (mf_header m) es \<and> mf_sections m = List.map_filter entry_section es)" (is "?L \<longleftrightarrow> ?R")
  proof
    assume ?L
    then obtain header sections r and count :: u16 where h: "count \<le> 32" "header_ok header"
        "bytes = MAGIC @ be_bytes 2 SCHEMA_VERSION @ header_encode header [] @ be_bytes 2 count @ r"
        "decode_sequence sha (unat count) None r = (Inr sections, [])" "manifest_new header sections = Inr m" by blast
    then obtain es where es: "length es = unat count" "sorted_wrt (<) (map en_code es)" "list_all entry_ok es"
        "r = concat (map (entry_bytes sha) es)" "sections = List.map_filter entry_section es"
      unfolding decode_sequence_iff[OF assms] ascends_iff by auto
    have "length es \<le> 32" using es(1) h(1) by (simp add: word_le_nat_alt)
    moreover have "bytes = manifest_bytes sha header es" using h(3) es(4) by (simp add: es(1) manifest_bytes_def)
    moreover have "manifest_ok m" "mf_header m = header" "mf_sections m = sections"
      using h(2,5) kept_payloads[OF es(3)] es(5) by (auto simp: manifest_ok_def manifest_new_iff)
    ultimately show ?R using es(2,3,5) by blast
  next
    assume ?R
    then obtain es where es: "length es \<le> 32" "sorted_wrt (<) (map en_code es)" "list_all entry_ok es"
      "bytes = manifest_bytes sha (mf_header m) es" "mf_sections m = List.map_filter entry_section es" and m: "manifest_ok m" by blast
    have "decode_sequence sha (length es) None (concat (map (entry_bytes sha) es)) = (Inr (mf_sections m), [])"
      unfolding decode_sequence_iff[OF assms] ascends_iff using es by auto
    moreover have "unat (of_nat (length es) :: u16) = length es"
      using es(1) by (simp add: unsigned_of_nat take_bit_nat_eq_self)
    moreover have "manifest_new (mf_header m) (mf_sections m) = Inr m"
      using m by (simp add: manifest_new_iff manifest_ok_def)
    ultimately show ?L
      using es m unfolding manifest_bytes_def manifest_ok_def
      by (intro exI[of _ "mf_header m"] exI[of _ "of_nat (length es) :: u16"] exI[of _ "mf_sections m"])
        (simp add: word_le_nat_alt)
  qed
  finally show ?thesis .
qed

lemma manifest_encode_bytes:
  assumes "manifest_ok m"
  shows "manifest_encode sha m = manifest_bytes sha (mf_header m) (map section_entry (mf_sections m))"
proof -
  have "fold (section_encode sha) ss w = w @ concat (map (entry_bytes sha) (map section_entry ss))"
    if "\<forall>s \<in> set ss. length (sec_payload s) \<le> 2 ^ 20" for ss w
    using that by (induction ss arbitrary: w) (auto simp: section_encode_entry)
  then show ?thesis
    using assms header_codec.enc_append[of "mf_header m" "MAGIC @ be_bytes 2 SCHEMA_VERSION"]
    by (simp add: manifest_encode_def manifest_bytes_def manifest_ok_def writes_simps put_bytes_def put_u16_def u16_len_or_def)
qed

section \<open>Properties\<close>

text \<open>A manifest with the required sections, and a stand-in for the hash.\<close>

definition sample_sha :: "u8 list \<Rightarrow> digest" where
  "sample_sha bs = replicate 32 (of_nat (length bs))"

definition manifest_sample_header :: manifest_header where
  "manifest_sample_header =
     \<lparr>mh_architecture = X86_64, mh_page_size = 4096, mh_candidate_id = replicate 32 7,
      mh_machine_contract = replicate 32 1, mh_device_contract = replicate 32 2, mh_cpu_template = replicate 32 3,
      mh_host = \<lparr>hr_kvm_api_version = 12, hr_capabilities = [CapUserMemory, CapIrqChip, CapXsave], hr_min_memory_slots = 1\<rparr>,
      mh_memory = \<lparr>md_digest = replicate 32 9, md_size = 0x10000\<rparr>, mh_vcpu_count = 1, mh_guest_protocol_version = 1\<rparr>"

definition sample_manifest :: manifest where
  "sample_manifest = \<lparr>mf_header = manifest_sample_header,
     mf_sections = map (\<lambda>role. \<lparr>sec_role = role, sec_payload = [5]\<rparr>)
       [RoleVmState, RoleVcpu0, RoleIrqchip, RoleIrqRouting, RoleKvmClock, RoleDevice0, RoleDevice3, RoleDevice4,
        RoleRepairPointMarker]\<rparr>"

definition sample_entries :: "entry list" where
  "sample_entries = map section_entry (mf_sections sample_manifest) @
     [\<lparr>en_code = 0x30, en_version = 4, en_flags = 0, en_payload = [1, 2]\<rparr>]"

lemma required_roles: "{role. role_is_required role} =
  {RoleVmState, RoleVcpu0, RoleIrqchip, RoleIrqRouting, RoleKvmClock, RoleDevice0, RoleDevice3, RoleDevice4, RoleRepairPointMarker}"
  using section_role.exhaust by (auto simp: role_is_required_def)

lemma manifest_sample_header_ok: "header_ok manifest_sample_header"
proof -
  have "is_power_of_two (4096 :: u32)" unfolding is_power_of_two_def by code_simp
  then show ?thesis
    by (simp add: header_ok_def manifest_sample_header_def host_ok_def memory_ok_def digest_is_zero_def list_all_iff)
qed

lemma sample_manifest_ok: "manifest_ok sample_manifest"
  by (simp add: manifest_ok_def manifest_sample_header_ok sample_manifest_def required_roles)

text \<open>
  C7: A manifest is accepted exactly when it has the magic and the schema version, a header whose
  every field is in range, at most 32 section entries in strictly ascending order of their codes,
  each with the digest of its payload, version 1 and the critical flag if its role is known and
  not critical otherwise, every required role among them, and nothing after the last. The
  sections returned are the entries with a known role, in order; entries with an unknown role
  that is not critical are skipped.
\<close>

theorem manifest_decode_exact:
  assumes "\<And>bs. length (sha bs) = 32"
  shows "manifest_decode sha bytes = Inr m \<longleftrightarrow> manifest_ok m \<and>
    (\<exists>es. length es \<le> 32 \<and> sorted_wrt (<) (map en_code es) \<and> list_all entry_ok es \<and>
      bytes = manifest_bytes sha (mf_header m) es \<and> mf_sections m = List.map_filter entry_section es)"
  by (rule manifest_decode_iff[OF assms])

theorem manifest_decode_exact_witness:
  "manifest_decode sample_sha (manifest_bytes sample_sha manifest_sample_header sample_entries) = Inr sample_manifest"
proof -
  have "length sample_entries \<le> 32" "sorted_wrt (<) (map en_code sample_entries)" "list_all entry_ok sample_entries"
    "mf_sections sample_manifest = List.map_filter entry_section sample_entries" "mf_header sample_manifest = manifest_sample_header"
    by (simp_all add: sample_entries_def sample_manifest_def section_entry_def entry_ok_def entry_section_def map_filter_simps
        role_from_code_def ALL_ROLES_def)
  with sample_manifest_ok show ?thesis
    using manifest_decode_exact[of sample_sha "manifest_bytes sample_sha manifest_sample_header sample_entries" sample_manifest]
    by (auto simp: sample_sha_def)
qed

text \<open>
  Encoding a manifest with a valid header, bounded payloads, ascending roles and every required
  section, and decoding the bytes, gives the manifest back.
\<close>

lemma manifest_roundtrip:
  assumes "\<And>bs. length (sha bs) = 32" "manifest_ok m"
  shows "manifest_decode sha (manifest_encode sha m) = Inr m"
proof -
  have "sorted_wrt (<) (map en_code (map section_entry (mf_sections m)))"
    using assms(2) by (simp add: manifest_ok_def section_entry_def comp_def)
  moreover have "list_all entry_ok (map section_entry (mf_sections m))"
    using assms(2) by (auto simp: manifest_ok_def list_all_iff section_encode_entry(2))
  ultimately show ?thesis
    using assms(2) by (intro manifest_decode_iff[OF assms(1), THEN iffD2] conjI exI[of _ "map section_entry (mf_sections m)"])
      (simp_all add: manifest_encode_bytes kept_all manifest_ok_def)
qed

end
