(* ===== verification/SnapDevice.thy ===== *)
theory SnapDevice
  imports Wire
begin

text \<open>
  The device sections of a snapshot (\<open>soma-kvm/src/snapshot/device_state.rs\<close> with its \<open>queue.rs\<close> and
  \<open>specific.rs\<close>): validation, encoding and decoding of the state of one device slot.
\<close>

section \<open>Data\<close>

datatype device_kind = KindRootBlock | KindOverlayBlock | KindNet | KindVsock | KindRng

fun kind_slot :: "device_kind \<Rightarrow> u8" where
  "kind_slot KindRootBlock = 0"
| "kind_slot KindOverlayBlock = 1"
| "kind_slot KindNet = 2"
| "kind_slot KindVsock = 3"
| "kind_slot KindRng = 4"

definition kind_for_slot :: "u8 \<Rightarrow> device_kind option" where
  "kind_for_slot slot =
     (if slot = 0 then Some KindRootBlock else if slot = 1 then Some KindOverlayBlock
      else if slot = 2 then Some KindNet else if slot = 3 then Some KindVsock
      else if slot = 4 then Some KindRng else None)"

fun kind_queue_count :: "device_kind \<Rightarrow> nat" where
  "kind_queue_count KindRootBlock = 1"
| "kind_queue_count KindOverlayBlock = 1"
| "kind_queue_count KindRng = 1"
| "kind_queue_count KindNet = 2"
| "kind_queue_count KindVsock = 3"

record snap_transport =
  st_device_status :: u8
  st_interrupt_status :: u8
  st_config_generation :: u32
  st_queue_select :: u16

record snap_queue =
  sq_max_size :: u16
  sq_size :: u16
  sq_ready :: bool
  sq_descriptor_address :: u64
  sq_available_address :: u64
  sq_used_address :: u64
  sq_next_available :: u16
  sq_next_used :: u16

record snap_block =
  sb_capacity_sectors :: u64
  sb_block_size :: u32
  sb_image_digest :: digest

datatype device_specific =
    SpecBlock snap_block
  | SpecNet "u8 list" bool
  | SpecVsock u64
  | SpecRng

datatype snap_device_error =
    DevWire wire_error
  | UnknownKind u8
  | KindSlotMismatch u8 device_kind
  | DevQueueCount device_kind nat
  | InvalidQueue nat string
  | DevInvalidField string u64
  | SpecificMismatch device_kind

record snap_device =
  sd_kind :: device_kind
  sd_transport :: snap_transport
  sd_negotiated_features :: u64
  sd_queues :: "snap_queue list"
  sd_specific :: device_specific

section \<open>Queues\<close>

definition snap_queue_validate :: "nat \<Rightarrow> snap_queue \<Rightarrow> snap_device_error + unit" where
  "snap_queue_validate index q =
     (if \<not> is_power_of_two (sq_max_size q) then Inl (InvalidQueue index ''max_size'')
      else if sq_max_size q < sq_size q \<or> sq_size q \<noteq> 0 \<and> \<not> is_power_of_two (sq_size q)
      then Inl (InvalidQueue index ''size'')
      else if sq_ready q \<and> sq_size q = 0 then Inl (InvalidQueue index ''ready'')
      else Inr ())"

definition snap_queue_write :: "snap_queue \<Rightarrow> writer \<Rightarrow> writer" where
  "snap_queue_write q =
     writes [put_u16 (sq_max_size q), put_u16 (sq_size q), put_presence (sq_ready q),
       put_u64 (sq_descriptor_address q), put_u64 (sq_available_address q), put_u64 (sq_used_address q),
       put_u16 (sq_next_available q), put_u16 (sq_next_used q)]"

abbreviation (input) dev_u8 where "dev_u8 \<equiv> from_err DevWire reader_u8"
abbreviation (input) dev_u16 where "dev_u16 \<equiv> from_err DevWire reader_u16"
abbreviation (input) dev_u32 where "dev_u32 \<equiv> from_err DevWire reader_u32"
abbreviation (input) dev_u64 where "dev_u64 \<equiv> from_err DevWire reader_u64"
abbreviation (input) dev_presence where "dev_presence \<equiv> from_err DevWire read_presence"
abbreviation (input) dev_array where "dev_array n \<equiv> from_err DevWire (read_array n)"

definition snap_queue_read :: "(snap_device_error, snap_queue) reading" where
  "snap_queue_read r =
     try_then (dev_u16 r) (\<lambda>max_size r.
     try_then (dev_u16 r) (\<lambda>sz r.
     try_then (dev_presence r) (\<lambda>ready r.
     try_then (dev_u64 r) (\<lambda>descriptor_address r.
     try_then (dev_u64 r) (\<lambda>available_address r.
     try_then (dev_u64 r) (\<lambda>used_address r.
     try_then (dev_u16 r) (\<lambda>next_available r.
     try_then (dev_u16 r) (\<lambda>next_used r.
     (Inr \<lparr>sq_max_size = max_size, sq_size = sz, sq_ready = ready, sq_descriptor_address = descriptor_address,
        sq_available_address = available_address, sq_used_address = used_address,
        sq_next_available = next_available, sq_next_used = next_used\<rparr>, r)))))))))"

section \<open>Device-specific fields\<close>

definition snap_block_validate :: "snap_block \<Rightarrow> snap_device_error + unit" where
  "snap_block_validate b =
     (if \<not> is_power_of_two (sb_block_size b) \<or> sb_block_size b < 512 \<or> 4096 < sb_block_size b
      then Inl (DevInvalidField ''block_size'' (ucast (sb_block_size b)))
      else if checked_mul (sb_capacity_sectors b) 512 = None
      then Inl (DevInvalidField ''capacity_sectors'' (sb_capacity_sectors b))
      else if digest_is_zero (sb_image_digest b) then Inl (DevInvalidField ''image_digest'' 0)
      else Inr ())"

definition validate_for :: "device_kind \<Rightarrow> device_specific \<Rightarrow> snap_device_error + unit" where
  "validate_for kind spec =
     (case (kind, spec) of
        (KindRootBlock, SpecBlock block) \<Rightarrow> snap_block_validate block
      | (KindOverlayBlock, SpecBlock block) \<Rightarrow> snap_block_validate block
      | (KindNet, SpecNet mac link_up) \<Rightarrow> Inr ()
      | (KindVsock, SpecVsock cid) \<Rightarrow> Inr ()
      | (KindRng, SpecRng) \<Rightarrow> Inr ()
      | _ \<Rightarrow> Inl (SpecificMismatch kind))"

definition specific_write :: "device_specific \<Rightarrow> writer \<Rightarrow> writer" where
  "specific_write spec =
     (case spec of
        SpecBlock block \<Rightarrow> writes [put_u64 (sb_capacity_sectors block), put_u32 (sb_block_size block),
          put_bytes (sb_image_digest block)]
      | SpecNet mac link_up \<Rightarrow> writes [put_bytes mac, put_presence link_up]
      | SpecVsock cid_placeholder \<Rightarrow> put_u64 cid_placeholder
      | SpecRng \<Rightarrow> (\<lambda>w. w))"

definition specific_read :: "device_kind \<Rightarrow> (snap_device_error, device_specific) reading" where
  "specific_read kind r =
     (let block =
        try_then (dev_u64 r) (\<lambda>capacity_sectors r.
        try_then (dev_u32 r) (\<lambda>block_size r.
        try_then (dev_array DIGEST_LEN r) (\<lambda>image_digest r.
        (Inr (SpecBlock \<lparr>sb_capacity_sectors = capacity_sectors, sb_block_size = block_size,
           sb_image_digest = image_digest\<rparr>), r)))) in
      case kind of
        KindRootBlock \<Rightarrow> block
      | KindOverlayBlock \<Rightarrow> block
      | KindNet \<Rightarrow>
          try_then (dev_array 6 r) (\<lambda>mac r. try_then (dev_presence r) (\<lambda>link_up r. (Inr (SpecNet mac link_up), r)))
      | KindVsock \<Rightarrow> try_then (dev_u64 r) (\<lambda>cid_placeholder r. (Inr (SpecVsock cid_placeholder), r))
      | KindRng \<Rightarrow> (Inr SpecRng, r))"

section \<open>Devices\<close>

fun validate_queues :: "nat \<Rightarrow> snap_queue list \<Rightarrow> snap_device_error + unit" where
  "validate_queues index [] = Inr ()"
| "validate_queues index (q # qs) =
     and_then (snap_queue_validate index q) (\<lambda>_. validate_queues (Suc index) qs)"

definition snap_device_new ::
    "device_kind \<Rightarrow> snap_transport \<Rightarrow> u64 \<Rightarrow> snap_queue list \<Rightarrow> device_specific \<Rightarrow> snap_device_error + snap_device" where
  "snap_device_new kind transport features queues specific =
     (if length queues \<noteq> kind_queue_count kind then Inl (DevQueueCount kind (length queues))
      else and_then (validate_queues 0 queues) (\<lambda>_.
        if st_interrupt_status transport AND NOT 3 \<noteq> 0
        then Inl (DevInvalidField ''interrupt_status'' (ucast (st_interrupt_status transport)))
        else and_then (validate_for kind specific) (\<lambda>_.
          Inr \<lparr>sd_kind = kind, sd_transport = transport, sd_negotiated_features = features, sd_queues = queues,
               sd_specific = specific\<rparr>)))"

definition snap_device_encode :: "snap_device \<Rightarrow> u8 list" where
  "snap_device_encode d =
     writes [put_u8 (kind_slot (sd_kind d)), put_u8 (st_device_status (sd_transport d)),
       put_u8 (st_interrupt_status (sd_transport d)), put_u32 (st_config_generation (sd_transport d)),
       put_u16 (st_queue_select (sd_transport d)), put_u64 (sd_negotiated_features d),
       put_u8 (if length (sd_queues d) < 256 then of_nat (length (sd_queues d)) else - 1),
       fold snap_queue_write (sd_queues d), specific_write (sd_specific d)] []"

definition decode_for_slot :: "u8 \<Rightarrow> u8 list \<Rightarrow> snap_device_error + snap_device" where
  "decode_for_slot slot bytes =
     (let read =
        try_then (dev_u8 bytes) (\<lambda>kind_code r.
        try_then (ok_or (UnknownKind kind_code) (kind_for_slot kind_code), r) (\<lambda>kind r.
        if kind_slot kind \<noteq> slot then (Inl (KindSlotMismatch slot kind), r)
        else
          try_then (dev_u8 r) (\<lambda>device_status r.
          try_then (dev_u8 r) (\<lambda>interrupt_status r.
          try_then (dev_u32 r) (\<lambda>config_generation r.
          try_then (dev_u16 r) (\<lambda>queue_select r.
          try_then (dev_u64 r) (\<lambda>features r.
          try_then (dev_u8 r) (\<lambda>count r.
          if unat count \<noteq> kind_queue_count kind then (Inl (DevQueueCount kind (unat count)), r)
          else
            try_then (read_many (unat count) snap_queue_read r) (\<lambda>queues r.
            try_then (specific_read kind r) (\<lambda>specific r.
            try_then (map_err DevWire (read_finish r), r) (\<lambda>_ r.
            (snap_device_new kind
              \<lparr>st_device_status = device_status, st_interrupt_status = interrupt_status,
               st_config_generation = config_generation, st_queue_select = queue_select\<rparr>
              features queues specific, r)))))))))))) in
      fst read)"

section \<open>The codec\<close>

text \<open>What a device record must satisfy.\<close>

definition snap_queue_ok :: "snap_queue \<Rightarrow> bool" where
  "snap_queue_ok q \<longleftrightarrow>
     is_power_of_two (sq_max_size q) \<and> sq_size q \<le> sq_max_size q \<and>
     (sq_size q = 0 \<or> is_power_of_two (sq_size q)) \<and> (sq_ready q \<longrightarrow> sq_size q \<noteq> 0)"

definition specific_ok :: "device_kind \<Rightarrow> device_specific \<Rightarrow> bool" where
  "specific_ok kind spec \<longleftrightarrow>
     (case spec of
        SpecBlock b \<Rightarrow> kind \<in> {KindRootBlock, KindOverlayBlock} \<and> is_power_of_two (sb_block_size b) \<and>
          512 \<le> sb_block_size b \<and> sb_block_size b \<le> 4096 \<and> unat (sb_capacity_sectors b) * 512 < 2 ^ 64 \<and>
          \<not> digest_is_zero (sb_image_digest b)
      | SpecNet mac link_up \<Rightarrow> kind = KindNet
      | SpecVsock cid \<Rightarrow> kind = KindVsock
      | SpecRng \<Rightarrow> kind = KindRng)"

definition snap_device_ok :: "snap_device \<Rightarrow> bool" where
  "snap_device_ok d \<longleftrightarrow>
     length (sd_queues d) = kind_queue_count (sd_kind d) \<and> list_all snap_queue_ok (sd_queues d) \<and>
     st_interrupt_status (sd_transport d) AND NOT 3 = 0 \<and> specific_ok (sd_kind d) (sd_specific d)"

text \<open>The lengths the array types of the source carry.\<close>

definition specific_typed :: "device_specific \<Rightarrow> bool" where
  "specific_typed spec \<longleftrightarrow>
     (case spec of SpecBlock b \<Rightarrow> length (sb_image_digest b) = 32 | SpecNet mac link_up \<Rightarrow> length mac = 6 | _ \<Rightarrow> True)"

interpretation queue_codec: wire_codec snap_queue_write snap_queue_read "\<lambda>_. True"
proof unfold_locales
  fix q r r'
  show "snap_queue_read r = (Inr q, r') \<longleftrightarrow> True \<and> r = snap_queue_write q [] @ r'"
    by (cases q) (auto simp: snap_queue_read_def snap_queue_write_def try_then_Inr_iff wire_simps write_simps)
qed (simp add: snap_queue_write_def write_simps)

lemma validate_queues_iff: "validate_queues i qs = Inr () \<longleftrightarrow> list_all snap_queue_ok qs"
  by (induction i qs rule: validate_queues.induct)
    (auto simp: and_then_Inr_iff snap_queue_validate_def snap_queue_ok_def not_less)

lemma validate_for_iff: "validate_for kind spec = Inr () \<longleftrightarrow> specific_ok kind spec"
  by (cases kind; cases spec)
    (auto simp: validate_for_def specific_ok_def snap_block_validate_def checked_mul_def not_less)

lemma snap_device_new_iff:
  "snap_device_new kind transport features queues specific = Inr d \<longleftrightarrow>
     d = \<lparr>sd_kind = kind, sd_transport = transport, sd_negotiated_features = features, sd_queues = queues,
          sd_specific = specific\<rparr> \<and> snap_device_ok d"
  by (auto simp: snap_device_new_def and_then_Inr_iff validate_queues_iff validate_for_iff snap_device_ok_def)

lemma specific_read_iff:
  "specific_read kind r = (Inr spec, r') \<and> specific_ok kind spec \<longleftrightarrow>
     specific_ok kind spec \<and> specific_typed spec \<and> r = specific_write spec [] @ r'"
  by (cases kind; cases spec)
    (auto simp: specific_read_def specific_write_def specific_ok_def specific_typed_def try_then_Inr_iff wire_simps write_simps)

lemma kind_for_slot_iff: "kind_for_slot code = Some kind \<longleftrightarrow> code = kind_slot kind"
  by (cases kind) (auto simp: kind_for_slot_def)

lemma kind_queue_count_small: "kind_queue_count kind < 256"
  by (cases kind) simp_all

lemma specific_write_append: "specific_write spec w = w @ specific_write spec []"
  by (cases spec) (simp_all add: specific_write_def write_simps)

text \<open>Bytes are accepted for a slot exactly when they are the encoding of a valid record of that slot's kind.\<close>

lemma snap_device_codec:
  "decode_for_slot slot bytes = Inr d \<longleftrightarrow>
     kind_slot (sd_kind d) = slot \<and> snap_device_ok d \<and> specific_typed (sd_specific d) \<and> bytes = snap_device_encode d"
proof -
  obtain kind transport features queues spec where d: "d = \<lparr>sd_kind = kind, sd_transport = transport,
      sd_negotiated_features = features, sd_queues = queues, sd_specific = spec\<rparr>" by (cases d)
  obtain status interrupt generation sel where t: "transport = \<lparr>st_device_status = status, st_interrupt_status = interrupt,
      st_config_generation = generation, st_queue_select = sel\<rparr>" by (cases transport)
  have enc: "snap_device_encode d = kind_slot kind # status # interrupt # be_bytes 4 generation @ be_bytes 2 sel @
      be_bytes 8 features @ of_nat (kind_queue_count kind) # fold snap_queue_write queues [] @ specific_write spec []"
    if "length queues = kind_queue_count kind"
    unfolding snap_device_encode_def writes_simps d
    by (simp only: snap_device.simps, subst specific_write_append, subst queue_codec.enc_many)
      (simp add: write_simps that kind_queue_count_small t)
  have cnt: "unat (of_nat (kind_queue_count kind) :: u8) = kind_queue_count kind"
    using kind_queue_count_small[of kind] by (simp add: unsigned_of_nat take_bit_nat_eq_self)
  show ?thesis
  proof
    assume "decode_for_slot slot bytes = Inr d"
    then obtain count :: u8 and r1 where h: "kind_slot kind = slot" "unat count = kind_queue_count kind"
        "length queues = unat count" "specific_read kind r1 = (Inr spec, [])" "snap_device_ok d"
        "bytes = kind_slot kind # status # interrupt # be_bytes 4 generation @ be_bytes 2 sel @ be_bytes 8 features @
          count # fold snap_queue_write queues [] @ r1"
      unfolding decode_for_slot_def Let_def fst_Inr_iff d t
      by (auto simp: try_then_Inr_iff wire_simps kind_for_slot_iff snap_device_new_iff queue_codec.read_many_iff
          simp del: if_split)
    moreover have "specific_ok kind spec" using h(5) by (simp add: snap_device_ok_def d)
    moreover have "count = of_nat (kind_queue_count kind)" using h(2) cnt by (simp add: word_unat_eq_iff)
    ultimately show "kind_slot (sd_kind d) = slot \<and> snap_device_ok d \<and> specific_typed (sd_specific d) \<and>
        bytes = snap_device_encode d"
      using specific_read_iff[of kind r1 spec "[]"] by (simp add: enc) (simp add: d)
  next
    assume h: "kind_slot (sd_kind d) = slot \<and> snap_device_ok d \<and> specific_typed (sd_specific d) \<and>
        bytes = snap_device_encode d"
    then have len: "length queues = kind_queue_count kind" and ok: "specific_ok kind spec"
      by (simp_all add: snap_device_ok_def d)
    have "read_many (kind_queue_count kind) snap_queue_read (fold snap_queue_write queues [] @ r) = (Inr queues, r)" for r
      using len by (simp add: queue_codec.read_many_iff list_all_iff)
    moreover have "specific_read kind (specific_write spec []) = (Inr spec, [])"
      using specific_read_iff[of kind "specific_write spec []" spec "[]"] ok h by (simp add: d)
    moreover have "snap_device_new kind transport features queues spec = Inr d"
      using h by (simp add: snap_device_new_iff d)
    ultimately show "decode_for_slot slot bytes = Inr d"
      using h len by (simp add: decode_for_slot_def enc from_err_def read_back kind_for_slot_iff[THEN iffD2] cnt)
        (simp add: d t)
  qed
qed

end
