(* ===== verification/KvmVcpu.thy ===== *)
theory KvmVcpu
  imports Wire
begin

text \<open>
  The vCPU section of a snapshot (\<open>soma-kvm/src/snapshot/kvm_state.rs\<close> with \<open>regs.rs\<close>, \<open>sregs.rs\<close>,
  \<open>events.rs\<close>, \<open>lapic.rs\<close>, \<open>fpu.rs\<close>, \<open>cpu_config.rs\<close> and \<open>nested.rs\<close>). Each state group is a record with
  its \<open>write\<close> and \<open>read\<close>, and an interpretation of \<open>wire_codec\<close> on the pair.
\<close>

datatype kvm_state_error =
    KvmWire wire_error
  | KvmInvalidField string u64
  | TooManyEntries string nat
  | DuplicateEntry string u64
  | UnknownCode string u32
  | KvmOverlap string

definition kvm_invalid :: "string \<Rightarrow> u64 \<Rightarrow> kvm_state_error" where
  "kvm_invalid field v = KvmInvalidField field v"

abbreviation (input) kvm_u8 where "kvm_u8 \<equiv> from_err KvmWire reader_u8"
abbreviation (input) kvm_u16 where "kvm_u16 \<equiv> from_err KvmWire reader_u16"
abbreviation (input) kvm_u32 where "kvm_u32 \<equiv> from_err KvmWire reader_u32"
abbreviation (input) kvm_u64 where "kvm_u64 \<equiv> from_err KvmWire reader_u64"
abbreviation (input) kvm_presence where "kvm_presence \<equiv> from_err KvmWire read_presence"
abbreviation (input) kvm_array where "kvm_array n \<equiv> from_err KvmWire (read_array n)"
abbreviation (input) kvm_take where "kvm_take n \<equiv> from_err KvmWire (read_take n)"

interpretation kvm_u32c: wire_codec put_u32 kvm_u32 "\<lambda>_. True" by (rule u32c.from_err_codec)
interpretation kvm_u64c: wire_codec put_u64 kvm_u64 "\<lambda>_. True" by (rule u64c.from_err_codec)
interpretation kvm_arrayc: wire_codec put_bytes "kvm_array n" "\<lambda>bs. length bs = n" for n by (rule arrayc.from_err_codec)

section \<open>General registers\<close>

record regs =
  rax :: u64
  rbx :: u64
  rcx :: u64
  rdx :: u64
  rsi :: u64
  rdi :: u64
  rsp :: u64
  rbp :: u64
  r8 :: u64
  r9 :: u64
  r10 :: u64
  r11 :: u64
  r12 :: u64
  r13 :: u64
  r14 :: u64
  r15 :: u64
  rip :: u64
  rflags :: u64

definition regs_as_array :: "regs \<Rightarrow> u64 list" where
  "regs_as_array g =
     [rax g, rbx g, rcx g, rdx g, rsi g, rdi g, rsp g, rbp g, r8 g, r9 g, r10 g, r11 g, r12 g, r13 g, r14 g, r15 g,
      rip g, rflags g]"

definition regs_of_array :: "u64 list \<Rightarrow> regs" where
  "regs_of_array v =
     \<lparr>rax = v ! 0, rbx = v ! 1, rcx = v ! 2, rdx = v ! 3, rsi = v ! 4, rdi = v ! 5, rsp = v ! 6, rbp = v ! 7,
      r8 = v ! 8, r9 = v ! 9, r10 = v ! 10, r11 = v ! 11, r12 = v ! 12, r13 = v ! 13, r14 = v ! 14, r15 = v ! 15,
      rip = v ! 16, rflags = v ! 17\<rparr>"

definition regs_write :: "regs \<Rightarrow> writer \<Rightarrow> writer" where
  "regs_write g = fold put_u64 (regs_as_array g)"

definition regs_read :: "(kvm_state_error, regs) reading" where
  "regs_read r = try_then (read_many 18 kvm_u64 r) (\<lambda>values r. (Inr (regs_of_array values), r))"

lemma regs_array: "length xs = 18 \<Longrightarrow> regs_as_array (regs_of_array xs) = xs"
  using list_eq_nths[of xs 18] by (simp add: regs_as_array_def regs_of_array_def upt_conv_Cons eval_nat_numeral)

interpretation regs_codec: wire_codec regs_write regs_read "\<lambda>_. True"
  using kvm_u64c.struct_codec[of regs_as_array 18 regs_of_array] regs_array
  unfolding regs_write_def[abs_def] regs_read_def[abs_def]
  by (simp add: list_all_iff) (simp add: regs_as_array_def regs_of_array_def)

section \<open>Special registers\<close>

record segment =
  sg_base :: u64
  sg_limit :: u32
  sg_selector :: u16
  sg_type :: u8
  sg_present :: bool
  sg_dpl :: u8
  sg_db :: bool
  sg_s :: bool
  sg_l :: bool
  sg_g :: bool
  sg_avl :: bool
  sg_unusable :: bool

definition segment_validate :: "segment \<Rightarrow> kvm_state_error + unit" where
  "segment_validate s =
     (if 0x0f < sg_type s then Inl (kvm_invalid ''segment.type'' (ucast (sg_type s)))
      else if 3 < sg_dpl s then Inl (kvm_invalid ''segment.dpl'' (ucast (sg_dpl s)))
      else Inr ())"

definition segment_write :: "segment \<Rightarrow> writer \<Rightarrow> writer" where
  "segment_write s =
     writes [put_u64 (sg_base s), put_u32 (sg_limit s), put_u16 (sg_selector s), put_u8 (sg_type s),
       put_presence (sg_present s), put_u8 (sg_dpl s),
       fold put_presence [sg_db s, sg_s s, sg_l s, sg_g s, sg_avl s, sg_unusable s]]"

definition segment_read :: "(kvm_state_error, segment) reading" where
  "segment_read r =
     try_then (kvm_u64 r) (\<lambda>base r.
     try_then (kvm_u32 r) (\<lambda>limit r.
     try_then (kvm_u16 r) (\<lambda>selector r.
     try_then (kvm_u8 r) (\<lambda>type r.
     try_then (kvm_presence r) (\<lambda>present r.
     try_then (kvm_u8 r) (\<lambda>dpl r.
     try_then (kvm_presence r) (\<lambda>db r.
     try_then (kvm_presence r) (\<lambda>s r.
     try_then (kvm_presence r) (\<lambda>l r.
     try_then (kvm_presence r) (\<lambda>g r.
     try_then (kvm_presence r) (\<lambda>avl r.
     try_then (kvm_presence r) (\<lambda>unusable r.
     let seg = \<lparr>sg_base = base, sg_limit = limit, sg_selector = selector, sg_type = type, sg_present = present,
          sg_dpl = dpl, sg_db = db, sg_s = s, sg_l = l, sg_g = g, sg_avl = avl, sg_unusable = unusable\<rparr> in
     try_then (segment_validate seg, r) (\<lambda>_ r. (Inr seg, r))))))))))))))"

definition segment_ok :: "segment \<Rightarrow> bool" where
  "segment_ok s \<longleftrightarrow> sg_type s \<le> 15 \<and> sg_dpl s \<le> 3"

interpretation segment_codec: wire_codec segment_write segment_read segment_ok
proof unfold_locales
  fix s r r'
  show "segment_read r = (Inr s, r') \<longleftrightarrow> segment_ok s \<and> r = segment_write s [] @ r'"
    by (cases s) (auto simp: segment_read_def segment_write_def segment_validate_def segment_ok_def try_then_Inr_iff
        wire_simps write_simps Let_def)
qed (simp add: segment_write_def write_simps)

record dtable =
  dt_base :: u64
  dt_limit :: u16

definition dtable_write :: "dtable \<Rightarrow> writer \<Rightarrow> writer" where
  "dtable_write d = writes [put_u64 (dt_base d), put_u16 (dt_limit d)]"

definition dtable_read :: "(kvm_state_error, dtable) reading" where
  "dtable_read r =
     try_then (kvm_u64 r) (\<lambda>base r. try_then (kvm_u16 r) (\<lambda>limit r. (Inr \<lparr>dt_base = base, dt_limit = limit\<rparr>, r)))"

interpretation dtable_codec: wire_codec dtable_write dtable_read "\<lambda>_. True"
proof unfold_locales
  fix d r r'
  show "dtable_read r = (Inr d, r') \<longleftrightarrow> True \<and> r = dtable_write d [] @ r'"
    by (cases d) (auto simp: dtable_read_def dtable_write_def try_then_Inr_iff wire_simps write_simps)
qed (simp add: dtable_write_def write_simps)

record sregs =
  sr_cs :: segment
  sr_ds :: segment
  sr_es :: segment
  sr_fs :: segment
  sr_gs :: segment
  sr_ss :: segment
  sr_tr :: segment
  sr_ldt :: segment
  sr_gdt :: dtable
  sr_idt :: dtable
  sr_cr0 :: u64
  sr_cr2 :: u64
  sr_cr3 :: u64
  sr_cr4 :: u64
  sr_cr8 :: u64
  sr_efer :: u64
  sr_apic_base :: u64
  sr_interrupt_bitmap :: "u64 list"

definition sregs_segments :: "sregs \<Rightarrow> segment list" where
  "sregs_segments s = [sr_cs s, sr_ds s, sr_es s, sr_fs s, sr_gs s, sr_ss s, sr_tr s, sr_ldt s]"

text \<open>\<open>try_for_each\<close>: the first failure, or success.\<close>

fun segments_validate :: "segment list \<Rightarrow> kvm_state_error + unit" where
  "segments_validate [] = Inr ()"
| "segments_validate (s # ss) = and_then (segment_validate s) (\<lambda>_. segments_validate ss)"

definition sregs_validate :: "sregs \<Rightarrow> kvm_state_error + unit" where
  "sregs_validate s = segments_validate (sregs_segments s)"

definition sregs_controls :: "sregs \<Rightarrow> u64 list" where
  "sregs_controls s = [sr_cr0 s, sr_cr2 s, sr_cr3 s, sr_cr4 s, sr_cr8 s, sr_efer s, sr_apic_base s]"

definition sregs_write :: "sregs \<Rightarrow> writer \<Rightarrow> writer" where
  "sregs_write s =
     writes [fold segment_write (sregs_segments s), dtable_write (sr_gdt s), dtable_write (sr_idt s),
       fold put_u64 (sregs_controls s), fold put_u64 (sr_interrupt_bitmap s)]"

definition sregs_read :: "(kvm_state_error, sregs) reading" where
  "sregs_read r =
     try_then (read_many 8 segment_read r) (\<lambda>segments r.
     try_then (dtable_read r) (\<lambda>gdt r.
     try_then (dtable_read r) (\<lambda>idt r.
     try_then (read_many 7 kvm_u64 r) (\<lambda>controls r.
     try_then (read_many 4 kvm_u64 r) (\<lambda>interrupt_bitmap r.
     (Inr \<lparr>sr_cs = segments ! 0, sr_ds = segments ! 1, sr_es = segments ! 2, sr_fs = segments ! 3, sr_gs = segments ! 4,
        sr_ss = segments ! 5, sr_tr = segments ! 6, sr_ldt = segments ! 7, sr_gdt = gdt, sr_idt = idt,
        sr_cr0 = controls ! 0, sr_cr2 = controls ! 1, sr_cr3 = controls ! 2, sr_cr4 = controls ! 3,
        sr_cr8 = controls ! 4, sr_efer = controls ! 5, sr_apic_base = controls ! 6,
        sr_interrupt_bitmap = interrupt_bitmap\<rparr>, r))))))"

definition sregs_ok :: "sregs \<Rightarrow> bool" where
  "sregs_ok s \<longleftrightarrow> list_all segment_ok (sregs_segments s) \<and> length (sr_interrupt_bitmap s) = 4"

lemma sregs_write_flat:
  "sregs_write s w = w @ fold segment_write (sregs_segments s) [] @ dtable_write (sr_gdt s) [] @ dtable_write (sr_idt s) [] @
     fold put_u64 (sregs_controls s) [] @ fold put_u64 (sr_interrupt_bitmap s) []"
  unfolding sregs_write_def writes_simps
  by (subst kvm_u64c.enc_many, subst kvm_u64c.enc_many, subst dtable_codec.enc_append, subst dtable_codec.enc_append,
      subst segment_codec.enc_many) simp

interpretation sregs_codec: wire_codec sregs_write sregs_read sregs_ok
proof unfold_locales
  fix s w
  show "sregs_write s w = w @ sregs_write s []" unfolding sregs_write_flat by simp
next
  fix s r r'
  have "sregs_read r = (Inr s, r') \<longleftrightarrow> (\<exists>segments gdt idt controls bitmap.
      length segments = 8 \<and> list_all segment_ok segments \<and> length controls = 7 \<and> length bitmap = 4 \<and>
      r = fold segment_write segments [] @ dtable_write gdt [] @ dtable_write idt [] @ fold put_u64 controls [] @
        fold put_u64 bitmap [] @ r' \<and>
      sregs_segments s = segments \<and> sr_gdt s = gdt \<and> sr_idt s = idt \<and> sregs_controls s = controls \<and>
      sr_interrupt_bitmap s = bitmap)" (is "?L \<longleftrightarrow> ?R")
  proof
    assume ?L
    then obtain segs gdt idt cs bm where h: "length segs = 8" "list_all segment_ok segs" "length cs = 7" "length bm = 4"
      "r = fold segment_write segs [] @ dtable_write gdt [] @ dtable_write idt [] @ fold put_u64 cs [] @ fold put_u64 bm [] @ r'"
      "s = \<lparr>sr_cs = segs ! 0, sr_ds = segs ! 1, sr_es = segs ! 2, sr_fs = segs ! 3, sr_gs = segs ! 4,
        sr_ss = segs ! 5, sr_tr = segs ! 6, sr_ldt = segs ! 7, sr_gdt = gdt, sr_idt = idt,
        sr_cr0 = cs ! 0, sr_cr2 = cs ! 1, sr_cr3 = cs ! 2, sr_cr4 = cs ! 3,
        sr_cr8 = cs ! 4, sr_efer = cs ! 5, sr_apic_base = cs ! 6, sr_interrupt_bitmap = bm\<rparr>"
      by (auto simp: sregs_read_def try_then_Inr_iff segment_codec.read_many_iff kvm_u64c.read_many_iff dtable_codec.dec_iff)
    moreover have "sregs_segments s = segs" "sregs_controls s = cs"
      using list_eq_nths[OF h(1)] list_eq_nths[OF h(3)]
      by (simp_all add: h(6) sregs_segments_def sregs_controls_def upt_conv_Cons eval_nat_numeral)
    ultimately show ?R by auto
  next
    assume ?R
    then show ?L
      by (auto simp: sregs_read_def segment_codec.many_back kvm_u64c.many_back dtable_codec.dec_back list_all_iff)
        (simp add: sregs_segments_def sregs_controls_def)
  qed
  also have "\<dots> \<longleftrightarrow> sregs_ok s \<and> r = sregs_write s [] @ r'"
    unfolding sregs_write_flat sregs_ok_def
    by (auto simp: sregs_segments_def sregs_controls_def)
  finally show "sregs_read r = (Inr s, r') \<longleftrightarrow> sregs_ok s \<and> r = sregs_write s [] @ r'" .
qed

section \<open>Pending events\<close>

record exception_event =
  ex_injected :: bool
  ex_nr :: u8
  ex_has_error_code :: bool
  ex_pending :: bool
  ex_error_code :: u32

record interrupt_event =
  ie_injected :: bool
  ie_nr :: u8
  ie_soft :: bool
  ie_shadow :: u8

record nmi_event =
  nm_injected :: bool
  nm_pending :: bool
  nm_masked :: bool

record smi_event =
  sm_smm :: bool
  sm_pending :: bool
  sm_smm_inside_nmi :: bool
  sm_latched_init :: u8

record vcpu_events =
  ve_exception :: exception_event
  ve_interrupt :: interrupt_event
  ve_nmi :: nmi_event
  ve_sipi_vector :: u32
  ve_flags :: u32
  ve_smi :: smi_event
  ve_triple_fault_pending :: bool
  ve_exception_has_payload :: bool
  ve_exception_payload :: u64

definition events_write :: "vcpu_events \<Rightarrow> writer \<Rightarrow> writer" where
  "events_write e =
     writes [put_presence (ex_injected (ve_exception e)), put_u8 (ex_nr (ve_exception e)),
       put_presence (ex_has_error_code (ve_exception e)), put_presence (ex_pending (ve_exception e)),
       put_u32 (ex_error_code (ve_exception e)),
       put_presence (ie_injected (ve_interrupt e)), put_u8 (ie_nr (ve_interrupt e)),
       put_presence (ie_soft (ve_interrupt e)), put_u8 (ie_shadow (ve_interrupt e)),
       put_presence (nm_injected (ve_nmi e)), put_presence (nm_pending (ve_nmi e)), put_presence (nm_masked (ve_nmi e)),
       put_u32 (ve_sipi_vector e), put_u32 (ve_flags e),
       put_presence (sm_smm (ve_smi e)), put_presence (sm_pending (ve_smi e)), put_presence (sm_smm_inside_nmi (ve_smi e)),
       put_u8 (sm_latched_init (ve_smi e)),
       put_presence (ve_triple_fault_pending e), put_presence (ve_exception_has_payload e),
       put_u64 (ve_exception_payload e)]"

definition events_read :: "(kvm_state_error, vcpu_events) reading" where
  "events_read r =
     try_then (kvm_presence r) (\<lambda>ex_inj r.
     try_then (kvm_u8 r) (\<lambda>ex_n r.
     try_then (kvm_presence r) (\<lambda>ex_has r.
     try_then (kvm_presence r) (\<lambda>ex_pend r.
     try_then (kvm_u32 r) (\<lambda>ex_code r.
     try_then (kvm_presence r) (\<lambda>ie_inj r.
     try_then (kvm_u8 r) (\<lambda>ie_n r.
     try_then (kvm_presence r) (\<lambda>soft r.
     try_then (kvm_u8 r) (\<lambda>shadow r.
     try_then (kvm_presence r) (\<lambda>nm_inj r.
     try_then (kvm_presence r) (\<lambda>nm_pend r.
     try_then (kvm_presence r) (\<lambda>masked r.
     try_then (kvm_u32 r) (\<lambda>sipi_vector r.
     try_then (kvm_u32 r) (\<lambda>flags r.
     try_then (kvm_presence r) (\<lambda>smm r.
     try_then (kvm_presence r) (\<lambda>sm_pend r.
     try_then (kvm_presence r) (\<lambda>inside_nmi r.
     try_then (kvm_u8 r) (\<lambda>latched_init r.
     try_then (kvm_presence r) (\<lambda>triple_fault r.
     try_then (kvm_presence r) (\<lambda>has_payload r.
     try_then (kvm_u64 r) (\<lambda>payload r.
     (Inr \<lparr>ve_exception = \<lparr>ex_injected = ex_inj, ex_nr = ex_n, ex_has_error_code = ex_has, ex_pending = ex_pend,
          ex_error_code = ex_code\<rparr>,
        ve_interrupt = \<lparr>ie_injected = ie_inj, ie_nr = ie_n, ie_soft = soft, ie_shadow = shadow\<rparr>,
        ve_nmi = \<lparr>nm_injected = nm_inj, nm_pending = nm_pend, nm_masked = masked\<rparr>,
        ve_sipi_vector = sipi_vector, ve_flags = flags,
        ve_smi = \<lparr>sm_smm = smm, sm_pending = sm_pend, sm_smm_inside_nmi = inside_nmi, sm_latched_init = latched_init\<rparr>,
        ve_triple_fault_pending = triple_fault, ve_exception_has_payload = has_payload,
        ve_exception_payload = payload\<rparr>, r))))))))))))))))))))))"

interpretation events_codec: wire_codec events_write events_read "\<lambda>_. True"
proof unfold_locales
  fix e r r'
  obtain ex int nmi sipi flags smi tf hp pl where e: "e = \<lparr>ve_exception = ex, ve_interrupt = int, ve_nmi = nmi,
      ve_sipi_vector = sipi, ve_flags = flags, ve_smi = smi, ve_triple_fault_pending = tf,
      ve_exception_has_payload = hp, ve_exception_payload = pl\<rparr>" by (cases e)
  show "events_read r = (Inr e, r') \<longleftrightarrow> True \<and> r = events_write e [] @ r'"
    by (cases ex; cases int; cases nmi; cases smi)
      (auto simp: e events_read_def events_write_def try_then_Inr_iff wire_simps write_simps)
qed (simp add: events_write_def write_simps)

section \<open>Local APIC and run state\<close>

abbreviation (input) LAPIC_LEN :: nat where "LAPIC_LEN \<equiv> 1024"

record lapic_state =
  la_regs :: "u8 list"

definition lapic_write :: "lapic_state \<Rightarrow> writer \<Rightarrow> writer" where
  "lapic_write l = put_bytes (la_regs l)"

definition lapic_read :: "(kvm_state_error, lapic_state) reading" where
  "lapic_read r = try_then (kvm_take LAPIC_LEN r) (\<lambda>bytes r. (Inr \<lparr>la_regs = bytes\<rparr>, r))"

interpretation lapic_codec: wire_codec lapic_write lapic_read "\<lambda>l. length (la_regs l) = LAPIC_LEN"
proof unfold_locales
  fix l r r'
  show "lapic_read r = (Inr l, r') \<longleftrightarrow> length (la_regs l) = LAPIC_LEN \<and> r = lapic_write l [] @ r'"
    by (cases l) (auto simp: lapic_read_def lapic_write_def try_then_Inr_iff wire_simps write_simps)
qed (simp add: lapic_write_def write_simps)

datatype mp_state = MpRunnable | MpUninitialized | MpInitReceived | MpHalted | MpSipiReceived

fun mp_code :: "mp_state \<Rightarrow> u32" where
  "mp_code MpRunnable = 0"
| "mp_code MpUninitialized = 1"
| "mp_code MpInitReceived = 2"
| "mp_code MpHalted = 3"
| "mp_code MpSipiReceived = 4"

definition mp_from_code :: "u32 \<Rightarrow> kvm_state_error + mp_state" where
  "mp_from_code code =
     (if code = 0 then Inr MpRunnable else if code = 1 then Inr MpUninitialized
      else if code = 2 then Inr MpInitReceived else if code = 3 then Inr MpHalted
      else if code = 4 then Inr MpSipiReceived else Inl (UnknownCode ''mp_state'' code))"

definition mp_write :: "mp_state \<Rightarrow> writer \<Rightarrow> writer" where
  "mp_write m = put_u32 (mp_code m)"

definition mp_read :: "(kvm_state_error, mp_state) reading" where
  "mp_read r = try_then (kvm_u32 r) (\<lambda>code r. (mp_from_code code, r))"

lemma mp_from_code_iff: "mp_from_code code = Inr m \<longleftrightarrow> code = mp_code m"
  by (cases m) (auto simp: mp_from_code_def)

interpretation mp_codec: wire_codec mp_write mp_read "\<lambda>_. True"
  by unfold_locales (auto simp: mp_read_def mp_write_def try_then_Inr_iff wire_simps write_simps mp_from_code_iff)

section \<open>Floating point and extended state\<close>

abbreviation (input) MAX_XCRS :: nat where "MAX_XCRS \<equiv> 16"
abbreviation (input) MIN_XSAVE_BYTES :: u32 where "MIN_XSAVE_BYTES \<equiv> 4096"
abbreviation (input) MAX_XSAVE_BYTES :: u32 where "MAX_XSAVE_BYTES \<equiv> 65536"

record fpu =
  fp_fpr :: "u8 list list"
  fp_fcw :: u16
  fp_fsw :: u16
  fp_ftwx :: u8
  fp_last_opcode :: u16
  fp_last_ip :: u64
  fp_last_dp :: u64
  fp_xmm :: "u8 list list"
  fp_mxcsr :: u32

definition fpu_write :: "fpu \<Rightarrow> writer \<Rightarrow> writer" where
  "fpu_write f =
     writes [fold put_bytes (fp_fpr f), put_u16 (fp_fcw f), put_u16 (fp_fsw f), put_u8 (fp_ftwx f),
       put_u16 (fp_last_opcode f), put_u64 (fp_last_ip f), put_u64 (fp_last_dp f), fold put_bytes (fp_xmm f),
       put_u32 (fp_mxcsr f)]"

definition fpu_read :: "(kvm_state_error, fpu) reading" where
  "fpu_read r =
     try_then (read_many 8 (kvm_array 16) r) (\<lambda>fpr r.
     try_then (kvm_u16 r) (\<lambda>fcw r.
     try_then (kvm_u16 r) (\<lambda>fsw r.
     try_then (kvm_u8 r) (\<lambda>ftwx r.
     try_then (kvm_u16 r) (\<lambda>last_opcode r.
     try_then (kvm_u64 r) (\<lambda>last_ip r.
     try_then (kvm_u64 r) (\<lambda>last_dp r.
     try_then (read_many 16 (kvm_array 16) r) (\<lambda>xmm r.
     try_then (kvm_u32 r) (\<lambda>mxcsr r.
     (Inr \<lparr>fp_fpr = fpr, fp_fcw = fcw, fp_fsw = fsw, fp_ftwx = ftwx, fp_last_opcode = last_opcode,
        fp_last_ip = last_ip, fp_last_dp = last_dp, fp_xmm = xmm, fp_mxcsr = mxcsr\<rparr>, r))))))))))"

definition fpu_ok :: "fpu \<Rightarrow> bool" where
  "fpu_ok f \<longleftrightarrow>
     length (fp_fpr f) = 8 \<and> list_all (\<lambda>b. length b = 16) (fp_fpr f) \<and>
     length (fp_xmm f) = 16 \<and> list_all (\<lambda>b. length b = 16) (fp_xmm f)"

lemma fpu_write_flat:
  "fpu_write f w = w @ fold put_bytes (fp_fpr f) [] @ be_bytes 2 (fp_fcw f) @ be_bytes 2 (fp_fsw f) @ [fp_ftwx f] @
     be_bytes 2 (fp_last_opcode f) @ be_bytes 8 (fp_last_ip f) @ be_bytes 8 (fp_last_dp f) @
     fold put_bytes (fp_xmm f) [] @ be_bytes 4 (fp_mxcsr f)"
  unfolding fpu_write_def writes_simps
  by (subst arrayc.enc_many, subst arrayc.enc_many) (simp add: write_simps)

interpretation fpu_codec: wire_codec fpu_write fpu_read fpu_ok
proof unfold_locales
  fix f w
  show "fpu_write f w = w @ fpu_write f []" unfolding fpu_write_flat by simp
next
  fix f r r'
  show "fpu_read r = (Inr f, r') \<longleftrightarrow> fpu_ok f \<and> r = fpu_write f [] @ r'"
  proof
    assume "fpu_read r = (Inr f, r')"
    then show "fpu_ok f \<and> r = fpu_write f [] @ r'"
      by (auto simp: fpu_read_def fpu_ok_def fpu_write_flat try_then_Inr_iff wire_simps kvm_arrayc.read_many_iff)
  next
    assume "fpu_ok f \<and> r = fpu_write f [] @ r'"
    then show "fpu_read r = (Inr f, r')"
      by (simp add: fpu_read_def fpu_ok_def fpu_write_flat from_err_def[of _ reader_u8] from_err_def[of _ reader_u16]
          from_err_def[of _ reader_u32] from_err_def[of _ reader_u64] read_back kvm_arrayc.many_back)
  qed
qed

record xcr_entry =
  xcr_index :: u32
  xcr_value :: u64

record xcrs =
  xs_flags :: u32
  xs_entries :: "xcr_entry list"

definition xcrs_new :: "u32 \<Rightarrow> xcr_entry list \<Rightarrow> kvm_state_error + xcrs" where
  "xcrs_new flags entries =
     (if MAX_XCRS < length entries then Inl (TooManyEntries ''xcrs'' (length entries))
      else case first_duplicate xcr_index [] entries of
        Some entry \<Rightarrow> Inl (DuplicateEntry ''xcrs'' (ucast (xcr_index entry)))
      | None \<Rightarrow> Inr \<lparr>xs_flags = flags, xs_entries = entries\<rparr>)"

text \<open>The body of the two loops over entries.\<close>

definition xcr_write :: "xcr_entry \<Rightarrow> writer \<Rightarrow> writer" where
  "xcr_write e = writes [put_u32 (xcr_index e), put_u64 (xcr_value e)]"

definition xcr_read :: "(kvm_state_error, xcr_entry) reading" where
  "xcr_read r =
     try_then (kvm_u32 r) (\<lambda>index r. try_then (kvm_u64 r) (\<lambda>v r. (Inr \<lparr>xcr_index = index, xcr_value = v\<rparr>, r)))"

definition xcrs_write :: "xcrs \<Rightarrow> writer \<Rightarrow> writer" where
  "xcrs_write x =
     writes [put_u32 (xs_flags x),
       put_u8 (if length (xs_entries x) < 256 then of_nat (length (xs_entries x)) else - 1),
       fold xcr_write (xs_entries x)]"

definition xcrs_read :: "(kvm_state_error, xcrs) reading" where
  "xcrs_read r =
     try_then (kvm_u32 r) (\<lambda>flags r.
     try_then (kvm_u8 r) (\<lambda>count r.
     if MAX_XCRS < unat count then (Inl (TooManyEntries ''xcrs'' (unat count)), r)
     else try_then (read_many (unat count) xcr_read r) (\<lambda>entries r. (xcrs_new flags entries, r))))"

definition xcrs_ok :: "xcrs \<Rightarrow> bool" where
  "xcrs_ok x \<longleftrightarrow> length (xs_entries x) \<le> 16 \<and> distinct (map xcr_index (xs_entries x))"

interpretation xcr_codec: wire_codec xcr_write xcr_read "\<lambda>_. True"
proof unfold_locales
  fix e r r'
  show "xcr_read r = (Inr e, r') \<longleftrightarrow> True \<and> r = xcr_write e [] @ r'"
    by (cases e) (auto simp: xcr_read_def xcr_write_def try_then_Inr_iff wire_simps write_simps)
qed (simp add: xcr_write_def write_simps)

lemma xcrs_new_iff: "xcrs_new flags entries = Inr x \<longleftrightarrow> x = \<lparr>xs_flags = flags, xs_entries = entries\<rparr> \<and> xcrs_ok x"
  by (auto simp: xcrs_new_def xcrs_ok_def first_duplicate_case)

lemma xcrs_write_flat:
  "length (xs_entries x) \<le> 16 \<Longrightarrow>
     xcrs_write x w = w @ be_bytes 4 (xs_flags x) @ of_nat (length (xs_entries x)) # fold xcr_write (xs_entries x) []"
  unfolding xcrs_write_def writes_simps by (subst xcr_codec.enc_many) (simp add: write_simps)

lemma small_count: "n < 256 \<Longrightarrow> unat (of_nat n :: u8) = n"
  by (simp add: unsigned_of_nat take_bit_nat_eq_self)

interpretation xcrs_codec: wire_codec xcrs_write xcrs_read xcrs_ok
proof unfold_locales
  fix x w
  show "xcrs_write x w = w @ xcrs_write x []"
    by (simp add: xcrs_write_def writes_flat appends_simps)
next
  fix x r r'
  show "xcrs_read r = (Inr x, r') \<longleftrightarrow> xcrs_ok x \<and> r = xcrs_write x [] @ r'"
  proof
    assume "xcrs_read r = (Inr x, r')"
    then obtain flags count entries where h: "r = be_bytes 4 flags @ count # fold xcr_write entries [] @ r'"
        "length entries = unat count" "x = \<lparr>xs_flags = flags, xs_entries = entries\<rparr>" "xcrs_ok x"
      by (auto simp: xcrs_read_def try_then_Inr_iff wire_simps xcr_codec.read_many_iff xcrs_new_iff simp del: if_split)
    then have "count = of_nat (length entries)" by (simp add: word_unat_eq_iff small_count xcrs_ok_def)
    then show "xcrs_ok x \<and> r = xcrs_write x [] @ r'"
      using h by (simp add: xcrs_write_flat xcrs_ok_def)
  next
    assume "xcrs_ok x \<and> r = xcrs_write x [] @ r'"
    then show "xcrs_read r = (Inr x, r')"
      by (auto simp: xcrs_read_def xcrs_ok_def xcrs_write_flat from_err_def[of _ reader_u8] from_err_def[of _ reader_u32]
          read_back small_count xcr_codec.many_back list_all_iff xcrs_new_iff)
  qed
qed

record xsave_area =
  xa_bytes :: "u8 list"

definition xsave_new :: "u8 list \<Rightarrow> kvm_state_error + xsave_area" where
  "xsave_new bytes =
     (let len = u64_len (length bytes) in
      if len < ucast MIN_XSAVE_BYTES \<or> ucast MAX_XSAVE_BYTES < len \<or> len mod 4 \<noteq> 0 then Inl (kvm_invalid ''xsave.len'' len)
      else Inr \<lparr>xa_bytes = bytes\<rparr>)"

definition xsave_write :: "xsave_area \<Rightarrow> writer \<Rightarrow> writer" where
  "xsave_write x =
     writes [put_u32 (u32_len_or MAX_XSAVE_BYTES (length (xa_bytes x))),
       put_bytes (xa_bytes x)]"

definition xsave_read :: "(kvm_state_error, xsave_area) reading" where
  "xsave_read r = try_then (from_err KvmWire (bounded_u32 MAX_XSAVE_BYTES) r) (\<lambda>bytes r. (xsave_new bytes, r))"

definition xsave_ok :: "xsave_area \<Rightarrow> bool" where
  "xsave_ok x \<longleftrightarrow> 4096 \<le> length (xa_bytes x) \<and> length (xa_bytes x) \<le> 65536 \<and> length (xa_bytes x) mod 4 = 0"

lemma xsave_new_iff:
  assumes "length bytes \<le> 65536"
  shows "xsave_new bytes = Inr x \<longleftrightarrow> x = \<lparr>xa_bytes = bytes\<rparr> \<and> xsave_ok x"
proof -
  have u: "unat (of_nat (length bytes) :: u64) = length bytes" using assms by (simp add: unsigned_of_nat take_bit_nat_eq_self)
  then have "of_nat (length bytes) mod (4 :: u64) = 0 \<longleftrightarrow> length bytes mod 4 = 0"
    by (simp add: word_unat_eq_iff unat_mod)
  then show ?thesis using assms u by (auto simp: xsave_new_def xsave_ok_def Let_def u64_len_def word_less_nat_alt)
qed

interpretation xsave_codec: wire_codec xsave_write xsave_read xsave_ok
proof unfold_locales
  fix x r r'
  show "xsave_read r = (Inr x, r') \<longleftrightarrow> xsave_ok x \<and> r = xsave_write x [] @ r'"
    by (cases x) (auto simp: xsave_read_def xsave_write_def try_then_Inr_iff wire_simps write_simps xsave_new_iff xsave_ok_def u32_len_or_def)
qed (simp add: xsave_write_def write_simps)

section \<open>CPUID and MSR tables\<close>

abbreviation (input) MAX_CPUID_ENTRIES :: u16 where "MAX_CPUID_ENTRIES \<equiv> 256"
abbreviation (input) MAX_MSR_ENTRIES :: u16 where "MAX_MSR_ENTRIES \<equiv> 256"

record cpuid_entry =
  cp_function :: u32
  cp_index :: u32
  cp_flags :: u32
  cp_eax :: u32
  cp_ebx :: u32
  cp_ecx :: u32
  cp_edx :: u32

definition cpuid_fields :: "cpuid_entry \<Rightarrow> u32 list" where
  "cpuid_fields e = [cp_function e, cp_index e, cp_flags e, cp_eax e, cp_ebx e, cp_ecx e, cp_edx e]"

definition cpuid_of_fields :: "u32 list \<Rightarrow> cpuid_entry" where
  "cpuid_of_fields v =
     \<lparr>cp_function = v ! 0, cp_index = v ! 1, cp_flags = v ! 2, cp_eax = v ! 3, cp_ebx = v ! 4, cp_ecx = v ! 5, cp_edx = v ! 6\<rparr>"

definition cpuid_entry_write :: "cpuid_entry \<Rightarrow> writer \<Rightarrow> writer" where
  "cpuid_entry_write e = fold put_u32 (cpuid_fields e)"

definition cpuid_entry_read :: "(kvm_state_error, cpuid_entry) reading" where
  "cpuid_entry_read r = try_then (read_many 7 kvm_u32 r) (\<lambda>values r. (Inr (cpuid_of_fields values), r))"

record cpuid_entries =
  ce_entries :: "cpuid_entry list"

definition cpuid_key :: "cpuid_entry \<Rightarrow> u32 \<times> u32" where
  "cpuid_key e = (cp_function e, cp_index e)"

definition cpuid_new :: "cpuid_entry list \<Rightarrow> kvm_state_error + cpuid_entries" where
  "cpuid_new entries =
     (if unat MAX_CPUID_ENTRIES < length entries then Inl (TooManyEntries ''cpuid'' (length entries))
      else case first_duplicate cpuid_key [] entries of
        Some entry \<Rightarrow> Inl (DuplicateEntry ''cpuid'' (push_bit 32 (ucast (cp_function entry)) OR ucast (cp_index entry)))
      | None \<Rightarrow> Inr \<lparr>ce_entries = entries\<rparr>)"

definition cpuid_write :: "cpuid_entries \<Rightarrow> writer \<Rightarrow> writer" where
  "cpuid_write c = writes [put_u16 (u16_len_or MAX_CPUID_ENTRIES (length (ce_entries c))), fold cpuid_entry_write (ce_entries c)]"

definition cpuid_read :: "(kvm_state_error, cpuid_entries) reading" where
  "cpuid_read r =
     try_then (from_err KvmWire (count_u16 MAX_CPUID_ENTRIES) r) (\<lambda>count r.
     try_then (read_many (unat count) cpuid_entry_read r) (\<lambda>entries r. (cpuid_new entries, r)))"

definition cpuid_ok :: "cpuid_entries \<Rightarrow> bool" where
  "cpuid_ok c \<longleftrightarrow> length (ce_entries c) \<le> 256 \<and> distinct (map cpuid_key (ce_entries c))"

interpretation cpuid_entry_codec: wire_codec cpuid_entry_write cpuid_entry_read "\<lambda>_. True"
proof -
  have "cpuid_fields (cpuid_of_fields xs) = xs" if "length xs = 7" for xs
    using list_eq_nths[OF that] by (simp add: cpuid_fields_def cpuid_of_fields_def upt_conv_Cons eval_nat_numeral)
  then show "wire_codec cpuid_entry_write cpuid_entry_read (\<lambda>_. True)"
    using kvm_u32c.struct_codec[of cpuid_fields 7 cpuid_of_fields]
    unfolding cpuid_entry_write_def[abs_def] cpuid_entry_read_def[abs_def]
    by (simp add: list_all_iff) (simp add: cpuid_fields_def cpuid_of_fields_def)
qed

lemma cpuid_new_iff: "cpuid_new entries = Inr c \<longleftrightarrow> c = \<lparr>ce_entries = entries\<rparr> \<and> cpuid_ok c"
  by (auto simp: cpuid_new_def cpuid_ok_def first_duplicate_case)

interpretation cpuid_codec: wire_codec cpuid_write cpuid_read cpuid_ok
proof unfold_locales
  fix c w
  show "cpuid_write c w = w @ cpuid_write c []"
    by (simp add: cpuid_write_def writes_flat appends_simps)
next
  fix c r r'
  have "cpuid_write c [] = be_bytes 2 (of_nat (length (ce_entries c)) :: u16) @ fold cpuid_entry_write (ce_entries c) []"
    if "length (ce_entries c) \<le> 256"
    using that by (simp add: cpuid_write_def writes_flat appends_simps) (simp add: write_simps u16_len_or_def)
  then show "cpuid_read r = (Inr c, r') \<longleftrightarrow> cpuid_ok c \<and> r = cpuid_write c [] @ r'"
    by (cases c) (auto simp: cpuid_read_def cpuid_entry_codec.table_iff cpuid_new_iff cpuid_ok_def list_all_iff)
qed

record msr_entry =
  msr_index :: u32
  msr_value :: u64

record msr_entries =
  me_entries :: "msr_entry list"

definition msrs_new :: "msr_entry list \<Rightarrow> kvm_state_error + msr_entries" where
  "msrs_new entries =
     (if unat MAX_MSR_ENTRIES < length entries then Inl (TooManyEntries ''msrs'' (length entries))
      else case first_duplicate msr_index [] entries of
        Some entry \<Rightarrow> Inl (DuplicateEntry ''msrs'' (ucast (msr_index entry)))
      | None \<Rightarrow> Inr \<lparr>me_entries = entries\<rparr>)"

definition msr_write :: "msr_entry \<Rightarrow> writer \<Rightarrow> writer" where
  "msr_write e = writes [put_u32 (msr_index e), put_u64 (msr_value e)]"

definition msr_read :: "(kvm_state_error, msr_entry) reading" where
  "msr_read r =
     try_then (kvm_u32 r) (\<lambda>index r. try_then (kvm_u64 r) (\<lambda>v r. (Inr \<lparr>msr_index = index, msr_value = v\<rparr>, r)))"

definition msrs_write :: "msr_entries \<Rightarrow> writer \<Rightarrow> writer" where
  "msrs_write m = writes [put_u16 (u16_len_or MAX_MSR_ENTRIES (length (me_entries m))), fold msr_write (me_entries m)]"

definition msrs_read :: "(kvm_state_error, msr_entries) reading" where
  "msrs_read r =
     try_then (from_err KvmWire (count_u16 MAX_MSR_ENTRIES) r) (\<lambda>count r.
     try_then (read_many (unat count) msr_read r) (\<lambda>entries r. (msrs_new entries, r)))"

definition msrs_ok :: "msr_entries \<Rightarrow> bool" where
  "msrs_ok m \<longleftrightarrow> length (me_entries m) \<le> 256 \<and> distinct (map msr_index (me_entries m))"

interpretation msr_codec: wire_codec msr_write msr_read "\<lambda>_. True"
proof unfold_locales
  fix e r r'
  show "msr_read r = (Inr e, r') \<longleftrightarrow> True \<and> r = msr_write e [] @ r'"
    by (cases e) (auto simp: msr_read_def msr_write_def try_then_Inr_iff wire_simps write_simps)
qed (simp add: msr_write_def write_simps)

lemma msrs_new_iff: "msrs_new entries = Inr m \<longleftrightarrow> m = \<lparr>me_entries = entries\<rparr> \<and> msrs_ok m"
  by (auto simp: msrs_new_def msrs_ok_def first_duplicate_case)

interpretation msrs_codec: wire_codec msrs_write msrs_read msrs_ok
proof unfold_locales
  fix m w
  show "msrs_write m w = w @ msrs_write m []"
    by (simp add: msrs_write_def writes_flat appends_simps)
next
  fix m r r'
  have "msrs_write m [] = be_bytes 2 (of_nat (length (me_entries m)) :: u16) @ fold msr_write (me_entries m) []"
    if "length (me_entries m) \<le> 256"
    using that by (simp add: msrs_write_def writes_flat appends_simps) (simp add: write_simps u16_len_or_def)
  then show "msrs_read r = (Inr m, r') \<longleftrightarrow> msrs_ok m \<and> r = msrs_write m [] @ r'"
    by (cases m) (auto simp: msrs_read_def msr_codec.table_iff msrs_new_iff msrs_ok_def list_all_iff)
qed

section \<open>Nested state\<close>

abbreviation (input) NESTED_BLOB_LEN :: nat where "NESTED_BLOB_LEN \<equiv> 4096"
abbreviation (input) FORMAT_VMX :: u8 where "FORMAT_VMX \<equiv> 0"
abbreviation (input) FORMAT_SVM :: u8 where "FORMAT_SVM \<equiv> 1"

text \<open>The fields in the order the source declares them.\<close>

datatype nested_state =
  Vmx (vmx_flags: u16) (vmxon_pa: u64) (vmcs12_pa: u64) (smm_flags: u16) (hdr_flags: u32)
    (preemption_timer_deadline: u64) (vmcs12: "u8 list") (shadow_vmcs12: "u8 list")
| Svm (svm_flags: u16) (vmcb_pa: u64) (vmcb12: "u8 list")

fun nested_write :: "nested_state \<Rightarrow> writer \<Rightarrow> writer" where
  "nested_write (Vmx flags vmxon vmcs smm hdr deadline blob shadow) =
     writes [put_u8 FORMAT_VMX, put_u16 flags, put_u64 vmxon, put_u64 vmcs, put_u16 smm, put_u32 hdr,
       put_u64 deadline, put_bytes blob, put_bytes shadow]"
| "nested_write (Svm flags vmcb blob) =
     writes [put_u8 FORMAT_SVM, put_u16 flags, put_u64 vmcb, put_bytes blob]"

definition read_blob :: "(kvm_state_error, u8 list) reading" where
  "read_blob r = kvm_take NESTED_BLOB_LEN r"

definition nested_read :: "(kvm_state_error, nested_state) reading" where
  "nested_read r =
     try_then (kvm_u8 r) (\<lambda>format r.
     if format = FORMAT_VMX then
       try_then (kvm_u16 r) (\<lambda>flags r.
       try_then (kvm_u64 r) (\<lambda>vmxon r.
       try_then (kvm_u64 r) (\<lambda>vmcs r.
       try_then (kvm_u16 r) (\<lambda>smm r.
       try_then (kvm_u32 r) (\<lambda>hdr r.
       try_then (kvm_u64 r) (\<lambda>deadline r.
       try_then (read_blob r) (\<lambda>blob r.
       try_then (read_blob r) (\<lambda>shadow r.
       (Inr (Vmx flags vmxon vmcs smm hdr deadline blob shadow), r)))))))))
     else if format = FORMAT_SVM then
       try_then (kvm_u16 r) (\<lambda>flags r.
       try_then (kvm_u64 r) (\<lambda>vmcb r.
       try_then (read_blob r) (\<lambda>blob r. (Inr (Svm flags vmcb blob), r))))
     else (Inl (UnknownCode ''nested.format'' (ucast format)), r))"

fun nested_ok :: "nested_state \<Rightarrow> bool" where
  "nested_ok (Vmx _ _ _ _ _ _ blob shadow) \<longleftrightarrow> length blob = NESTED_BLOB_LEN \<and> length shadow = NESTED_BLOB_LEN"
| "nested_ok (Svm _ _ blob) \<longleftrightarrow> length blob = NESTED_BLOB_LEN"

interpretation nested_codec: wire_codec nested_write nested_read nested_ok
proof unfold_locales
  fix n r r'
  show "nested_read r = (Inr n, r') \<longleftrightarrow> nested_ok n \<and> r = nested_write n [] @ r'"
    by (cases n) (auto simp: nested_read_def read_blob_def try_then_Inr_iff wire_simps write_simps either_iff)
next
  fix n w
  show "nested_write n w = w @ nested_write n []" by (cases n) (simp_all add: write_simps)
qed

section \<open>The vCPU record\<close>

record vcpu_state =
  vs_cpuid :: cpuid_entries
  vs_msrs :: msr_entries
  vs_regs :: regs
  vs_sregs :: sregs
  vs_fpu :: fpu
  vs_xcrs :: xcrs
  vs_xsave :: xsave_area
  vs_lapic :: lapic_state
  vs_mp_state :: mp_state
  vs_events :: vcpu_events
  vs_nested :: "nested_state option"

definition vcpu_new :: "vcpu_state \<Rightarrow> kvm_state_error + vcpu_state" where
  "vcpu_new parts = and_then (sregs_validate (vs_sregs parts)) (\<lambda>_. Inr parts)"

definition vcpu_encode :: "vcpu_state \<Rightarrow> u8 list" where
  "vcpu_encode s =
     writes [cpuid_write (vs_cpuid s), msrs_write (vs_msrs s), regs_write (vs_regs s), sregs_write (vs_sregs s),
       fpu_write (vs_fpu s), xcrs_write (vs_xcrs s), xsave_write (vs_xsave s), lapic_write (vs_lapic s),
       mp_write (vs_mp_state s), events_write (vs_events s), put_presence (vs_nested s \<noteq> None),
       (case vs_nested s of Some nested \<Rightarrow> nested_write nested | None \<Rightarrow> id)] []"

definition vcpu_decode :: "u8 list \<Rightarrow> kvm_state_error + vcpu_state" where
  "vcpu_decode bytes =
     (let read =
        try_then (cpuid_read bytes) (\<lambda>cpuid r.
        try_then (msrs_read r) (\<lambda>msrs r.
        try_then (regs_read r) (\<lambda>regs r.
        try_then (sregs_read r) (\<lambda>sregs r.
        try_then (fpu_read r) (\<lambda>fpu r.
        try_then (xcrs_read r) (\<lambda>xcrs r.
        try_then (xsave_read r) (\<lambda>xsave r.
        try_then (lapic_read r) (\<lambda>lapic r.
        try_then (mp_read r) (\<lambda>mp r.
        try_then (events_read r) (\<lambda>events r.
        try_then (kvm_presence r) (\<lambda>present r.
        try_then (if present then try_then (nested_read r) (\<lambda>nested r. (Inr (Some nested), r)) else (Inr None, r)) (\<lambda>nested r.
        try_then (map_err KvmWire (read_finish r), r) (\<lambda>_ r.
        (Inr \<lparr>vs_cpuid = cpuid, vs_msrs = msrs, vs_regs = regs, vs_sregs = sregs, vs_fpu = fpu, vs_xcrs = xcrs,
           vs_xsave = xsave, vs_lapic = lapic, vs_mp_state = mp, vs_events = events, vs_nested = nested\<rparr>, r)))))))))))))) in
      fst read)"

definition vcpu_ok :: "vcpu_state \<Rightarrow> bool" where
  "vcpu_ok s \<longleftrightarrow> cpuid_ok (vs_cpuid s) \<and> msrs_ok (vs_msrs s) \<and> sregs_ok (vs_sregs s) \<and> fpu_ok (vs_fpu s) \<and>
     xcrs_ok (vs_xcrs s) \<and> xsave_ok (vs_xsave s) \<and> length (la_regs (vs_lapic s)) = LAPIC_LEN \<and> pred_option nested_ok (vs_nested s)"

lemma nested_opt_iff:
  "(if present then try_then (nested_read r) (\<lambda>nested r. (Inr (Some nested), r)) else (Inr None, r)) = (Inr n, r') \<longleftrightarrow>
     present = (n \<noteq> None) \<and> pred_option nested_ok n \<and>
     r = (case n of Some nested \<Rightarrow> nested_write nested | None \<Rightarrow> id) [] @ r'"
  by (auto simp: try_then_Inr_iff nested_codec.dec_iff split: option.splits)

text \<open>
  C29: The vCPU section of a snapshot has one canonical form. Bytes decode exactly when they are
  the encoding of a state whose tables are bounded with unique keys, whose segment fields are in
  range and whose XSAVE area and blobs have the recorded sizes; nothing else, and no trailing
  byte, is accepted.
\<close>

theorem vcpu_state_codec: "vcpu_decode bytes = Inr s \<longleftrightarrow> vcpu_ok s \<and> bytes = vcpu_encode s"
proof -
  have "appends (case n of Some nested \<Rightarrow> nested_write nested | None \<Rightarrow> id)" for n
    by (simp add: appends_simps split: option.splits)
  then have "vcpu_encode s = cpuid_write (vs_cpuid s) [] @ msrs_write (vs_msrs s) [] @ regs_write (vs_regs s) [] @
      sregs_write (vs_sregs s) [] @ fpu_write (vs_fpu s) [] @ xcrs_write (vs_xcrs s) [] @ xsave_write (vs_xsave s) [] @
      lapic_write (vs_lapic s) [] @ mp_write (vs_mp_state s) [] @ events_write (vs_events s) [] @
      presence_byte (vs_nested s \<noteq> None) # (case vs_nested s of Some nested \<Rightarrow> nested_write nested | None \<Rightarrow> id) []"
    by (simp add: vcpu_encode_def writes_flat appends_simps) (simp add: put_presence_def)
  then show ?thesis
    by (cases s) (simp add: vcpu_decode_def fst_Inr_iff try_then_Inr_iff cpuid_codec.dec_iff msrs_codec.dec_iff regs_codec.dec_iff
        sregs_codec.dec_iff fpu_codec.dec_iff xcrs_codec.dec_iff xsave_codec.dec_iff lapic_codec.dec_iff mp_codec.dec_iff
        events_codec.dec_iff nested_opt_iff read_presence_iff from_err_iff vcpu_ok_def, blast)
qed

end
