(* ===== verification/KvmVm.thy ===== *)
theory KvmVm
  imports KvmVcpu
begin

text \<open>
  The sections of a snapshot that describe the virtual machine around its vCPU
  (\<open>soma-kvm/src/snapshot/kvm_state/\<close>): the KVM clock and the PIT (\<open>clock.rs\<close>), the interrupt
  controllers (\<open>irqchip.rs\<close>), the GSI routing table (\<open>routing.rs\<close>) and the memory slots (\<open>vm.rs\<close>).
\<close>

unbundle bit_operations_syntax

interpretation kvm_u8c: wire_codec put_u8 kvm_u8 "\<lambda>_. True" by (rule u8c.from_err_codec)

section \<open>Clock\<close>

abbreviation (input) KNOWN_CLOCK_FLAGS :: u32 where "KNOWN_CLOCK_FLAGS \<equiv> 2 OR 4 OR 8"

record clock_state =
  ck_clock :: u64
  ck_flags :: u32
  ck_realtime :: u64
  ck_host_tsc :: u64

definition clock_validate :: "clock_state \<Rightarrow> kvm_state_error + unit" where
  "clock_validate c =
     (if ck_flags c AND NOT KNOWN_CLOCK_FLAGS \<noteq> 0 then Inl (kvm_invalid ''clock.flags'' (ucast (ck_flags c))) else Inr ())"

definition clock_encode :: "clock_state \<Rightarrow> u8 list" where
  "clock_encode c = writes [put_u64 (ck_clock c), put_u32 (ck_flags c), put_u64 (ck_realtime c), put_u64 (ck_host_tsc c)] []"

definition clock_decode :: "u8 list \<Rightarrow> kvm_state_error + clock_state" where
  "clock_decode bytes =
     (let read =
        try_then (kvm_u64 bytes) (\<lambda>clock r.
        try_then (kvm_u32 r) (\<lambda>flags r.
        try_then (kvm_u64 r) (\<lambda>realtime r.
        try_then (kvm_u64 r) (\<lambda>host_tsc r.
        let state = \<lparr>ck_clock = clock, ck_flags = flags, ck_realtime = realtime, ck_host_tsc = host_tsc\<rparr> in
        try_then (map_err KvmWire (read_finish r), r) (\<lambda>_ r.
        try_then (clock_validate state, r) (\<lambda>_ r. (Inr state, r))))))) in
      fst read)"

definition clock_frozen :: "clock_state \<Rightarrow> clock_state" where
  "clock_frozen c = \<lparr>ck_clock = ck_clock c, ck_flags = 0, ck_realtime = 0, ck_host_tsc = 0\<rparr>"

lemma clock_codec:
  "clock_decode bytes = Inr c \<longleftrightarrow> ck_flags c AND NOT KNOWN_CLOCK_FLAGS = 0 \<and> bytes = clock_encode c"
  by (cases c) (auto simp: clock_decode_def clock_encode_def clock_validate_def Let_def fst_Inr_iff try_then_Inr_iff
      wire_simps write_simps split: if_splits)

section \<open>PIT\<close>

record pit_channel =
  pt_count :: u32
  pt_latched_count :: u16
  pt_count_latched :: u8
  pt_status_latched :: u8
  pt_status :: u8
  pt_read_state :: u8
  pt_write_state :: u8
  pt_write_latch :: u8
  pt_rw_mode :: u8
  pt_mode :: u8
  pt_bcd :: u8
  pt_gate :: u8
  pt_count_load_time :: u64

definition pit_bytes :: "pit_channel \<Rightarrow> u8 list" where
  "pit_bytes c = [pt_count_latched c, pt_status_latched c, pt_status c, pt_read_state c, pt_write_state c,
     pt_write_latch c, pt_rw_mode c, pt_mode c, pt_bcd c, pt_gate c]"

definition pit_channel_write :: "pit_channel \<Rightarrow> writer \<Rightarrow> writer" where
  "pit_channel_write c =
     writes [put_u32 (pt_count c), put_u16 (pt_latched_count c), put_bytes (pit_bytes c), put_i64 (pt_count_load_time c)]"

definition pit_channel_read :: "(kvm_state_error, pit_channel) reading" where
  "pit_channel_read r =
     try_then (kvm_u32 r) (\<lambda>count r.
     try_then (kvm_u16 r) (\<lambda>latched_count r.
     try_then (kvm_array 10 r) (\<lambda>v r.
     try_then (from_err KvmWire reader_i64 r) (\<lambda>load_time r.
     (Inr \<lparr>pt_count = count, pt_latched_count = latched_count, pt_count_latched = v ! 0, pt_status_latched = v ! 1,
        pt_status = v ! 2, pt_read_state = v ! 3, pt_write_state = v ! 4, pt_write_latch = v ! 5, pt_rw_mode = v ! 6,
        pt_mode = v ! 7, pt_bcd = v ! 8, pt_gate = v ! 9, pt_count_load_time = load_time\<rparr>, r)))))"

text \<open>\<open>channels: [PitChannel; 3]\<close>.\<close>

record pit_state =
  ps_channels :: "pit_channel list"
  ps_flags :: u32

definition pit_encode :: "pit_state \<Rightarrow> u8 list" where
  "pit_encode p = writes [fold pit_channel_write (ps_channels p), put_u32 (ps_flags p)] []"

definition pit_decode :: "u8 list \<Rightarrow> kvm_state_error + pit_state" where
  "pit_decode bytes =
     (let read =
        try_then (read_many 3 pit_channel_read bytes) (\<lambda>channels r.
        try_then (kvm_u32 r) (\<lambda>flags r.
        try_then (map_err KvmWire (read_finish r), r) (\<lambda>_ r.
        (Inr \<lparr>ps_channels = channels, ps_flags = flags\<rparr>, r)))) in
      fst read)"

interpretation pit_channel_codec: wire_codec pit_channel_write pit_channel_read "\<lambda>_. True"
proof unfold_locales
  fix c r r'
  have "length v = 10 \<Longrightarrow> [v ! 0, v ! 1, v ! 2, v ! 3, v ! 4, v ! 5, v ! 6, v ! 7, v ! 8, v ! 9] = v" for v :: "u8 list"
    using list_eq_nths[of v 10] by (simp add: upt_conv_Cons eval_nat_numeral)
  then show "pit_channel_read r = (Inr c, r') \<longleftrightarrow> True \<and> r = pit_channel_write c [] @ r'"
    by (cases c)
      (auto simp: pit_channel_read_def pit_channel_write_def pit_bytes_def try_then_Inr_iff wire_simps write_simps)
qed (simp add: pit_channel_write_def write_simps)

lemma pit_codec: "pit_decode bytes = Inr p \<longleftrightarrow> length (ps_channels p) = 3 \<and> bytes = pit_encode p"
  by (cases p) (auto simp: pit_decode_def pit_encode_def fst_Inr_iff try_then_Inr_iff wire_simps writes_flat
      appends_simps pit_channel_codec.read_many_iff list_all_iff put_u32_def)

section \<open>Interrupt controllers\<close>

record pic_state =
  pc_last_irr :: u8
  pc_irr :: u8
  pc_imr :: u8
  pc_isr :: u8
  pc_priority_add :: u8
  pc_irq_base :: u8
  pc_read_reg_select :: u8
  pc_poll :: u8
  pc_special_mask :: u8
  pc_init_state :: u8
  pc_auto_eoi :: u8
  pc_rotate_on_auto_eoi :: u8
  pc_special_fully_nested_mode :: u8
  pc_init4 :: u8
  pc_elcr :: u8
  pc_elcr_mask :: u8

definition pic_as_array :: "pic_state \<Rightarrow> u8 list" where
  "pic_as_array p = [pc_last_irr p, pc_irr p, pc_imr p, pc_isr p, pc_priority_add p, pc_irq_base p, pc_read_reg_select p,
     pc_poll p, pc_special_mask p, pc_init_state p, pc_auto_eoi p, pc_rotate_on_auto_eoi p,
     pc_special_fully_nested_mode p, pc_init4 p, pc_elcr p, pc_elcr_mask p]"

definition pic_from_array :: "u8 list \<Rightarrow> pic_state" where
  "pic_from_array v =
     \<lparr>pc_last_irr = v ! 0, pc_irr = v ! 1, pc_imr = v ! 2, pc_isr = v ! 3, pc_priority_add = v ! 4, pc_irq_base = v ! 5,
      pc_read_reg_select = v ! 6, pc_poll = v ! 7, pc_special_mask = v ! 8, pc_init_state = v ! 9, pc_auto_eoi = v ! 10,
      pc_rotate_on_auto_eoi = v ! 11, pc_special_fully_nested_mode = v ! 12, pc_init4 = v ! 13, pc_elcr = v ! 14,
      pc_elcr_mask = v ! 15\<rparr>"

definition pic_write :: "pic_state \<Rightarrow> writer \<Rightarrow> writer" where
  "pic_write p = put_bytes (pic_as_array p)"

definition pic_read :: "(kvm_state_error, pic_state) reading" where
  "pic_read r = try_then (kvm_array 16 r) (\<lambda>bytes r. (Inr (pic_from_array bytes), r))"

abbreviation (input) IOAPIC_PINS :: nat where "IOAPIC_PINS \<equiv> 24"

record ioapic_state =
  ia_base_address :: u64
  ia_ioregsel :: u32
  ia_id :: u32
  ia_irr :: u32
  ia_redirection :: "u64 list"

definition ioapic_write :: "ioapic_state \<Rightarrow> writer \<Rightarrow> writer" where
  "ioapic_write s =
     writes [put_u64 (ia_base_address s), put_u32 (ia_ioregsel s), put_u32 (ia_id s), put_u32 (ia_irr s),
       fold put_u64 (ia_redirection s)]"

definition ioapic_read :: "(kvm_state_error, ioapic_state) reading" where
  "ioapic_read r =
     try_then (kvm_u64 r) (\<lambda>base r.
     try_then (kvm_u32 r) (\<lambda>ioregsel r.
     try_then (kvm_u32 r) (\<lambda>id r.
     try_then (kvm_u32 r) (\<lambda>irr r.
     try_then (read_many IOAPIC_PINS kvm_u64 r) (\<lambda>redirection r.
     (Inr \<lparr>ia_base_address = base, ia_ioregsel = ioregsel, ia_id = id, ia_irr = irr, ia_redirection = redirection\<rparr>, r))))))"

record irqchip_state =
  ic_master :: pic_state
  ic_slave :: pic_state
  ic_ioapic :: ioapic_state

definition irqchip_encode :: "irqchip_state \<Rightarrow> u8 list" where
  "irqchip_encode s = writes [pic_write (ic_master s), pic_write (ic_slave s), ioapic_write (ic_ioapic s)] []"

definition irqchip_decode :: "u8 list \<Rightarrow> kvm_state_error + irqchip_state" where
  "irqchip_decode bytes =
     (let read =
        try_then (pic_read bytes) (\<lambda>master r.
        try_then (pic_read r) (\<lambda>slave r.
        try_then (ioapic_read r) (\<lambda>ioapic r.
        try_then (map_err KvmWire (read_finish r), r) (\<lambda>_ r.
        (Inr \<lparr>ic_master = master, ic_slave = slave, ic_ioapic = ioapic\<rparr>, r))))) in
      fst read)"

lemma pic_from_as: "pic_from_array (pic_as_array p) = p"
  by (simp add: pic_from_array_def pic_as_array_def)

lemma pic_as_from: "length v = 16 \<Longrightarrow> pic_as_array (pic_from_array v) = v"
  using list_eq_nths[of v 16] by (simp add: pic_from_array_def pic_as_array_def upt_conv_Cons eval_nat_numeral)

interpretation pic_codec: wire_codec pic_write pic_read "\<lambda>_. True"
proof unfold_locales
  fix p r r'
  have "length (pic_as_array p) = 16" by (simp add: pic_as_array_def)
  then show "pic_read r = (Inr p, r') \<longleftrightarrow> True \<and> r = pic_write p [] @ r'"
    using pic_from_as[of p] pic_as_from
    by (auto simp: pic_read_def pic_write_def try_then_Inr_iff wire_simps write_simps)
qed (simp add: pic_write_def write_simps)

interpretation ioapic_codec: wire_codec ioapic_write ioapic_read "\<lambda>s. length (ia_redirection s) = IOAPIC_PINS"
proof unfold_locales
  fix s r r'
  show "ioapic_read r = (Inr s, r') \<longleftrightarrow> length (ia_redirection s) = IOAPIC_PINS \<and> r = ioapic_write s [] @ r'"
    by (cases s) (auto simp: ioapic_read_def ioapic_write_def try_then_Inr_iff wire_simps writes_flat appends_simps
        kvm_u64c.read_many_iff list_all_iff put_u64_def put_u32_def)
qed (simp add: ioapic_write_def writes_flat appends_simps)

lemma irqchip_codec:
  "irqchip_decode bytes = Inr s \<longleftrightarrow> length (ia_redirection (ic_ioapic s)) = IOAPIC_PINS \<and> bytes = irqchip_encode s"
  by (cases s) (auto simp: irqchip_decode_def irqchip_encode_def fst_Inr_iff try_then_Inr_iff writes_flat appends_simps
      pic_codec.dec_iff ioapic_codec.dec_iff)

section \<open>GSI routing\<close>

abbreviation (input) MAX_IRQ_ROUTES :: u16 where "MAX_IRQ_ROUTES \<equiv> 256"
abbreviation (input) TARGET_IRQCHIP :: u8 where "TARGET_IRQCHIP \<equiv> 1"
abbreviation (input) TARGET_MSI :: u8 where "TARGET_MSI \<equiv> 2"

text \<open>The fields of the two targets in the order the source declares them.\<close>

datatype route_target =
    RouteIrqchip (rt_irqchip: u32) (rt_pin: u32)
  | RouteMsi (rt_address_lo: u32) (rt_address_hi: u32) (rt_data: u32) (rt_devid: u32)

record irq_route =
  ir_gsi :: u32
  ir_flags :: u32
  ir_target :: route_target

definition route_write :: "irq_route \<Rightarrow> writer \<Rightarrow> writer" where
  "route_write e =
     writes ([put_u32 (ir_gsi e), put_u32 (ir_flags e)] @
       (case ir_target e of
          RouteIrqchip irqchip pin \<Rightarrow> [put_u8 TARGET_IRQCHIP, put_u32 irqchip, put_u32 pin]
        | RouteMsi address_lo address_hi data devid \<Rightarrow>
            [put_u8 TARGET_MSI, put_u32 address_lo, put_u32 address_hi, put_u32 data, put_u32 devid]))"

definition route_read :: "(kvm_state_error, irq_route) reading" where
  "route_read r =
     try_then (kvm_u32 r) (\<lambda>gsi r.
     try_then (kvm_u32 r) (\<lambda>flags r.
     try_then (kvm_u8 r) (\<lambda>code r.
     try_then
       (if code = TARGET_IRQCHIP then
          try_then (kvm_u32 r) (\<lambda>irqchip r. try_then (kvm_u32 r) (\<lambda>pin r. (Inr (RouteIrqchip irqchip pin), r)))
        else if code = TARGET_MSI then
          try_then (kvm_u32 r) (\<lambda>lo r.
          try_then (kvm_u32 r) (\<lambda>hi r.
          try_then (kvm_u32 r) (\<lambda>data r.
          try_then (kvm_u32 r) (\<lambda>devid r. (Inr (RouteMsi lo hi data devid), r)))))
        else (Inl (UnknownCode ''irq_routing.target'' (ucast code)), r)) (\<lambda>target r.
     (Inr \<lparr>ir_gsi = gsi, ir_flags = flags, ir_target = target\<rparr>, r)))))"

record irq_routing =
  rs_entries :: "irq_route list"

definition routing_new :: "irq_route list \<Rightarrow> kvm_state_error + irq_routing" where
  "routing_new entries =
     (if unat MAX_IRQ_ROUTES < length entries then Inl (TooManyEntries ''irq_routing'' (length entries))
      else case first_duplicate id [] entries of
        Some entry \<Rightarrow> Inl (DuplicateEntry ''irq_routing'' (ucast (ir_gsi entry)))
      | None \<Rightarrow> Inr \<lparr>rs_entries = entries\<rparr>)"

definition routing_encode :: "irq_routing \<Rightarrow> u8 list" where
  "routing_encode s =
     writes [put_u16 (u16_len_or MAX_IRQ_ROUTES (length (rs_entries s))), fold route_write (rs_entries s)] []"

definition routing_decode :: "u8 list \<Rightarrow> kvm_state_error + irq_routing" where
  "routing_decode bytes =
     (let read =
        try_then (from_err KvmWire (count_u16 MAX_IRQ_ROUTES) bytes) (\<lambda>count r.
        try_then (read_many (unat count) route_read r) (\<lambda>entries r.
        try_then (map_err KvmWire (read_finish r), r) (\<lambda>_ r. (routing_new entries, r)))) in
      fst read)"

interpretation route_codec: wire_codec route_write route_read "\<lambda>_. True"
proof unfold_locales
  fix e r r'
  obtain gsi flags target where e: "e = \<lparr>ir_gsi = gsi, ir_flags = flags, ir_target = target\<rparr>" by (cases e)
  show "route_read r = (Inr e, r') \<longleftrightarrow> True \<and> r = route_write e [] @ r'"
    by (cases target) (auto simp: e route_read_def route_write_def try_then_Inr_iff wire_simps write_simps either_iff)
next
  fix e w
  show "route_write e w = w @ route_write e []"
    by (cases "ir_target e") (simp_all add: route_write_def write_simps)
qed

lemma routing_new_iff:
  "routing_new entries = Inr s \<longleftrightarrow> s = \<lparr>rs_entries = entries\<rparr> \<and> length entries \<le> 256 \<and> distinct entries"
  by (auto simp: routing_new_def first_duplicate_case)

lemma routing_codec:
  "routing_decode bytes = Inr s \<longleftrightarrow>
     length (rs_entries s) \<le> 256 \<and> distinct (rs_entries s) \<and> bytes = routing_encode s"
proof -
  have "routing_encode s = be_bytes 2 (of_nat (length (rs_entries s)) :: u16) @ fold route_write (rs_entries s) []"
    if "length (rs_entries s) \<le> 256"
    using that by (simp add: routing_encode_def writes_flat appends_simps) (simp add: write_simps u16_len_or_def)
  then show ?thesis
    unfolding routing_decode_def Let_def fst_Inr_iff route_codec.table_iff
    by (cases s) (auto simp: routing_new_iff try_then_Inr_iff list_all_iff)
qed

section \<open>Memory slots\<close>

abbreviation (input) MAX_MEMORY_SLOTS :: u16 where "MAX_MEMORY_SLOTS \<equiv> 16"

record memory_slot =
  ms_slot :: u32
  ms_guest_address :: u64
  ms_size :: u64
  ms_memory_offset :: u64

definition guest_end :: "memory_slot \<Rightarrow> u64 option" where
  "guest_end s = checked_add (ms_guest_address s) (ms_size s)"

definition slot_validate :: "memory_slot \<Rightarrow> kvm_state_error + unit" where
  "slot_validate s =
     (if ms_size s = 0 then Inl (kvm_invalid ''memory_slot.size'' (ms_size s))
      else if guest_end s = None then Inl (kvm_invalid ''memory_slot.guest_address'' (ms_guest_address s))
      else if checked_add (ms_memory_offset s) (ms_size s) = None
        then Inl (kvm_invalid ''memory_slot.memory_offset'' (ms_memory_offset s))
      else Inr ())"

definition slot_write :: "memory_slot \<Rightarrow> writer \<Rightarrow> writer" where
  "slot_write s = writes [put_u32 (ms_slot s), put_u64 (ms_guest_address s), put_u64 (ms_size s), put_u64 (ms_memory_offset s)]"

definition slot_read :: "(kvm_state_error, memory_slot) reading" where
  "slot_read r =
     try_then (kvm_u32 r) (\<lambda>slot r.
     try_then (kvm_u64 r) (\<lambda>guest_address r.
     try_then (kvm_u64 r) (\<lambda>size r.
     try_then (kvm_u64 r) (\<lambda>memory_offset r.
     (Inr \<lparr>ms_slot = slot, ms_guest_address = guest_address, ms_size = size, ms_memory_offset = memory_offset\<rparr>, r)))))"

record vm_state =
  vm_slots :: "memory_slot list"
  vm_tss_address :: u64
  vm_identity_map_address :: u64

text \<open>The loop of \<open>new\<close>: \<open>before\<close> is \<open>slots[..position]\<close>.\<close>

fun check_slots :: "memory_slot list \<Rightarrow> memory_slot list \<Rightarrow> kvm_state_error + unit" where
  "check_slots before [] = Inr ()"
| "check_slots before (s # rest) =
     and_then (slot_validate s) (\<lambda>_.
     if ms_slot s \<in> set (map ms_slot before) then Inl (DuplicateEntry ''memory_slots'' (ucast (ms_slot s)))
     else if before \<noteq> [] \<and> (case guest_end (last before) of None \<Rightarrow> True | Some e \<Rightarrow> ms_guest_address s < e)
       then Inl (KvmOverlap ''memory_slots'')
     else check_slots (before @ [s]) rest)"

definition vm_new :: "memory_slot list \<Rightarrow> u64 \<Rightarrow> u64 \<Rightarrow> kvm_state_error + vm_state" where
  "vm_new slots tss_address identity_map_address =
     (if slots = [] then Inl (kvm_invalid ''memory_slots.count'' 0)
      else if unat MAX_MEMORY_SLOTS < length slots then Inl (TooManyEntries ''memory_slots'' (length slots))
      else and_then (check_slots [] slots) (\<lambda>_.
        Inr \<lparr>vm_slots = slots, vm_tss_address = tss_address, vm_identity_map_address = identity_map_address\<rparr>))"

definition total_bytes :: "vm_state \<Rightarrow> u64" where
  "total_bytes s = foldl (\<lambda>total slot. saturating_add total (ms_size slot)) 0 (vm_slots s)"

definition vm_encode :: "vm_state \<Rightarrow> u8 list" where
  "vm_encode s =
     writes [put_u16 (u16_len_or MAX_MEMORY_SLOTS (length (vm_slots s))), fold slot_write (vm_slots s),
       put_u64 (vm_tss_address s), put_u64 (vm_identity_map_address s)] []"

definition vm_decode :: "u8 list \<Rightarrow> kvm_state_error + vm_state" where
  "vm_decode bytes =
     (let read =
        try_then (from_err KvmWire (count_u16 MAX_MEMORY_SLOTS) bytes) (\<lambda>count r.
        try_then (read_many (unat count) slot_read r) (\<lambda>slots r.
        try_then (kvm_u64 r) (\<lambda>tss_address r.
        try_then (kvm_u64 r) (\<lambda>identity_map_address r.
        try_then (map_err KvmWire (read_finish r), r) (\<lambda>_ r.
        (vm_new slots tss_address identity_map_address, r)))))) in
      fst read)"

text \<open>What a layout promises: bounded slots, each in the address space, apart from each other and in ascending order.\<close>

definition slot_ok :: "memory_slot \<Rightarrow> bool" where
  "slot_ok s \<longleftrightarrow> ms_size s \<noteq> 0 \<and> unat (ms_guest_address s) + unat (ms_size s) < 2 ^ 64 \<and>
     unat (ms_memory_offset s) + unat (ms_size s) < 2 ^ 64"

definition slot_below :: "memory_slot \<Rightarrow> memory_slot \<Rightarrow> bool" where
  "slot_below a b \<longleftrightarrow> unat (ms_guest_address a) + unat (ms_size a) \<le> unat (ms_guest_address b)"

definition vm_ok :: "vm_state \<Rightarrow> bool" where
  "vm_ok s \<longleftrightarrow> vm_slots s \<noteq> [] \<and> length (vm_slots s) \<le> 16 \<and> list_all slot_ok (vm_slots s) \<and>
     distinct (map ms_slot (vm_slots s)) \<and> sorted_wrt slot_below (vm_slots s)"

interpretation slot_codec: wire_codec slot_write slot_read "\<lambda>_. True"
proof unfold_locales
  fix s r r'
  show "slot_read r = (Inr s, r') \<longleftrightarrow> True \<and> r = slot_write s [] @ r'"
    by (cases s) (auto simp: slot_read_def slot_write_def try_then_Inr_iff wire_simps write_simps)
qed (simp add: slot_write_def write_simps)

lemma slot_validate_iff: "slot_validate s = Inr u \<longleftrightarrow> slot_ok s"
  by (auto simp: slot_validate_def slot_ok_def guest_end_def checked_add_None_iff not_le)

lemma slot_below_end:
  "slot_ok a \<Longrightarrow> (case guest_end a of None \<Rightarrow> True | Some e \<Rightarrow> ms_guest_address b < e) \<longleftrightarrow> \<not> slot_below a b"
  by (auto simp: guest_end_def slot_ok_def slot_below_def checked_add_def unat_add_no_overflow word_less_nat_alt)

lemma transp_slot_below: "transp slot_below"
  by (auto simp: transp_def slot_below_def)

lemma check_slots_iff:
  "(before \<noteq> [] \<longrightarrow> slot_ok (last before)) \<Longrightarrow>
   check_slots before rest = Inr u \<longleftrightarrow>
     list_all slot_ok rest \<and> distinct (map ms_slot rest) \<and> set (map ms_slot before) \<inter> set (map ms_slot rest) = {} \<and>
     (before \<noteq> [] \<and> rest \<noteq> [] \<longrightarrow> slot_below (last before) (hd rest)) \<and> successively slot_below rest"
proof (induction before rest rule: check_slots.induct)
  case (2 before s rest)
  have "check_slots before (s # rest) = Inr u \<longleftrightarrow>
      slot_ok s \<and> ms_slot s \<notin> set (map ms_slot before) \<and> (before \<noteq> [] \<longrightarrow> slot_below (last before) s) \<and>
      check_slots (before @ [s]) rest = Inr u"
    using 2(2) by (cases "before = []") (auto simp: and_then_Inr_iff slot_validate_iff slot_below_end)
  moreover have "check_slots (before @ [s]) rest = Inr u \<longleftrightarrow>
      list_all slot_ok rest \<and> distinct (map ms_slot rest) \<and>
      set (map ms_slot (before @ [s])) \<inter> set (map ms_slot rest) = {} \<and>
      (rest \<noteq> [] \<longrightarrow> slot_below s (hd rest)) \<and> successively slot_below rest"
    if "slot_ok s" "ms_slot s \<notin> set (map ms_slot before)" "before \<noteq> [] \<longrightarrow> slot_below (last before) s"
  proof (rule trans[OF 2(1)])
  qed (use that 2(2) in \<open>auto simp: slot_validate_iff slot_below_end\<close>)
  ultimately show ?case by (auto simp: successively_Cons simp del: check_slots.simps)
qed auto

lemma vm_new_iff:
  "vm_new slots tss idm = Inr s \<longleftrightarrow>
     s = \<lparr>vm_slots = slots, vm_tss_address = tss, vm_identity_map_address = idm\<rparr> \<and> vm_ok s"
  by (auto simp: vm_new_def vm_ok_def and_then_Inr_iff check_slots_iff
      successively_conv_sorted_wrt[OF transp_slot_below] word_less_nat_alt not_less)

text \<open>The code compares neighbours only; the accepted slots are apart pairwise.\<close>

lemma vm_decode_iff: "vm_decode bytes = Inr s \<longleftrightarrow> vm_ok s \<and> bytes = vm_encode s"
proof -
  have "vm_encode s = be_bytes 2 (of_nat (length (vm_slots s)) :: u16) @ fold slot_write (vm_slots s) [] @
      be_bytes 8 (vm_tss_address s) @ be_bytes 8 (vm_identity_map_address s)"
    if "length (vm_slots s) \<le> 16"
    using that by (simp add: vm_encode_def writes_flat appends_simps) (simp add: write_simps u16_len_or_def)
  then show ?thesis
    unfolding vm_decode_def Let_def fst_Inr_iff slot_codec.table_iff
    by (cases s) (auto simp: vm_new_iff try_then_Inr_iff list_all_iff vm_ok_def wire_simps)
qed

lemma sizes_below:
  "\<lbrakk>sorted_wrt slot_below slots; list_all slot_ok slots; \<forall>s\<in>set slots. lo \<le> unat (ms_guest_address s)\<rbrakk>
     \<Longrightarrow> slots \<noteq> [] \<Longrightarrow> lo + sum_list (map (\<lambda>s. unat (ms_size s)) slots) < 2 ^ 64"
proof (induction slots arbitrary: lo)
  case (Cons s rest)
  show ?case
  proof (cases "rest = []")
    case True
    then show ?thesis using Cons.prems by (auto simp: slot_ok_def)
  next
    case False
    then have "unat (ms_guest_address s) + unat (ms_size s) + sum_list (map (\<lambda>s. unat (ms_size s)) rest) < 2 ^ 64"
      using Cons.prems by (intro Cons.IH) (auto simp: slot_below_def)
    then show ?thesis using Cons.prems by auto
  qed
qed simp

lemma saturating_total:
  "unat (foldl (\<lambda>total slot. saturating_add total (ms_size slot)) t slots) =
     min (unat t + sum_list (map (\<lambda>s. unat (ms_size s)) slots)) (2 ^ 64 - 1)"
proof (induction slots arbitrary: t)
  case Nil
  show ?case using unsigned_less[of t, where 'a = nat] by simp
qed (simp add: unat_saturating_add)

lemma total_bytes_exact: "vm_ok s \<Longrightarrow> unat (total_bytes s) = sum_list (map (\<lambda>s. unat (ms_size s)) (vm_slots s))"
  using sizes_below[of "vm_slots s" 0] by (simp add: total_bytes_def saturating_total vm_ok_def)

end
