(* ===== verification/SnapCompat.thy ===== *)
theory SnapCompat
  imports SnapManifest SnapDevice KvmVm
begin

text \<open>
  Admission of a snapshot: the comparison of a manifest with a host
  (\<open>soma-kvm/src/snapshot/compatibility.rs\<close>, \<open>compatibility/reason.rs\<close>) and the verification of a
  capture's three artifacts when it is installed (\<open>inspection.rs\<close>).
\<close>

abbreviation (input) DEVICE_COUNT :: nat where "DEVICE_COUNT \<equiv> 5"

datatype incompatibility =
    IncSchemaVersion u16 u16
  | IncArchitecture architecture architecture
  | IncPageSize u32 u32
  | IncMemoryLayout u64 u64
  | IncVcpuCount u16 u16
  | IncCpuTemplate digest digest
  | IncKvmApiVersion u32 u32
  | IncMissingCapability host_capability
  | IncMemorySlots u16 u16
  | IncMachineContract digest digest
  | IncDeviceContract digest digest
  | IncGuestProtocolVersion u16 u16
  | IncMalformedVmState kvm_state_error
  | IncMissingSection section_role
  | IncNoExpectationForSlot u8
  | IncUnexpectedSection section_role
  | IncMalformedDevice u8 snap_device_error
  | IncQueueLimit u8 u8 u16 u16
  | IncFeatureNegotiation u8 u64 u64

text \<open>\<open>queue_limits: [u16; MAX_QUEUES]\<close>, three entries.\<close>

record device_expectation =
  dx_kind :: device_kind
  dx_negotiated_features :: u64
  dx_queue_limits :: "u16 list"

record host_profile =
  hp_schema_version :: u16
  hp_architecture :: architecture
  hp_page_size :: u32
  hp_kvm_api_version :: u32
  hp_capabilities :: "host_capability list"
  hp_memory_slots :: u16
  hp_machine_contract :: digest
  hp_device_contract :: digest
  hp_cpu_template :: digest
  hp_vcpu_count :: u16
  hp_memory_bytes :: u64
  hp_guest_protocol_version :: u16
  hp_devices :: "device_expectation option list"

definition exact :: "'a \<Rightarrow> 'a \<Rightarrow> ('a \<Rightarrow> 'a \<Rightarrow> incompatibility) \<Rightarrow> incompatibility + unit" where
  "exact expected actual reason = (if expected = actual then Inr () else Inl (reason expected actual))"

text \<open>A \<open>for\<close> loop whose body may return early.\<close>

primrec try_each :: "('a \<Rightarrow> 'e + unit) \<Rightarrow> 'a list \<Rightarrow> 'e + unit" where
  "try_each f [] = Inr ()"
| "try_each f (x # xs) = and_then (f x) (\<lambda>_. try_each f xs)"

definition device_role :: "u8 \<Rightarrow> section_role option" where
  "device_role slot = List.find (\<lambda>role. role_device_slot role = Some slot) ALL_ROLES"

definition check_header :: "host_profile \<Rightarrow> manifest \<Rightarrow> incompatibility + unit" where
  "check_header host m =
     (let header = mf_header m in
      and_then (exact (hp_schema_version host) SCHEMA_VERSION IncSchemaVersion) (\<lambda>_.
      and_then (exact (hp_architecture host) (mh_architecture header) IncArchitecture) (\<lambda>_.
      and_then (exact (hp_page_size host) (mh_page_size header) IncPageSize) (\<lambda>_.
      and_then (exact (hp_memory_bytes host) (md_size (mh_memory header)) IncMemoryLayout) (\<lambda>_.
      and_then (exact (hp_vcpu_count host) (mh_vcpu_count header) IncVcpuCount) (\<lambda>_.
      and_then (exact (hp_cpu_template host) (mh_cpu_template header) IncCpuTemplate) (\<lambda>_.
      and_then (exact (hp_kvm_api_version host) (hr_kvm_api_version (mh_host header)) IncKvmApiVersion) (\<lambda>_.
      and_then (try_each (\<lambda>required. if required \<notin> set (hp_capabilities host) then Inl (IncMissingCapability required) else Inr ())
          (hr_capabilities (mh_host header))) (\<lambda>_.
      if hp_memory_slots host < hr_min_memory_slots (mh_host header)
        then Inl (IncMemorySlots (hr_min_memory_slots (mh_host header)) (hp_memory_slots host))
      else
        and_then (exact (hp_machine_contract host) (mh_machine_contract header) IncMachineContract) (\<lambda>_.
        and_then (exact (hp_device_contract host) (mh_device_contract header) IncDeviceContract) (\<lambda>_.
        exact (hp_guest_protocol_version host) (mh_guest_protocol_version header) IncGuestProtocolVersion)))))))))))"

definition check_vm_layout :: "manifest \<Rightarrow> incompatibility + unit" where
  "check_vm_layout m =
     and_then (ok_or (IncMissingSection RoleVmState) (manifest_section m RoleVmState)) (\<lambda>section.
     and_then (map_err IncMalformedVmState (vm_decode (sec_payload section))) (\<lambda>vm.
     let expected = md_size (mh_memory (mf_header m)); covered = total_bytes vm;
         in_bounds = list_all (\<lambda>slot. case checked_add (ms_memory_offset slot) (ms_size slot) of
           None \<Rightarrow> False | Some e \<Rightarrow> e \<le> expected) (vm_slots vm) in
     if covered \<noteq> expected \<or> \<not> in_bounds then Inl (IncMemoryLayout expected covered) else Inr ()))"

text \<open>The loop over \<open>state.queues().iter().enumerate()\<close>, from \<open>index\<close>.\<close>

fun check_queue_limits :: "device_expectation \<Rightarrow> u8 \<Rightarrow> nat \<Rightarrow> snap_queue list \<Rightarrow> incompatibility + unit" where
  "check_queue_limits expectation slot index [] = Inr ()"
| "check_queue_limits expectation slot index (queue # queues) =
     (let expected = dx_queue_limits expectation ! index in
      if sq_max_size queue \<noteq> expected
        then Inl (IncQueueLimit slot (if index < 256 then of_nat index else - 1) expected (sq_max_size queue))
      else check_queue_limits expectation slot (Suc index) queues)"

definition check_device :: "host_profile \<Rightarrow> manifest \<Rightarrow> u8 \<Rightarrow> incompatibility + unit" where
  "check_device host m slot =
     (let expectation = (if unat slot < length (hp_devices host) then hp_devices host ! unat slot else None);
          matching = (case expectation of Some e \<Rightarrow> if kind_slot (dx_kind e) = slot then Some e else None | None \<Rightarrow> None) in
      and_then (ok_or (IncNoExpectationForSlot slot) matching) (\<lambda>expectation.
      and_then (ok_or (IncNoExpectationForSlot slot) (device_role slot)) (\<lambda>role.
      and_then (ok_or (IncMissingSection role) (manifest_section m role)) (\<lambda>section.
      and_then (map_err (IncMalformedDevice slot) (decode_for_slot slot (sec_payload section))) (\<lambda>state.
      and_then (check_queue_limits expectation slot 0 (sd_queues state)) (\<lambda>_.
      exact (dx_negotiated_features expectation) (sd_negotiated_features state) (IncFeatureNegotiation slot)))))))"

definition check_slot :: "host_profile \<Rightarrow> manifest \<Rightarrow> u8 \<Rightarrow> incompatibility + unit" where
  "check_slot host m slot =
     (if unat slot < length (hp_devices host) \<and> hp_devices host ! unat slot \<noteq> None then check_device host m slot
      else case device_role slot of
        Some role \<Rightarrow> if manifest_section m role \<noteq> None then Inl (IncUnexpectedSection role) else Inr ()
      | None \<Rightarrow> Inr ())"

definition compat_check :: "host_profile \<Rightarrow> manifest \<Rightarrow> incompatibility + unit" where
  "compat_check host m =
     and_then (check_header host m) (\<lambda>_.
     and_then (check_vm_layout m) (\<lambda>_.
     try_each (check_slot host m) (map of_nat [0..<DEVICE_COUNT])))"

section \<open>What compatibility means\<close>

definition header_matches :: "host_profile \<Rightarrow> manifest_header \<Rightarrow> bool" where
  "header_matches host h \<longleftrightarrow>
     hp_schema_version host = 2 \<and> hp_architecture host = mh_architecture h \<and> hp_page_size host = mh_page_size h \<and>
     hp_memory_bytes host = md_size (mh_memory h) \<and> hp_vcpu_count host = mh_vcpu_count h \<and>
     hp_cpu_template host = mh_cpu_template h \<and> hp_kvm_api_version host = hr_kvm_api_version (mh_host h) \<and>
     set (hr_capabilities (mh_host h)) \<subseteq> set (hp_capabilities host) \<and>
     hr_min_memory_slots (mh_host h) \<le> hp_memory_slots host \<and> hp_machine_contract host = mh_machine_contract h \<and>
     hp_device_contract host = mh_device_contract h \<and> hp_guest_protocol_version host = mh_guest_protocol_version h"

text \<open>The layout of the \<open>VmState\<close> section adds up to the memory object and stays inside it.\<close>

definition layout_matches :: "manifest \<Rightarrow> vm_state \<Rightarrow> bool" where
  "layout_matches m vm \<longleftrightarrow>
     map_option sec_payload (manifest_section m RoleVmState) = Some (vm_encode vm) \<and> vm_ok vm \<and>
     sum_list (map (\<lambda>s. unat (ms_size s)) (vm_slots vm)) = unat (md_size (mh_memory (mf_header m))) \<and>
     list_all (\<lambda>s. unat (ms_memory_offset s) + unat (ms_size s) \<le> unat (md_size (mh_memory (mf_header m)))) (vm_slots vm)"

fun slot_role :: "nat \<Rightarrow> section_role" where
  "slot_role 0 = RoleDevice0"
| "slot_role (Suc 0) = RoleDevice1"
| "slot_role (Suc (Suc 0)) = RoleDevice2"
| "slot_role (Suc (Suc (Suc 0))) = RoleDevice3"
| "slot_role _ = RoleDevice4"

definition device_matches :: "device_expectation \<Rightarrow> snap_device \<Rightarrow> bool" where
  "device_matches e d \<longleftrightarrow>
     sd_kind d = dx_kind e \<and> snap_device_ok d \<and> specific_typed (sd_specific d) \<and>
     sd_negotiated_features d = dx_negotiated_features e \<and>
     map sq_max_size (sd_queues d) = take (kind_queue_count (dx_kind e)) (dx_queue_limits e)"

text \<open>A slot the host expects holds a matching record; a slot it does not holds none.\<close>

definition slot_matches :: "manifest \<Rightarrow> nat \<Rightarrow> device_expectation option \<Rightarrow> bool" where
  "slot_matches m n expectation \<longleftrightarrow>
     (case expectation of
        None \<Rightarrow> manifest_section m (slot_role n) = None
      | Some e \<Rightarrow> kind_slot (dx_kind e) = of_nat n \<and>
          (\<exists>d. map_option sec_payload (manifest_section m (slot_role n)) = Some (snap_device_encode d) \<and> device_matches e d))"

text \<open>The arrays of the source have a fixed length.\<close>

definition profile_shape :: "host_profile \<Rightarrow> bool" where
  "profile_shape host \<longleftrightarrow> length (hp_devices host) = DEVICE_COUNT \<and>
     list_all (pred_option (\<lambda>e. length (dx_queue_limits e) = 3)) (hp_devices host)"

lemma try_each_Inr: "try_each f xs = Inr u \<longleftrightarrow> (\<forall>x \<in> set xs. f x = Inr ())"
  by (induction xs) (auto simp: and_then_Inr_iff)

lemma exact_Inr: "exact a b reason = Inr u \<longleftrightarrow> a = b"
  by (simp add: exact_def)

lemma check_header_Inr: "check_header host m = Inr u \<longleftrightarrow> header_matches host (mf_header m)"
  by (auto simp: check_header_def header_matches_def Let_def and_then_Inr_iff exact_Inr try_each_Inr not_less)

lemma check_vm_layout_Inr: "check_vm_layout m = Inr u \<longleftrightarrow> (\<exists>vm. layout_matches m vm)"
proof -
  have fits: "(case checked_add (ms_memory_offset s) (ms_size s) of None \<Rightarrow> False | Some e \<Rightarrow> e \<le> lim) \<longleftrightarrow>
      unat (ms_memory_offset s) + unat (ms_size s) \<le> unat lim" for s and lim :: u64
    using unsigned_less[of lim, where 'a = nat]
    by (auto simp: checked_add_def word_le_nat_alt unat_add_no_overflow)
  have total: "total_bytes vm = lim \<longleftrightarrow> sum_list (map (\<lambda>s. unat (ms_size s)) (vm_slots vm)) = unat lim"
    if "vm_ok vm" for vm and lim :: u64
    using that total_bytes_exact[of vm] by (simp add: word_unat_eq_iff)
  have "check_vm_layout m = Inr u \<longleftrightarrow> (\<exists>vm s. manifest_section m RoleVmState = Some s \<and> vm_decode (sec_payload s) = Inr vm \<and>
      total_bytes vm = md_size (mh_memory (mf_header m)) \<and>
      list_all (\<lambda>s. unat (ms_memory_offset s) + unat (ms_size s) \<le> unat (md_size (mh_memory (mf_header m)))) (vm_slots vm))"
    by (auto simp: check_vm_layout_def and_then_Inr_iff ok_or_Inr_iff map_err_Inr_iff Let_def fits)
  also have "\<dots> \<longleftrightarrow> (\<exists>vm. layout_matches m vm)"
    unfolding layout_matches_def vm_decode_iff using total by fastforce
  finally show ?thesis .
qed

lemma slot_role_numeral:
  "slot_role 1 = RoleDevice1" "slot_role 2 = RoleDevice2" "slot_role 3 = RoleDevice3" "slot_role 4 = RoleDevice4"
  by (simp_all add: numeral_eq_Suc)

lemma device_role_slot: "n < 5 \<Longrightarrow> device_role (of_nat n) = Some (slot_role n)"
proof -
  assume "n < 5"
  then consider "n = 0" | "n = 1" | "n = 2" | "n = 3" | "n = 4" by linarith
  then show ?thesis by cases (simp_all add: device_role_def ALL_ROLES_def slot_role_numeral)
qed

lemma limits_iff:
  "index + length queues \<le> length (dx_queue_limits e) \<Longrightarrow>
   check_queue_limits e slot index queues = Inr u \<longleftrightarrow>
     map sq_max_size queues = take (length queues) (drop index (dx_queue_limits e))"
proof (induction queues arbitrary: index)
  case (Cons queue queues)
  then have "drop index (dx_queue_limits e) = dx_queue_limits e ! index # drop (Suc index) (dx_queue_limits e)"
    by (simp add: Cons_nth_drop_Suc)
  with Cons show ?case by (simp add: Let_def)
qed simp

lemma check_device_Inr:
  assumes "profile_shape host" "n < 5" "hp_devices host ! n = Some e"
  shows "check_device host m (of_nat n) = Inr u \<longleftrightarrow> slot_matches m n (Some e)"
proof -
  have len: "length (dx_queue_limits e) = 3" "n < length (hp_devices host)"
    using assms by (auto simp: profile_shape_def list_all_length)
  have un: "unat (of_nat n :: u8) = n" using assms(2) by (simp add: unsigned_of_nat take_bit_nat_eq_self)
  have queues: "check_queue_limits e (of_nat n) 0 (sd_queues d) = Inr v \<longleftrightarrow>
      map sq_max_size (sd_queues d) = take (kind_queue_count (sd_kind d)) (dx_queue_limits e)"
    if "snap_device_ok d" for d v
  proof -
    have "length (sd_queues d) = kind_queue_count (sd_kind d)" "kind_queue_count (sd_kind d) \<le> 3"
      using that by (simp add: snap_device_ok_def) (cases "sd_kind d"; simp)
    then show ?thesis
      using limits_iff[of 0 "sd_queues d" e] len(1) by simp
  qed
  have kind: "kind_slot a = kind_slot b \<longleftrightarrow> a = b" for a b by (cases a; cases b) simp_all
  have "check_device host m (of_nat n) = Inr u \<longleftrightarrow> kind_slot (dx_kind e) = of_nat n \<and>
      (\<exists>s d. manifest_section m (slot_role n) = Some s \<and> decode_for_slot (of_nat n) (sec_payload s) = Inr d \<and>
        check_queue_limits e (of_nat n) 0 (sd_queues d) = Inr () \<and> dx_negotiated_features e = sd_negotiated_features d)"
    using len(2) assms(3)
    by (auto simp: check_device_def Let_def and_then_Inr_iff ok_or_Inr_iff map_err_Inr_iff
        device_role_slot[OF assms(2)] exact_Inr un)
  also have "\<dots> \<longleftrightarrow> kind_slot (dx_kind e) = of_nat n \<and> (\<exists>s d. manifest_section m (slot_role n) = Some s \<and>
      sec_payload s = snap_device_encode d \<and> device_matches e d)"
    unfolding snap_device_codec device_matches_def using queues kind by metis
  also have "\<dots> \<longleftrightarrow> slot_matches m n (Some e)" by (auto simp: slot_matches_def)
  finally show ?thesis .
qed

lemma check_slot_Inr:
  assumes "profile_shape host" "n < 5"
  shows "check_slot host m (of_nat n) = Inr u \<longleftrightarrow> slot_matches m n (hp_devices host ! n)"
proof -
  have un: "unat (of_nat n :: u8) = n" "n < length (hp_devices host)"
    using assms by (simp_all add: profile_shape_def unsigned_of_nat take_bit_nat_eq_self)
  show ?thesis
    using check_device_Inr[OF assms]
    by (cases "hp_devices host ! n") (simp_all add: check_slot_def un device_role_slot[OF assms(2)] slot_matches_def)
qed

section \<open>Installation\<close>

record artifact_evidence =
  ae_digest :: digest
  ae_size :: u64

record capture_expectation =
  cx_candidate_id :: "u8 list"
  cx_memory :: artifact_evidence
  cx_overlay :: artifact_evidence
  cx_state :: artifact_evidence

text \<open>\<open>VerifiedCapture\<close> has the fields of \<open>CaptureExpectation\<close>.\<close>

record verified_capture =
  vc_candidate_id :: "u8 list"
  vc_memory :: artifact_evidence
  vc_overlay :: artifact_evidence
  vc_state :: artifact_evidence

datatype inspection_error =
    InspManifest manifest_error
  | InspMemory memory_error
  | CandidateMismatch
  | MemoryBinding
  | OverlayBinding
  | StateBinding
  | MissingOverlayState
  | OverlayState snap_device_error
  | OverlayDigest
  | OverlaySize

definition inspect_capture ::
    "(u8 list \<Rightarrow> digest) \<Rightarrow> u8 list \<Rightarrow> artifact_evidence \<Rightarrow> artifact_evidence \<Rightarrow> capture_expectation \<Rightarrow>
     inspection_error + verified_capture" where
  "inspect_capture sha state_bytes memory overlay expected =
     and_then (map_err InspManifest (manifest_decode sha state_bytes)) (\<lambda>m.
     if mh_candidate_id (mf_header m) \<noteq> cx_candidate_id expected then Inl CandidateMismatch
     else if memory \<noteq> cx_memory expected then Inl MemoryBinding
     else if overlay \<noteq> cx_overlay expected then Inl OverlayBinding
     else
       let state = \<lparr>ae_digest = sha state_bytes, ae_size = u64_len (length state_bytes)\<rparr> in
       if state \<noteq> cx_state expected then Inl StateBinding
       else
         and_then (map_err InspMemory (verify_generation (mh_memory (mf_header m)) (ae_digest memory) (ae_size memory))) (\<lambda>_.
         and_then (ok_or MissingOverlayState (manifest_section m RoleDevice1)) (\<lambda>section.
         and_then (map_err OverlayState (decode_for_slot 1 (sec_payload section))) (\<lambda>device.
         case sd_specific device of
           SpecBlock block \<Rightarrow>
             if sb_image_digest block \<noteq> ae_digest overlay then Inl OverlayDigest
             else if checked_mul (sb_capacity_sectors block) 512 \<noteq> Some (ae_size overlay) then Inl OverlaySize
             else Inr \<lparr>vc_candidate_id = mh_candidate_id (mf_header m), vc_memory = memory, vc_overlay = overlay,
               vc_state = state\<rparr>
         | _ \<Rightarrow> Inl (OverlayState (SpecificMismatch (sd_kind device)))))))"

text \<open>A state file that names the memory and overlay objects it is installed with.\<close>

definition binds_artifacts :: "manifest \<Rightarrow> artifact_evidence \<Rightarrow> artifact_evidence \<Rightarrow> bool" where
  "binds_artifacts m memory overlay \<longleftrightarrow>
     ae_digest memory = md_digest (mh_memory (mf_header m)) \<and> ae_size memory = md_size (mh_memory (mf_header m)) \<and>
     (\<exists>d block. map_option sec_payload (manifest_section m RoleDevice1) = Some (snap_device_encode d) \<and>
        sd_kind d = KindOverlayBlock \<and> snap_device_ok d \<and> specific_typed (sd_specific d) \<and> sd_specific d = SpecBlock block \<and>
        sb_image_digest block = ae_digest overlay \<and> unat (sb_capacity_sectors block) * 512 = unat (ae_size overlay))"

lemma overlay_decode:
  "decode_for_slot 1 bytes = Inr d \<longleftrightarrow>
     sd_kind d = KindOverlayBlock \<and> snap_device_ok d \<and> specific_typed (sd_specific d) \<and> bytes = snap_device_encode d"
proof -
  have "kind_slot kind = 1 \<longleftrightarrow> kind = KindOverlayBlock" for kind by (cases kind) simp_all
  then show ?thesis by (simp add: snap_device_codec)
qed

lemma overlay_bytes: "checked_mul sectors 512 = Some size' \<longleftrightarrow> unat sectors * 512 = unat size'"
  for sectors size' :: u64
proof -
  have "unat (sectors * 512) = unat sectors * 512" if "unat sectors * 512 < 2 ^ 64"
    using that by (simp add: unat_mul_no_overflow)
  then show ?thesis
    using unsigned_less[of size', where 'a = nat] by (auto simp: checked_mul_def word_unat_eq_iff)
qed

lemma refuse_Inr: "(if c then Inl e else m) = Inr x \<longleftrightarrow> \<not> c \<and> m = Inr x"
  by simp

lemma accept_Inr: "(if c then Inr () else Inl e) = Inr u \<longleftrightarrow> c"
  by simp

lemma block_case_Inr:
  "(case spec of SpecBlock b \<Rightarrow> f b | SpecNet mac up \<Rightarrow> Inl e | SpecVsock cid \<Rightarrow> Inl e | SpecRng \<Rightarrow> Inl e) = Inr x \<longleftrightarrow>
     (\<exists>b. spec = SpecBlock b \<and> f b = Inr x)"
  by (cases spec) simp_all

lemma inspect_capture_Inr:
  "inspect_capture sha bytes memory overlay expected = Inr v \<longleftrightarrow>
     (\<exists>m. manifest_decode sha bytes = Inr m \<and> binds_artifacts m memory overlay \<and>
        mh_candidate_id (mf_header m) = cx_candidate_id expected) \<and>
     memory = cx_memory expected \<and> overlay = cx_overlay expected \<and>
     cx_state expected = \<lparr>ae_digest = sha bytes, ae_size = u64_len (length bytes)\<rparr> \<and>
     v = \<lparr>vc_candidate_id = cx_candidate_id expected, vc_memory = memory, vc_overlay = overlay, vc_state = cx_state expected\<rparr>"
proof -
  have "inspect_capture sha bytes memory overlay expected = Inr v \<longleftrightarrow>
     (\<exists>m s d block. manifest_decode sha bytes = Inr m \<and> mh_candidate_id (mf_header m) = cx_candidate_id expected \<and>
        ae_digest memory = md_digest (mh_memory (mf_header m)) \<and> ae_size memory = md_size (mh_memory (mf_header m)) \<and>
        manifest_section m RoleDevice1 = Some s \<and> decode_for_slot 1 (sec_payload s) = Inr d \<and> sd_specific d = SpecBlock block \<and>
        sb_image_digest block = ae_digest overlay \<and> unat (sb_capacity_sectors block) * 512 = unat (ae_size overlay)) \<and>
     memory = cx_memory expected \<and> overlay = cx_overlay expected \<and>
     cx_state expected = \<lparr>ae_digest = sha bytes, ae_size = u64_len (length bytes)\<rparr> \<and>
     v = \<lparr>vc_candidate_id = cx_candidate_id expected, vc_memory = memory, vc_overlay = overlay, vc_state = cx_state expected\<rparr>"
    unfolding inspect_capture_def and_then_Inr_iff map_err_Inr_iff ok_or_Inr_iff Let_def verify_generation_def
      verify_length_def refuse_Inr accept_Inr block_case_Inr overlay_bytes not_not
    by auto
  then show ?thesis unfolding binds_artifacts_def overlay_decode by fastforce
qed

section \<open>Properties\<close>

text \<open>A host and a snapshot that fit each other: a root disk, a vsock and an entropy device.\<close>

definition snap_sample_queue :: snap_queue where
  "snap_sample_queue = \<lparr>sq_max_size = 64, sq_size = 64, sq_ready = True, sq_descriptor_address = 0x1000,
     sq_available_address = 0x2000, sq_used_address = 0x3000, sq_next_available = 0, sq_next_used = 0\<rparr>"

definition snap_sample_device :: "device_kind \<Rightarrow> device_specific \<Rightarrow> snap_device" where
  "snap_sample_device kind spec = \<lparr>sd_kind = kind, sd_transport = \<lparr>st_device_status = 15, st_interrupt_status = 0,
     st_config_generation = 0, st_queue_select = 0\<rparr>, sd_negotiated_features = 0x100000000,
     sd_queues = replicate (kind_queue_count kind) snap_sample_queue, sd_specific = spec\<rparr>"

definition snap_disk :: snap_block where
  "snap_disk = \<lparr>sb_capacity_sectors = 128, sb_block_size = 512, sb_image_digest = replicate 32 6\<rparr>"

definition sample_slots :: "u64 \<Rightarrow> vm_state" where
  "sample_slots offset = \<lparr>vm_slots =
     [\<lparr>ms_slot = 0, ms_guest_address = 0, ms_size = 0x8000, ms_memory_offset = 0\<rparr>,
      \<lparr>ms_slot = 1, ms_guest_address = 0x8000, ms_size = 0x8000, ms_memory_offset = offset\<rparr>],
     vm_tss_address = 0, vm_identity_map_address = 0\<rparr>"

definition sample_snapshot :: "u64 \<Rightarrow> (section_role \<times> u8 list) list \<Rightarrow> manifest" where
  "sample_snapshot offset extra = \<lparr>mf_header = manifest_sample_header,
     mf_sections = map (\<lambda>(role, payload). \<lparr>sec_role = role, sec_payload = payload\<rparr>)
       ([(RoleVmState, vm_encode (sample_slots offset)), (RoleVcpu0, [5]), (RoleIrqchip, [5]), (RoleIrqRouting, [5]),
         (RoleKvmClock, [5]), (RoleDevice0, snap_device_encode (snap_sample_device KindRootBlock (SpecBlock snap_disk)))] @ extra @
        [(RoleDevice3, snap_device_encode (snap_sample_device KindVsock (SpecVsock 3))),
         (RoleDevice4, snap_device_encode (snap_sample_device KindRng SpecRng)), (RoleRepairPointMarker, [5])])\<rparr>"

definition sample_expectation :: "device_kind \<Rightarrow> device_expectation" where
  "sample_expectation kind = \<lparr>dx_kind = kind, dx_negotiated_features = 0x100000000, dx_queue_limits = [64, 64, 64]\<rparr>"

definition sample_host :: host_profile where
  "sample_host = \<lparr>hp_schema_version = 2, hp_architecture = X86_64, hp_page_size = 4096, hp_kvm_api_version = 12,
     hp_capabilities = [CapUserMemory, CapIrqChip, CapXsave, CapXcrs], hp_memory_slots = 8,
     hp_machine_contract = replicate 32 1, hp_device_contract = replicate 32 2, hp_cpu_template = replicate 32 3,
     hp_vcpu_count = 1, hp_memory_bytes = 0x10000, hp_guest_protocol_version = 1,
     hp_devices = [Some (sample_expectation KindRootBlock), None, None, Some (sample_expectation KindVsock),
       Some (sample_expectation KindRng)]\<rparr>"

text \<open>The offsets of the memory object that a layout maps.\<close>

definition maps_offset :: "vm_state \<Rightarrow> nat \<Rightarrow> bool" where
  "maps_offset vm off \<longleftrightarrow>
     list_ex (\<lambda>s. unat (ms_memory_offset s) \<le> off \<and> off < unat (ms_memory_offset s) + unat (ms_size s)) (vm_slots vm)"

lemma sample_slots_ok: "offset \<in> {0, 0x8000} \<Longrightarrow> vm_ok (sample_slots offset)"
  by (auto simp: sample_slots_def vm_ok_def slot_ok_def slot_below_def)

lemma snap_sample_layout: "offset \<in> {0, 0x8000} \<Longrightarrow> layout_matches (sample_snapshot offset extra) (sample_slots offset)"
  using sample_slots_ok[of offset]
  by (auto simp: layout_matches_def sample_snapshot_def manifest_section_def manifest_sample_header_def) (simp_all add: sample_slots_def)

lemma snap_sample_queue_ok: "snap_queue_ok snap_sample_queue"
proof -
  have "is_power_of_two (64 :: u16)" unfolding is_power_of_two_def by code_simp
  then show ?thesis by (simp add: snap_queue_ok_def snap_sample_queue_def)
qed

lemma snap_sample_device_ok: "specific_ok kind spec \<Longrightarrow> snap_device_ok (snap_sample_device kind spec)"
  by (simp add: snap_device_ok_def snap_sample_device_def list_all_iff snap_sample_queue_ok)

lemma snap_disk_ok: "specific_ok KindRootBlock (SpecBlock snap_disk)" "specific_ok KindOverlayBlock (SpecBlock snap_disk)"
proof -
  have "is_power_of_two (512 :: u32)" unfolding is_power_of_two_def by code_simp
  then show "specific_ok KindRootBlock (SpecBlock snap_disk)" "specific_ok KindOverlayBlock (SpecBlock snap_disk)"
    by (simp_all add: specific_ok_def snap_disk_def digest_is_zero_def list_all_iff)
qed

lemma sample_matches:
  "\<lbrakk>specific_ok kind spec; specific_typed spec\<rbrakk> \<Longrightarrow> device_matches (sample_expectation kind) (snap_sample_device kind spec)"
proof -
  assume h: "specific_ok kind spec" "specific_typed spec"
  have "replicate (kind_queue_count kind) (64 :: u16) = take (kind_queue_count kind) [64, 64, 64]"
    by (cases kind) (simp_all add: numeral_eq_Suc)
  then show ?thesis
    using snap_sample_device_ok[OF h(1)] h(2)
    by (simp add: device_matches_def sample_expectation_def) (simp add: snap_sample_device_def snap_sample_queue_def)
qed

text \<open>
  C8: A snapshot passes the compatibility check exactly when every header field equals the host's
  (with the capabilities contained and the memory slots sufficient), its \<open>VmState\<close> section decodes
  to disjoint slots whose sizes add up, without wrapping, to the memory object and which stay
  inside it, every slot for which the host expects a device holds a well-formed record of that
  kind with the expected features and queue limits, and every other slot holds no section at all.
\<close>

theorem compat_check_exact:
  assumes "profile_shape host"
  shows "compat_check host m = Inr () \<longleftrightarrow>
    header_matches host (mf_header m) \<and> (\<exists>vm. layout_matches m vm) \<and>
    (\<forall>n < 5. slot_matches m n (hp_devices host ! n))"
  using check_slot_Inr[OF assms, of _ m]
  by (auto simp: compat_check_def and_then_Inr_iff check_header_Inr check_vm_layout_Inr try_each_Inr)

theorem compat_check_exact_witness: "compat_check sample_host (sample_snapshot 0x8000 []) = Inr ()"
proof -
  have shape: "profile_shape sample_host"
    by (simp add: profile_shape_def sample_host_def sample_expectation_def)
  have "slot_matches (sample_snapshot 0x8000 []) n (hp_devices sample_host ! n)" if "n < 5" for n
  proof -
    have m: "device_matches (sample_expectation KindRootBlock) (snap_sample_device KindRootBlock (SpecBlock snap_disk))"
      "device_matches (sample_expectation KindVsock) (snap_sample_device KindVsock (SpecVsock 3))"
      "device_matches (sample_expectation KindRng) (snap_sample_device KindRng SpecRng)"
      using snap_disk_ok by (auto intro!: sample_matches simp: specific_typed_def snap_disk_def specific_ok_def)
    from that consider "n = 0" | "n = 1" | "n = 2" | "n = 3" | "n = 4" by linarith
    then show ?thesis
      by cases (use m in \<open>auto simp: slot_matches_def sample_host_def slot_role_numeral manifest_section_def
          sample_snapshot_def sample_expectation_def\<close>)
  qed
  moreover have "header_matches sample_host (mf_header (sample_snapshot 0x8000 []))"
    by (simp add: header_matches_def sample_host_def sample_snapshot_def manifest_sample_header_def)
  ultimately show ?thesis using compat_check_exact[OF shape] snap_sample_layout[of "0x8000"] by blast
qed


text \<open>
  C30: Installation accepts a capture exactly when its state file decodes to a manifest of the
  expected Candidate, the memory object has the digest and size the header names, the overlay has
  the digest its block record names and, in exact arithmetic, 512 bytes per sector of its
  capacity, and all three are the objects the Generation expects, the state by its own digest and
  length; what it returns are those facts.
\<close>

theorem inspect_capture_exact:
  "inspect_capture sha bytes memory overlay expected = Inr v \<longleftrightarrow>
     (\<exists>m. manifest_decode sha bytes = Inr m \<and> binds_artifacts m memory overlay \<and>
        mh_candidate_id (mf_header m) = cx_candidate_id expected) \<and>
     memory = cx_memory expected \<and> overlay = cx_overlay expected \<and>
     cx_state expected = \<lparr>ae_digest = sha bytes, ae_size = u64_len (length bytes)\<rparr> \<and>
     v = \<lparr>vc_candidate_id = cx_candidate_id expected, vc_memory = memory, vc_overlay = overlay, vc_state = cx_state expected\<rparr>"
  by (rule inspect_capture_Inr)

end
