(* ===== verification/SnapBridge.thy ===== *)
theory SnapBridge
  imports BusSnapshot SnapCompat
begin

text \<open>
  The bridge between the live slot records of the virtio bus and the canonical device sections
  (\<open>soma-kvm/src/x86_64/snapshot/device.rs\<close>, and \<open>expectation\<close> of \<open>profile.rs\<close>): the section a capture
  writes for a slot, the transport record a restore reads out of it, and the check that a capture
  makes of the pair.
\<close>

section \<open>Conversions\<close>

text \<open>\<open>queue_limits\<close> starts as zeros; the loop over \<open>zip\<close> overwrites as many as there are limits.\<close>

definition padded_limits :: "u16 list \<Rightarrow> u16 list" where
  "padded_limits limits = take 3 limits @ replicate (3 - length limits) 0"

definition slot_expectation :: "slot \<Rightarrow> device_expectation" where
  "slot_expectation slot =
     (let (kind, features, limits) =
        (case slot of
           SlotRoot \<Rightarrow> (KindRootBlock, role_features ImmutableRoot, [256])
         | SlotOverlay \<Rightarrow> (KindOverlayBlock, role_features PrivateOverlay, [256])
         | SlotNet \<Rightarrow> (KindNet, NET_FEATURES, [256, 256])
         | SlotVsock \<Rightarrow> (KindVsock, VSOCK_FEATURES, [256, 256, 64])
         | SlotRng \<Rightarrow> (KindRng, RNG_FEATURES, [64])) in
      \<lparr>dx_kind = kind, dx_negotiated_features = features, dx_queue_limits = padded_limits limits\<rparr>)"

datatype bridge_error =
    BridgeFeatureNegotiation slot u64
  | BridgeDevice snap_device_error

definition canonical_queue :: "queue_state \<times> u16 \<Rightarrow> snap_queue" where
  "canonical_queue = (\<lambda>(queue, max_size).
     \<lparr>sq_max_size = max_size, sq_size = qs_size queue, sq_ready = qs_ready queue,
      sq_descriptor_address = qs_desc queue, sq_available_address = qs_avail queue, sq_used_address = qs_used queue,
      sq_next_available = qs_next_avail queue, sq_next_used = qs_next_used queue\<rparr>)"

text \<open>\<open>u8::try_from(v).unwrap_or(u8::MAX)\<close> and \<open>u16::try_from(v).unwrap_or(u16::MAX)\<close>.\<close>

definition u8_or_max :: "u32 \<Rightarrow> u8" where
  "u8_or_max v = (if unat v < 2 ^ 8 then ucast v else - 1)"

definition u16_or_max :: "u32 \<Rightarrow> u16" where
  "u16_or_max v = (if unat v < 2 ^ 16 then ucast v else - 1)"

definition canonical :: "slot \<Rightarrow> slot_snapshot \<Rightarrow> device_specific \<Rightarrow> bridge_error + snap_device" where
  "canonical slot live specific =
     (let expectation = slot_expectation slot; transport = ss_transport live in
      if ts_driver_features transport \<noteq> dx_negotiated_features expectation
        then Inl (BridgeFeatureNegotiation slot (ts_driver_features transport))
      else
        map_err BridgeDevice
          (snap_device_new (dx_kind expectation)
             \<lparr>st_device_status = ts_status transport, st_interrupt_status = u8_or_max (ts_interrupt_status transport),
              st_config_generation = ts_config_generation transport, st_queue_select = u16_or_max (ts_queue_sel transport)\<rparr>
             (ts_driver_features transport)
             (map canonical_queue (zip (ts_queues transport) (dx_queue_limits expectation)))
             specific))"

definition live_queue :: "snap_queue \<Rightarrow> queue_state" where
  "live_queue queue =
     \<lparr>qs_size = sq_size queue, qs_ready = sq_ready queue,
      qs_activated = (sq_ready queue \<or> sq_next_available queue \<noteq> 0 \<or> sq_next_used queue \<noteq> 0),
      qs_desc = sq_descriptor_address queue, qs_avail = sq_available_address queue, qs_used = sq_used_address queue,
      qs_next_avail = sq_next_available queue, qs_next_used = sq_next_used queue\<rparr>"

definition live_transport :: "snap_device \<Rightarrow> transport_state" where
  "live_transport d =
     \<lparr>ts_status = st_device_status (sd_transport d), ts_device_features_sel = 0, ts_driver_features_sel = 0,
      ts_driver_features = sd_negotiated_features d, ts_queue_sel = ucast (st_queue_select (sd_transport d)),
      ts_interrupt_status = ucast (st_interrupt_status (sd_transport d)),
      ts_config_generation = st_config_generation (sd_transport d), ts_queues = map live_queue (sd_queues d)\<rparr>"

text \<open>The record a capture expects back: no selectors, activation read off the cursors.\<close>

definition settled_queue :: "queue_state \<Rightarrow> queue_state" where
  "settled_queue q = q\<lparr>qs_activated := (qs_ready q \<or> qs_next_avail q \<noteq> 0 \<or> qs_next_used q \<noteq> 0)\<rparr>"

definition settled :: "transport_state \<Rightarrow> transport_state" where
  "settled s = s\<lparr>ts_device_features_sel := 0, ts_driver_features_sel := 0, ts_queues := map settled_queue (ts_queues s)\<rparr>"

definition reproduces :: "slot \<Rightarrow> slot_snapshot \<Rightarrow> snap_device \<Rightarrow> bool" where
  "reproduces slot live d \<longleftrightarrow> ss_slot live = slot \<and> live_transport d = settled (ss_transport live)"

section \<open>What the bridge keeps\<close>

lemma expectation_slot: "kind_slot (dx_kind (slot_expectation slot)) = slot_index slot"
  by (cases slot) (simp_all add: slot_expectation_def)

lemma expectation_limits:
  "length (dx_queue_limits (slot_expectation slot)) = 3" "kind_queue_count (dx_kind (slot_expectation slot)) \<le> 3"
  by (cases slot; simp add: slot_expectation_def padded_limits_def)+

lemma canonical_Inr:
  assumes "canonical slot live specific = Inr d"
  shows "sd_kind d = dx_kind (slot_expectation slot)" "snap_device_ok d" "sd_specific d = specific"
    "sd_negotiated_features d = ts_driver_features (ss_transport live)"
    "sd_transport d = \<lparr>st_device_status = ts_status (ss_transport live),
       st_interrupt_status = u8_or_max (ts_interrupt_status (ss_transport live)),
       st_config_generation = ts_config_generation (ss_transport live),
       st_queue_select = u16_or_max (ts_queue_sel (ss_transport live))\<rparr>"
    "sd_queues d = map canonical_queue (zip (ts_queues (ss_transport live)) (dx_queue_limits (slot_expectation slot)))"
  using assms by (auto simp: canonical_def Let_def snap_device_new_iff split: if_splits)

lemma live_canonical_queue: "live_queue (canonical_queue (q, mx)) = settled_queue q"
  by (cases q) (simp add: live_queue_def canonical_queue_def settled_queue_def)

lemma u16_or_max_back: "ucast (u16_or_max v) = v \<longleftrightarrow> unat v < 2 ^ 16"
proof -
  have "unat (ucast (u16_or_max v) :: u32) < 2 ^ 16"
    using unat_u16_less[of "u16_or_max v"] by (simp add: unat_ucast_up)
  moreover have "unat v < 2 ^ 16 \<Longrightarrow> unat (ucast (ucast v :: u16) :: u32) = unat v"
    by (simp add: unat_ucast_up unsigned_ucast_eq unsigned_take_bit_eq take_bit_nat_eq_self)
  ultimately show ?thesis by (auto simp: u16_or_max_def word_unat_eq_iff)
qed

lemma known_interrupts_fit: "v AND NOT 3 = 0 \<Longrightarrow> ucast (u8_or_max v) = v" for v :: u32
proof -
  assume h: "v AND NOT 3 = 0"
  have "v = (v AND NOT 3) OR (v AND 3)" by (intro bit_word_eqI) (auto simp: bit_simps)
  then have "v = v AND 3" using h by simp
  then have "v \<le> 3" by (metis word_and_le1)
  then have "unat v < 2 ^ 8" by (simp add: word_le_nat_alt)
  moreover from this have "unat (ucast (ucast v :: u8) :: u32) = unat v"
    by (simp add: unat_ucast_up unsigned_ucast_eq unsigned_take_bit_eq take_bit_nat_eq_self)
  ultimately show ?thesis by (simp add: u8_or_max_def word_unat_eq_iff)
qed

text \<open>The check of the capture fails only for a queue selector that the section cannot hold.\<close>

lemma canonical_reproduces:
  assumes "canonical slot live specific = Inr d" "ss_slot live = slot" "length (ts_queues (ss_transport live)) \<le> 3"
    and "ts_interrupt_status (ss_transport live) AND NOT 3 = 0"
  shows "reproduces slot live d \<longleftrightarrow> unat (ts_queue_sel (ss_transport live)) < 2 ^ 16"
proof -
  note c = canonical_Inr[OF assms(1)]
  have "map live_queue (sd_queues d) = map settled_queue (ts_queues (ss_transport live))"
  proof (rule nth_equalityI)
    show "length (map live_queue (sd_queues d)) = length (map settled_queue (ts_queues (ss_transport live)))"
      using assms(3) expectation_limits(1)[of slot] by (simp add: c(6))
  qed (simp add: c(6) live_canonical_queue)
  then show ?thesis
    using known_interrupts_fit[OF assms(4)] u16_or_max_back[of "ts_queue_sel (ss_transport live)"] assms(2)
    by (cases "ss_transport live") (auto simp: reproduces_def live_transport_def settled_def c(4,5))
qed

text \<open>A captured transport is settled when it reads its activation off the cursors.\<close>

definition settle :: "'d mmio_transport \<Rightarrow> 'd mmio_transport" where
  "settle t = t\<lparr>t_device_features_sel := 0, t_driver_features_sel := 0,
     t_queues := map (\<lambda>q. q\<lparr>q_activated := (is_ready q \<or> q_next_avail q \<noteq> 0 \<or> q_next_used q \<noteq> 0)\<rparr>) (t_queues t)\<rparr>"

lemma settle_state: "transport_state_of (settle t) = settled (transport_state_of t)"
  by (simp add: transport_state_of_def settle_def settled_def settled_queue_def queue_state_of_def is_ready_def)

lemma settle_inv: "transport_inv GM VD mem t \<Longrightarrow> transport_inv GM VD mem (settle t)"
  by (auto simp: transport_inv_def settle_def queue_inv_def is_ready_def features_accepted_def comp_def)

section \<open>Properties\<close>



end
