(* ===== verification/SnapOrder.thy ===== *)
theory SnapOrder
  imports Wire "HOL-Library.Sublist"
begin

text \<open>
  The typed schedules of a snapshot: the preconditions and steps of a capture
  (\<open>soma-kvm/src/snapshot/capture.rs\<close>) and the steps of a restore with its unwinding
  (\<open>restore.rs\<close>). Callers report steps in any order they like; the runs of callers are the step
  relations below, and the histories they build the reference the properties are about.
\<close>

text \<open>\<open>slice::get\<close>.\<close>

definition slice_get :: "'a list \<Rightarrow> nat \<Rightarrow> 'a option" where
  "slice_get xs i = (if i < length xs then Some (xs ! i) else None)"

lemma slice_get_Some: "slice_get xs i = Some x \<longleftrightarrow> i < length xs \<and> xs ! i = x"
  by (simp add: slice_get_def)

lemma slice_get_None: "slice_get xs i = None \<longleftrightarrow> length xs \<le> i"
  by (auto simp: slice_get_def)

section \<open>Capture\<close>

datatype quiesce_precondition =
    GenerationAgentBooted | RepairPointReached | IngressDisabled | DeviceWorkDrained | OverlayFlushed
  | VcpuPaused | QueuesProvenQuiescent

definition QUIESCE_ORDER :: "quiesce_precondition list" where
  "QUIESCE_ORDER = [GenerationAgentBooted, RepairPointReached, IngressDisabled, DeviceWorkDrained, OverlayFlushed,
     VcpuPaused, QueuesProvenQuiescent]"

datatype capture_step =
    ReadVmState | ReadVcpuState | ReadIrqchip | ReadIrqRouting | ReadClock | ReadPit | ReadDevices
  | WriteStagingObjects | IndependentlyDecodeStaging | HashThroughRetainedHandles | PublishGenerationManifest

definition CAPTURE_ORDER :: "capture_step list" where
  "CAPTURE_ORDER = [ReadVmState, ReadVcpuState, ReadIrqchip, ReadIrqRouting, ReadClock, ReadPit, ReadDevices,
     WriteStagingObjects, IndependentlyDecodeStaging, HashThroughRetainedHandles, PublishGenerationManifest]"

definition step_is_optional :: "capture_step \<Rightarrow> bool" where
  "step_is_optional step \<longleftrightarrow> step = ReadPit"

datatype capture_order_error =
    PreconditionOutOfOrder quiesce_precondition quiesce_precondition
  | PreconditionsIncomplete quiesce_precondition
  | CaptureStepOutOfOrder capture_step capture_step
  | CaptureAlreadyComplete

record quiesce =
  qu_proven :: nat

record capture_sequence =
  cs_completed :: nat

definition quiesce_new :: quiesce where
  "quiesce_new = \<lparr>qu_proven = 0\<rparr>"

definition next_precondition :: "quiesce \<Rightarrow> quiesce_precondition option" where
  "next_precondition q = slice_get QUIESCE_ORDER (qu_proven q)"

definition prove :: "quiesce \<Rightarrow> quiesce_precondition \<Rightarrow> (capture_order_error, unit, quiesce) mut_result" where
  "prove q precondition =
     (case next_precondition q of
        None \<Rightarrow> (Inl CaptureAlreadyComplete, q)
      | Some expected \<Rightarrow>
          if precondition \<noteq> expected then (Inl (PreconditionOutOfOrder expected precondition), q)
          else (Inr (), q\<lparr>qu_proven := qu_proven q + 1\<rparr>))"

definition begin_capture :: "quiesce \<Rightarrow> capture_order_error + capture_sequence" where
  "begin_capture q =
     (case next_precondition q of
        Some missing \<Rightarrow> Inl (PreconditionsIncomplete missing)
      | None \<Rightarrow> Inr \<lparr>cs_completed = 0\<rparr>)"

definition next_capture_step :: "capture_sequence \<Rightarrow> capture_step option" where
  "next_capture_step s = slice_get CAPTURE_ORDER (cs_completed s)"

definition capture_is_complete :: "capture_sequence \<Rightarrow> bool" where
  "capture_is_complete s \<longleftrightarrow> next_capture_step s = None"

definition capture_complete ::
    "capture_sequence \<Rightarrow> capture_step \<Rightarrow> (capture_order_error, unit, capture_sequence) mut_result" where
  "capture_complete s step =
     (case next_capture_step s of
        None \<Rightarrow> (Inl CaptureAlreadyComplete, s)
      | Some expected \<Rightarrow>
          if step = expected then (Inr (), s\<lparr>cs_completed := cs_completed s + 1\<rparr>)
          else if step_is_optional expected \<and> slice_get CAPTURE_ORDER (cs_completed s + 1) = Some step
            then (Inr (), s\<lparr>cs_completed := cs_completed s + 2\<rparr>)
          else (Inl (CaptureStepOutOfOrder expected step), s))"

text \<open>
  A caller's run: what it has proven and completed so far, call by call, refused calls included.
\<close>

datatype capture_phase = Quiescing quiesce | Capturing capture_sequence

inductive capture_run :: "capture_phase \<Rightarrow> quiesce_precondition list \<Rightarrow> capture_step list \<Rightarrow> bool" where
  capture_start: "capture_run (Quiescing quiesce_new) [] []"
| capture_proved: "\<lbrakk>capture_run (Quiescing q) ps ss; prove q p = (Inr (), q')\<rbrakk> \<Longrightarrow> capture_run (Quiescing q') (ps @ [p]) ss"
| capture_unproved: "\<lbrakk>capture_run (Quiescing q) ps ss; prove q p = (Inl e, q')\<rbrakk> \<Longrightarrow> capture_run (Quiescing q') ps ss"
| capture_begun: "\<lbrakk>capture_run (Quiescing q) ps ss; begin_capture q = Inr s\<rbrakk> \<Longrightarrow> capture_run (Capturing s) ps ss"
| capture_stepped: "\<lbrakk>capture_run (Capturing s) ps ss; capture_complete s st = (Inr (), s')\<rbrakk> \<Longrightarrow>
    capture_run (Capturing s') ps (ss @ [st])"
| capture_refused: "\<lbrakk>capture_run (Capturing s) ps ss; capture_complete s st = (Inl e, s')\<rbrakk> \<Longrightarrow>
    capture_run (Capturing s') ps ss"

inductive_cases quiescing_runE: "capture_run (Quiescing q) ps ss"

text \<open>The order of a capture that skips its optional step.\<close>

definition SKIPPING_ORDER :: "capture_step list" where
  "SKIPPING_ORDER = filter (\<lambda>s. \<not> step_is_optional s) CAPTURE_ORDER"

definition capture_inv :: "nat \<Rightarrow> capture_step list \<Rightarrow> bool" where
  "capture_inv n ss \<longleftrightarrow> n \<le> 11 \<and> (ss = take n CAPTURE_ORDER \<or> 7 \<le> n \<and> ss = take (n - 1) SKIPPING_ORDER)"

lemmas order_simps = CAPTURE_ORDER_def SKIPPING_ORDER_def step_is_optional_def

lemma order_length: "length CAPTURE_ORDER = 11" "length SKIPPING_ORDER = 10" "length QUIESCE_ORDER = 7"
  by (simp_all add: order_simps QUIESCE_ORDER_def)

lemma optional_at: "\<lbrakk>n < 11; step_is_optional (CAPTURE_ORDER ! n)\<rbrakk> \<Longrightarrow> n = 5"
proof -
  have "list_all (\<lambda>n. step_is_optional (CAPTURE_ORDER ! n) \<longrightarrow> n = 5) [0..<11]" by code_simp
  then show "n < 11 \<Longrightarrow> step_is_optional (CAPTURE_ORDER ! n) \<Longrightarrow> n = 5"
    unfolding list_all_iff set_upt by auto
qed

lemma devices_at: "CAPTURE_ORDER ! Suc 5 = ReadDevices"
  by (simp add: CAPTURE_ORDER_def)

lemma skipping_nth: "\<lbrakk>7 \<le> n; n < 11\<rbrakk> \<Longrightarrow> SKIPPING_ORDER ! (n - 1) = CAPTURE_ORDER ! n"
proof -
  have "list_all (\<lambda>n. SKIPPING_ORDER ! (n - 1) = CAPTURE_ORDER ! n) [7..<11]" by code_simp
  then show "7 \<le> n \<Longrightarrow> n < 11 \<Longrightarrow> SKIPPING_ORDER ! (n - 1) = CAPTURE_ORDER ! n"
    unfolding list_all_iff set_upt by auto
qed

lemma capture_step_inv:
  assumes "capture_inv (cs_completed s) ss" "capture_complete s st = (Inr (), s')"
  shows "capture_inv (cs_completed s') (ss @ [st])"
proof -
  let ?n = "cs_completed s"
  have n: "?n < 11"
    using assms(2) by (auto simp: capture_complete_def next_capture_step_def slice_get_def order_length split: option.splits if_splits)
  from assms(2) n consider
      "st = CAPTURE_ORDER ! ?n" "cs_completed s' = ?n + 1"
    | "?n = 5" "st = ReadDevices" "cs_completed s' = 7"
    using optional_at[OF n] devices_at
    by (auto simp: capture_complete_def next_capture_step_def slice_get_def order_length split: if_splits)
  then show ?thesis
  proof cases
    case 1
    have "take (Suc ?n) CAPTURE_ORDER = take ?n CAPTURE_ORDER @ [CAPTURE_ORDER ! ?n]"
      using n by (simp add: take_Suc_conv_app_nth order_length)
    moreover have "take ?n SKIPPING_ORDER = take (?n - 1) SKIPPING_ORDER @ [CAPTURE_ORDER ! ?n]" if "7 \<le> ?n"
      using that n take_Suc_conv_app_nth[of "?n - 1" SKIPPING_ORDER] skipping_nth[OF that n] by (simp add: order_length)
    ultimately show ?thesis using assms(1) 1 n by (auto simp: capture_inv_def)
  next
    case 2
    with assms(1) show ?thesis by (auto simp: capture_inv_def order_simps)
  qed
qed

lemma prove_step: "prove q p = (Inr (), q') \<Longrightarrow>
  qu_proven q < 7 \<and> p = QUIESCE_ORDER ! qu_proven q \<and> qu_proven q' = Suc (qu_proven q)"
  by (auto simp: prove_def next_precondition_def slice_get_def order_length split: if_splits)

lemma capture_run_inv:
  "capture_run phase ps ss \<Longrightarrow>
     (case phase of
        Quiescing q \<Rightarrow> ps = take (qu_proven q) QUIESCE_ORDER \<and> qu_proven q \<le> 7 \<and> ss = []
      | Capturing s \<Rightarrow> ps = QUIESCE_ORDER \<and> capture_inv (cs_completed s) ss)"
proof (induction rule: capture_run.induct)
  case (capture_proved q ps ss p q')
  then show ?case
    using prove_step[of q p q'] by (simp add: take_Suc_conv_app_nth order_length)
next
  case (capture_unproved q ps ss p e q')
  then have "q' = q" by (auto simp: prove_def split: option.splits if_splits)
  with capture_unproved show ?case by simp
next
  case (capture_begun q ps ss s)
  then have "qu_proven q = 7" "cs_completed s = 0"
    by (auto simp: begin_capture_def next_precondition_def slice_get_def order_length split: option.splits if_splits)
  with capture_begun show ?case by (simp add: capture_inv_def order_length)
next
  case (capture_stepped s ps ss st s')
  then show ?case using capture_step_inv by auto
next
  case (capture_refused s ps ss st e s')
  then have "s' = s" by (auto simp: capture_complete_def split: option.splits if_splits)
  with capture_refused show ?case by simp
qed (simp add: quiesce_new_def)

section \<open>Restore\<close>

datatype restore_step =
    ValidateManifest | CreateVm | MapMemoryPrivately | RegisterMemorySlots | RecreateIrqchipAndDevices | CreateVcpu
  | RestoreCpuidAndMsrs | RestoreVcpuState | RestoreDeviceAndInterruptState | AttachFreshAuthority | ResumeVcpu
  | AuthenticatedRepairAndReadiness

definition RESTORE_ORDER :: "restore_step list" where
  "RESTORE_ORDER = [ValidateManifest, CreateVm, MapMemoryPrivately, RegisterMemorySlots, RecreateIrqchipAndDevices,
     CreateVcpu, RestoreCpuidAndMsrs, RestoreVcpuState, RestoreDeviceAndInterruptState, AttachFreshAuthority,
     ResumeVcpu, AuthenticatedRepairAndReadiness]"

definition owns_resources :: "restore_step \<Rightarrow> bool" where
  "owns_resources step \<longleftrightarrow> step \<in> {CreateVm, MapMemoryPrivately, RegisterMemorySlots, RecreateIrqchipAndDevices,
     CreateVcpu, AttachFreshAuthority, ResumeVcpu}"

datatype restore_order_error =
    RestoreStepOutOfOrder restore_step restore_step
  | RestoreAlreadyComplete
  | RestoreAlreadyFailed restore_step

record restore_sequence =
  rq_completed :: nat
  rq_failed_at :: "restore_step option"

definition restore_start :: restore_sequence where
  "restore_start = \<lparr>rq_completed = 0, rq_failed_at = None\<rparr>"

definition next_restore_step :: "restore_sequence \<Rightarrow> restore_step option" where
  "next_restore_step s = slice_get RESTORE_ORDER (rq_completed s)"

definition restore_is_ready :: "restore_sequence \<Rightarrow> bool" where
  "restore_is_ready s \<longleftrightarrow> rq_failed_at s = None \<and> next_restore_step s = None"

definition restore_complete ::
    "restore_sequence \<Rightarrow> restore_step \<Rightarrow> (restore_order_error, unit, restore_sequence) mut_result" where
  "restore_complete s step =
     (case rq_failed_at s of
        Some failed \<Rightarrow> (Inl (RestoreAlreadyFailed failed), s)
      | None \<Rightarrow>
          (case next_restore_step s of
             None \<Rightarrow> (Inl RestoreAlreadyComplete, s)
           | Some expected \<Rightarrow>
               if step \<noteq> expected then (Inl (RestoreStepOutOfOrder expected step), s)
               else (Inr (), s\<lparr>rq_completed := rq_completed s + 1\<rparr>)))"

definition unwind_order :: "restore_sequence \<Rightarrow> restore_step list" where
  "unwind_order s = filter owns_resources (rev (take (rq_completed s) RESTORE_ORDER))"

definition restore_fail :: "restore_sequence \<Rightarrow> (restore_order_error, restore_step list, restore_sequence) mut_result" where
  "restore_fail s =
     (case rq_failed_at s of
        Some failed \<Rightarrow> (Inl (RestoreAlreadyFailed failed), s)
      | None \<Rightarrow>
          (case next_restore_step s of
             None \<Rightarrow> (Inl RestoreAlreadyComplete, s)
           | Some step \<Rightarrow>
               let s = s\<lparr>rq_failed_at := Some step\<rparr> in (Inr (unwind_order s), s)))"

text \<open>A caller's run: the steps it has completed and, once it failed, the unwinding it was given.\<close>

inductive restore_run :: "restore_sequence \<Rightarrow> restore_step list \<Rightarrow> restore_step list option \<Rightarrow> bool" where
  restore_started: "restore_run restore_start [] None"
| restore_stepped: "\<lbrakk>restore_run s h u; restore_complete s st = (Inr (), s')\<rbrakk> \<Longrightarrow> restore_run s' (h @ [st]) u"
| restore_refused: "\<lbrakk>restore_run s h u; restore_complete s st = (Inl e, s')\<rbrakk> \<Longrightarrow> restore_run s' h u"
| restore_failed: "\<lbrakk>restore_run s h u; restore_fail s = (Inr us, s')\<rbrakk> \<Longrightarrow> restore_run s' h (Some us)"
| restore_fail_refused: "\<lbrakk>restore_run s h u; restore_fail s = (Inl e, s')\<rbrakk> \<Longrightarrow> restore_run s' h u"

lemma restore_length: "length RESTORE_ORDER = 12"
  by (simp add: RESTORE_ORDER_def)

lemma restore_run_inv:
  "restore_run s h u \<Longrightarrow>
     h = take (rq_completed s) RESTORE_ORDER \<and> rq_completed s \<le> 12 \<and>
     (u = None \<longleftrightarrow> rq_failed_at s = None) \<and>
     (\<forall>us. u = Some us \<longrightarrow> us = rev (filter owns_resources h) \<and> rq_completed s < 12 \<and>
       rq_failed_at s = Some (RESTORE_ORDER ! rq_completed s))"
proof (induction rule: restore_run.induct)
  case (restore_stepped s h u st s')
  then have "rq_completed s < 12" "rq_failed_at s = None" "st = RESTORE_ORDER ! rq_completed s"
    "s' = s\<lparr>rq_completed := Suc (rq_completed s)\<rparr>"
    by (auto simp: restore_complete_def next_restore_step_def slice_get_def restore_length split: option.splits if_splits)
  with restore_stepped show ?case by (simp add: take_Suc_conv_app_nth restore_length)
next
  case (restore_refused s h u st e s')
  then have "s' = s" by (auto simp: restore_complete_def split: option.splits if_splits)
  then show ?case using restore_refused.IH by blast
next
  case (restore_failed s h u us s')
  then have "rq_completed s < 12" "s' = s\<lparr>rq_failed_at := Some (RESTORE_ORDER ! rq_completed s)\<rparr>" "us = unwind_order s'"
    by (auto simp: restore_fail_def next_restore_step_def slice_get_def restore_length Let_def split: option.splits if_splits)
  with restore_failed show ?case by (simp add: unwind_order_def rev_filter)
next
  case (restore_fail_refused s h u e s')
  then have "s' = s" by (auto simp: restore_fail_def Let_def split: option.splits)
  then show ?case using restore_fail_refused.IH by blast
qed (simp add: restore_start_def)

section \<open>Properties\<close>

text \<open>
  C28: However a caller orders and repeats its reports, a capture runs only after all seven
  preconditions were proven in their order, the steps it completes are an initial part of the
  fixed order, the reading of the PIT optionally left out, and the sequence is complete only when
  the last of them, the publication of the manifest, is.
\<close>

theorem capture_order_kept:
  assumes "capture_run (Capturing s) ps ss"
  shows "ps = QUIESCE_ORDER \<and> (prefix ss CAPTURE_ORDER \<or> prefix ss SKIPPING_ORDER) \<and>
    (capture_is_complete s \<longleftrightarrow> ss = CAPTURE_ORDER \<or> ss = SKIPPING_ORDER)"
proof -
  have "ps = QUIESCE_ORDER" and inv: "capture_inv (cs_completed s) ss" using capture_run_inv[OF assms] by auto
  moreover have "take n CAPTURE_ORDER = CAPTURE_ORDER \<longleftrightarrow> 11 \<le> n" "take n SKIPPING_ORDER = SKIPPING_ORDER \<longleftrightarrow> 10 \<le> n" for n
    by (simp_all add: order_length)
  moreover have "take n CAPTURE_ORDER \<noteq> SKIPPING_ORDER" "take n SKIPPING_ORDER \<noteq> CAPTURE_ORDER" for n
  proof -
    have "length (take n SKIPPING_ORDER) < length CAPTURE_ORDER" by (simp add: order_length)
    then show "take n SKIPPING_ORDER \<noteq> CAPTURE_ORDER" by (metis less_irrefl)
    show "take n CAPTURE_ORDER \<noteq> SKIPPING_ORDER"
    proof
      assume h: "take n CAPTURE_ORDER = SKIPPING_ORDER"
      then have "min 11 n = 10" using order_length by (metis length_take)
      then have "n = 10" by linarith
      with h show False by (simp add: order_simps)
    qed
  qed
  ultimately show ?thesis
    by (auto simp: capture_inv_def capture_is_complete_def next_capture_step_def slice_get_None order_length take_is_prefix)
qed

theorem capture_order_kept_witness:
  "prefix [ReadVmState] CAPTURE_ORDER \<or> prefix [ReadVmState] SKIPPING_ORDER"
proof -
  have "capture_run (Quiescing \<lparr>qu_proven = n\<rparr>) (take n QUIESCE_ORDER) []" if "n \<le> 7" for n
    using that
  proof (induction n)
    case (Suc n)
    then have "prove \<lparr>qu_proven = n\<rparr> (QUIESCE_ORDER ! n) = (Inr (), \<lparr>qu_proven = Suc n\<rparr>)"
      by (simp add: prove_def next_precondition_def slice_get_def order_length)
    with Suc show ?case
      using capture_proved[of "\<lparr>qu_proven = n\<rparr>" "take n QUIESCE_ORDER" "[]" "QUIESCE_ORDER ! n" "\<lparr>qu_proven = Suc n\<rparr>"]
      by (simp add: take_Suc_conv_app_nth order_length)
  qed (use capture_start in \<open>simp add: quiesce_new_def\<close>)
  from this[of 7] have "capture_run (Quiescing \<lparr>qu_proven = 7\<rparr>) QUIESCE_ORDER []" by (simp add: order_length)
  moreover have "begin_capture \<lparr>qu_proven = 7\<rparr> = Inr \<lparr>cs_completed = 0\<rparr>"
    by (simp add: begin_capture_def next_precondition_def slice_get_def order_length)
  ultimately have "capture_run (Capturing \<lparr>cs_completed = 0\<rparr>) QUIESCE_ORDER []" by (rule capture_begun)
  moreover have "capture_complete \<lparr>cs_completed = 0\<rparr> ReadVmState = (Inr (), \<lparr>cs_completed = 1\<rparr>)"
    by (simp add: capture_complete_def next_capture_step_def slice_get_def order_length) (simp add: CAPTURE_ORDER_def)
  ultimately have "capture_run (Capturing \<lparr>cs_completed = 1\<rparr>) QUIESCE_ORDER ([] @ [ReadVmState])" by (rule capture_stepped)
  from capture_order_kept[OF this] show ?thesis by simp
qed

text \<open>
  C27: However a caller of a restore orders its reports, the completed steps are an initial part of
  the twelve in their order, so memory is mapped only after the manifest was validated and the
  vCPU resumes only after its state and fresh authority are in place; a failure can be reported
  once, freezes the sequence, and returns exactly the completed steps that own resources, last
  first; and the sequence is ready only when all twelve completed and none failed.
\<close>

theorem restore_order_kept:
  assumes "restore_run s h u"
  shows "prefix h RESTORE_ORDER \<and> (restore_is_ready s \<longleftrightarrow> u = None \<and> h = RESTORE_ORDER) \<and>
    (u \<noteq> None \<longrightarrow> u = Some (rev (filter owns_resources h)) \<and> fst (restore_complete s st) \<noteq> Inr () \<and>
      (\<forall>us. fst (restore_fail s) \<noteq> Inr us))"
proof -
  have "take n RESTORE_ORDER = RESTORE_ORDER \<longleftrightarrow> 12 \<le> n" for n by (simp add: restore_length)
  then show ?thesis
    using restore_run_inv[OF assms]
    by (auto simp: restore_is_ready_def next_restore_step_def slice_get_None restore_length take_is_prefix
        restore_complete_def restore_fail_def)
qed

theorem restore_order_kept_witness:
  "restore_fail \<lparr>rq_completed = 3, rq_failed_at = None\<rparr> =
     (Inr [MapMemoryPrivately, CreateVm], \<lparr>rq_completed = 3, rq_failed_at = Some RegisterMemorySlots\<rparr>) \<and>
   fst (restore_fail \<lparr>rq_completed = 3, rq_failed_at = Some RegisterMemorySlots\<rparr>) \<noteq> Inr []"
proof -
  note eval = restore_complete_def next_restore_step_def slice_get_def restore_length
  have "restore_run \<lparr>rq_completed = 1, rq_failed_at = None\<rparr> ([] @ [ValidateManifest]) None"
    by (rule restore_stepped[OF restore_started]) (simp add: eval restore_start_def, simp add: RESTORE_ORDER_def)
  then have "restore_run \<lparr>rq_completed = 2, rq_failed_at = None\<rparr> (([] @ [ValidateManifest]) @ [CreateVm]) None"
    by (rule restore_stepped) (simp add: eval, simp add: RESTORE_ORDER_def)
  then have "restore_run \<lparr>rq_completed = 3, rq_failed_at = None\<rparr>
      ((([] @ [ValidateManifest]) @ [CreateVm]) @ [MapMemoryPrivately]) None"
    by (rule restore_stepped) (simp add: eval, simp add: RESTORE_ORDER_def)
  moreover have "restore_fail \<lparr>rq_completed = 3, rq_failed_at = None\<rparr> =
     (Inr [MapMemoryPrivately, CreateVm], \<lparr>rq_completed = 3, rq_failed_at = Some RegisterMemorySlots\<rparr>)"
    by (simp add: restore_fail_def next_restore_step_def slice_get_def Let_def unwind_order_def RESTORE_ORDER_def owns_resources_def)
  moreover from calculation have "restore_run \<lparr>rq_completed = 3, rq_failed_at = Some RegisterMemorySlots\<rparr>
      ((([] @ [ValidateManifest]) @ [CreateVm]) @ [MapMemoryPrivately]) (Some [MapMemoryPrivately, CreateVm])"
    by (rule restore_failed)
  ultimately show ?thesis using restore_order_kept by blast
qed

end
