(* ===== verification/Readiness.thy ===== *)
theory Readiness
  imports SnapOrder
begin

text \<open>
  Readiness of a restored Instance: the evidence and its keyed tag
  (\<open>soma-kvm/src/snapshot/readiness.rs\<close>, \<open>readiness/challenge.rs\<close>) and the transition that consumes
  it (\<open>soma-kvm/src/x86_64/snapshot/restore/readiness.rs\<close>, \<open>handle.rs\<close>). The hash is a parameter.
\<close>

unbundle bit_operations_syntax

section \<open>Evidence\<close>

datatype readiness_refusal = ReadyUnavailable | ReadyUnbound | ReadyUnpublished | ReadySpent | ReadyRejected | ReadyForeign

abbreviation (input) INSTANCE_OFFSET :: nat where "INSTANCE_OFFSET \<equiv> 16 + 2 + 2 + 32"
abbreviation (input) OPERATION_OFFSET :: nat where "OPERATION_OFFSET \<equiv> INSTANCE_OFFSET + 16"

type_synonym page_sessions = "u8 list \<times> u8 list"

text \<open>\<open>page.get(a..b)\<close>.\<close>

definition slice_range :: "'a list \<Rightarrow> nat \<Rightarrow> nat \<Rightarrow> 'a list option" where
  "slice_range xs a b = (if a \<le> b \<and> b \<le> length xs then Some (take (b - a) (drop a xs)) else None)"

definition page_session :: "u8 list \<Rightarrow> page_sessions option" where
  "page_session page =
     (case slice_range page INSTANCE_OFFSET OPERATION_OFFSET of
        None \<Rightarrow> None
      | Some inst \<Rightarrow>
          (case slice_range page OPERATION_OFFSET (OPERATION_OFFSET + 16) of
             None \<Rightarrow> None
           | Some operation \<Rightarrow> Some (inst, operation)))"

record restored_identity =
  ri_snapshot :: digest
  ri_launch :: digest
  ri_session :: page_sessions

record session_evidence =
  se_instance :: "u8 list"
  se_operation :: "u8 list"
  se_transcript :: "u8 list"

definition session_evidence_new :: "u8 list \<Rightarrow> u8 list \<Rightarrow> u8 list \<Rightarrow> readiness_refusal + session_evidence" where
  "session_evidence_new inst operation transcript =
     (if list_all (\<lambda>byte. byte = 0) inst \<or> list_all (\<lambda>byte. byte = 0) operation \<or> list_all (\<lambda>byte. byte = 0) transcript
        then Inl ReadyUnbound
      else Inr \<lparr>se_instance = inst, se_operation = operation, se_transcript = transcript\<rparr>)"

record readiness_receipt =
  rr_session :: session_evidence
  rr_tag :: "u8 list"

section \<open>The keyed tag\<close>

text \<open>\<open>b"SOMA-RESTORE-READINESS\0\0"\<close>.\<close>

definition READINESS_DOMAIN :: "u8 list" where
  "READINESS_DOMAIN = [0x53, 0x4F, 0x4D, 0x41, 0x2D, 0x52, 0x45, 0x53, 0x54, 0x4F, 0x52, 0x45, 0x2D,
     0x52, 0x45, 0x41, 0x44, 0x49, 0x4E, 0x45, 0x53, 0x53, 0, 0]"

abbreviation (input) READINESS_SCHEMA :: u16 where "READINESS_SCHEMA \<equiv> 1"
abbreviation (input) BLOCK :: nat where "BLOCK \<equiv> 64"

text \<open>One pad: the loop \<open>pad[index] ^= byte\<close> over the key.\<close>

definition key_pad :: "u8 \<Rightarrow> u8 list \<Rightarrow> u8 list" where
  "key_pad fill key =
     foldl (\<lambda>pad (index, byte). pad[index := pad ! index XOR byte]) (replicate BLOCK fill) (zip [0..<length key] key)"

definition keyed_tag :: "(u8 list \<Rightarrow> digest) \<Rightarrow> u8 list \<Rightarrow> u8 list \<Rightarrow> u8 list" where
  "keyed_tag sha key message =
     (let inner = sha (key_pad 0x36 key @ message) in sha (key_pad 0x5c key @ inner))"

definition tag_message :: "restored_identity \<Rightarrow> session_evidence \<Rightarrow> u8 list" where
  "tag_message identity session =
     READINESS_DOMAIN @ be_bytes 2 READINESS_SCHEMA @ ri_snapshot identity @ ri_launch identity @
     se_instance session @ se_operation session @ se_transcript session"

definition challenge_tag :: "(u8 list \<Rightarrow> digest) \<Rightarrow> u8 list \<Rightarrow> restored_identity \<Rightarrow> session_evidence \<Rightarrow> u8 list" where
  "challenge_tag sha challenge identity session = keyed_tag sha challenge (tag_message identity session)"

definition challenge_adopt :: "u8 list \<Rightarrow> readiness_refusal + u8 list" where
  "challenge_adopt bytes = (if list_all (\<lambda>byte. byte = 0) bytes then Inl ReadyUnavailable else Inr bytes)"

text \<open>The comparison that does not stop early.\<close>

definition tag_equal :: "u8 list \<Rightarrow> u8 list \<Rightarrow> bool" where
  "tag_equal left right \<longleftrightarrow> foldl (\<lambda>difference (own, other). difference OR (own XOR other)) 0 (zip left right) = 0"

definition challenge_accepts ::
    "(u8 list \<Rightarrow> digest) \<Rightarrow> u8 list \<Rightarrow> restored_identity \<Rightarrow> readiness_receipt \<Rightarrow> readiness_refusal + unit" where
  "challenge_accepts sha challenge identity receipt =
     (if ri_session identity \<noteq> (se_instance (rr_session receipt), se_operation (rr_session receipt)) then Inl ReadyForeign
      else if tag_equal (challenge_tag sha challenge identity (rr_session receipt)) (rr_tag receipt) then Inr ()
      else Inl ReadyRejected)"

definition attest :: "(u8 list \<Rightarrow> digest) \<Rightarrow> u8 list \<Rightarrow> restored_identity \<Rightarrow> session_evidence \<Rightarrow> readiness_receipt" where
  "attest sha challenge identity session =
     \<lparr>rr_session = session, rr_tag = challenge_tag sha challenge identity session\<rparr>"

text \<open>The comparison decides equality.\<close>

lemma or_zero: "a OR b = 0 \<longleftrightarrow> a = 0 \<and> b = 0" for a b :: u8
proof
  assume "a OR b = 0"
  then have "bit (a OR b) n = False" for n by simp
  then show "a = 0 \<and> b = 0" by (auto simp: bit_or_iff intro!: bit_word_eqI)
qed simp

lemma xor_zero: "a XOR b = 0 \<longleftrightarrow> a = b" for a b :: u8
proof
  assume "a XOR b = 0"
  then have "\<not> bit (a XOR b) n" for n by simp
  then show "a = b" by (intro bit_word_eqI) (simp add: bit_xor_iff)
qed simp

lemma tag_equal_iff: "length left = length right \<Longrightarrow> tag_equal left right \<longleftrightarrow> left = right"
proof -
  have "foldl (\<lambda>difference (own, other). difference OR (own XOR other)) d (zip left right) = 0 \<longleftrightarrow> d = 0 \<and> left = right"
    if "length left = length right" for d
    using that by (induction left right arbitrary: d rule: list_induct2) (auto simp: or_zero xor_zero)
  then show "length left = length right \<Longrightarrow> ?thesis" by (simp add: tag_equal_def)
qed

text \<open>A pad is the key over the fill, then the fill.\<close>

lemma pad_loop:
  "n \<le> length key \<Longrightarrow> length key \<le> 64 \<Longrightarrow>
   foldl (\<lambda>pad (index, byte). pad[index := pad ! index XOR byte]) (replicate 64 fill) (zip [0..<n] (take n key)) =
     map (\<lambda>b. fill XOR b) (take n key) @ replicate (64 - n) fill"
proof (induction n)
  case (Suc n)
  then have "zip [0..<Suc n] (take (Suc n) key) = zip [0..<n] (take n key) @ [(n, key ! n)]"
    by (simp add: take_Suc_conv_app_nth)
  moreover have "replicate (64 - n) fill = fill # replicate (64 - Suc n) fill"
    using Suc.prems by (metis Suc_diff_Suc Suc_le_lessD order.trans replicate_Suc)
  ultimately show ?case
    using Suc by (simp add: take_Suc_conv_app_nth nth_append list_update_append)
qed simp

lemma key_pad_eq: "length key \<le> 64 \<Longrightarrow> key_pad fill key = map (\<lambda>b. fill XOR b) key @ replicate (64 - length key) fill"
  using pad_loop[of "length key" key fill] by (simp add: key_pad_def)

lemma key_pad_inj:
  assumes "length k = 32" "length k' = 32" "key_pad fill k = key_pad fill k'"
  shows "k = k'"
proof -
  have "map (\<lambda>b. fill XOR b) k = map (\<lambda>b. fill XOR b) k'" using assms by (simp add: key_pad_eq)
  moreover have "inj (\<lambda>b. fill XOR b)" by (rule injI) (metis xor.left_commute xor_self_eq xor.right_neutral)
  ultimately show ?thesis by (simp add: inj_map_eq_map)
qed

section \<open>The transition\<close>

text \<open>
  \<open>Restored\<close> with the machine and its three operations a parameter; a \<open>Cell\<close> is a field. \<open>rs_snapshot\<close> is
  \<open>facts.snapshot\<close>, the one fact the transition reads.
\<close>

datatype 'e restored_error = RsReadiness readiness_refusal | RsOrder restore_order_error | RsMachine 'e

record 'm restored =
  rs_machine :: 'm
  rs_snapshot :: digest
  rs_sequence :: restore_sequence
  rs_readiness :: "u8 list"
  rs_spent :: bool
  rs_launch :: "(digest \<times> page_sessions) option"

record ('e, 'm) machine_ops =
  op_write_launch_page :: "u8 list \<Rightarrow> 'm \<Rightarrow> ('e, unit, 'm) mut_result"
  op_start :: "'m \<Rightarrow> ('e, unit, 'm) mut_result"
  op_wake_devices :: "'m \<Rightarrow> 'm"

definition restored_step :: "restore_step \<Rightarrow> 'm restored \<Rightarrow> ('e restored_error, unit, 'm restored) mut_result" where
  "restored_step step r =
     (case restore_complete (rs_sequence r) step of
        (Inl e, _) \<Rightarrow> (Inl (RsOrder e), r)
      | (Inr _, sequence) \<Rightarrow> (Inr (), r\<lparr>rs_sequence := sequence\<rparr>))"

definition on_machine ::
    "('m \<Rightarrow> ('e, unit, 'm) mut_result) \<Rightarrow> 'm restored \<Rightarrow> ('e restored_error, unit, 'm restored) mut_result" where
  "on_machine f r = (case f (rs_machine r) of (res, m) \<Rightarrow> (map_err RsMachine res, r\<lparr>rs_machine := m\<rparr>))"

definition resume ::
    "(u8 list \<Rightarrow> digest) \<Rightarrow> ('e, 'm) machine_ops \<Rightarrow> u8 list \<Rightarrow> 'm restored \<Rightarrow>
     ('e restored_error, unit, 'm restored) mut_result" where
  "resume sha ops page r =
     try_then (restored_step AttachFreshAuthority r) (\<lambda>_ r.
     try_then (on_machine (op_write_launch_page ops page) r) (\<lambda>_ r.
     try_then (ok_or (RsReadiness ReadyUnbound) (page_session page), r) (\<lambda>session r.
     let r = r\<lparr>rs_launch := Some (sha page, session)\<rparr> in
     try_then (on_machine (op_start ops) r) (\<lambda>_ r.
     let r = r\<lparr>rs_machine := op_wake_devices ops (rs_machine r)\<rparr> in
     restored_step ResumeVcpu r))))"

definition restored_is_ready :: "'m restored \<Rightarrow> bool" where
  "restored_is_ready r \<longleftrightarrow> restore_is_ready (rs_sequence r)"

text \<open>The demand is the challenge and the identity it is made of.\<close>

definition readiness_demand :: "'m restored \<Rightarrow> (u8 list \<times> restored_identity) option" where
  "readiness_demand r =
     (case rs_launch r of
        Some (launch, session) \<Rightarrow>
          if rs_spent r then None
          else Some (rs_readiness r, \<lparr>ri_snapshot = rs_snapshot r, ri_launch = launch, ri_session = session\<rparr>)
      | None \<Rightarrow> None)"

definition ready ::
    "(u8 list \<Rightarrow> digest) \<Rightarrow> readiness_receipt \<Rightarrow> 'm restored \<Rightarrow> ('e restored_error, unit, 'm restored) mut_result" where
  "ready sha receipt r =
     (case rs_launch r of
        None \<Rightarrow> (Inl (RsReadiness ReadyUnpublished), r)
      | Some (launch, session) \<Rightarrow>
          if rs_spent r then (Inl (RsReadiness ReadySpent), r)
          else
            let r = r\<lparr>rs_spent := True\<rparr>;
                identity = \<lparr>ri_snapshot = rs_snapshot r, ri_launch = launch, ri_session = session\<rparr> in
            try_then (map_err RsReadiness (challenge_accepts sha (rs_readiness r) identity receipt), r) (\<lambda>_ r.
            restored_step AuthenticatedRepairAndReadiness r))"

text \<open>
  A caller's run from the point where the restore hands the machine over, with the pages whose
  resume succeeded and the receipts that completed the restore.
\<close>

inductive restored_run ::
    "(u8 list \<Rightarrow> digest) \<Rightarrow> ('e, 'm) machine_ops \<Rightarrow> 'm restored \<Rightarrow> 'm restored \<Rightarrow> u8 list list \<Rightarrow> readiness_receipt list \<Rightarrow> bool"
  for sha ops r0 where
  run_handed: "restored_run sha ops r0 r0 [] []"
| run_resumed: "\<lbrakk>restored_run sha ops r0 r ps rs; resume sha ops page r = (Inr (), r')\<rbrakk> \<Longrightarrow>
    restored_run sha ops r0 r' (ps @ [page]) rs"
| run_not_resumed: "\<lbrakk>restored_run sha ops r0 r ps rs; resume sha ops page r = (Inl e, r')\<rbrakk> \<Longrightarrow> restored_run sha ops r0 r' ps rs"
| run_ready: "\<lbrakk>restored_run sha ops r0 r ps rs; ready sha receipt r = ((Inr () :: 'e restored_error + unit), r')\<rbrakk> \<Longrightarrow>
    restored_run sha ops r0 r' ps (rs @ [receipt])"
| run_not_ready: "\<lbrakk>restored_run sha ops r0 r ps rs; ready sha receipt r = ((Inl e :: 'e restored_error + unit), r')\<rbrakk> \<Longrightarrow>
    restored_run sha ops r0 r' ps rs"

definition handed_over :: "'m restored \<Rightarrow> bool" where
  "handed_over r \<longleftrightarrow> rs_sequence r = \<lparr>rq_completed = 9, rq_failed_at = None\<rparr> \<and> \<not> rs_spent r \<and> rs_launch r = None \<and>
     length (rs_readiness r) = 32"

text \<open>What holds along a run.\<close>

definition restored_inv ::
    "(u8 list \<Rightarrow> digest) \<Rightarrow> 'm restored \<Rightarrow> 'm restored \<Rightarrow> u8 list list \<Rightarrow> readiness_receipt list \<Rightarrow> bool" where
  "restored_inv sha r0 r ps rs \<longleftrightarrow>
     rs_readiness r = rs_readiness r0 \<and> rs_snapshot r = rs_snapshot r0 \<and> rq_failed_at (rs_sequence r) = None \<and>
     (rs = [] \<longrightarrow> ps = [] \<and> rq_completed (rs_sequence r) \<in> {9, 10} \<or> length ps = 1 \<and> rq_completed (rs_sequence r) = 11) \<and>
     (rs \<noteq> [] \<longrightarrow> length ps = 1 \<and> rq_completed (rs_sequence r) = 12 \<and> rs_spent r \<and> length rs = 1 \<and>
       (\<exists>session launch. rs_launch r = Some (launch, session) \<and>
         challenge_accepts sha (rs_readiness r0) \<lparr>ri_snapshot = rs_snapshot r0, ri_launch = launch, ri_session = session\<rparr> (hd rs) = Inr ())) \<and>
     (rq_completed (rs_sequence r) = 9 \<longrightarrow> rs_launch r = None) \<and>
     (ps \<noteq> [] \<longrightarrow> (\<exists>session. page_session (hd ps) = Some session \<and> rs_launch r = Some (sha (hd ps), session)))"

lemma restored_step_eq:
  "rq_failed_at (rs_sequence r) = None \<Longrightarrow>
   restored_step st r =
     (let n = rq_completed (rs_sequence r) in
      if n < 12 \<and> st = RESTORE_ORDER ! n then (Inr (), r\<lparr>rs_sequence := \<lparr>rq_completed = Suc n, rq_failed_at = None\<rparr>\<rparr>)
      else (Inl (RsOrder (if n < 12 then RestoreStepOutOfOrder (RESTORE_ORDER ! n) st else RestoreAlreadyComplete)), r))"
  by (simp add: restored_step_def restore_complete_def next_restore_step_def slice_get_def restore_length Let_def)

lemma restored_step_cases:
  assumes "restored_step st r = (res, r')" "rq_failed_at (rs_sequence r) = None"
  obtains (moved) "res = Inr ()" "rq_completed (rs_sequence r) < 12" "st = RESTORE_ORDER ! rq_completed (rs_sequence r)"
      "r' = r\<lparr>rs_sequence := \<lparr>rq_completed = Suc (rq_completed (rs_sequence r)), rq_failed_at = None\<rparr>\<rparr>"
    | (refused) e where "res = Inl e" "r' = r"
proof (cases "rq_completed (rs_sequence r) < 12 \<and> st = RESTORE_ORDER ! rq_completed (rs_sequence r)")
  case True
  then have "(res, r') = (Inr (), r\<lparr>rs_sequence := \<lparr>rq_completed = Suc (rq_completed (rs_sequence r)), rq_failed_at = None\<rparr>\<rparr>)"
    unfolding assms(1)[symmetric] restored_step_eq[OF assms(2)] Let_def by (simp only: simp_thms if_True)
  with True show thesis by (intro moved) simp_all
next
  case False
  then have "\<exists>e. (res, r') = (Inl e, r)"
    unfolding assms(1)[symmetric] restored_step_eq[OF assms(2)] Let_def by (simp only: if_False) blast
  then show thesis by (auto intro: refused)
qed

lemma restore_order_at:
  "RESTORE_ORDER ! 9 = AttachFreshAuthority" "RESTORE_ORDER ! 10 = ResumeVcpu" "RESTORE_ORDER ! 11 = AuthenticatedRepairAndReadiness"
  by (simp_all add: RESTORE_ORDER_def)

lemma restore_order_index:
  assumes "n < 12" "m < 12"
  shows "RESTORE_ORDER ! n = RESTORE_ORDER ! m \<longleftrightarrow> n = m"
  using assms nth_eq_iff_index_eq[of RESTORE_ORDER n m] restore_length by (simp add: RESTORE_ORDER_def)

lemma on_machine_fields:
  assumes "on_machine f r = (res, r')"
  shows "rs_readiness r' = rs_readiness r \<and> rs_snapshot r' = rs_snapshot r \<and> rs_spent r' = rs_spent r \<and>
    rs_sequence r' = rs_sequence r \<and> rs_launch r' = rs_launch r"
  using assms by (auto simp: on_machine_def split: prod.splits)

lemma resume_effect:
  assumes "resume sha ops page r = (res, r')" "rq_failed_at (rs_sequence r) = None"
  shows "rs_readiness r' = rs_readiness r \<and> rs_snapshot r' = rs_snapshot r \<and> rs_spent r' = rs_spent r \<and>
    (res \<noteq> Inr () \<and> (r' = r \<or> rq_completed (rs_sequence r) = 9 \<and> rs_sequence r' = \<lparr>rq_completed = 10, rq_failed_at = None\<rparr>) \<or>
     res = Inr () \<and> rq_completed (rs_sequence r) = 9 \<and> rs_sequence r' = \<lparr>rq_completed = 11, rq_failed_at = None\<rparr> \<and>
     (\<exists>session. page_session page = Some session \<and> rs_launch r' = Some (sha page, session)))"
proof -
  obtain res1 r1 where s1: "restored_step AttachFreshAuthority r = (res1 :: 'a restored_error + unit, r1)" by (metis surj_pair)
  show ?thesis
  proof (cases rule: restored_step_cases[OF s1 assms(2), case_names moved refused])
    case (refused e)
    then show ?thesis using assms(1) s1 by (auto simp: resume_def)
  next
    case moved
    then have nine: "rq_completed (rs_sequence r) = 9"
      using restore_order_index[of "rq_completed (rs_sequence r)" 9] restore_order_at(1) by simp
    obtain res2 r2 where s2: "on_machine (op_write_launch_page ops page) r1 = (res2, r2)" by (metis surj_pair)
    obtain res3 r3 where s3: "on_machine (op_start ops) (r2\<lparr>rs_launch := Some (sha page, the (page_session page))\<rparr>) = (res3, r3)"
      by (metis surj_pair)
    let ?r4 = "r3\<lparr>rs_machine := op_wake_devices ops (rs_machine r3)\<rparr>"
    have ten: "rs_sequence r1 = \<lparr>rq_completed = 10, rq_failed_at = None\<rparr>" using moved nine by simp
    note f = on_machine_fields[OF s2] on_machine_fields[OF s3] ten moved(4)
    have s5: "restored_step ResumeVcpu ?r4 = (Inr () :: 'a restored_error + unit, ?r4\<lparr>rs_sequence := \<lparr>rq_completed = 11, rq_failed_at = None\<rparr>\<rparr>)"
      using f restore_order_at(2)
      by (simp add: restored_step_def restore_complete_def next_restore_step_def slice_get_def restore_length)
    show ?thesis
      using assms(1) s1 s2 s3 s5 f nine moved(1)
      by (cases res2; cases "page_session page"; cases res3) (auto simp: resume_def Let_def)
  qed
qed

lemma ready_effect:
  assumes "ready sha receipt r = (res :: 'e restored_error + unit, r')" "rq_failed_at (rs_sequence r) = None"
  shows "rs_readiness r' = rs_readiness r \<and> rs_snapshot r' = rs_snapshot r \<and> rs_launch r' = rs_launch r \<and>
    (res \<noteq> Inr () \<and> rs_sequence r' = rs_sequence r \<and> (rs_spent r \<longrightarrow> rs_spent r') \<or>
     res = Inr () \<and> \<not> rs_spent r \<and> rs_spent r' \<and> rq_completed (rs_sequence r) = 11 \<and>
     rs_sequence r' = \<lparr>rq_completed = 12, rq_failed_at = None\<rparr> \<and>
     (\<exists>launch session. rs_launch r = Some (launch, session) \<and> challenge_accepts sha (rs_readiness r)
        \<lparr>ri_snapshot = rs_snapshot r, ri_launch = launch, ri_session = session\<rparr> receipt = Inr ()))"
proof (cases "rs_launch r = None \<or> rs_spent r")
  case True
  then show ?thesis using assms by (auto simp: ready_def split: option.splits)
next
  case False
  then obtain launch session where l: "rs_launch r = Some (launch, session)" "\<not> rs_spent r" by auto
  obtain res1 r1 where s1: "restored_step AuthenticatedRepairAndReadiness (r\<lparr>rs_spent := True\<rparr>) = (res1 :: 'e restored_error + unit, r1)"
    by (metis surj_pair)
  let ?acc = "challenge_accepts sha (rs_readiness r) \<lparr>ri_snapshot = rs_snapshot r, ri_launch = launch, ri_session = session\<rparr> receipt"
  show ?thesis
  proof (cases ?acc)
    case (Inl e)
    then show ?thesis using assms(1) l by (simp add: ready_def Let_def) auto
  next
    case (Inr u)
    have failed: "rq_failed_at (rs_sequence (r\<lparr>rs_spent := True\<rparr>)) = None" using assms(2) by simp
    show ?thesis
    proof (cases rule: restored_step_cases[OF s1 failed, case_names moved refused])
      case moved
      then have "rq_completed (rs_sequence r) = 11" 
        using restore_order_index[of "rq_completed (rs_sequence r)" 11] restore_order_at(3) by simp
      then show ?thesis using assms(1) l s1 moved Inr by (auto simp: ready_def Let_def)
    next
      case (refused e)
      then show ?thesis using assms(1) l s1 Inr by (auto simp: ready_def Let_def)
    qed
  qed
qed

lemma restored_run_inv: "\<lbrakk>restored_run sha ops r0 r ps rs; handed_over r0\<rbrakk> \<Longrightarrow> restored_inv sha r0 r ps rs"
proof (induction rule: restored_run.induct)
  case run_handed
  then show ?case by (simp add: restored_inv_def handed_over_def)
next
  case (run_resumed r ps rs page r')
  then have inv: "restored_inv sha r0 r ps rs" by simp
  with resume_effect[OF run_resumed(2)] show ?case
    by (cases "rs = []") (auto simp: restored_inv_def)
next
  case (run_not_resumed r ps rs page e r')
  then have inv: "restored_inv sha r0 r ps rs" by simp
  with resume_effect[OF run_not_resumed(2)] show ?case
    by (cases "rs = []") (auto simp: restored_inv_def)
next
  case (run_ready r ps rs receipt r')
  then have inv: "restored_inv sha r0 r ps rs" by simp
  with ready_effect[OF run_ready(2)] show ?case
    by (cases "rs = []") (auto simp: restored_inv_def)
next
  case (run_not_ready r ps rs receipt e r')
  then have inv: "restored_inv sha r0 r ps rs" by simp
  with ready_effect[OF run_not_ready(2)] show ?case
    by (cases "rs = []") (auto simp: restored_inv_def)
qed

section \<open>Properties\<close>

text \<open>The lengths the array types carry.\<close>

definition identity_typed :: "restored_identity \<Rightarrow> bool" where
  "identity_typed i \<longleftrightarrow> length (ri_snapshot i) = 32 \<and> length (ri_launch i) = 32"

definition collides :: "(u8 list \<Rightarrow> digest) \<Rightarrow> u8 list \<Rightarrow> u8 list \<Rightarrow> bool" where
  "collides sha x y \<longleftrightarrow> x \<noteq> y \<and> sha x = sha y"

text \<open>A machine whose operations succeed, a page, and a stand-in for the hash.\<close>

definition sample_hash :: "u8 list \<Rightarrow> digest" where
  "sample_hash bs = replicate 32 (of_nat (length bs))"

definition sample_ops :: "(unit, unit) machine_ops" where
  "sample_ops = \<lparr>op_write_launch_page = (\<lambda>_ m. (Inr (), m)), op_start = (\<lambda>m. (Inr (), m)), op_wake_devices = id\<rparr>"

definition sample_page :: "u8 list" where
  "sample_page = replicate 4096 8"

definition sample_restored :: "unit restored" where
  "sample_restored = \<lparr>rs_machine = (), rs_snapshot = replicate 32 4,
     rs_sequence = \<lparr>rq_completed = 9, rq_failed_at = None\<rparr>, rs_readiness = replicate 32 5, rs_spent = False, rs_launch = None\<rparr>"

definition sample_identity :: restored_identity where
  "sample_identity = \<lparr>ri_snapshot = replicate 32 4, ri_launch = sample_hash sample_page,
     ri_session = (replicate 16 8, replicate 16 8)\<rparr>"

definition sample_session :: session_evidence where
  "sample_session = \<lparr>se_instance = replicate 16 8, se_operation = replicate 16 8, se_transcript = replicate 32 2\<rparr>"

lemma attest_accepted:
  "ri_session identity = (se_instance session, se_operation session) \<Longrightarrow>
   challenge_accepts sha k identity (attest sha k identity session) = Inr ()"
  by (simp add: challenge_accepts_def attest_def tag_equal_iff)

lemma tag_message_inj:
  assumes "identity_typed i" "identity_typed j" "tag_message i s = tag_message j s"
  shows "ri_snapshot i = ri_snapshot j \<and> ri_launch i = ri_launch j"
  using assms by (simp add: tag_message_def identity_typed_def)

text \<open>
  C13: A receipt minted for one restore completes another only on a hash collision. If a receipt
  that \<open>attest\<close> made under one challenge and identity is accepted under another, then its session
  is the one the accepting side published, and the two challenges are the same and so are the
  snapshots and launch pages, or one of the two explicit pairs of inputs that the tags hash collides.
\<close>

theorem receipt_binds_restore:
  assumes "\<And>bs. length (sha bs) = 32" "length k = 32" "length k' = 32" "identity_typed i" "identity_typed i'"
    and accepted: "challenge_accepts sha k' i' (attest sha k i session) = Inr ()"
  shows "ri_session i' = (se_instance session, se_operation session) \<and>
    (k' = k \<and> ri_snapshot i' = ri_snapshot i \<and> ri_launch i' = ri_launch i \<or>
     collides sha (key_pad 0x36 k @ tag_message i session) (key_pad 0x36 k' @ tag_message i' session) \<or>
     collides sha (key_pad 0x5c k @ sha (key_pad 0x36 k @ tag_message i session))
       (key_pad 0x5c k' @ sha (key_pad 0x36 k' @ tag_message i' session)))"
proof (rule conjI)
  show "ri_session i' = (se_instance session, se_operation session)"
    using accepted by (simp add: challenge_accepts_def attest_def split: if_splits)
  have len: "length (key_pad fill k) = length (key_pad fill k')" for fill using assms(2,3) by (simp add: key_pad_eq)
  have "challenge_tag sha k' i' session = challenge_tag sha k i session"
    using accepted assms(1)
    by (simp add: challenge_accepts_def attest_def tag_equal_iff challenge_tag_def keyed_tag_def Let_def split: if_splits)
  then have tags: "sha (key_pad 0x5c k' @ sha (key_pad 0x36 k' @ tag_message i' session)) =
      sha (key_pad 0x5c k @ sha (key_pad 0x36 k @ tag_message i session))"
    by (simp add: challenge_tag_def keyed_tag_def Let_def)
  show "k' = k \<and> ri_snapshot i' = ri_snapshot i \<and> ri_launch i' = ri_launch i \<or>
     collides sha (key_pad 0x36 k @ tag_message i session) (key_pad 0x36 k' @ tag_message i' session) \<or>
     collides sha (key_pad 0x5c k @ sha (key_pad 0x36 k @ tag_message i session))
       (key_pad 0x5c k' @ sha (key_pad 0x36 k' @ tag_message i' session))"
  proof (cases "key_pad 0x5c k @ sha (key_pad 0x36 k @ tag_message i session) =
      key_pad 0x5c k' @ sha (key_pad 0x36 k' @ tag_message i' session)")
    case False
    with tags show ?thesis by (simp add: collides_def)
  next
    case True
    then have "key_pad 0x5c k = key_pad 0x5c k'"
      and inner: "sha (key_pad 0x36 k @ tag_message i session) = sha (key_pad 0x36 k' @ tag_message i' session)"
      using len[of "0x5c"] by simp_all
    then have k: "k = k'" using assms(2,3) key_pad_inj by blast
    then show ?thesis
      using inner tag_message_inj[OF assms(4,5), of session] by (auto simp: collides_def)
  qed
qed

theorem receipt_binds_restore_witness:
  "challenge_accepts sample_hash (replicate 32 5) sample_identity (attest sample_hash (replicate 32 5) sample_identity sample_session) = Inr () \<and>
   ri_session sample_identity = (se_instance sample_session, se_operation sample_session) \<and>
   (replicate 32 5 = replicate 32 (5 :: u8) \<and> ri_snapshot sample_identity = ri_snapshot sample_identity \<and>
      ri_launch sample_identity = ri_launch sample_identity \<or>
    collides sample_hash (key_pad 0x36 (replicate 32 5) @ tag_message sample_identity sample_session)
      (key_pad 0x36 (replicate 32 5) @ tag_message sample_identity sample_session) \<or>
    collides sample_hash (key_pad 0x5c (replicate 32 5) @ sample_hash (key_pad 0x36 (replicate 32 5) @ tag_message sample_identity sample_session))
      (key_pad 0x5c (replicate 32 5) @ sample_hash (key_pad 0x36 (replicate 32 5) @ tag_message sample_identity sample_session)))"
proof -
  have acc: "challenge_accepts sample_hash (replicate 32 5) sample_identity
      (attest sample_hash (replicate 32 5) sample_identity sample_session) = Inr ()"
    by (rule attest_accepted) (simp add: sample_identity_def sample_session_def)
  have typed: "identity_typed sample_identity" by (simp add: identity_typed_def sample_identity_def sample_hash_def)
  show ?thesis
    by (rule conjI, rule acc, rule receipt_binds_restore[OF _ _ _ typed typed acc]) (simp_all add: sample_hash_def)
qed

text \<open>
  C9: Readiness is reached once and only by evidence. Whatever a caller does with a restored
  machine, in whatever order and with whatever machine failures, at most one receipt completes the
  restore; the restore is ready exactly if one did; and then exactly one launch page was resumed
  with, and the receipt was accepted for this restore's challenge, its snapshot, that page and the
  session the page itself carries.
\<close>

theorem ready_once_by_evidence:
  assumes "restored_run sha ops r0 r ps rs" "handed_over r0"
  shows "length rs \<le> 1 \<and> (restored_is_ready r \<longleftrightarrow> rs \<noteq> []) \<and>
    (rs \<noteq> [] \<longrightarrow> (\<exists>page session. ps = [page] \<and> page_session page = Some session \<and>
      challenge_accepts sha (rs_readiness r0)
        \<lparr>ri_snapshot = rs_snapshot r0, ri_launch = sha page, ri_session = session\<rparr> (hd rs) = Inr ()))"
proof -
  have inv: "restored_inv sha r0 r ps rs" by (rule restored_run_inv[OF assms])
  have "restored_is_ready r \<longleftrightarrow> 12 \<le> rq_completed (rs_sequence r)"
    using inv by (simp add: restored_is_ready_def restore_is_ready_def next_restore_step_def slice_get_None restore_length restored_inv_def)
  then have ready: "restored_is_ready r \<longleftrightarrow> rs \<noteq> []" using inv by (cases "rs = []") (auto simp: restored_inv_def)
  show ?thesis
  proof (cases "rs = []")
    case False
    then obtain page where "ps = [page]" using inv by (auto simp: restored_inv_def length_Suc_conv)
    with inv False ready show ?thesis by (auto simp: restored_inv_def)
  qed (simp add: ready)
qed

theorem ready_once_by_evidence_witness:
  "\<exists>r. restored_run sample_hash sample_ops sample_restored r [sample_page]
         [attest sample_hash (replicate 32 5) sample_identity sample_session] \<and> restored_is_ready r"
proof -
  have session: "page_session sample_page = Some (replicate 16 8, replicate 16 8)"
    by (simp add: page_session_def slice_range_def sample_page_def)
  let ?r1 = "sample_restored\<lparr>rs_launch := Some (sample_hash sample_page, (replicate 16 8, replicate 16 8)),
    rs_sequence := \<lparr>rq_completed = 11, rq_failed_at = None\<rparr>\<rparr>"
  let ?r2 = "?r1\<lparr>rs_spent := True, rs_sequence := \<lparr>rq_completed = 12, rq_failed_at = None\<rparr>\<rparr>"
  let ?receipt = "attest sample_hash (replicate 32 5) sample_identity sample_session"
  have "resume sample_hash sample_ops sample_page sample_restored = (Inr (), ?r1)"
    using restore_order_at(1,2) by (simp add: resume_def restored_step_eq on_machine_def sample_ops_def sample_restored_def session Let_def)
  then have run: "restored_run sample_hash sample_ops sample_restored ?r1 ([] @ [sample_page]) []"
    by (rule run_resumed[OF run_handed])
  have "challenge_accepts sample_hash (replicate 32 5) sample_identity ?receipt = Inr ()"
    by (rule attest_accepted) (simp add: sample_identity_def sample_session_def)
  then have "ready sample_hash ?receipt ?r1 = (Inr () :: unit restored_error + unit, ?r2)"
    using restore_order_at(3) by (simp add: ready_def restored_step_eq sample_restored_def Let_def sample_identity_def)
  then have run2: "restored_run sample_hash sample_ops sample_restored ?r2 ([] @ [sample_page]) ([] @ [?receipt])"
    by (rule run_ready[OF run])
  have "handed_over sample_restored" by (simp add: handed_over_def sample_restored_def)
  from ready_once_by_evidence[OF run2 this] run2 show ?thesis by auto
qed

end
