(* ===== verification/Seccomp.thy ===== *)
theory Seccomp
  imports Prelude
begin

text \<open>
  The seccomp filters of the jail, \<open>crates/soma-jail/src/seccomp\<close>: the table of admitted system
  calls and \<open>ioctl\<close> requests (\<open>policy.rs\<close>, \<open>ioctls.rs\<close>), the list of calls that are never
  admitted (\<open>denied.rs\<close>), and the assembler that turns the table of a phase into a classic BPF
  program (\<open>bpf.rs\<close>, \<open>mod.rs\<close>). The kernel that runs the program is an interface, the locale
  \<open>seccomp_kernel\<close>: the meaning of the four instructions used and the place of the call's fields
  in \<open>struct seccomp_data\<close>. The interpreter of the crate's tests implements it.
\<close>

section \<open>Instructions\<close>

record instruction =
  i_code :: u16
  i_jt :: u8
  i_jf :: u8
  i_k :: u32

abbreviation (input) LOAD_WORD :: u16 where "LOAD_WORD \<equiv> 0x0020"
abbreviation (input) JUMP_EQ :: u16 where "JUMP_EQ \<equiv> 0x0015"
abbreviation (input) JUMP_SET :: u16 where "JUMP_SET \<equiv> 0x0045"
abbreviation (input) RETURN :: u16 where "RETURN \<equiv> 0x0006"

abbreviation (input) RET_KILL_PROCESS :: u32 where "RET_KILL_PROCESS \<equiv> 0x80000000"
abbreviation (input) RET_ERRNO :: u32 where "RET_ERRNO \<equiv> 0x00050000"
abbreviation (input) RET_ALLOW :: u32 where "RET_ALLOW \<equiv> 0x7fff0000"
abbreviation (input) AUDIT_ARCH_X86_64 :: u32 where "AUDIT_ARCH_X86_64 \<equiv> 0xC000003E"
abbreviation (input) DATA_NR :: u32 where "DATA_NR \<equiv> 0"
abbreviation (input) DATA_ARCH :: u32 where "DATA_ARCH \<equiv> 4"
abbreviation (input) DATA_ARGS :: u32 where "DATA_ARGS \<equiv> 16"

definition arg_low :: "u8 \<Rightarrow> u32" where
  "arg_low index = DATA_ARGS + ucast index * 8"

definition arg_high :: "u8 \<Rightarrow> u32" where
  "arg_high index = arg_low index + 4"

definition bpf_load :: "u32 \<Rightarrow> instruction" where
  "bpf_load offset = \<lparr>i_code = LOAD_WORD, i_jt = 0, i_jf = 0, i_k = offset\<rparr>"

definition bpf_jump_eq :: "u32 \<Rightarrow> u8 \<Rightarrow> u8 \<Rightarrow> instruction" where
  "bpf_jump_eq k jt jf = \<lparr>i_code = JUMP_EQ, i_jt = jt, i_jf = jf, i_k = k\<rparr>"

definition bpf_jump_set :: "u32 \<Rightarrow> u8 \<Rightarrow> u8 \<Rightarrow> instruction" where
  "bpf_jump_set k jt jf = \<lparr>i_code = JUMP_SET, i_jt = jt, i_jf = jf, i_k = k\<rparr>"

definition bpf_ret :: "u32 \<Rightarrow> instruction" where
  "bpf_ret k = \<lparr>i_code = RETURN, i_jt = 0, i_jf = 0, i_k = k\<rparr>"

section \<open>Policy tables\<close>

datatype rule_source = ProbeTrace | SomaKvm | RustRuntime | Launcher

datatype rule_need =
    DiskBackend | VirtioDevices | DescriptorTransfer | EventLoop | SnapshotRestore | GlibcRuntime | Allocator

datatype provenance = Measured rule_source | Reserved rule_need

datatype seccomp_phase = Startup | SteadyState

datatype arg_check =
    Any
  | Errno u16
  | ArgEqualsAny u8 "u32 list"
  | Flags u8 u32 u32
  | IoctlAllowlist

record syscall_rule =
  sr_name :: string
  sr_nr :: u32
  sr_provenance :: provenance
  sr_startup :: arg_check
  sr_steady :: "arg_check option"

definition rule_both :: "string \<Rightarrow> u32 \<Rightarrow> provenance \<Rightarrow> arg_check \<Rightarrow> syscall_rule" where
  "rule_both name nr provenance check =
     \<lparr>sr_name = name, sr_nr = nr, sr_provenance = provenance, sr_startup = check, sr_steady = Some check\<rparr>"

definition rule_startup :: "string \<Rightarrow> u32 \<Rightarrow> provenance \<Rightarrow> arg_check \<Rightarrow> syscall_rule" where
  "rule_startup name nr provenance check =
     \<lparr>sr_name = name, sr_nr = nr, sr_provenance = provenance, sr_startup = check, sr_steady = None\<rparr>"

definition rule_tightened :: "string \<Rightarrow> u32 \<Rightarrow> provenance \<Rightarrow> arg_check \<Rightarrow> arg_check \<Rightarrow> syscall_rule" where
  "rule_tightened name nr provenance startup steady =
     \<lparr>sr_name = name, sr_nr = nr, sr_provenance = provenance, sr_startup = startup, sr_steady = Some steady\<rparr>"

abbreviation (input) PROBE :: provenance where "PROBE \<equiv> Measured ProbeTrace"
abbreviation (input) KVM :: provenance where "KVM \<equiv> Measured SomaKvm"
abbreviation (input) RUST :: provenance where "RUST \<equiv> Measured RustRuntime"
abbreviation (input) LAUNCHER :: provenance where "LAUNCHER \<equiv> Measured Launcher"
abbreviation (input) DISK :: provenance where "DISK \<equiv> Reserved DiskBackend"
abbreviation (input) VIRTIO :: provenance where "VIRTIO \<equiv> Reserved VirtioDevices"
abbreviation (input) TRANSFER :: provenance where "TRANSFER \<equiv> Reserved DescriptorTransfer"
abbreviation (input) LOOP :: provenance where "LOOP \<equiv> Reserved EventLoop"
abbreviation (input) SNAPSHOT :: provenance where "SNAPSHOT \<equiv> Reserved SnapshotRestore"
abbreviation (input) GLIBC :: provenance where "GLIBC \<equiv> Reserved GlibcRuntime"
abbreviation (input) ALLOC :: provenance where "ALLOC \<equiv> Reserved Allocator"

abbreviation (input) CLONE_THREAD :: u32 where "CLONE_THREAD \<equiv> 0x00010000"

definition CLONE_NAMESPACE_MASK :: u32 where
  "CLONE_NAMESPACE_MASK =
     0x00020000 OR 0x02000000 OR 0x04000000 OR 0x08000000 OR 0x10000000 OR 0x20000000 OR 0x40000000"

abbreviation (input) PROT_EXEC :: u32 where "PROT_EXEC \<equiv> 4"
abbreviation (input) ENOSYS :: u16 where "ENOSYS \<equiv> 38"
abbreviation (input) PRCTL_STARTUP :: "u32 list" where "PRCTL_STARTUP \<equiv> [15, 16, 38]"
abbreviation (input) PRCTL_STEADY :: "u32 list" where "PRCTL_STEADY \<equiv> [15, 16]"
abbreviation (input) FCNTL_STARTUP :: "u32 list" where "FCNTL_STARTUP \<equiv> [1, 2, 3, 4, 1030]"

abbreviation (input) THREAD_CLONE :: arg_check where
  "THREAD_CLONE \<equiv> Flags 0 CLONE_NAMESPACE_MASK CLONE_THREAD"

abbreviation (input) NO_EXEC_MAPPING :: arg_check where
  "NO_EXEC_MAPPING \<equiv> Flags 2 PROT_EXEC 0"

definition RULES :: "syscall_rule list" where
  "RULES =
    [rule_both ''read'' 0 KVM Any,
     rule_both ''write'' 1 KVM Any,
     rule_startup ''open'' 2 PROBE Any,
     rule_both ''close'' 3 PROBE Any,
     rule_startup ''stat'' 4 PROBE Any,
     rule_both ''fstat'' 5 PROBE Any,
     rule_startup ''poll'' 7 PROBE Any,
     rule_both ''lseek'' 8 DISK Any,
     rule_tightened ''mmap'' 9 PROBE Any NO_EXEC_MAPPING,
     rule_tightened ''mprotect'' 10 PROBE Any NO_EXEC_MAPPING,
     rule_both ''munmap'' 11 PROBE Any,
     rule_both ''brk'' 12 PROBE Any,
     rule_startup ''rt_sigaction'' 13 PROBE Any,
     rule_both ''rt_sigprocmask'' 14 PROBE Any,
     rule_both ''rt_sigreturn'' 15 KVM Any,
     rule_tightened ''ioctl'' 16 KVM IoctlAllowlist IoctlAllowlist,
     rule_both ''pread64'' 17 DISK Any,
     rule_both ''pwrite64'' 18 DISK Any,
     rule_both ''readv'' 19 VIRTIO Any,
     rule_both ''writev'' 20 VIRTIO Any,
     rule_both ''sched_yield'' 24 LOOP Any,
     rule_both ''mremap'' 25 ALLOC Any,
     rule_both ''madvise'' 28 ALLOC Any,
     rule_both ''nanosleep'' 35 LOOP Any,
     rule_both ''getpid'' 39 KVM Any,
     rule_both ''sendto'' 44 PROBE Any,
     rule_both ''recvfrom'' 45 PROBE Any,
     rule_both ''sendmsg'' 46 TRANSFER Any,
     rule_both ''recvmsg'' 47 TRANSFER Any,
     rule_both ''clone'' 56 PROBE THREAD_CLONE,
     rule_both ''exit'' 60 KVM Any,
     rule_startup ''fcntl'' 72 PROBE (ArgEqualsAny 1 FCNTL_STARTUP),
     rule_both ''fsync'' 74 DISK Any,
     rule_both ''fdatasync'' 75 DISK Any,
     rule_startup ''getrlimit'' 97 GLIBC Any,
     rule_startup ''getuid'' 102 PROBE Any,
     rule_startup ''getgid'' 104 PROBE Any,
     rule_startup ''geteuid'' 107 PROBE Any,
     rule_startup ''getegid'' 108 PROBE Any,
     rule_both ''sigaltstack'' 131 PROBE Any,
     rule_tightened ''prctl'' 157 PROBE (ArgEqualsAny 0 PRCTL_STARTUP) (ArgEqualsAny 0 PRCTL_STEADY),
     rule_startup ''arch_prctl'' 158 PROBE Any,
     rule_both ''gettid'' 186 PROBE Any,
     rule_both ''tkill'' 200 KVM Any,
     rule_both ''futex'' 202 PROBE Any,
     rule_startup ''getdents64'' 217 PROBE Any,
     rule_startup ''set_tid_address'' 218 PROBE Any,
     rule_both ''restart_syscall'' 219 LOOP Any,
     rule_both ''clock_gettime'' 228 LOOP Any,
     rule_both ''clock_nanosleep'' 230 LOOP Any,
     rule_both ''exit_group'' 231 PROBE Any,
     rule_both ''epoll_wait'' 232 LOOP Any,
     rule_both ''epoll_ctl'' 233 LOOP Any,
     rule_both ''tgkill'' 234 KVM Any,
     rule_startup ''openat'' 257 GLIBC Any,
     rule_startup ''newfstatat'' 262 GLIBC Any,
     rule_both ''ppoll'' 271 LOOP Any,
     rule_both ''set_robust_list'' 273 GLIBC Any,
     rule_both ''epoll_pwait'' 281 LOOP Any,
     rule_startup ''timerfd_create'' 283 LOOP Any,
     rule_both ''fallocate'' 285 DISK Any,
     rule_both ''timerfd_settime'' 286 LOOP Any,
     rule_both ''timerfd_gettime'' 287 LOOP Any,
     rule_startup ''eventfd2'' 290 KVM Any,
     rule_startup ''epoll_create1'' 291 LOOP Any,
     rule_both ''preadv'' 295 DISK Any,
     rule_both ''pwritev'' 296 DISK Any,
     rule_startup ''prlimit64'' 302 PROBE Any,
     rule_startup ''seccomp'' 317 PROBE Any,
     rule_both ''getrandom'' 318 RUST Any,
     rule_startup ''execveat'' 322 LAUNCHER Any,
     rule_startup ''statx'' 332 GLIBC Any,
     rule_both ''rseq'' 334 GLIBC Any,
     rule_both ''clone3'' 435 GLIBC (Errno ENOSYS),
     rule_both ''epoll_pwait2'' 441 LOOP Any]"

definition startup_only_syscalls :: "string list" where
  "startup_only_syscalls = map sr_name (filter (\<lambda>rule. sr_steady rule = None) RULES)"

definition NEVER_ALLOWED :: "(string \<times> u32) list" where
  "NEVER_ALLOWED =
    [(''access'', 21), (''shmget'', 29), (''shmat'', 30), (''dup'', 32), (''dup2'', 33),
     (''sendfile'', 40), (''socket'', 41), (''connect'', 42), (''accept'', 43), (''bind'', 49),
     (''listen'', 50), (''fork'', 57), (''vfork'', 58), (''execve'', 59), (''wait4'', 61),
     (''kill'', 62), (''uname'', 63), (''semget'', 64), (''msgget'', 68), (''getcwd'', 79),
     (''chdir'', 80), (''fchdir'', 81), (''rename'', 82), (''mkdir'', 83), (''creat'', 85),
     (''unlink'', 87), (''symlink'', 88), (''readlink'', 89), (''chmod'', 90), (''chown'', 92),
     (''ptrace'', 101), (''syslog'', 103), (''setuid'', 105), (''setgid'', 106), (''setpgid'', 109),
     (''setsid'', 112), (''setgroups'', 116), (''setresuid'', 117), (''setresgid'', 119),
     (''capset'', 126), (''mknod'', 133), (''personality'', 135), (''pivot_root'', 155),
     (''chroot'', 161), (''mount'', 165), (''umount2'', 166), (''reboot'', 169), (''sethostname'', 170),
     (''init_module'', 175), (''sched_setaffinity'', 203), (''kexec_load'', 246), (''waitid'', 247),
     (''add_key'', 248), (''keyctl'', 250), (''unshare'', 272), (''splice'', 275), (''accept4'', 288),
     (''dup3'', 292), (''inotify_init1'', 294), (''perf_event_open'', 298), (''fanotify_init'', 300),
     (''name_to_handle_at'', 303), (''open_by_handle_at'', 304), (''setns'', 308),
     (''process_vm_readv'', 310), (''process_vm_writev'', 311), (''kcmp'', 312), (''finit_module'', 313),
     (''memfd_create'', 319), (''bpf'', 321), (''userfaultfd'', 323), (''pidfd_send_signal'', 424),
     (''io_uring_setup'', 425), (''open_tree'', 428), (''move_mount'', 429), (''fsopen'', 430),
     (''fsmount'', 432), (''pidfd_open'', 434), (''close_range'', 436), (''openat2'', 437),
     (''pidfd_getfd'', 438), (''mount_setattr'', 442), (''landlock_create_ruleset'', 444)]"

section \<open>Requests of \<open>ioctl\<close>\<close>

abbreviation (input) KVMIO :: u32 where "KVMIO \<equiv> 0xAE"
abbreviation (input) IOC_WRITE :: u32 where "IOC_WRITE \<equiv> push_bit 30 1"
abbreviation (input) IOC_READ :: u32 where "IOC_READ \<equiv> push_bit 30 2"

definition ioc :: "u32 \<Rightarrow> u32" where
  "ioc nr = push_bit 8 KVMIO OR nr"

definition iow :: "u32 \<Rightarrow> u32 \<Rightarrow> u32" where
  "iow nr sz = IOC_WRITE OR push_bit 16 sz OR ioc nr"

definition ior :: "u32 \<Rightarrow> u32 \<Rightarrow> u32" where
  "ior nr sz = IOC_READ OR push_bit 16 sz OR ioc nr"

definition iowr :: "u32 \<Rightarrow> u32 \<Rightarrow> u32" where
  "iowr nr sz = IOC_READ OR IOC_WRITE OR push_bit 16 sz OR ioc nr"

datatype ioctl_phases = StartupOnly | Both

record ioctl_rule =
  ir_name :: string
  ir_request :: u32
  ir_phases :: ioctl_phases
  ir_provenance :: provenance

definition ioctl_rule_of :: "string \<Rightarrow> u32 \<Rightarrow> ioctl_phases \<Rightarrow> provenance \<Rightarrow> ioctl_rule" where
  "ioctl_rule_of name request phases provenance =
     \<lparr>ir_name = name, ir_request = request, ir_phases = phases, ir_provenance = provenance\<rparr>"

definition IOCTL_RULES :: "ioctl_rule list" where
  "IOCTL_RULES =
    [ioctl_rule_of ''KVM_GET_API_VERSION'' (ioc 0x00) StartupOnly KVM,
     ioctl_rule_of ''KVM_CREATE_VM'' (ioc 0x01) StartupOnly KVM,
     ioctl_rule_of ''KVM_CHECK_EXTENSION'' (ioc 0x03) StartupOnly KVM,
     ioctl_rule_of ''KVM_GET_VCPU_MMAP_SIZE'' (ioc 0x04) StartupOnly KVM,
     ioctl_rule_of ''KVM_GET_SUPPORTED_CPUID'' (iowr 0x05 8) StartupOnly KVM,
     ioctl_rule_of ''KVM_CREATE_VCPU'' (ioc 0x41) StartupOnly KVM,
     ioctl_rule_of ''KVM_SET_USER_MEMORY_REGION'' (iow 0x46 32) Both KVM,
     ioctl_rule_of ''KVM_SET_TSS_ADDR'' (ioc 0x47) StartupOnly KVM,
     ioctl_rule_of ''KVM_CREATE_IRQCHIP'' (ioc 0x60) StartupOnly KVM,
     ioctl_rule_of ''KVM_GET_IRQCHIP'' (iowr 0x62 520) StartupOnly SNAPSHOT,
     ioctl_rule_of ''KVM_SET_IRQCHIP'' (ior 0x63 520) StartupOnly SNAPSHOT,
     ioctl_rule_of ''KVM_SET_GSI_ROUTING'' (iow 0x6a 8) StartupOnly SNAPSHOT,
     ioctl_rule_of ''KVM_IRQFD'' (iow 0x76 32) Both KVM,
     ioctl_rule_of ''KVM_CREATE_PIT2'' (iow 0x77 64) StartupOnly KVM,
     ioctl_rule_of ''KVM_IOEVENTFD'' (iow 0x79 64) Both VIRTIO,
     ioctl_rule_of ''KVM_GET_CLOCK'' (ior 0x7c 48) StartupOnly SNAPSHOT,
     ioctl_rule_of ''KVM_SET_CLOCK'' (iow 0x7d 48) StartupOnly SNAPSHOT,
     ioctl_rule_of ''KVM_RUN'' (ioc 0x80) Both KVM,
     ioctl_rule_of ''KVM_GET_REGS'' (ior 0x81 144) StartupOnly SNAPSHOT,
     ioctl_rule_of ''KVM_SET_REGS'' (iow 0x82 144) StartupOnly KVM,
     ioctl_rule_of ''KVM_GET_SREGS'' (ior 0x83 312) StartupOnly KVM,
     ioctl_rule_of ''KVM_SET_SREGS'' (iow 0x84 312) StartupOnly KVM,
     ioctl_rule_of ''KVM_GET_MSRS'' (iowr 0x88 8) StartupOnly SNAPSHOT,
     ioctl_rule_of ''KVM_SET_MSRS'' (iow 0x89 8) StartupOnly SNAPSHOT,
     ioctl_rule_of ''KVM_SET_SIGNAL_MASK'' (iow 0x8b 4) StartupOnly KVM,
     ioctl_rule_of ''KVM_GET_FPU'' (ior 0x8c 416) StartupOnly SNAPSHOT,
     ioctl_rule_of ''KVM_SET_FPU'' (iow 0x8d 416) StartupOnly SNAPSHOT,
     ioctl_rule_of ''KVM_GET_LAPIC'' (ior 0x8e 1024) StartupOnly SNAPSHOT,
     ioctl_rule_of ''KVM_SET_LAPIC'' (iow 0x8f 1024) StartupOnly SNAPSHOT,
     ioctl_rule_of ''KVM_SET_CPUID2'' (iow 0x90 8) StartupOnly KVM,
     ioctl_rule_of ''KVM_GET_MP_STATE'' (ior 0x98 4) StartupOnly SNAPSHOT,
     ioctl_rule_of ''KVM_SET_MP_STATE'' (iow 0x99 4) StartupOnly SNAPSHOT,
     ioctl_rule_of ''KVM_GET_VCPU_EVENTS'' (ior 0x9f 64) StartupOnly SNAPSHOT,
     ioctl_rule_of ''KVM_SET_VCPU_EVENTS'' (iow 0xa0 64) StartupOnly SNAPSHOT,
     ioctl_rule_of ''KVM_GET_PIT2'' (ior 0x9f 112) StartupOnly SNAPSHOT,
     ioctl_rule_of ''KVM_SET_PIT2'' (iow 0xa0 112) StartupOnly SNAPSHOT,
     ioctl_rule_of ''KVM_GET_XSAVE'' (ior 0xa4 4096) StartupOnly SNAPSHOT,
     ioctl_rule_of ''KVM_SET_XSAVE'' (iow 0xa5 4096) StartupOnly SNAPSHOT,
     ioctl_rule_of ''KVM_GET_XCRS'' (ior 0xa6 392) StartupOnly SNAPSHOT,
     ioctl_rule_of ''KVM_SET_XCRS'' (iow 0xa7 392) StartupOnly SNAPSHOT,
     ioctl_rule_of ''KVM_GET_NESTED_STATE'' (iowr 0xbe 128) StartupOnly SNAPSHOT,
     ioctl_rule_of ''KVM_SET_NESTED_STATE'' (iow 0xbf 128) StartupOnly SNAPSHOT,
     ioctl_rule_of ''FIONBIO'' 0x5421 Both RUST]"

definition requests_for :: "seccomp_phase \<Rightarrow> u32 list" where
  "requests_for phase =
     map ir_request (filter (\<lambda>rule. phase = Startup \<or> ir_phases rule = Both) IOCTL_RULES)"

section \<open>The assembler\<close>

text \<open>
  A list too long for an eight-bit jump makes the assembler panic, which is \<open>None\<close>. The position
  of a value is below the count, so its conversion never fails.
\<close>

definition u8_of :: "nat \<Rightarrow> u8 option" where
  "u8_of n = (if n < 256 then Some (of_nat n) else None)"

definition equals_any :: "u8 \<Rightarrow> u32 list \<Rightarrow> instruction list option" where
  "equals_any index vals =
     map_option (\<lambda>count.
       [bpf_load (arg_high index), bpf_jump_eq 0 0 (count + 1), bpf_load (arg_low index)] @
       map (\<lambda>(position, v). bpf_jump_eq v (count - of_nat position) 0) (zip [0..<length vals] vals) @
       [bpf_ret RET_KILL_PROCESS, bpf_ret RET_ALLOW])
     (u8_of (length vals))"

definition flags_body :: "u8 \<Rightarrow> u32 \<Rightarrow> u32 \<Rightarrow> instruction list" where
  "flags_body index forbidden required =
     (if required = 0 then
        [bpf_load (arg_low index), bpf_jump_set forbidden 1 0, bpf_ret RET_ALLOW, bpf_ret RET_KILL_PROCESS]
      else
        [bpf_load (arg_low index), bpf_jump_set forbidden 1 0, bpf_jump_set required 1 0,
         bpf_ret RET_KILL_PROCESS, bpf_ret RET_ALLOW])"

fun body_for :: "arg_check \<Rightarrow> u32 list \<Rightarrow> instruction list option" where
  "body_for Any requests = Some [bpf_ret RET_ALLOW]"
| "body_for (Errno code) requests = Some [bpf_ret (RET_ERRNO OR ucast code)]"
| "body_for (ArgEqualsAny index vals) requests = equals_any index vals"
| "body_for IoctlAllowlist requests = equals_any 1 requests"
| "body_for (Flags index forbidden required) requests = Some (flags_body index forbidden required)"

fun assemble_rules :: "u32 list \<Rightarrow> (u32 \<times> arg_check) list \<Rightarrow> instruction list option" where
  "assemble_rules requests [] = Some []"
| "assemble_rules requests ((nr, check) # rules) =
     Option.bind (body_for check requests) (\<lambda>body.
     Option.bind (u8_of (length body)) (\<lambda>skip.
     map_option (\<lambda>rest. bpf_jump_eq nr 0 skip # body @ rest) (assemble_rules requests rules)))"

text \<open>The rules of a phase, before \<open>sort_unstable_by_key\<close>; the numbers are distinct, so every sort agrees.\<close>

definition phase_rules :: "seccomp_phase \<Rightarrow> (u32 \<times> arg_check) list" where
  "phase_rules phase =
     List.map_filter (\<lambda>rule. case phase of
         Startup \<Rightarrow> Some (sr_nr rule, sr_startup rule)
       | SteadyState \<Rightarrow> map_option (\<lambda>check. (sr_nr rule, check)) (sr_steady rule)) RULES"

definition program_for :: "seccomp_phase \<Rightarrow> instruction list option" where
  "program_for phase =
     map_option (\<lambda>blocks.
       [bpf_load DATA_ARCH, bpf_jump_eq AUDIT_ARCH_X86_64 1 0, bpf_ret RET_KILL_PROCESS, bpf_load DATA_NR] @
       blocks @ [bpf_ret RET_KILL_PROCESS])
     (assemble_rules (requests_for phase) (sort_key fst (phase_rules phase)))"

definition instruction_bytes :: "instruction \<Rightarrow> u8 list" where
  "instruction_bytes i = le_bytes 2 (i_code i) @ [i_jt i, i_jf i] @ le_bytes 4 (i_k i)"

definition program_bytes :: "instruction list \<Rightarrow> u8 list" where
  "program_bytes instructions = concat (map instruction_bytes instructions)"

definition fingerprint :: "instruction list \<Rightarrow> u64" where
  "fingerprint instructions =
     foldl (\<lambda>hash byte. (hash XOR ucast byte) * 0x00000100000001b3) 0xcbf29ce484222325 (program_bytes instructions)"

section \<open>The interpreter of the tests\<close>

record syscall_data =
  sc_nr :: u32
  sc_arch :: u32
  sc_args :: "nat \<Rightarrow> u64"

text \<open>A word of \<open>struct seccomp_data\<close>; the interpreter panics outside, which is \<open>None\<close>.\<close>

definition data_word :: "syscall_data \<Rightarrow> u32 \<Rightarrow> u32 option" where
  "data_word d offset =
     (if offset = DATA_NR then Some (sc_nr d)
      else if offset = DATA_ARCH then Some (sc_arch d)
      else if 16 \<le> offset \<and> offset \<le> 63 then
        let v = sc_args d (unat ((offset - 16) div 8)) in
        Some (if (offset - 16) mod 8 = 0 then ucast (v AND 0xffffffff) else ucast (drop_bit 32 v))
      else None)"

text \<open>The program counter is the rest of the program; running off its end panics.\<close>

fun evaluate :: "syscall_data \<Rightarrow> instruction list \<Rightarrow> u32 \<Rightarrow> u32 option" where
  "evaluate d [] acc = None"
| "evaluate d (i # p) acc =
     (if i_code i = LOAD_WORD then Option.bind (data_word d (i_k i)) (\<lambda>w. evaluate d p w)
      else if i_code i = JUMP_EQ then evaluate d (drop (unat (if acc = i_k i then i_jt i else i_jf i)) p) acc
      else if i_code i = JUMP_SET then evaluate d (drop (unat (if acc AND i_k i \<noteq> 0 then i_jt i else i_jf i)) p) acc
      else if i_code i = RETURN then Some (i_k i)
      else None)"

section \<open>The policy a filter stands for\<close>

text \<open>What the table says of a call: no jumps, no words, the argument as a whole.\<close>

fun check_verdict :: "u32 list \<Rightarrow> (nat \<Rightarrow> u64) \<Rightarrow> arg_check \<Rightarrow> u32" where
  "check_verdict requests arg Any = RET_ALLOW"
| "check_verdict requests arg (Errno code) = RET_ERRNO OR ucast code"
| "check_verdict requests arg (ArgEqualsAny index vals) =
     (if arg (unat index) \<in> ucast ` set vals then RET_ALLOW else RET_KILL_PROCESS)"
| "check_verdict requests arg (Flags index forbidden required) =
     (let low = ucast (arg (unat index)) in
      if low AND forbidden \<noteq> 0 \<or> required \<noteq> 0 \<and> low AND required = 0 then RET_KILL_PROCESS else RET_ALLOW)"
| "check_verdict requests arg IoctlAllowlist =
     (if arg 1 \<in> ucast ` set requests then RET_ALLOW else RET_KILL_PROCESS)"

definition table_verdict :: "u32 list \<Rightarrow> (u32 \<times> arg_check) list \<Rightarrow> u32 \<Rightarrow> (nat \<Rightarrow> u64) \<Rightarrow> u32" where
  "table_verdict requests rules nr arg =
     (case map_of rules nr of None \<Rightarrow> RET_KILL_PROCESS | Some check \<Rightarrow> check_verdict requests arg check)"

definition verdict :: "seccomp_phase \<Rightarrow> u32 \<Rightarrow> u32 \<Rightarrow> (nat \<Rightarrow> u64) \<Rightarrow> u32" where
  "verdict phase arch nr arg =
     (if arch \<noteq> AUDIT_ARCH_X86_64 then RET_KILL_PROCESS
      else table_verdict (requests_for phase) (phase_rules phase) nr arg)"

text \<open>An index names one of the six arguments, and a list of vals leaves room for the last two returns.\<close>

fun check_ok :: "u32 list \<Rightarrow> arg_check \<Rightarrow> bool" where
  "check_ok requests (ArgEqualsAny index vals) \<longleftrightarrow> index < 6 \<and> length vals < 255"
| "check_ok requests (Flags index forbidden required) \<longleftrightarrow> index < 6"
| "check_ok requests IoctlAllowlist \<longleftrightarrow> length requests < 255"
| "check_ok requests check \<longleftrightarrow> True"

lemma u8_of_Some_iff: "u8_of n = Some k \<longleftrightarrow> n < 256 \<and> k = of_nat n"
  by (auto simp: u8_of_def)

lemma unat_of_nat_u8: "n < 256 \<Longrightarrow> unat (of_nat n :: u8) = n"
  by (simp add: unat_of_nat)

text \<open>A 64-bit argument is a 32-bit value exactly if its high word is zero and its low word is that value.\<close>

lemma split_words_iff:
  fixes v :: u64 and x :: u32
  shows "v = ucast x \<longleftrightarrow> ucast (drop_bit 32 v) = (0 :: u32) \<and> ucast v = x"
proof
  assume r: "ucast (drop_bit 32 v) = (0 :: u32) \<and> ucast v = x"
  have high: "n < 32" if "bit v n" "n < 64" for n
  proof (rule ccontr)
    assume n: "\<not> n < 32"
    have "\<not> bit (ucast (drop_bit 32 v) :: u32) (n - 32)" using r by simp
    then show False using that n by (simp add: bit_simps)
  qed
  show "v = ucast x"
    using r high by (auto intro!: bit_word_eqI simp: bit_simps)
next
  assume v: "v = ucast x"
  have "\<not> bit x (32 + n)" for n using bit_imp_le_length[of x "32 + n"] by auto
  with v show "ucast (drop_bit 32 v) = (0 :: u32) \<and> ucast v = x"
    by (auto intro!: bit_word_eqI simp: bit_simps)
qed

lemma in_ucast_image_iff:
  fixes v :: u64 and xs :: "u32 set"
  shows "v \<in> ucast ` xs \<longleftrightarrow> ucast (drop_bit 32 v) = (0 :: u32) \<and> ucast v \<in> xs"
proof
  assume "v \<in> ucast ` xs"
  then obtain x where "x \<in> xs" "v = ucast x" by blast
  then show "ucast (drop_bit 32 v) = (0 :: u32) \<and> ucast v \<in> xs" using split_words_iff[of v x] by simp
qed (metis split_words_iff imageI)

section \<open>The kernel\<close>

locale seccomp_kernel =
  fixes run :: "'d \<Rightarrow> instruction list \<Rightarrow> u32 \<Rightarrow> u32 option"
    and load :: "'d \<Rightarrow> u32 \<Rightarrow> u32 option"
    and nr :: "'d \<Rightarrow> u32" and arch :: "'d \<Rightarrow> u32" and arg :: "'d \<Rightarrow> nat \<Rightarrow> u64"
  assumes run_load: "load d k = Some w \<Longrightarrow> run d (bpf_load k # p) a = run d p w"
    and run_jump_eq: "run d (bpf_jump_eq k jt jf # p) a = run d (drop (unat (if a = k then jt else jf)) p) a"
    and run_jump_set: "run d (bpf_jump_set k jt jf # p) a = run d (drop (unat (if a AND k \<noteq> 0 then jt else jf)) p) a"
    and run_ret: "run d (bpf_ret k # p) a = Some k"
    and load_nr: "load d 0 = Some (nr d)"
    and load_arch: "load d 4 = Some (arch d)"
    and load_arg: "i < 6 \<Longrightarrow> load d (16 + 8 * of_nat i) = Some (ucast (arg d i)) \<and>
      load d (20 + 8 * of_nat i) = Some (ucast (drop_bit 32 (arg d i)))"
begin

lemma load_arg_low: "index < 6 \<Longrightarrow> load d (arg_low index) = Some (ucast (arg d (unat index)))"
  using load_arg[of "unat index" d] by (simp add: arg_low_def word_less_nat_alt mult.commute)

lemma load_arg_high: "index < 6 \<Longrightarrow> load d (arg_high index) = Some (ucast (drop_bit 32 (arg d (unat index))))"
proof -
  assume "index < 6"
  then have "unat index < 6" by (simp add: word_less_nat_alt)
  moreover have "arg_high index = 20 + 8 * of_nat (unat index)" by (simp add: arg_high_def arg_low_def mult.commute)
  ultimately show ?thesis using load_arg[of "unat index" d] by simp
qed

lemmas run_simps = run_jump_eq run_jump_set run_ret

text \<open>The row of comparisons jumps to the last return exactly on a listed value.\<close>

lemma run_values:
  assumes "start + length vals < 255"
  shows "run d (map (\<lambda>(position, v). bpf_jump_eq v (of_nat (start + length vals) - of_nat position) 0)
      (zip [start..<start + length vals] vals) @ [bpf_ret RET_KILL_PROCESS, bpf_ret RET_ALLOW] @ rest) a =
    Some (if a \<in> set vals then RET_ALLOW else RET_KILL_PROCESS)"
  using assms
proof (induction vals arbitrary: start)
  case Nil
  then show ?case by (simp add: run_simps)
next
  case (Cons v vals)
  have up: "[start..<start + length (v # vals)] = start # [Suc start..<Suc start + length vals]"
    by (simp add: upt_conv_Cons del: upt_Suc)
  have "unat (of_nat (start + length (v # vals)) - of_nat start :: u8) = length (v # vals)"
    using Cons.prems unat_of_nat_u8[of "Suc (length vals)"] by simp
  moreover have "start + length (v # vals) = Suc start + length vals" by simp
  ultimately show ?case
    using Cons.IH[of "Suc start"] Cons.prems unfolding up by (simp add: run_simps del: upt_Suc)
qed

lemma run_equals_any:
  assumes "equals_any index vals = Some body" "index < 6" "length vals < 255"
  shows "run d (body @ rest) a =
    Some (if arg d (unat index) \<in> ucast ` set vals then RET_ALLOW else RET_KILL_PROCESS)"
proof -
  let ?row = "map (\<lambda>(position, v). bpf_jump_eq v (of_nat (length vals) - of_nat position) 0)
      (zip [0..<length vals] vals) :: instruction list"
  have body: "body @ rest = bpf_load (arg_high index) # bpf_jump_eq 0 0 (of_nat (length vals) + 1) #
      bpf_load (arg_low index) # ?row @ [bpf_ret RET_KILL_PROCESS, bpf_ret RET_ALLOW] @ rest"
    using assms(1,3) by (auto simp: equals_any_def u8_of_def)
  have "unat (of_nat (length vals) + 1 :: u8) = Suc (length vals)"
    using assms(3) unat_of_nat_u8[of "Suc (length vals)"] by (simp add: add.commute)
  then show ?thesis
    using run_values[of 0 vals d rest] assms(2,3)
    unfolding body in_ucast_image_iff
    by (simp add: run_load[OF load_arg_high] run_load[OF load_arg_low] run_simps)
qed

lemma run_flags:
  assumes "index < 6"
  shows "run d (flags_body index forbidden required @ rest) a =
    Some (check_verdict requests (arg d) (Flags index forbidden required))"
  using assms by (simp add: flags_body_def run_load[OF load_arg_low] run_simps Let_def)

lemma run_body:
  assumes "body_for check requests = Some body" "check_ok requests check"
  shows "run d (body @ rest) a = Some (check_verdict requests (arg d) check)"
  using assms run_flags[where requests=requests]
  by (cases check) (auto simp: run_ret run_equals_any)

lemma run_rules:
  assumes "assemble_rules requests rules = Some blocks" "list_all (\<lambda>(nr, check). check_ok requests check) rules"
  shows "run d (blocks @ [bpf_ret RET_KILL_PROCESS]) (nr d) = Some (table_verdict requests rules (nr d) (arg d))"
  using assms
proof (induction rules arbitrary: blocks)
  case Nil
  then show ?case by (simp add: run_ret table_verdict_def)
next
  case (Cons rule rules)
  obtain n check where rule: "rule = (n, check)" by (cases rule)
  with Cons.prems(1) obtain body rest where b: "body_for check requests = Some body" "length body < 256"
      "assemble_rules requests rules = Some rest" "blocks = bpf_jump_eq n 0 (of_nat (length body)) # body @ rest"
    by (auto simp: u8_of_Some_iff bind_eq_Some_conv)
  then show ?case
    using Cons.IH[OF b(3)] Cons.prems(2) run_body[OF b(1), of d "rest @ [bpf_ret RET_KILL_PROCESS]"]
    by (auto simp: rule run_jump_eq unat_of_nat_u8 table_verdict_def)
qed

lemma run_program:
  assumes "assemble_rules requests rules = Some blocks" "list_all (\<lambda>(nr, check). check_ok requests check) rules"
  shows "run d ([bpf_load DATA_ARCH, bpf_jump_eq AUDIT_ARCH_X86_64 1 0, bpf_ret RET_KILL_PROCESS, bpf_load DATA_NR] @
      blocks @ [bpf_ret RET_KILL_PROCESS]) a =
    Some (if arch d \<noteq> AUDIT_ARCH_X86_64 then RET_KILL_PROCESS else table_verdict requests rules (nr d) (arg d))"
  using run_rules[OF assms, of d] by (simp add: run_load[OF load_arch] run_load[OF load_nr] run_simps)

end

lemma low_word: "ucast (v AND 0xffffffff) = (ucast v :: u32)" for v :: u64
proof -
  have mask: "0xffffffff = (mask 32 :: u64)" by (simp add: mask_eq_exp_minus_1)
  show ?thesis unfolding mask by (auto intro!: bit_word_eqI simp: bit_simps)
qed

lemma data_word_arg:
  assumes "i < 6"
  shows "data_word d (16 + 8 * of_nat i) = Some (ucast (sc_args d i)) \<and>
    data_word d (20 + 8 * of_nat i) = Some (ucast (drop_bit 32 (sc_args d i)))"
proof -
  consider "i = 0" | "i = 1" | "i = 2" | "i = 3" | "i = 4" | "i = 5" using assms by linarith
  then show ?thesis by cases (simp_all add: data_word_def low_word)
qed

interpretation tests_kernel: seccomp_kernel evaluate data_word sc_nr sc_arch sc_args
  by unfold_locales
    (use data_word_arg in \<open>simp_all add: bpf_load_def bpf_jump_eq_def bpf_jump_set_def bpf_ret_def data_word_def\<close>)

section \<open>The tables\<close>

lemma rules_sorted: "sorted_wrt (<) (map sr_nr RULES)"
  by code_simp

lemma rules_ok:
  "list_all (\<lambda>rule. check_ok [] (sr_startup rule) \<and>
     (case sr_steady rule of None \<Rightarrow> True | Some check \<Rightarrow> check_ok [] check)) RULES"
  by code_simp

lemma requests_short: "length (requests_for Startup) < 255 \<and> length (requests_for SteadyState) < 255"
  by code_simp

text \<open>The two programs are, byte for byte, the ones the golden test of the crate pins.\<close>

lemma golden_startup:
  "map_option (\<lambda>p. (length p, fingerprint p)) (program_for Startup) = Some (222, 0x40b7c33a9001c79b)"
  by code_simp

lemma golden_steady:
  "map_option (\<lambda>p. (length p, fingerprint p)) (program_for SteadyState) = Some (136, 0x5a7e7f524fbff350)"
  by code_simp

lemma rules_distinct: "distinct (map sr_nr RULES)"
  using rules_sorted strict_sorted_iff by blast

lemma phase_rules_eq:
  "phase_rules Startup = map (\<lambda>rule. (sr_nr rule, sr_startup rule)) RULES"
  "phase_rules SteadyState = List.map_filter (\<lambda>rule. map_option (Pair (sr_nr rule)) (sr_steady rule)) RULES"
  by (simp_all add: phase_rules_def List.map_filter_def)

lemma sorted_map_filter_keys:
  assumes "sorted_wrt (<) (map f xs)" "\<And>x y. g x = Some y \<Longrightarrow> fst y = f x"
  shows "sorted_wrt (<) (map fst (List.map_filter g xs))"
  using assms(1)
proof (induction xs)
  case (Cons x xs)
  have "f x < fst z" if "z \<in> set (List.map_filter g xs)" for z
  proof -
    from that obtain y where "y \<in> set xs" "g y = Some z" by (auto simp: List.map_filter_def)
    with Cons.prems assms(2)[of y z] show ?thesis by auto
  qed
  with Cons show ?case using assms(2)[of x] by (auto simp: List.map_filter_simps split: option.split)
qed (simp add: List.map_filter_simps)

lemma phase_rules_sorted: "sorted_wrt (<) (map fst (phase_rules phase))"
  unfolding phase_rules_def
  by (rule sorted_map_filter_keys[OF rules_sorted]) (auto split: seccomp_phase.splits)

lemma phase_rules_distinct: "distinct (map fst (phase_rules phase))"
  using phase_rules_sorted strict_sorted_iff by blast

lemma sort_key_sorted: "sorted (map f xs) \<Longrightarrow> sort_key f xs = xs"
proof (induction xs)
  case (Cons x xs)
  then show ?case by (cases xs) auto
qed simp

lemma phase_rules_sort: "sort_key fst (phase_rules phase) = phase_rules phase"
  using phase_rules_sorted[of phase] by (intro sort_key_sorted) (simp add: strict_sorted_iff)

lemma check_ok_requests: "check_ok [] check \<Longrightarrow> length requests < 255 \<Longrightarrow> check_ok requests check"
  by (cases check) auto

lemma phase_rules_ok: "list_all (\<lambda>(nr, check). check_ok (requests_for phase) check) (phase_rules phase)"
proof -
  have "length (requests_for phase) < 255" using requests_short by (cases phase) auto
  then show ?thesis
    using rules_ok check_ok_requests unfolding phase_rules_def
    by (cases phase) (fastforce simp: list_all_iff List.map_filter_def split: option.splits)+
qed

lemma program_exists:
  obtains blocks where "assemble_rules (requests_for phase) (phase_rules phase) = Some blocks"
    "program_for phase = Some ([bpf_load DATA_ARCH, bpf_jump_eq AUDIT_ARCH_X86_64 1 0, bpf_ret RET_KILL_PROCESS,
       bpf_load DATA_NR] @ blocks @ [bpf_ret RET_KILL_PROCESS])"
  using golden_startup golden_steady by (cases phase) (auto simp: program_for_def phase_rules_sort)

text \<open>The answer of the installed filter of a phase.\<close>

definition filtered :: "('d \<Rightarrow> instruction list \<Rightarrow> u32 \<Rightarrow> u32 option) \<Rightarrow> seccomp_phase \<Rightarrow> 'd \<Rightarrow> u32 option" where
  "filtered run phase d = Option.bind (program_for phase) (\<lambda>p. run d p 0)"

lemma filtered_verdict:
  assumes "seccomp_kernel run load nr arch arg"
  shows "filtered run phase d = Some (verdict phase (arch d) (nr d) (arg d))"
proof -
  obtain blocks where "assemble_rules (requests_for phase) (phase_rules phase) = Some blocks"
    "program_for phase = Some ([bpf_load DATA_ARCH, bpf_jump_eq AUDIT_ARCH_X86_64 1 0, bpf_ret RET_KILL_PROCESS,
       bpf_load DATA_NR] @ blocks @ [bpf_ret RET_KILL_PROCESS])"
    by (rule program_exists)
  then show ?thesis
    using seccomp_kernel.run_program[OF assms _ phase_rules_ok, of phase blocks d 0]
    by (simp add: filtered_def verdict_def del: append.simps)
qed

section \<open>What the tables admit\<close>

lemma rule_steady_iff:
  "map_of (phase_rules SteadyState) n = Some c \<longleftrightarrow> (\<exists>rule \<in> set RULES. sr_nr rule = n \<and> sr_steady rule = Some c)"
  using map_of_eq_Some_iff[OF phase_rules_distinct, of SteadyState n c]
  by (auto simp: phase_rules_eq List.map_filter_def intro!: image_eqI)

lemma rule_startup_iff:
  "map_of (phase_rules Startup) n = Some c \<longleftrightarrow> (\<exists>rule \<in> set RULES. sr_nr rule = n \<and> sr_startup rule = c)"
  using map_of_eq_Some_iff[OF phase_rules_distinct, of Startup n c]
  by (auto simp: phase_rules_eq)

fun tighter :: "arg_check \<Rightarrow> arg_check \<Rightarrow> bool" where
  "tighter (ArgEqualsAny i xs) (ArgEqualsAny j ys) \<longleftrightarrow> i = j \<and> list_all (\<lambda>x. x \<in> set ys) xs"
| "tighter c d \<longleftrightarrow> d = Any \<or> c = d"

lemma rules_tighten:
  "list_all (\<lambda>rule. case sr_steady rule of None \<Rightarrow> True | Some check \<Rightarrow> tighter check (sr_startup rule)) RULES"
  by code_simp

lemma tighter_admits:
  assumes "tighter c d" "set requests \<subseteq> set requests'" "check_verdict requests a c = RET_ALLOW"
  shows "check_verdict requests' a d = RET_ALLOW"
  using assms by (induction c d rule: tighter.induct) (auto simp: Let_def list_all_iff split: if_splits)

lemma steady_requests_subset: "set (requests_for SteadyState) \<subseteq> set (requests_for Startup)"
  by (auto simp: requests_for_def)

lemma steady_admits_startup:
  assumes "verdict SteadyState h n a = RET_ALLOW"
  shows "verdict Startup h n a = RET_ALLOW"
proof -
  from assms obtain c where h: "h = AUDIT_ARCH_X86_64" and c: "map_of (phase_rules SteadyState) n = Some c"
      "check_verdict (requests_for SteadyState) a c = RET_ALLOW"
    by (auto simp: verdict_def table_verdict_def split: if_splits option.splits)
  then obtain rule where rule: "rule \<in> set RULES" "sr_nr rule = n" "sr_steady rule = Some c"
    by (auto simp: rule_steady_iff)
  then have "map_of (phase_rules Startup) n = Some (sr_startup rule)" by (auto simp: rule_startup_iff)
  moreover have "tighter c (sr_startup rule)" using rule rules_tighten by (auto simp: list_all_iff)
  ultimately show ?thesis
    using tighter_admits[OF _ steady_requests_subset c(2)] h by (simp add: verdict_def table_verdict_def)
qed

lemma verdict_no_rule:
  "map_of (phase_rules phase) n = None \<Longrightarrow> verdict phase h n a = RET_KILL_PROCESS"
  by (simp add: verdict_def table_verdict_def)

lemma verdict_rule:
  "map_of (phase_rules phase) n = Some c \<Longrightarrow> check_verdict (requests_for phase) a c = RET_KILL_PROCESS \<Longrightarrow>
   verdict phase h n a = RET_KILL_PROCESS"
  by (simp add: verdict_def table_verdict_def)

lemma never_allowed_absent: "list_all (\<lambda>(name, n). n \<notin> set (map sr_nr RULES)) NEVER_ALLOWED"
  by code_simp

lemma never_allowed_killed:
  assumes "(name, n) \<in> set NEVER_ALLOWED"
  shows "verdict phase h n a = RET_KILL_PROCESS"
proof -
  have "n \<notin> sr_nr ` set RULES" using assms never_allowed_absent by (auto simp: list_all_iff)
  then have "map_of (phase_rules phase) n = None"
    by (cases phase) (auto simp: map_of_eq_None_iff phase_rules_eq List.map_filter_def)
  then show ?thesis by (rule verdict_no_rule)
qed

lemma startup_only_killed:
  assumes "rule \<in> set RULES" "sr_steady rule = None"
  shows "verdict SteadyState h (sr_nr rule) a = RET_KILL_PROCESS"
proof (rule verdict_no_rule, rule ccontr)
  assume "map_of (phase_rules SteadyState) (sr_nr rule) \<noteq> None"
  then obtain c where "map_of (phase_rules SteadyState) (sr_nr rule) = Some c" by blast
  then obtain other where other: "other \<in> set RULES" "sr_nr other = sr_nr rule" "sr_steady other = Some c"
    by (auto simp: rule_steady_iff)
  with rules_distinct assms(1) have "other = rule" by (auto simp: distinct_map dest: inj_onD)
  with other assms(2) show False by simp
qed

lemma mapping_rules:
  "map_of (phase_rules SteadyState) 9 = Some NO_EXEC_MAPPING" "map_of (phase_rules SteadyState) 10 = Some NO_EXEC_MAPPING"
  "map_of (phase_rules Startup) 56 = Some THREAD_CLONE" "map_of (phase_rules SteadyState) 56 = Some THREAD_CLONE"
  "map_of (phase_rules Startup) 435 = Some (Errno ENOSYS)" "map_of (phase_rules SteadyState) 435 = Some (Errno ENOSYS)"
  "map_of (phase_rules Startup) 16 = Some IoctlAllowlist" "map_of (phase_rules SteadyState) 16 = Some IoctlAllowlist"
  by code_simp+

section \<open>Properties\<close>

text \<open>
  C11: The assembled filter decides exactly as the policy table says. On every kernel that runs the
  four instructions and lays out a call as documented, the program of a phase exists, always
  returns, and answers with the verdict of the table: a call of another architecture and a call
  without a rule is killed, and the rule of a listed call is applied to its whole 64-bit argument
  or, for a flag check, to its low word.
\<close>

theorem filter_exact:
  assumes "seccomp_kernel run load nr arch arg"
  shows "filtered run phase d =
    Some (if arch d \<noteq> AUDIT_ARCH_X86_64 then RET_KILL_PROCESS
          else case map_of (phase_rules phase) (nr d) of
            None \<Rightarrow> RET_KILL_PROCESS
          | Some check \<Rightarrow> check_verdict (requests_for phase) (arg d) check)"
  using filtered_verdict[OF assms, of phase d] by (simp add: verdict_def table_verdict_def)

definition sample_call :: "u32 \<Rightarrow> u64 \<Rightarrow> syscall_data" where
  "sample_call n request = \<lparr>sc_nr = n, sc_arch = AUDIT_ARCH_X86_64, sc_args = (\<lambda>i. if i = 1 then request else 0)\<rparr>"

theorem filter_exact_witness:
  "filtered evaluate SteadyState (sample_call 16 0xAE80) = Some RET_ALLOW \<and>
   filtered evaluate SteadyState (sample_call 16 0x10000AE80) = Some RET_KILL_PROCESS"
proof -
  have "check_verdict (requests_for SteadyState) (sc_args (sample_call 16 0xAE80)) IoctlAllowlist = RET_ALLOW"
    "check_verdict (requests_for SteadyState) (sc_args (sample_call 16 0x10000AE80)) IoctlAllowlist = RET_KILL_PROCESS"
    by code_simp+
  then show ?thesis
    using filter_exact[OF tests_kernel.seccomp_kernel_axioms, of SteadyState "sample_call 16 0xAE80"]
      filter_exact[OF tests_kernel.seccomp_kernel_axioms, of SteadyState "sample_call 16 0x10000AE80"]
    by (simp add: sample_call_def mapping_rules)
qed

text \<open>
  C19: The steady filter only tightens the startup filter, and neither admits the denied surface.
  On every such kernel: a call the steady filter allows was allowed at startup; a call of the
  never-allowed list is killed in both phases whatever its arguments; a startup-only call is killed
  in the steady phase; a steady \<open>mmap\<close> or \<open>mprotect\<close> that asks for execution is killed; and a
  \<open>clone\<close> that names a namespace or does not make a thread is killed in both phases.
\<close>

theorem phases_tighten:
  assumes "seccomp_kernel run load nr arch arg"
  shows "(filtered run SteadyState d = Some RET_ALLOW \<longrightarrow> filtered run Startup d = Some RET_ALLOW) \<and>
    (nr d \<in> snd ` set NEVER_ALLOWED \<longrightarrow> filtered run phase d = Some RET_KILL_PROCESS) \<and>
    (\<forall>rule \<in> set RULES. sr_steady rule = None \<and> nr d = sr_nr rule \<longrightarrow>
       filtered run SteadyState d = Some RET_KILL_PROCESS) \<and>
    (nr d \<in> {9, 10} \<and> ucast (arg d 2) AND PROT_EXEC \<noteq> 0 \<longrightarrow>
       filtered run SteadyState d = Some RET_KILL_PROCESS) \<and>
    (nr d = 56 \<and> (ucast (arg d 0) AND CLONE_NAMESPACE_MASK \<noteq> 0 \<or> ucast (arg d 0) AND CLONE_THREAD = 0) \<longrightarrow>
       filtered run phase d = Some RET_KILL_PROCESS)"
proof -
  have exec: "verdict SteadyState h (nr d) (arg d) = RET_KILL_PROCESS"
    if "nr d \<in> {9, 10}" "ucast (arg d 2) AND PROT_EXEC \<noteq> 0" for h
    using that mapping_rules(1,2) by (intro verdict_rule) (auto simp: Let_def)
  have clone: "verdict phase h (nr d) (arg d) = RET_KILL_PROCESS"
    if "nr d = 56" "ucast (arg d 0) AND CLONE_NAMESPACE_MASK \<noteq> 0 \<or> ucast (arg d 0) AND CLONE_THREAD = 0" for h
    using that mapping_rules(3,4) by (cases phase; intro verdict_rule) (auto simp: Let_def)
  show ?thesis
    unfolding filtered_verdict[OF assms] using exec clone steady_admits_startup never_allowed_killed startup_only_killed
    by (auto simp: image_iff)
qed

theorem phases_tighten_witness:
  "sc_nr (sample_call 59 0) \<in> snd ` set NEVER_ALLOWED \<and>
   filtered evaluate Startup (sample_call 59 0) = Some RET_KILL_PROCESS"
proof -
  have "sc_nr (sample_call 59 0) \<in> snd ` set NEVER_ALLOWED" by (simp add: sample_call_def NEVER_ALLOWED_def)
  with phases_tighten[OF tests_kernel.seccomp_kernel_axioms, of "sample_call 59 0" Startup] show ?thesis by blast
qed

end
