(* ===== verification/Admission.thy ===== *)
theory Admission
  imports Prelude
begin

text \<open>
  The capacity admission of the host allocator, \<open>crates/soma-hostd/src/admission\<close>: the certified
  host profile, Machine shapes, what a shape demands, the committed usage with its gates, placement
  on a NUMA node, and the operations of \<open>Admission\<close>: \<open>reserve\<close>, \<open>launched\<close>, \<open>begin_cleanup\<close> and
  \<open>release\<close>. Each runs under the mutex of the state, so the state is passed through them in the
  order in which they take it. The placement policy is a trait: the locale \<open>numa_placement\<close>, which
  the single-node policy implements. \<open>capacity.rs\<close> gives the estimate of how many Instances fit.
\<close>

section \<open>The host profile\<close>

record cpu_inventory =
  ci_hardware_threads :: u32
  ci_reserved_threads :: u32
  ci_numa_nodes :: u32

record measured_overhead =
  mo_bytes_per_instance :: u64
  mo_evidence :: string

record memory_inventory =
  mi_total_bytes :: u64
  mi_reserved_bytes :: u64
  mi_overhead :: measured_overhead
  mi_elastic_budget_bytes :: u64

record process_inventory =
  pi_processes :: u32
  pi_descriptors :: u32

record operator_limits =
  ol_resident_instances :: u32
  ol_concurrent_launches :: u32
  ol_runnable_vcpus :: u32
  ol_dirty_memory_bytes :: u64
  ol_cleanup_slots :: u32

datatype workload_class = ApiWaiting | Build | IdleInteractive

abbreviation (input) ALL_CLASSES :: "workload_class list" where
  "ALL_CLASSES \<equiv> [ApiWaiting, Build, IdleInteractive]"

record cpu_ratio =
  ra_vcpus :: u32
  ra_threads :: u32

record overcommit_policy =
  oc_api_waiting :: cpu_ratio
  oc_build :: cpu_ratio
  oc_idle_interactive :: cpu_ratio

definition overcommit_ratio :: "overcommit_policy \<Rightarrow> workload_class \<Rightarrow> cpu_ratio" where
  "overcommit_ratio policy workload =
     (case workload of
        ApiWaiting \<Rightarrow> oc_api_waiting policy
      | Build \<Rightarrow> oc_build policy
      | IdleInteractive \<Rightarrow> oc_idle_interactive policy)"

text \<open>\<open>StorageInventory\<close> and \<open>NetworkInventory\<close> have one field each, which stands for them.\<close>

record capacity_profile =
  cp_cpu :: cpu_inventory
  cp_memory :: memory_inventory
  cp_private_budget_bytes :: u64
  cp_network_units :: u32
  cp_process :: process_inventory
  cp_limits :: operator_limits
  cp_overcommit :: overcommit_policy

datatype profile_error =
    NoAdmissibleCpu | NoAdmissibleMemory | NoNumaNode | ZeroRatio | ElasticBudget | ZeroOverhead

definition admissible_cpu_units :: "capacity_profile \<Rightarrow> u32" where
  "admissible_cpu_units p = saturating_sub (ci_hardware_threads (cp_cpu p)) (ci_reserved_threads (cp_cpu p))"

definition admissible_memory_bytes :: "capacity_profile \<Rightarrow> u64" where
  "admissible_memory_bytes p = saturating_sub (mi_total_bytes (cp_memory p)) (mi_reserved_bytes (cp_memory p))"

text \<open>A \<open>CertifiedProfile\<close> is a profile that passed this check.\<close>

definition profile_validate :: "capacity_profile \<Rightarrow> profile_error + capacity_profile" where
  "profile_validate p =
     (if ci_hardware_threads (cp_cpu p) \<le> ci_reserved_threads (cp_cpu p) then Inl NoAdmissibleCpu
      else if mi_total_bytes (cp_memory p) \<le> mi_reserved_bytes (cp_memory p) then Inl NoAdmissibleMemory
      else if ci_numa_nodes (cp_cpu p) = 0 then Inl NoNumaNode
      else if \<exists>ratio \<in> set [oc_api_waiting (cp_overcommit p), oc_build (cp_overcommit p), oc_idle_interactive (cp_overcommit p)].
          ra_vcpus ratio = 0 \<or> ra_threads ratio = 0 then Inl ZeroRatio
      else if admissible_memory_bytes p < mi_elastic_budget_bytes (cp_memory p) then Inl ElasticBudget
      else if mo_bytes_per_instance (mi_overhead (cp_memory p)) = 0 then Inl ZeroOverhead
      else Inr p)"

section \<open>Shapes and demands\<close>

datatype memory_class = Guaranteed | Elastic u64

record machine_shape =
  sh_vcpus :: u32
  sh_guest_memory_bytes :: u64
  sh_memory_class :: memory_class
  sh_private_storage_bytes :: u64
  sh_workload :: workload_class
  sh_network_units :: u32
  sh_descriptors :: u32

datatype shape_error = NoVcpus | NoMemory | ElasticAboveGuest

definition shape_validate :: "machine_shape \<Rightarrow> shape_error + machine_shape" where
  "shape_validate s =
     (if sh_vcpus s = 0 then Inl NoVcpus
      else if sh_guest_memory_bytes s = 0 then Inl NoMemory
      else case sh_memory_class s of
        Elastic expected_resident_bytes \<Rightarrow>
          if sh_guest_memory_bytes s < expected_resident_bytes then Inl ElasticAboveGuest else Inr s
      | Guaranteed \<Rightarrow> Inr s)"

datatype capacity_gate =
    GateCpuUnits | GateHostMemory | GateElasticMemory | GatePrivateStorage | GateNetworkInventory
  | GateProcessLimit | GateDescriptorLimit | GateOperatorSafetyLimit | GateConcurrentLaunches
  | GateRunnableVcpus | GateDirtyMemory | GateCleanupSlots | GateNumaFit | GateArithmetic

record capacity_rejection =
  cr_gate :: capacity_gate
  cr_requested :: u64
  cr_committed :: u64
  cr_limit :: u64

definition checked_sub :: "'a::len word \<Rightarrow> 'a word \<Rightarrow> 'a word option" where
  "checked_sub a b = (if b \<le> a then Some (a - b) else None)"

definition saturating_mul :: "'a::len word \<Rightarrow> 'a word \<Rightarrow> 'a word" where
  "saturating_mul a b = (if unat a * unat b < 2 ^ LENGTH('a) then a * b else - 1)"

definition class_milli_units :: "u64 \<Rightarrow> cpu_ratio \<Rightarrow> u64 option" where
  "class_milli_units vcpus ratio =
     Option.bind (checked_mul vcpus 1000) (\<lambda>n.
     Option.bind (checked_mul n (ucast (ra_threads ratio))) (\<lambda>numerator.
     let denominator = ucast (ra_vcpus ratio) in
     Option.bind (checked_sub denominator 1) (\<lambda>below.
     map_option (\<lambda>rounded. rounded div denominator) (checked_add numerator below))))"

text \<open>A census \<open>[u64; 3]\<close> indexed by \<open>WorkloadClass::index\<close> is a function of the class.\<close>

type_synonym census = "workload_class \<Rightarrow> u64"

fun census_loop :: "u64 \<Rightarrow> workload_class list \<Rightarrow> census \<Rightarrow> capacity_profile \<Rightarrow> u64 option" where
  "census_loop acc [] census p = Some acc"
| "census_loop acc (workload # rest) census p =
     Option.bind (class_milli_units (census workload) (overcommit_ratio (cp_overcommit p) workload)) (\<lambda>cost.
     Option.bind (checked_add acc cost) (\<lambda>acc. census_loop acc rest census p))"

definition census_milli_units :: "census \<Rightarrow> capacity_profile \<Rightarrow> u64 option" where
  "census_milli_units census p = census_loop 0 ALL_CLASSES census p"

record demand =
  dm_cpu_milli_units :: u64
  dm_vcpus :: u64
  dm_workload :: workload_class
  dm_guaranteed_bytes :: u64
  dm_elastic_bytes :: u64
  dm_storage_bytes :: u64
  dm_network_units :: u64
  dm_descriptors :: u64
  dm_runnable_vcpus :: u64
  dm_dirty_bytes :: u64

definition demand_of :: "capacity_profile \<Rightarrow> machine_shape \<Rightarrow> capacity_rejection + demand" where
  "demand_of p shape =
     (let overflow = (\<lambda>requested. \<lparr>cr_gate = GateArithmetic, cr_requested = requested, cr_committed = 0, cr_limit = - 1\<rparr>);
          vcpus = ucast (sh_vcpus shape);
          overhead = mo_bytes_per_instance (mi_overhead (cp_memory p));
          with_overhead = (\<lambda>bytes. ok_or (overflow bytes) (checked_add bytes overhead)) in
      and_then (ok_or (overflow vcpus)
          (class_milli_units vcpus (overcommit_ratio (cp_overcommit p) (sh_workload shape)))) (\<lambda>cpu_milli_units.
      and_then (case sh_memory_class shape of
          Guaranteed \<Rightarrow> and_then (with_overhead (sh_guest_memory_bytes shape)) (\<lambda>bytes.
            Inr (bytes, 0, sh_guest_memory_bytes shape))
        | Elastic expected_resident_bytes \<Rightarrow> and_then (with_overhead expected_resident_bytes) (\<lambda>bytes.
            Inr (0, bytes, expected_resident_bytes))) (\<lambda>(guaranteed_bytes, elastic_bytes, dirty_bytes).
      Inr \<lparr>dm_cpu_milli_units = cpu_milli_units, dm_vcpus = vcpus, dm_workload = sh_workload shape,
           dm_guaranteed_bytes = guaranteed_bytes, dm_elastic_bytes = elastic_bytes,
           dm_storage_bytes = sh_private_storage_bytes shape, dm_network_units = ucast (sh_network_units shape),
           dm_descriptors = ucast (sh_descriptors shape), dm_runnable_vcpus = ucast (sh_vcpus shape),
           dm_dirty_bytes = dirty_bytes\<rparr>)))"

section \<open>Committed usage\<close>

record usage =
  us_cpu_milli_units :: u64
  us_vcpus_by_class :: census
  us_guaranteed_bytes :: u64
  us_elastic_bytes :: u64
  us_storage_bytes :: u64
  us_network_units :: u64
  us_processes :: u64
  us_descriptors :: u64
  us_residents :: u64
  us_launches :: u64
  us_runnable_vcpus :: u64
  us_dirty_bytes :: u64
  us_cleanups :: u64
  us_node_cpu :: "u64 list"
  us_node_vcpus :: "census list"
  us_node_memory :: "u64 list"

definition capacity_check :: "capacity_gate \<Rightarrow> u64 \<Rightarrow> u64 \<Rightarrow> u64 \<Rightarrow> capacity_rejection + u64" where
  "capacity_check gate committed requested limit =
     (let reject = \<lparr>cr_gate = gate, cr_requested = requested, cr_committed = committed, cr_limit = limit\<rparr> in
      and_then (ok_or reject (checked_add committed requested)) (\<lambda>sum.
      if limit < sum then Inl reject else Inr sum))"

definition usage_apply :: "demand \<Rightarrow> capacity_profile \<Rightarrow> usage \<Rightarrow> capacity_rejection + usage" where
  "usage_apply d p u =
     (let cpu_limit = saturating_mul (ucast (admissible_cpu_units p)) 1000;
          memory_limit = admissible_memory_bytes p;
          limits = cp_limits p;
          overflow = \<lparr>cr_gate = GateArithmetic, cr_requested = dm_vcpus d, cr_committed = us_cpu_milli_units u,
                      cr_limit = cpu_limit\<rparr> in
      and_then (ok_or overflow (checked_add (us_vcpus_by_class u (dm_workload d)) (dm_vcpus d))) (\<lambda>vcpus.
      let census = (us_vcpus_by_class u)(dm_workload d := vcpus) in
      and_then (ok_or overflow (census_milli_units census p)) (\<lambda>committed.
      if cpu_limit < committed then
        Inl \<lparr>cr_gate = GateCpuUnits, cr_requested = dm_cpu_milli_units d, cr_committed = us_cpu_milli_units u,
             cr_limit = cpu_limit\<rparr>
      else
        and_then (capacity_check GateHostMemory (saturating_add (us_guaranteed_bytes u) (us_elastic_bytes u))
            (saturating_add (dm_guaranteed_bytes d) (dm_elastic_bytes d)) memory_limit) (\<lambda>_.
        and_then (capacity_check GateElasticMemory (us_elastic_bytes u) (dm_elastic_bytes d)
            (mi_elastic_budget_bytes (cp_memory p))) (\<lambda>elastic_bytes.
        and_then (capacity_check GatePrivateStorage (us_storage_bytes u) (dm_storage_bytes d)
            (cp_private_budget_bytes p)) (\<lambda>storage_bytes.
        and_then (capacity_check GateNetworkInventory (us_network_units u) (dm_network_units d)
            (ucast (cp_network_units p))) (\<lambda>network_units.
        and_then (capacity_check GateProcessLimit (us_processes u) 1
            (ucast (pi_processes (cp_process p)))) (\<lambda>processes.
        and_then (capacity_check GateDescriptorLimit (us_descriptors u) (dm_descriptors d)
            (ucast (pi_descriptors (cp_process p)))) (\<lambda>descriptors.
        and_then (capacity_check GateOperatorSafetyLimit (us_residents u) 1
            (ucast (ol_resident_instances limits))) (\<lambda>residents.
        and_then (capacity_check GateConcurrentLaunches (us_launches u) 1
            (ucast (ol_concurrent_launches limits))) (\<lambda>launches.
        and_then (capacity_check GateRunnableVcpus (us_runnable_vcpus u) (dm_runnable_vcpus d)
            (ucast (ol_runnable_vcpus limits))) (\<lambda>runnable_vcpus.
        and_then (capacity_check GateDirtyMemory (us_dirty_bytes u) (dm_dirty_bytes d)
            (ol_dirty_memory_bytes limits)) (\<lambda>dirty_bytes.
        and_then (capacity_check GateCleanupSlots (us_cleanups u) 0
            (ucast (ol_cleanup_slots limits))) (\<lambda>_.
        Inr (u\<lparr>us_vcpus_by_class := census, us_cpu_milli_units := committed,
               us_guaranteed_bytes := saturating_add (us_guaranteed_bytes u) (dm_guaranteed_bytes d),
               us_elastic_bytes := elastic_bytes, us_storage_bytes := storage_bytes,
               us_network_units := network_units, us_processes := processes, us_descriptors := descriptors,
               us_residents := residents, us_launches := launches, us_runnable_vcpus := runnable_vcpus,
               us_dirty_bytes := dirty_bytes\<rparr>)))))))))))))))"

definition node_capacity :: "capacity_profile \<Rightarrow> u64 \<times> u64" where
  "node_capacity p =
     (let nodes = max (ucast (ci_numa_nodes (cp_cpu p))) 1 in
      (saturating_mul (ucast (admissible_cpu_units p)) 1000 div nodes, admissible_memory_bytes p div nodes))"

record node_free =
  nf_node :: u32
  nf_cpu_milli_units :: u64
  nf_memory_bytes :: u64

definition node_or_zero :: "u64 list \<Rightarrow> nat \<Rightarrow> u64" where
  "node_or_zero xs i = (if i < length xs then xs ! i else 0)"

definition free_nodes :: "usage \<Rightarrow> capacity_profile \<Rightarrow> node_free list" where
  "free_nodes u p =
     (let (cpu_per_node, memory_per_node) = node_capacity p in
      map (\<lambda>node. \<lparr>nf_node = of_nat node,
           nf_cpu_milli_units = saturating_sub cpu_per_node (node_or_zero (us_node_cpu u) node),
           nf_memory_bytes = saturating_sub memory_per_node (node_or_zero (us_node_memory u) node)\<rparr>)
        [0..<unat (max (ci_numa_nodes (cp_cpu p)) 1)])"

record reservation =
  rv_id :: u64
  rv_node :: u32
  rv_demand :: demand
  rv_launching :: bool
  rv_cleanup :: bool

definition unwrap_or :: "'a \<Rightarrow> 'a option \<Rightarrow> 'a" where
  "unwrap_or x r = (case r of None \<Rightarrow> x | Some y \<Rightarrow> y)"

definition usage_subtract :: "reservation \<Rightarrow> capacity_profile \<Rightarrow> usage \<Rightarrow> usage" where
  "usage_subtract r p u =
     (let d = rv_demand r; workload = dm_workload d; node = unat (rv_node r);
          census = (us_vcpus_by_class u)(workload := saturating_sub (us_vcpus_by_class u workload) (dm_vcpus d));
          u = u\<lparr>us_vcpus_by_class := census,
                us_cpu_milli_units := unwrap_or 0 (census_milli_units census p),
                us_guaranteed_bytes := saturating_sub (us_guaranteed_bytes u) (dm_guaranteed_bytes d),
                us_elastic_bytes := saturating_sub (us_elastic_bytes u) (dm_elastic_bytes d),
                us_storage_bytes := saturating_sub (us_storage_bytes u) (dm_storage_bytes d),
                us_network_units := saturating_sub (us_network_units u) (dm_network_units d),
                us_processes := saturating_sub (us_processes u) 1,
                us_descriptors := saturating_sub (us_descriptors u) (dm_descriptors d),
                us_residents := saturating_sub (us_residents u) 1,
                us_launches := (if rv_launching r then saturating_sub (us_launches u) 1 else us_launches u),
                us_runnable_vcpus := saturating_sub (us_runnable_vcpus u) (dm_runnable_vcpus d),
                us_dirty_bytes := saturating_sub (us_dirty_bytes u) (dm_dirty_bytes d)\<rparr>;
          u = (if node < length (us_node_vcpus u) then
                 let census = (us_node_vcpus u ! node)
                       (workload := saturating_sub ((us_node_vcpus u ! node) workload) (dm_vcpus d)) in
                 u\<lparr>us_node_vcpus := (us_node_vcpus u)[node := census],
                   us_node_cpu := (us_node_cpu u)[node := unwrap_or 0 (census_milli_units census p)]\<rparr>
               else u) in
      u\<lparr>us_node_memory := (us_node_memory u)[node :=
          saturating_sub (us_node_memory u ! node) (saturating_add (dm_guaranteed_bytes d) (dm_elastic_bytes d))]\<rparr>)"

section \<open>Placement\<close>

record node_demand =
  nd_cpu_milli_units :: u64
  nd_memory_bytes :: u64

datatype numa_rejection = NoNodes | Fragmented u32 | MultiNodeUnsupported u32

type_synonym placement = "node_demand \<Rightarrow> node_free list \<Rightarrow> numa_rejection + u32"

definition single_node_place :: placement where
  "single_node_place d free =
     (let nodes = (if length free < 2 ^ 32 then of_nat (length free) else - 1) in
      case free of
        [] \<Rightarrow> Inl NoNodes
      | [only] \<Rightarrow>
          if nd_cpu_milli_units d \<le> nf_cpu_milli_units only \<and> nd_memory_bytes d \<le> nf_memory_bytes only
          then Inr (nf_node only) else Inl (Fragmented 1)
      | _ \<Rightarrow> Inl (MultiNodeUnsupported nodes))"

definition best_free :: "(node_free \<Rightarrow> u64) \<Rightarrow> node_free list \<Rightarrow> u64" where
  "best_free dimension free = foldr (\<lambda>n acc. max (dimension n) acc) free 0"

definition numa_refused :: "numa_rejection \<Rightarrow> node_free list \<Rightarrow> node_demand \<Rightarrow> u64 \<times> u64 \<Rightarrow> capacity_rejection" where
  "numa_refused rejection free d capacity =
     (let (requested, committed, limit) =
            (case rejection of
               Fragmented _ \<Rightarrow>
                 let free_cpu = best_free nf_cpu_milli_units free in
                 if free_cpu < nd_cpu_milli_units d
                 then (nd_cpu_milli_units d, saturating_sub (fst capacity) free_cpu, fst capacity)
                 else (nd_memory_bytes d, saturating_sub (snd capacity) (best_free nf_memory_bytes free), snd capacity)
             | NoNodes \<Rightarrow> (1, 0, 0)
             | MultiNodeUnsupported nodes \<Rightarrow> (ucast nodes, 0, 1)) in
      \<lparr>cr_gate = GateNumaFit, cr_requested = requested, cr_committed = committed, cr_limit = limit\<rparr>)"

section \<open>Admission\<close>

record admission =
  ad_profile :: capacity_profile
  ad_usage :: usage
  ad_next :: u64

definition usage_default :: usage where
  "usage_default =
     \<lparr>us_cpu_milli_units = 0, us_vcpus_by_class = (\<lambda>_. 0), us_guaranteed_bytes = 0, us_elastic_bytes = 0,
      us_storage_bytes = 0, us_network_units = 0, us_processes = 0, us_descriptors = 0, us_residents = 0,
      us_launches = 0, us_runnable_vcpus = 0, us_dirty_bytes = 0, us_cleanups = 0, us_node_cpu = [],
      us_node_vcpus = [], us_node_memory = []\<rparr>"

definition admission_new :: "capacity_profile \<Rightarrow> admission" where
  "admission_new p =
     (let nodes = unat (max (ci_numa_nodes (cp_cpu p)) 1) in
      \<lparr>ad_profile = p,
       ad_usage = usage_default\<lparr>us_node_cpu := replicate nodes 0, us_node_vcpus := replicate nodes (\<lambda>_. 0),
                                us_node_memory := replicate nodes 0\<rparr>,
       ad_next = 1\<rparr>)"

text \<open>What \<open>reserve\<close> writes into the candidate for the chosen node.\<close>

definition commit_node :: "demand \<Rightarrow> capacity_profile \<Rightarrow> nat \<Rightarrow> u64 \<Rightarrow> usage \<Rightarrow> usage" where
  "commit_node d p node memory u =
     (let u = (if node < length (us_node_vcpus u) then
                 let census = (us_node_vcpus u ! node)
                       (dm_workload d := saturating_add ((us_node_vcpus u ! node) (dm_workload d)) (dm_vcpus d)) in
                 u\<lparr>us_node_vcpus := (us_node_vcpus u)[node := census],
                   us_node_cpu := (us_node_cpu u)[node := unwrap_or (- 1) (census_milli_units census p)]\<rparr>
               else u) in
      u\<lparr>us_node_memory := (us_node_memory u)[node := saturating_add (us_node_memory u ! node) memory]\<rparr>)"

definition reserve :: "placement \<Rightarrow> machine_shape \<Rightarrow> admission \<Rightarrow> (capacity_rejection, reservation, admission) mut_result" where
  "reserve place shape a =
     (let p = ad_profile a; u = ad_usage a in
      try_then (demand_of p shape, a) (\<lambda>d a.
      try_then (usage_apply d p u, a) (\<lambda>candidate a.
      let marginal = saturating_sub (us_cpu_milli_units candidate) (us_cpu_milli_units u);
          free = free_nodes u p;
          memory = saturating_add (dm_guaranteed_bytes d) (dm_elastic_bytes d);
          wanted = \<lparr>nd_cpu_milli_units = marginal, nd_memory_bytes = memory\<rparr> in
      try_then (map_err (\<lambda>rejection. numa_refused rejection free wanted (node_capacity p)) (place wanted free), a) (\<lambda>node a.
      (Inr \<lparr>rv_id = ad_next a, rv_node = node, rv_demand = d, rv_launching = True, rv_cleanup = False\<rparr>,
       a\<lparr>ad_next := ad_next a + 1, ad_usage := commit_node d p (unat node) memory candidate\<rparr>)))))"

definition launched :: "reservation \<times> admission \<Rightarrow> reservation \<times> admission" where
  "launched = (\<lambda>(r, a).
     if rv_launching r
     then (r\<lparr>rv_launching := False\<rparr>,
           a\<lparr>ad_usage := (ad_usage a)\<lparr>us_launches := saturating_sub (us_launches (ad_usage a)) 1\<rparr>\<rparr>)
     else (r, a))"

definition begin_cleanup :: "reservation \<times> admission \<Rightarrow> (capacity_rejection, unit, reservation \<times> admission) mut_result" where
  "begin_cleanup = (\<lambda>(r, a).
     if rv_cleanup r then (Inr (), r, a)
     else
       try_then (capacity_check GateCleanupSlots (us_cleanups (ad_usage a)) 1
           (ucast (ol_cleanup_slots (cp_limits (ad_profile a)))), r, a) (\<lambda>cleanups (r, a).
       (Inr (), r\<lparr>rv_cleanup := True\<rparr>, a\<lparr>ad_usage := (ad_usage a)\<lparr>us_cleanups := cleanups\<rparr>\<rparr>)))"

definition admission_release :: "reservation \<Rightarrow> admission \<Rightarrow> admission" where
  "admission_release r a =
     (let u = usage_subtract r (ad_profile a) (ad_usage a) in
      a\<lparr>ad_usage := (if rv_cleanup r then u\<lparr>us_cleanups := saturating_sub (us_cleanups u) 1\<rparr> else u)\<rparr>)"

section \<open>The capacity equation\<close>

definition divide_count :: "u64 \<Rightarrow> u64 \<Rightarrow> u64" where
  "divide_count budget per_instance = (if per_instance = 0 then - 1 else budget div per_instance)"

record capacity_estimate =
  ce_cpu_strict :: u64
  ce_cpu_overcommitted :: u64
  ce_memory :: u64
  ce_storage :: u64
  ce_network :: u64
  ce_process :: u64
  ce_operator :: u64
  ce_runnable :: u64
  ce_dirty :: u64
  ce_launches :: u64
  ce_safe_count :: u64
  ce_binding :: capacity_gate

text \<open>\<open>Iterator::min_by_key\<close>: the first of the least.\<close>

fun min_by_count :: "(capacity_gate \<times> u64) list \<Rightarrow> (capacity_gate \<times> u64) option" where
  "min_by_count [] = None"
| "min_by_count (x # xs) =
     (case min_by_count xs of None \<Rightarrow> Some x | Some y \<Rightarrow> if snd x \<le> snd y then Some x else Some y)"

definition estimate :: "capacity_profile \<Rightarrow> machine_shape \<Rightarrow> capacity_rejection + capacity_estimate" where
  "estimate p shape =
     and_then (demand_of p shape) (\<lambda>d.
     let units = ucast (admissible_cpu_units p);
         ratio = overcommit_ratio (cp_overcommit p) (sh_workload shape);
         cpu_strict = divide_count units (ucast (sh_vcpus shape));
         cpu_overcommitted = divide_count (saturating_mul units (ucast (ra_vcpus ratio)))
           (saturating_mul (ucast (sh_vcpus shape)) (ucast (ra_threads ratio)));
         memory_cost = (case sh_memory_class shape of Guaranteed \<Rightarrow> dm_guaranteed_bytes d | Elastic _ \<Rightarrow> dm_elastic_bytes d);
         memory_budget = (case sh_memory_class shape of
             Guaranteed \<Rightarrow> admissible_memory_bytes p | Elastic _ \<Rightarrow> mi_elastic_budget_bytes (cp_memory p));
         memory = divide_count memory_budget memory_cost;
         storage = divide_count (cp_private_budget_bytes p) (dm_storage_bytes d);
         network = divide_count (ucast (cp_network_units p)) (dm_network_units d);
         process = min (ucast (pi_processes (cp_process p)))
           (divide_count (ucast (pi_descriptors (cp_process p))) (dm_descriptors d));
         operator = ucast (ol_resident_instances (cp_limits p));
         runnable = divide_count (ucast (ol_runnable_vcpus (cp_limits p))) (dm_runnable_vcpus d);
         dirty = divide_count (ol_dirty_memory_bytes (cp_limits p)) (dm_dirty_bytes d);
         launches = ucast (ol_concurrent_launches (cp_limits p));
         bounds = [(GateCpuUnits, cpu_overcommitted), (GateHostMemory, memory), (GatePrivateStorage, storage),
           (GateNetworkInventory, network), (GateProcessLimit, process), (GateOperatorSafetyLimit, operator),
           (GateRunnableVcpus, runnable), (GateDirtyMemory, dirty), (GateConcurrentLaunches, launches)];
         (binding, safe_count) = unwrap_or (GateArithmetic, 0) (min_by_count bounds) in
     Inr \<lparr>ce_cpu_strict = cpu_strict, ce_cpu_overcommitted = cpu_overcommitted, ce_memory = memory, ce_storage = storage,
          ce_network = network, ce_process = process, ce_operator = operator, ce_runnable = runnable, ce_dirty = dirty,
          ce_launches = launches, ce_safe_count = safe_count,
          ce_binding = (if (case sh_memory_class shape of Elastic _ \<Rightarrow> True | Guaranteed \<Rightarrow> False) \<and> binding = GateHostMemory
                        then GateElasticMemory else binding)\<rparr>)"

section \<open>The cost of a census\<close>

definition ratio_ok :: "cpu_ratio \<Rightarrow> bool" where
  "ratio_ok r \<longleftrightarrow> ra_vcpus r \<noteq> 0 \<and> ra_threads r \<noteq> 0"

definition ratios_ok :: "capacity_profile \<Rightarrow> bool" where
  "ratios_ok p \<longleftrightarrow> (\<forall>w. ratio_ok (overcommit_ratio (cp_overcommit p) w))"

definition class_scaled :: "nat \<Rightarrow> cpu_ratio \<Rightarrow> nat" where
  "class_scaled v r = v * 1000 * unat (ra_threads r) + (unat (ra_vcpus r) - 1)"

definition class_cost :: "nat \<Rightarrow> cpu_ratio \<Rightarrow> nat" where
  "class_cost v r = class_scaled v r div unat (ra_vcpus r)"

lemma profile_validate_iff:
  "profile_validate p = Inr q \<longleftrightarrow> q = p \<and> ratios_ok p \<and> ci_reserved_threads (cp_cpu p) < ci_hardware_threads (cp_cpu p) \<and>
     mi_reserved_bytes (cp_memory p) < mi_total_bytes (cp_memory p) \<and> ci_numa_nodes (cp_cpu p) \<noteq> 0 \<and>
     mi_elastic_budget_bytes (cp_memory p) \<le> admissible_memory_bytes p \<and>
     mo_bytes_per_instance (mi_overhead (cp_memory p)) \<noteq> 0"
proof -
  have "(\<forall>w. P w) \<longleftrightarrow> P ApiWaiting \<and> P Build \<and> P IdleInteractive" for P
    by (metis workload_class.exhaust)
  then show ?thesis
    by (auto simp: profile_validate_def ratios_ok_def ratio_ok_def overcommit_ratio_def not_le not_less)
qed

lemma class_scaled_mono: "v \<le> w \<Longrightarrow> class_scaled v r \<le> class_scaled w r"
  by (simp add: class_scaled_def)

lemma class_cost_mono: "v \<le> w \<Longrightarrow> class_cost v r \<le> class_cost w r"
  by (simp add: class_cost_def div_le_mono class_scaled_mono)

lemma class_cost_0 [simp]: "ratio_ok r \<Longrightarrow> class_cost 0 r = 0"
  by (simp add: class_cost_def class_scaled_def ratio_ok_def unat_gt_0)

lemma checked_mul_Some_iff:
  "checked_mul a b = Some c \<longleftrightarrow> unat a * unat b < 2 ^ LENGTH('a) \<and> c = a * b" for a :: "'a::len word"
  by (auto simp: checked_mul_def)

lemma class_milli_units_iff:
  assumes "ratio_ok r"
  shows "class_milli_units v r = Some x \<longleftrightarrow> class_scaled (unat v) r < 2 ^ 64 \<and> unat x = class_cost (unat v) r"
proof -
  let ?t = "unat (ra_threads r)" and ?d = "unat (ra_vcpus r)"
  have t: "0 < ?t" "0 < ?d" using assms by (simp_all add: ratio_ok_def unat_gt_0)
  have u: "unat (ucast (ra_threads r) :: u64) = ?t" "unat (ucast (ra_vcpus r) :: u64) = ?d"
    by (simp_all add: unat_ucast_up)
  have below: "checked_sub (ucast (ra_vcpus r) :: u64) 1 = Some (ucast (ra_vcpus r) - 1)"
    "unat (ucast (ra_vcpus r) - 1 :: u64) = ?d - 1"
    using t u by (auto simp: checked_sub_def word_le_nat_alt unat_sub)
  have first: "unat v * 1000 \<le> unat v * 1000 * ?t" using t by simp
  show ?thesis
  proof (cases "class_scaled (unat v) r < 2 ^ 64")
    case True
    then have lt: "unat v * 1000 < 2 ^ 64" "unat v * 1000 * ?t < 2 ^ 64"
      using first unfolding class_scaled_def by linarith+
    then have m: "unat (v * 1000) = unat v * 1000"
      using unat_mul_no_overflow[of v 1000] by simp
    with lt have m2: "unat (v * 1000 * ucast (ra_threads r)) = unat v * 1000 * ?t"
      using unat_mul_no_overflow[of "v * 1000" "ucast (ra_threads r)"] by (simp add: u)
    from m m2 have "class_milli_units v r =
        Some ((v * 1000 * ucast (ra_threads r) + (ucast (ra_vcpus r) - 1)) div ucast (ra_vcpus r))"
      using True lt by (simp add: class_milli_units_def checked_mul_def checked_add_def below u class_scaled_def Let_def)
    moreover have "unat ((v * 1000 * ucast (ra_threads r) + (ucast (ra_vcpus r) - 1)) div ucast (ra_vcpus r)) =
        class_cost (unat v) r"
      using True m2 by (simp add: class_cost_def class_scaled_def unat_div_distrib unat_add_no_overflow below u)
    ultimately show ?thesis using True by (auto simp: word_unat_eq_iff[of _ x])
  next
    case False
    have "unat (v * 1000 * ucast (ra_threads r)) = unat v * 1000 * ?t"
      if "unat v * 1000 < 2 ^ 64" "unat (v * 1000) * ?t < 2 ^ 64"
      using that by (simp add: unat_mul_no_overflow u)
    then have "class_milli_units v r \<noteq> Some x"
      using False by (auto simp: class_milli_units_def class_scaled_def checked_mul_def checked_add_def below u Let_def)
    with False show ?thesis by simp
  qed
qed

definition census_fits :: "census \<Rightarrow> capacity_profile \<Rightarrow> bool" where
  "census_fits c p \<longleftrightarrow> (\<forall>w. class_scaled (unat (c w)) (overcommit_ratio (cp_overcommit p) w) < 2 ^ 64)"

definition census_cost :: "census \<Rightarrow> capacity_profile \<Rightarrow> nat" where
  "census_cost c p = (\<Sum>w\<leftarrow>ALL_CLASSES. class_cost (unat (c w)) (overcommit_ratio (cp_overcommit p) w))"

lemma census_milli_units_iff:
  assumes "ratios_ok p"
  shows "census_milli_units c p = Some x \<longleftrightarrow> census_fits c p \<and> census_cost c p < 2 ^ 64 \<and> unat x = census_cost c p"
proof -
  let ?r = "overcommit_ratio (cp_overcommit p)"
  have ok: "ratio_ok (?r w)" for w using assms by (simp add: ratios_ok_def)
  have all: "(\<forall>w. P w) \<longleftrightarrow> P ApiWaiting \<and> P Build \<and> P IdleInteractive" for P by (metis workload_class.exhaust)
  have "census_milli_units c p = Some x \<longleftrightarrow> (\<exists>y1 y2 y3.
      class_milli_units (c ApiWaiting) (?r ApiWaiting) = Some y1 \<and> class_milli_units (c Build) (?r Build) = Some y2 \<and>
      class_milli_units (c IdleInteractive) (?r IdleInteractive) = Some y3 \<and>
      unat y1 + unat y2 < 2 ^ 64 \<and> unat (y1 + y2) + unat y3 < 2 ^ 64 \<and> x = y1 + y2 + y3)"
    by (auto simp: census_milli_units_def bind_eq_Some_conv checked_add_Some_iff)
  also have "\<dots> \<longleftrightarrow> census_fits c p \<and> census_cost c p < 2 ^ 64 \<and> unat x = census_cost c p" (is "?L \<longleftrightarrow> ?R")
  proof
    assume ?L then show ?R
      by (auto simp: class_milli_units_iff[OF ok] census_fits_def census_cost_def all unat_add_no_overflow)
  next
    assume r: ?R
    define cost where "cost w = class_cost (unat (c w)) (?r w)" for w
    have lt: "cost w < 2 ^ 64" for w
      using r by (cases w) (auto simp: census_cost_def cost_def)
    then have u: "unat (of_nat (cost w) :: u64) = cost w" for w by (simp add: unat_of_nat)
    then have "class_milli_units (c w) (?r w) = Some (of_nat (cost w))" for w
      using r by (simp add: class_milli_units_iff[OF ok] census_fits_def cost_def)
    moreover have "unat (of_nat (cost ApiWaiting) + of_nat (cost Build) :: u64) = cost ApiWaiting + cost Build"
      using r u by (simp add: census_cost_def cost_def unat_add_no_overflow)
    moreover have "x = of_nat (cost ApiWaiting) + of_nat (cost Build) + of_nat (cost IdleInteractive)"
    proof -
      have "x = of_nat (unat x)" by simp
      also have "unat x = cost ApiWaiting + cost Build + cost IdleInteractive"
        using r by (simp add: census_cost_def cost_def)
      finally show ?thesis by simp
    qed
    ultimately show ?L using r u by (auto simp: census_cost_def cost_def)
  qed
  finally show ?thesis .
qed

lemma census_cost_mono: "(\<And>w. unat (c w) \<le> unat (c' w)) \<Longrightarrow> census_cost c p \<le> census_cost c' p"
  by (simp add: census_cost_def add_mono class_cost_mono)

lemma census_mono:
  assumes "ratios_ok p" "census_milli_units c' p = Some y" "\<And>w. unat (c w) \<le> unat (c' w)"
  obtains x where "census_milli_units c p = Some x" "unat x \<le> unat y"
proof -
  have le: "census_cost c p \<le> census_cost c' p" using assms(3) by (rule census_cost_mono)
  have y: "census_fits c' p" "census_cost c' p < 2 ^ 64" "unat y = census_cost c' p"
    using assms(1,2) by (simp_all add: census_milli_units_iff)
  have "census_fits c p"
    using y(1) assms(3) class_scaled_mono by (fastforce simp: census_fits_def intro: le_less_trans)
  then have "census_milli_units c p = Some (of_nat (census_cost c p))"
    using le y assms(1) by (simp add: census_milli_units_iff unat_of_nat)
  with that le y show ?thesis by (simp add: unat_of_nat)
qed

lemma census_zero: "ratios_ok p \<Longrightarrow> census_milli_units (\<lambda>_. 0) p = Some 0"
proof -
  assume ok: "ratios_ok p"
  have "class_scaled 0 r < 2 ^ 64" for r
    using unat_u32_less[of "ra_vcpus r"] by (simp add: class_scaled_def)
  then show ?thesis using ok by (simp add: census_milli_units_iff census_fits_def census_cost_def ratios_ok_def)
qed

section \<open>The gates\<close>

abbreviation cpu_limit :: "capacity_profile \<Rightarrow> u64" where
  "cpu_limit p \<equiv> saturating_mul (ucast (admissible_cpu_units p)) 1000"

definition fits :: "demand \<Rightarrow> capacity_profile \<Rightarrow> usage \<Rightarrow> bool" where
  "fits d p u \<longleftrightarrow>
     unat (us_vcpus_by_class u (dm_workload d)) + unat (dm_vcpus d) < 2 ^ 64 \<and>
     (\<exists>x. census_milli_units ((us_vcpus_by_class u)(dm_workload d := us_vcpus_by_class u (dm_workload d) + dm_vcpus d)) p = Some x \<and>
        x \<le> cpu_limit p) \<and>
     unat (saturating_add (us_guaranteed_bytes u) (us_elastic_bytes u)) +
       unat (saturating_add (dm_guaranteed_bytes d) (dm_elastic_bytes d)) \<le> unat (admissible_memory_bytes p) \<and>
     unat (us_elastic_bytes u) + unat (dm_elastic_bytes d) \<le> unat (mi_elastic_budget_bytes (cp_memory p)) \<and>
     unat (us_storage_bytes u) + unat (dm_storage_bytes d) \<le> unat (cp_private_budget_bytes p) \<and>
     unat (us_network_units u) + unat (dm_network_units d) \<le> unat (cp_network_units p) \<and>
     Suc (unat (us_processes u)) \<le> unat (pi_processes (cp_process p)) \<and>
     unat (us_descriptors u) + unat (dm_descriptors d) \<le> unat (pi_descriptors (cp_process p)) \<and>
     Suc (unat (us_residents u)) \<le> unat (ol_resident_instances (cp_limits p)) \<and>
     Suc (unat (us_launches u)) \<le> unat (ol_concurrent_launches (cp_limits p)) \<and>
     unat (us_runnable_vcpus u) + unat (dm_runnable_vcpus d) \<le> unat (ol_runnable_vcpus (cp_limits p)) \<and>
     unat (us_dirty_bytes u) + unat (dm_dirty_bytes d) \<le> unat (ol_dirty_memory_bytes (cp_limits p)) \<and>
     unat (us_cleanups u) \<le> unat (ol_cleanup_slots (cp_limits p))"

definition applied :: "demand \<Rightarrow> capacity_profile \<Rightarrow> usage \<Rightarrow> usage" where
  "applied d p u =
     (let census = (us_vcpus_by_class u)(dm_workload d := us_vcpus_by_class u (dm_workload d) + dm_vcpus d) in
      u\<lparr>us_vcpus_by_class := census, us_cpu_milli_units := the (census_milli_units census p),
        us_guaranteed_bytes := saturating_add (us_guaranteed_bytes u) (dm_guaranteed_bytes d),
        us_elastic_bytes := us_elastic_bytes u + dm_elastic_bytes d,
        us_storage_bytes := us_storage_bytes u + dm_storage_bytes d,
        us_network_units := us_network_units u + dm_network_units d, us_processes := us_processes u + 1,
        us_descriptors := us_descriptors u + dm_descriptors d, us_residents := us_residents u + 1,
        us_launches := us_launches u + 1, us_runnable_vcpus := us_runnable_vcpus u + dm_runnable_vcpus d,
        us_dirty_bytes := us_dirty_bytes u + dm_dirty_bytes d\<rparr>)"

lemma capacity_check_iff:
  "capacity_check g c r l = Inr t \<longleftrightarrow> unat c + unat r \<le> unat l \<and> t = c + r"
proof (cases "unat c + unat r < 2 ^ 64")
  case True
  then have "unat (c + r) = unat c + unat r" by (simp add: unat_add_no_overflow)
  with True show ?thesis by (auto simp: capacity_check_def Let_def checked_add_def word_less_nat_alt)
next
  case False
  with unat_u64_less[of l] show ?thesis by (simp add: capacity_check_def Let_def checked_add_def)
qed

lemma and_then_check_iff:
  "and_then (capacity_check g c r l) f = Inr y \<longleftrightarrow> unat c + unat r \<le> unat l \<and> f (c + r) = Inr y"
  by (auto simp: and_then_Inr_iff capacity_check_iff)

lemma and_then_checked_add_iff:
  "and_then (ok_or e (checked_add a b)) f = Inr y \<longleftrightarrow> unat a + unat b < 2 ^ LENGTH('a) \<and> f (a + b) = Inr y"
  for a :: "'a::len word"
  by (auto simp: and_then_Inr_iff checked_add_Some_iff)

lemma if_Inl_iff: "(if b then Inl e else x) = Inr y \<longleftrightarrow> \<not> b \<and> x = Inr y"
  by simp

lemma unat_ucast_u32 [simp]: "unat (ucast (x :: u32) :: u64) = unat x"
  by (simp add: unat_ucast_up)

lemma usage_apply_iff: "usage_apply d p u = Inr u' \<longleftrightarrow> fits d p u \<and> u' = applied d p u"
proof (cases "census_milli_units ((us_vcpus_by_class u)(dm_workload d := us_vcpus_by_class u (dm_workload d) + dm_vcpus d)) p")
  case None
  then show ?thesis
    by (simp add: usage_apply_def fits_def Let_def and_then_checked_add_iff)
next
  case (Some x)
  show ?thesis
    unfolding usage_apply_def fits_def applied_def Let_def and_then_checked_add_iff Some
      ok_or_simps and_then_simps if_Inl_iff and_then_check_iff
    by (simp add: not_less eq_commute[of u'])
qed

lemma reserve_iff:
  "reserve place shape a = (Inr r, a') \<longleftrightarrow> (\<exists>d node.
     demand_of (ad_profile a) shape = Inr d \<and> fits d (ad_profile a) (ad_usage a) \<and>
     place \<lparr>nd_cpu_milli_units = saturating_sub (us_cpu_milli_units (applied d (ad_profile a) (ad_usage a))) (us_cpu_milli_units (ad_usage a)),
            nd_memory_bytes = saturating_add (dm_guaranteed_bytes d) (dm_elastic_bytes d)\<rparr>
       (free_nodes (ad_usage a) (ad_profile a)) = Inr node \<and>
     r = \<lparr>rv_id = ad_next a, rv_node = node, rv_demand = d, rv_launching = True, rv_cleanup = False\<rparr> \<and>
     a' = a\<lparr>ad_next := ad_next a + 1,
            ad_usage := commit_node d (ad_profile a) (unat node)
              (saturating_add (dm_guaranteed_bytes d) (dm_elastic_bytes d)) (applied d (ad_profile a) (ad_usage a))\<rparr>)"
  by (auto simp: reserve_def Let_def try_then_Inr_iff usage_apply_iff)

lemma reserve_refused: "reserve place shape a = (Inl e, a') \<Longrightarrow> a' = a"
  by (auto simp: reserve_def Let_def try_then_Inl_iff)

text \<open>A demand draws on one of the two memory classes only.\<close>

lemma demand_of_memory:
  "demand_of p shape = Inr d \<Longrightarrow> dm_guaranteed_bytes d = 0 \<or> dm_elastic_bytes d = 0"
  by (auto simp: demand_of_def Let_def and_then_Inr_iff split: memory_class.splits)

section \<open>Accounting\<close>

definition vcpus_of :: "workload_class \<Rightarrow> reservation \<Rightarrow> nat" where
  "vcpus_of w r = (if dm_workload (rv_demand r) = w then unat (dm_vcpus (rv_demand r)) else 0)"

definition memory_of :: "reservation \<Rightarrow> nat" where
  "memory_of r = unat (dm_guaranteed_bytes (rv_demand r)) + unat (dm_elastic_bytes (rv_demand r))"

definition drawn :: "(demand \<Rightarrow> u64) \<Rightarrow> reservation list \<Rightarrow> nat" where
  "drawn f held = (\<Sum>r\<leftarrow>held. unat (f (rv_demand r)))"

text \<open>The usage is, in every dimension, the sum over the outstanding reservations.\<close>

definition accounts :: "capacity_profile \<Rightarrow> usage \<Rightarrow> reservation list \<Rightarrow> bool" where
  "accounts p u held \<longleftrightarrow>
     (\<forall>w. unat (us_vcpus_by_class u w) = (\<Sum>r\<leftarrow>held. vcpus_of w r)) \<and>
     census_milli_units (us_vcpus_by_class u) p = Some (us_cpu_milli_units u) \<and>
     unat (us_guaranteed_bytes u) = drawn dm_guaranteed_bytes held \<and>
     unat (us_elastic_bytes u) = drawn dm_elastic_bytes held \<and>
     unat (us_storage_bytes u) = drawn dm_storage_bytes held \<and>
     unat (us_network_units u) = drawn dm_network_units held \<and>
     unat (us_processes u) = length held \<and>
     unat (us_descriptors u) = drawn dm_descriptors held \<and>
     unat (us_residents u) = length held \<and>
     unat (us_launches u) = length (filter rv_launching held) \<and>
     unat (us_runnable_vcpus u) = drawn dm_runnable_vcpus held \<and>
     unat (us_dirty_bytes u) = drawn dm_dirty_bytes held \<and>
     unat (us_cleanups u) = length (filter rv_cleanup held)"

text \<open>The usage is within every limit of the profile.\<close>

definition within_limits :: "capacity_profile \<Rightarrow> usage \<Rightarrow> bool" where
  "within_limits p u \<longleftrightarrow>
     us_cpu_milli_units u \<le> cpu_limit p \<and>
     unat (us_guaranteed_bytes u) + unat (us_elastic_bytes u) \<le> unat (admissible_memory_bytes p) \<and>
     us_elastic_bytes u \<le> mi_elastic_budget_bytes (cp_memory p) \<and>
     us_storage_bytes u \<le> cp_private_budget_bytes p \<and>
     us_network_units u \<le> ucast (cp_network_units p) \<and>
     us_processes u \<le> ucast (pi_processes (cp_process p)) \<and>
     us_descriptors u \<le> ucast (pi_descriptors (cp_process p)) \<and>
     us_residents u \<le> ucast (ol_resident_instances (cp_limits p)) \<and>
     us_launches u \<le> ucast (ol_concurrent_launches (cp_limits p)) \<and>
     us_runnable_vcpus u \<le> ucast (ol_runnable_vcpus (cp_limits p)) \<and>
     us_dirty_bytes u \<le> ol_dirty_memory_bytes (cp_limits p) \<and>
     us_cleanups u \<le> ucast (ol_cleanup_slots (cp_limits p))"

definition at_node :: "nat \<Rightarrow> reservation list \<Rightarrow> reservation list" where
  "at_node n held = filter (\<lambda>r. unat (rv_node r) = n) held"

definition node_accounts :: "capacity_profile \<Rightarrow> usage \<Rightarrow> reservation list \<Rightarrow> bool" where
  "node_accounts p u held \<longleftrightarrow>
     length (us_node_cpu u) = unat (max (ci_numa_nodes (cp_cpu p)) 1) \<and>
     length (us_node_vcpus u) = length (us_node_cpu u) \<and> length (us_node_memory u) = length (us_node_cpu u) \<and>
     (\<forall>n < length (us_node_cpu u).
        (\<forall>w. unat ((us_node_vcpus u ! n) w) = (\<Sum>r\<leftarrow>at_node n held. vcpus_of w r)) \<and>
        census_milli_units (us_node_vcpus u ! n) p = Some (us_node_cpu u ! n) \<and>
        unat (us_node_memory u ! n) = (\<Sum>r\<leftarrow>at_node n held. memory_of r) \<and>
        us_node_memory u ! n \<le> snd (node_capacity p))"

lemma drawn_simps [simp]:
  "drawn f [] = 0" "drawn f (r # held) = unat (f (rv_demand r)) + drawn f held" "drawn f (xs @ ys) = drawn f xs + drawn f ys"
  by (simp_all add: drawn_def)

lemma at_node_simps [simp]:
  "at_node n [] = []" "at_node n (r # held) = (if unat (rv_node r) = n then r # at_node n held else at_node n held)"
  "at_node n (xs @ ys) = at_node n xs @ at_node n ys"
  by (simp_all add: at_node_def)

lemma at_node_le: "(\<Sum>r\<leftarrow>at_node n held. f r) \<le> (\<Sum>r\<leftarrow>held. f r :: nat)"
  by (induction held) auto

lemma memory_of_sum: "(\<Sum>r\<leftarrow>held. memory_of r) = drawn dm_guaranteed_bytes held + drawn dm_elastic_bytes held"
  by (induction held) (simp_all add: memory_of_def)

lemma unat_add_le64:
  fixes a b l :: u64
  assumes "unat a + unat b \<le> unat l"
  shows "unat (a + b) = unat a + unat b"
  using assms unat_u64_less[of l] by (intro unat_add_no_overflow) simp

lemma unat_add_le32:
  fixes a b :: u64 and l :: u32
  assumes "unat a + unat b \<le> unat l"
  shows "unat (a + b) = unat a + unat b"
  using assms unat_u32_less[of l] by (intro unat_add_no_overflow) simp

lemma unat_inc_le32:
  fixes a :: u64 and l :: u32
  assumes "Suc (unat a) \<le> unat l"
  shows "unat (a + 1) = Suc (unat a)"
  using unat_add_le32[of a 1 l] assms by simp

lemma unat_saturating_le:
  fixes a b :: u64
  assumes "unat a + unat b < 2 ^ 64"
  shows "unat (saturating_add a b) = unat a + unat b"
  using assms by (simp add: unat_saturating_add)

lemmas unat_le_simps = unat_add_le64 unat_add_le32 unat_inc_le32

text \<open>What the demand of an admitted shape adds to the memory of the host.\<close>

lemma fits_memory:
  assumes "fits d p u" "within_limits p u" "dm_guaranteed_bytes d = 0 \<or> dm_elastic_bytes d = 0"
  shows "unat (saturating_add (us_guaranteed_bytes u) (dm_guaranteed_bytes d)) =
      unat (us_guaranteed_bytes u) + unat (dm_guaranteed_bytes d)"
    and "unat (saturating_add (dm_guaranteed_bytes d) (dm_elastic_bytes d)) =
      unat (dm_guaranteed_bytes d) + unat (dm_elastic_bytes d)"
    and "unat (us_guaranteed_bytes u) + unat (dm_guaranteed_bytes d) +
      (unat (us_elastic_bytes u) + unat (dm_elastic_bytes d)) \<le> unat (admissible_memory_bytes p)"
proof -
  have lim: "unat (admissible_memory_bytes p) < 2 ^ 64" using unat_u64_less[of "admissible_memory_bytes p"] by simp
  have now: "unat (saturating_add (us_guaranteed_bytes u) (us_elastic_bytes u)) =
      unat (us_guaranteed_bytes u) + unat (us_elastic_bytes u)"
    using assms(2) lim by (intro unat_saturating_le) (simp add: within_limits_def)
  show d: "unat (saturating_add (dm_guaranteed_bytes d) (dm_elastic_bytes d)) =
      unat (dm_guaranteed_bytes d) + unat (dm_elastic_bytes d)"
    using assms(3) unat_u64_less[of "dm_guaranteed_bytes d"] unat_u64_less[of "dm_elastic_bytes d"]
    by (intro unat_saturating_le) auto
  show sum: "unat (us_guaranteed_bytes u) + unat (dm_guaranteed_bytes d) +
      (unat (us_elastic_bytes u) + unat (dm_elastic_bytes d)) \<le> unat (admissible_memory_bytes p)"
    using assms(1) now d unfolding fits_def by linarith
  show "unat (saturating_add (us_guaranteed_bytes u) (dm_guaranteed_bytes d)) =
      unat (us_guaranteed_bytes u) + unat (dm_guaranteed_bytes d)"
    using sum lim by (intro unat_saturating_le) linarith
qed

lemma applied_accounts:
  assumes "accounts p u held" "within_limits p u" "fits (rv_demand r) p u" "rv_launching r" "\<not> rv_cleanup r"
    and "dm_guaranteed_bytes (rv_demand r) = 0 \<or> dm_elastic_bytes (rv_demand r) = 0"
  shows "accounts p (applied (rv_demand r) p u) (r # held)" "within_limits p (applied (rv_demand r) p u)"
proof -
  note mem = fits_memory[OF assms(3,2,6)]
  have v: "unat (us_vcpus_by_class u (dm_workload (rv_demand r)) + dm_vcpus (rv_demand r)) =
      unat (us_vcpus_by_class u (dm_workload (rv_demand r))) + unat (dm_vcpus (rv_demand r))"
    using assms(3) by (simp add: fits_def unat_add_no_overflow)
  then have w: "unat (us_vcpus_by_class (applied (rv_demand r) p u) w) = unat (us_vcpus_by_class u w) + vcpus_of w r" for w
    by (auto simp: applied_def Let_def vcpus_of_def)
  show "accounts p (applied (rv_demand r) p u) (r # held)"
    unfolding accounts_def
  proof (intro conjI allI)
    show "unat (us_vcpus_by_class (applied (rv_demand r) p u) w) = (\<Sum>r\<leftarrow>r # held. vcpus_of w r)" for w
      using w assms(1) by (simp add: accounts_def)
  qed (use assms mem in \<open>auto simp: accounts_def fits_def applied_def Let_def unat_le_simps\<close>)
  show "within_limits p (applied (rv_demand r) p u)"
    using assms(2,3) mem
    by (auto simp: within_limits_def fits_def applied_def Let_def unat_le_simps word_le_nat_alt)
qed

lemma commit_node_accounts [simp]:
  "accounts p (commit_node d q n m u) held = accounts p u held" "within_limits p (commit_node d q n m u) = within_limits p u"
  by (simp_all add: accounts_def within_limits_def commit_node_def Let_def)

text \<open>What is booked on a node is part of what is booked on the host, so nothing saturates there.\<close>

lemma node_part_vcpus:
  assumes "accounts p u held"
  shows "(\<Sum>r\<leftarrow>at_node n held. vcpus_of w r) \<le> unat (us_vcpus_by_class u w)"
  using assms at_node_le[of "vcpus_of w" n held] by (simp add: accounts_def)

lemma node_part_memory:
  assumes "accounts p u held" "within_limits p u"
  shows "(\<Sum>r\<leftarrow>at_node n held. memory_of r) < 2 ^ 64"
proof -
  have "(\<Sum>r\<leftarrow>at_node n held. memory_of r) \<le> unat (us_guaranteed_bytes u) + unat (us_elastic_bytes u)"
    using assms(1) at_node_le[of memory_of n held] by (simp add: accounts_def memory_of_sum)
  also have "\<dots> \<le> unat (admissible_memory_bytes p)" using assms(2) by (simp add: within_limits_def)
  also have "\<dots> < 2 ^ 64" using unat_u64_less[of "admissible_memory_bytes p"] by simp
  finally show ?thesis .
qed

lemma node_census:
  assumes "ratios_ok p" "accounts p u held" "\<And>w. unat (c w) = (\<Sum>r\<leftarrow>at_node n held. vcpus_of w r)"
  shows "census_milli_units c p = Some (unwrap_or x (census_milli_units c p))"
proof -
  have "census_milli_units (us_vcpus_by_class u) p = Some (us_cpu_milli_units u)"
    using assms(2) by (simp add: accounts_def)
  from census_mono[OF assms(1) this, of c] obtain y where "census_milli_units c p = Some y"
    using node_part_vcpus[OF assms(2)] assms(3) by metis
  then show ?thesis by (simp add: unwrap_or_def)
qed

lemma commit_node_node_accounts:
  assumes ok: "ratios_ok p" and node: "node_accounts p u held" "unat (rv_node r) < length (us_node_cpu u)"
    and acc: "accounts p u (r # held)" "within_limits p u"
    and m: "unat m = memory_of r" "m \<le> saturating_sub (snd (node_capacity p)) (us_node_memory u ! unat (rv_node r))"
  shows "node_accounts p (commit_node (rv_demand r) p (unat (rv_node r)) m u) (r # held)"
proof -
  let ?n = "unat (rv_node r)" and ?w = "dm_workload (rv_demand r)"
  let ?u = "commit_node (rv_demand r) p ?n m u"
  define c where "c = (us_node_vcpus u ! ?n)(?w := saturating_add ((us_node_vcpus u ! ?n) ?w) (dm_vcpus (rv_demand r)))"
  have len: "length (us_node_vcpus u) = length (us_node_cpu u)" "length (us_node_memory u) = length (us_node_cpu u)"
    using node(1) by (simp_all add: node_accounts_def)
  have old: "unat ((us_node_vcpus u ! ?n) w) = (\<Sum>r\<leftarrow>at_node ?n held. vcpus_of w r)"
    "unat (us_node_memory u ! ?n) = (\<Sum>r\<leftarrow>at_node ?n held. memory_of r)"
    "us_node_memory u ! ?n \<le> snd (node_capacity p)" for w
    using node by (simp_all add: node_accounts_def)
  have c: "unat (c w) = (\<Sum>r\<leftarrow>at_node ?n (r # held). vcpus_of w r)" for w
  proof -
    have "(\<Sum>r\<leftarrow>at_node ?n (r # held). vcpus_of w r) < 2 ^ 64"
      using node_part_vcpus[OF acc(1), where n="?n" and w=w] unat_u64_less[of "us_vcpus_by_class u w"] by simp
    then show ?thesis using old(1)[of w]
      by (auto simp: c_def vcpus_of_def unat_saturating_le)
  qed
  have mem: "unat (saturating_add (us_node_memory u ! ?n) m) = (\<Sum>r\<leftarrow>at_node ?n (r # held). memory_of r)"
    using node_part_memory[OF acc, of ?n] old(2) m(1) by (simp add: unat_saturating_le)
  moreover have "unat (saturating_add (us_node_memory u ! ?n) m) \<le> unat (snd (node_capacity p))"
    using mem old(2,3) m by (simp add: word_le_nat_alt unat_saturating_sub)
  ultimately show ?thesis
    using node c node_census[OF ok acc(1) c, of "- 1"] len
    by (auto simp: node_accounts_def commit_node_def Let_def nth_list_update word_le_nat_alt simp flip: c_def)
qed

section \<open>Placement policies\<close>

locale numa_placement =
  fixes place :: placement
  assumes place_fits: "place d free = Inr n \<Longrightarrow> \<exists>f \<in> set free. nf_node f = n \<and>
    nd_cpu_milli_units d \<le> nf_cpu_milli_units f \<and> nd_memory_bytes d \<le> nf_memory_bytes f"
begin

lemma place_node:
  assumes "place d (free_nodes u p) = Inr n" "node_accounts p u held"
  shows "unat n < length (us_node_cpu u)"
    and "nd_memory_bytes d \<le> saturating_sub (snd (node_capacity p)) (us_node_memory u ! unat n)"
proof -
  obtain k where k: "k < unat (max (ci_numa_nodes (cp_cpu p)) 1)" "n = of_nat k"
      "nd_memory_bytes d \<le> saturating_sub (snd (node_capacity p)) (node_or_zero (us_node_memory u) k)"
    using place_fits[OF assms(1)] by (auto simp: free_nodes_def case_prod_unfold Let_def)
  moreover have "unat n = k"
    using k(1,2) unat_u32_less[of "max (ci_numa_nodes (cp_cpu p)) 1"] by (simp add: unat_of_nat)
  ultimately show "unat n < length (us_node_cpu u)"
    "nd_memory_bytes d \<le> saturating_sub (snd (node_capacity p)) (us_node_memory u ! unat n)"
    using assms(2) by (simp_all add: node_accounts_def node_or_zero_def)
qed

end

interpretation single_node: numa_placement single_node_place
  by unfold_locales (auto simp: single_node_place_def Let_def split: list.splits if_splits)

section \<open>Releasing\<close>

lemma unwrap_or_Some [simp]: "unwrap_or x (Some y) = y"
  by (simp add: unwrap_or_def)

lemma released_census:
  assumes "ratios_ok p" "accounts p u (xs @ r # ys)"
    and c: "c = (us_vcpus_by_class u)(dm_workload (rv_demand r) :=
      saturating_sub (us_vcpus_by_class u (dm_workload (rv_demand r))) (dm_vcpus (rv_demand r)))"
  obtains x where "census_milli_units c p = Some x" "unat x \<le> unat (us_cpu_milli_units u)"
    "\<And>w. unat (c w) = (\<Sum>r\<leftarrow>xs @ ys. vcpus_of w r)"
proof -
  have v: "unat (c w) = (\<Sum>r\<leftarrow>xs @ ys. vcpus_of w r)" for w
    using assms(2) by (auto simp: c accounts_def unat_saturating_sub vcpus_of_def)
  have "census_milli_units (us_vcpus_by_class u) p = Some (us_cpu_milli_units u)"
    using assms(2) by (simp add: accounts_def)
  then show thesis
    using census_mono[OF assms(1), of "us_vcpus_by_class u" _ c] v that assms(2)
    by (auto simp: c unat_saturating_sub accounts_def)
qed

lemma release_accounts:
  assumes "ratios_ok (ad_profile a)" "accounts (ad_profile a) (ad_usage a) (xs @ r # ys)" "within_limits (ad_profile a) (ad_usage a)"
  shows "accounts (ad_profile a) (ad_usage (admission_release r a)) (xs @ ys)"
    "within_limits (ad_profile a) (ad_usage (admission_release r a))"
proof -
  define c where "c = (us_vcpus_by_class (ad_usage a))(dm_workload (rv_demand r) :=
      saturating_sub (us_vcpus_by_class (ad_usage a) (dm_workload (rv_demand r))) (dm_vcpus (rv_demand r)))"
  obtain x where x: "census_milli_units c (ad_profile a) = Some x" "unat x \<le> unat (us_cpu_milli_units (ad_usage a))"
    "\<And>w. unat (c w) = (\<Sum>r\<leftarrow>xs @ ys. vcpus_of w r)"
    using released_census[OF assms(1,2) c_def] by blast
  let ?u = "ad_usage (admission_release r a)"
  have fields: "us_vcpus_by_class ?u = c" "us_cpu_milli_units ?u = x"
    using x(1) by (simp_all add: admission_release_def usage_subtract_def Let_def flip: c_def)
  show "accounts (ad_profile a) ?u (xs @ ys)"
    unfolding accounts_def fields using x(1,3) assms(2)
    by (simp add: admission_release_def usage_subtract_def Let_def accounts_def unat_saturating_sub)
  show "within_limits (ad_profile a) ?u"
    unfolding within_limits_def fields using x(2) assms(3)
    by (auto simp: admission_release_def usage_subtract_def Let_def within_limits_def unat_saturating_sub word_le_nat_alt)
qed

lemma release_node_accounts:
  assumes ok: "ratios_ok (ad_profile a)" and node: "node_accounts (ad_profile a) (ad_usage a) (xs @ r # ys)"
    and acc: "accounts (ad_profile a) (ad_usage a) (xs @ r # ys)" "within_limits (ad_profile a) (ad_usage a)"
  shows "node_accounts (ad_profile a) (ad_usage (admission_release r a)) (xs @ ys)"
proof -
  let ?u = "ad_usage a" and ?n = "unat (rv_node r)" and ?w = "dm_workload (rv_demand r)"
  define c where "c = (us_node_vcpus ?u ! ?n)(?w := saturating_sub ((us_node_vcpus ?u ! ?n) ?w) (dm_vcpus (rv_demand r)))"
  note acc' = release_accounts[OF ok acc]
  have len: "length (us_node_vcpus ?u) = length (us_node_cpu ?u)" "length (us_node_memory ?u) = length (us_node_cpu ?u)"
    using node by (simp_all add: node_accounts_def)
  have c: "unat (c w) = (\<Sum>r\<leftarrow>at_node ?n (xs @ ys). vcpus_of w r)" if "?n < length (us_node_cpu ?u)" for w
    using node that by (auto simp: node_accounts_def c_def unat_saturating_sub vcpus_of_def)
  have "unat (saturating_add (dm_guaranteed_bytes (rv_demand r)) (dm_elastic_bytes (rv_demand r))) = memory_of r"
  proof -
    have "memory_of r \<le> (\<Sum>r\<leftarrow>xs @ r # ys. memory_of r)" by simp
    also have "\<dots> \<le> unat (admissible_memory_bytes (ad_profile a))"
      using acc by (simp only: memory_of_sum) (simp add: accounts_def within_limits_def)
    finally show ?thesis
      using unat_u64_less[of "admissible_memory_bytes (ad_profile a)"]
      by (simp add: memory_of_def unat_saturating_le)
  qed
  then show ?thesis
    using node c node_census[OF ok acc'(1) c, of 0] len
    by (auto simp: node_accounts_def admission_release_def usage_subtract_def Let_def nth_list_update
        word_le_nat_alt unat_saturating_sub simp flip: c_def)
qed

section \<open>Runs\<close>

text \<open>
  What the pools of a host do with its admission, in the order in which they take the mutex. A
  reservation is consumed by its release, so the outstanding ones are a list from which it is removed.
\<close>

inductive admission_step :: "placement \<Rightarrow> admission \<times> reservation list \<Rightarrow> admission \<times> reservation list \<Rightarrow> bool"
  for place :: placement where
  step_reserve: "reserve place shape a = (Inr r, a') \<Longrightarrow> admission_step place (a, held) (a', r # held)"
| step_refused: "reserve place shape a = (Inl e, a') \<Longrightarrow> admission_step place (a, held) (a', held)"
| step_launched: "launched (r, a) = (r', a') \<Longrightarrow> admission_step place (a, xs @ r # ys) (a', xs @ r' # ys)"
| step_cleanup: "begin_cleanup (r, a) = (res, r', a') \<Longrightarrow> admission_step place (a, xs @ r # ys) (a', xs @ r' # ys)"
| step_release: "admission_step place (a, xs @ r # ys) (admission_release r a, xs @ ys)"

definition admission_inv :: "admission \<times> reservation list \<Rightarrow> bool" where
  "admission_inv = (\<lambda>(a, held). ratios_ok (ad_profile a) \<and> accounts (ad_profile a) (ad_usage a) held \<and>
     within_limits (ad_profile a) (ad_usage a) \<and> node_accounts (ad_profile a) (ad_usage a) held)"

lemma new_inv:
  assumes "profile_validate p = Inr q"
  shows "admission_inv (admission_new q, [])"
proof -
  have "ratios_ok p" "q = p" using assms by (simp_all add: profile_validate_iff)
  then show ?thesis
    by (auto simp: admission_inv_def admission_new_def usage_default_def Let_def accounts_def within_limits_def
        node_accounts_def census_zero)
qed

lemma inv_cong:
  assumes "admission_inv (a, xs @ r # ys)" "rv_node r' = rv_node r" "rv_demand r' = rv_demand r"
    and "a' = a\<lparr>ad_usage := (ad_usage a)\<lparr>us_launches := l, us_cleanups := c\<rparr>\<rparr>"
    and "unat l = length (filter rv_launching (xs @ r' # ys))" "unat l \<le> unat (us_launches (ad_usage a))"
    and "unat c = length (filter rv_cleanup (xs @ r' # ys))" "unat c \<le> unat (ol_cleanup_slots (cp_limits (ad_profile a)))"
  shows "admission_inv (a', xs @ r' # ys)"
proof -
  have same: "vcpus_of w r' = vcpus_of w r" "memory_of r' = memory_of r" for w
    using assms(3) by (simp_all add: vcpus_of_def memory_of_def)
  have inv: "accounts (ad_profile a) (ad_usage a) (xs @ r # ys)" "within_limits (ad_profile a) (ad_usage a)"
    "node_accounts (ad_profile a) (ad_usage a) (xs @ r # ys)" "ratios_ok (ad_profile a)"
    using assms(1) by (simp_all add: admission_inv_def)
  have "accounts (ad_profile a) (ad_usage a') (xs @ r' # ys)"
    using inv(1) assms(3,5,7) unfolding accounts_def by (simp add: assms(4) same)
  moreover have "within_limits (ad_profile a) (ad_usage a')"
    using inv(2) assms(6,8) unfolding within_limits_def by (simp add: assms(4) word_le_nat_alt)
  moreover have "node_accounts (ad_profile a) (ad_usage a') (xs @ r' # ys)"
    using inv(3) assms(2) unfolding node_accounts_def by (simp add: assms(4) same)
  ultimately show ?thesis using inv(4) by (simp add: admission_inv_def assms(4))
qed

lemma inv_counts:
  assumes "admission_inv (a, held)"
  shows "unat (us_launches (ad_usage a)) = length (filter rv_launching held)"
    "unat (us_cleanups (ad_usage a)) = length (filter rv_cleanup held)"
    "unat (us_cleanups (ad_usage a)) \<le> unat (ol_cleanup_slots (cp_limits (ad_profile a)))"
  using assms by (simp_all add: admission_inv_def accounts_def within_limits_def word_le_nat_alt)

lemma launched_inv:
  assumes "admission_inv (a, xs @ r # ys)" "launched (r, a) = (r', a')"
  shows "admission_inv (a', xs @ r' # ys)"
proof (cases "rv_launching r")
  case True
  then have "r' = r\<lparr>rv_launching := False\<rparr>" "a' = a\<lparr>ad_usage := (ad_usage a)
      \<lparr>us_launches := saturating_sub (us_launches (ad_usage a)) 1, us_cleanups := us_cleanups (ad_usage a)\<rparr>\<rparr>"
    using assms(2) by (simp_all add: launched_def)
  with inv_counts[OF assms(1)] True show ?thesis
    by (intro inv_cong[OF assms(1)]) (auto simp: unat_saturating_sub)
qed (use assms in \<open>simp add: launched_def\<close>)

lemma cleanup_inv:
  assumes "admission_inv (a, xs @ r # ys)" "begin_cleanup (r, a) = (res, r', a')"
  shows "admission_inv (a', xs @ r' # ys)"
proof (cases "rv_cleanup r \<or> (\<exists>e. res = Inl e)")
  case True
  then show ?thesis using assms by (auto simp: begin_cleanup_def try_then_Inl_iff split: if_splits)
next
  case False
  then have r: "\<not> rv_cleanup r" "res = Inr ()" by (cases res; simp)+
  then have c: "Suc (unat (us_cleanups (ad_usage a))) \<le> unat (ol_cleanup_slots (cp_limits (ad_profile a)))"
    and "r' = r\<lparr>rv_cleanup := True\<rparr>" "a' = a\<lparr>ad_usage := (ad_usage a)
      \<lparr>us_launches := us_launches (ad_usage a), us_cleanups := us_cleanups (ad_usage a) + 1\<rparr>\<rparr>"
    using assms(2) by (auto simp: begin_cleanup_def try_then_Inr_iff capacity_check_iff)
  with inv_counts[OF assms(1)] r(1) unat_inc_le32[OF c] show ?thesis
    by (intro inv_cong[OF assms(1)]) auto
qed

lemma release_inv:
  assumes "admission_inv (a, xs @ r # ys)"
  shows "admission_inv (admission_release r a, xs @ ys)"
proof -
  have "ad_profile (admission_release r a) = ad_profile a" by (simp add: admission_release_def Let_def)
  then show ?thesis
    using assms release_accounts[of a xs r ys] release_node_accounts[of a xs r ys] by (simp add: admission_inv_def)
qed

context numa_placement
begin

lemma reserve_inv:
  assumes "admission_inv (a, held)" "reserve place shape a = (Inr r, a')"
  shows "admission_inv (a', r # held)"
proof -
  let ?p = "ad_profile a" and ?u = "ad_usage a"
  obtain d node where d: "demand_of ?p shape = Inr d" "fits d ?p ?u"
      "place \<lparr>nd_cpu_milli_units = saturating_sub (us_cpu_milli_units (applied d ?p ?u)) (us_cpu_milli_units ?u),
            nd_memory_bytes = saturating_add (dm_guaranteed_bytes d) (dm_elastic_bytes d)\<rparr> (free_nodes ?u ?p) = Inr node"
      "r = \<lparr>rv_id = ad_next a, rv_node = node, rv_demand = d, rv_launching = True, rv_cleanup = False\<rparr>"
      "a' = a\<lparr>ad_next := ad_next a + 1, ad_usage := commit_node d ?p (unat node)
          (saturating_add (dm_guaranteed_bytes d) (dm_elastic_bytes d)) (applied d ?p ?u)\<rparr>"
    using assms(2) unfolding reserve_iff by blast
  have inv: "ratios_ok ?p" "accounts ?p ?u held" "within_limits ?p ?u" "node_accounts ?p ?u held"
    using assms(1) by (simp_all add: admission_inv_def)
  have r: "rv_demand r = d" "rv_node r = node" "rv_launching r" "\<not> rv_cleanup r" by (simp_all add: d(4))
  note one = demand_of_memory[OF d(1)]
  have acc: "accounts ?p (applied d ?p ?u) (r # held)" "within_limits ?p (applied d ?p ?u)"
    using applied_accounts[of ?p ?u held r] inv d(2) one r by simp_all
  have same: "us_node_cpu (applied d ?p ?u) = us_node_cpu ?u" "us_node_vcpus (applied d ?p ?u) = us_node_vcpus ?u"
    "us_node_memory (applied d ?p ?u) = us_node_memory ?u" by (simp_all add: applied_def Let_def)
  then have node: "node_accounts ?p (applied d ?p ?u) held" using inv(4) by (simp add: node_accounts_def)
  have "node_accounts ?p (commit_node d ?p (unat node) (saturating_add (dm_guaranteed_bytes d) (dm_elastic_bytes d))
      (applied d ?p ?u)) (r # held)"
    using commit_node_node_accounts[OF inv(1) node _ acc] place_node[OF d(3) inv(4)] fits_memory(2)[OF d(2) inv(3) one] r same
    by (simp add: memory_of_def)
  with inv(1) acc show ?thesis by (simp add: admission_inv_def d(5))
qed

lemma step_inv:
  assumes "admission_step place s t" "admission_inv s"
  shows "admission_inv t"
  using assms
proof (induction rule: admission_step.induct)
  case (step_reserve shape a r a' held)
  then show ?case by (rule reserve_inv[rotated])
next
  case (step_refused shape a e a' held)
  then show ?case using reserve_refused by blast
next
  case (step_launched r a r' a' xs ys)
  then show ?case by (rule launched_inv[rotated])
next
  case (step_cleanup r a res r' a' xs ys)
  then show ?case by (rule cleanup_inv[rotated])
next
  case (step_release a xs r ys)
  then show ?case by (rule release_inv)
qed

lemma reach_inv: "(admission_step place)\<^sup>*\<^sup>* s t \<Longrightarrow> admission_inv s \<Longrightarrow> admission_inv t"
  by (induction rule: rtranclp_induct) (auto intro: step_inv)

end

lemma reserve_profile: "reserve place shape a = (res, a') \<Longrightarrow> ad_profile a' = ad_profile a"
  by (cases res) (auto simp: reserve_iff dest: reserve_refused)

lemma launched_profile: "launched (r, a) = (r', a') \<Longrightarrow> ad_profile a' = ad_profile a"
  by (auto simp: launched_def split: if_splits)

lemma cleanup_profile:
  assumes "begin_cleanup (r, a) = (res, r', a')"
  shows "ad_profile a' = ad_profile a"
proof (cases res)
  case (Inl e)
  with assms show ?thesis by (auto simp: begin_cleanup_def try_then_Inl_iff split: if_splits)
next
  case (Inr x)
  with assms show ?thesis by (auto simp: begin_cleanup_def try_then_Inr_iff split: if_splits)
qed

lemma release_profile: "ad_profile (admission_release r a) = ad_profile a"
  by (simp add: admission_release_def Let_def)

lemma step_profile: "admission_step place s t \<Longrightarrow> ad_profile (fst t) = ad_profile (fst s)"
  by (induction rule: admission_step.induct)
     (simp_all add: reserve_profile launched_profile cleanup_profile release_profile)

lemma reach_profile: "(admission_step place)\<^sup>*\<^sup>* s t \<Longrightarrow> ad_profile (fst t) = ad_profile (fst s)"
  by (induction rule: rtranclp_induct) (auto simp: step_profile)

text \<open>With nothing outstanding the usage is the initial one.\<close>

lemma accounts_empty:
  assumes "accounts p u []" "node_accounts p u []" "ratios_ok p"
  shows "u = ad_usage (admission_new p)"
proof -
  let ?k = "unat (max (ci_numa_nodes (cp_cpu p)) 1)"
  have z: "x = 0" if "unat x = 0" for x :: u64 using that by (simp add: unat_eq_0)
  have "us_vcpus_by_class u = (\<lambda>_. 0)" using assms(1) by (auto simp: accounts_def z)
  moreover from this have "us_cpu_milli_units u = 0" using assms(1,3) by (simp add: accounts_def census_zero)
  moreover have lens: "length (us_node_cpu u) = ?k" "length (us_node_vcpus u) = ?k" "length (us_node_memory u) = ?k"
    using assms(2) by (simp_all add: node_accounts_def)
  moreover have v: "us_node_vcpus u ! n = (\<lambda>_. 0)" "us_node_memory u ! n = 0" if "n < ?k" for n
    using assms(2) that lens by (auto simp: node_accounts_def z)
  moreover have "us_node_cpu u ! n = 0" if "n < ?k" for n
    using assms(2,3) that lens v(1)[OF that] by (auto simp: node_accounts_def census_zero)
  ultimately have "us_node_vcpus u = replicate ?k (\<lambda>_. 0)" "us_node_memory u = replicate ?k 0" "us_node_cpu u = replicate ?k 0"
    by (auto intro!: nth_equalityI)
  then show ?thesis
    using \<open>us_vcpus_by_class u = (\<lambda>_. 0)\<close> \<open>us_cpu_milli_units u = 0\<close> assms(1)
    by (cases u) (simp add: accounts_def admission_new_def usage_default_def Let_def unat_eq_0)
qed

section \<open>The estimate\<close>

lemma min_by_count_iff:
  "min_by_count xs = Some m \<Longrightarrow> n \<le> unat (snd m) \<longleftrightarrow> (\<forall>x \<in> set xs. n \<le> unat (snd x))"
proof (induction xs arbitrary: m)
  case (Cons x xs)
  then show ?case by (cases "min_by_count xs"; cases xs) (auto simp: word_le_nat_alt split: if_splits option.splits)
qed simp

lemma le_divide_count_iff:
  assumes "n < 2 ^ 64"
  shows "n \<le> unat (divide_count b c) \<longleftrightarrow> n * unat c \<le> unat b"
proof (cases "c = 0")
  case True
  with assms show ?thesis by (simp add: divide_count_def unsigned_minus_1_eq_mask mask_eq_exp_minus_1)
next
  case False
  then have "0 < unat c" by (simp add: unat_gt_0)
  with False show ?thesis by (simp add: divide_count_def unat_div_distrib less_eq_div_iff_mult_less_eq)
qed

definition memory_cost :: "machine_shape \<Rightarrow> demand \<Rightarrow> nat" where
  "memory_cost shape d = (case sh_memory_class shape of Guaranteed \<Rightarrow> unat (dm_guaranteed_bytes d) | Elastic _ \<Rightarrow> unat (dm_elastic_bytes d))"

definition memory_budget :: "capacity_profile \<Rightarrow> machine_shape \<Rightarrow> nat" where
  "memory_budget p shape = (case sh_memory_class shape of
     Guaranteed \<Rightarrow> unat (admissible_memory_bytes p) | Elastic _ \<Rightarrow> unat (mi_elastic_budget_bytes (cp_memory p)))"

lemma unat_mul_u32: "unat (saturating_mul (ucast (a :: u32)) (ucast (b :: u32)) :: u64) = unat a * unat b"
proof -
  have "unat a * unat b \<le> (2 ^ 32 - 1) * (2 ^ 32 - 1)"
    using unat_u32_less[of a] unat_u32_less[of b] by (intro mult_mono) auto
  then have "unat (ucast a :: u64) * unat (ucast b :: u64) < 2 ^ 64" by simp
  then show ?thesis by (simp add: saturating_mul_def unat_mul_no_overflow)
qed

text \<open>What the estimate takes the least of, and what it means for \<open>n\<close> Instances to be within all of it.\<close>

definition estimate_bounds :: "capacity_profile \<Rightarrow> machine_shape \<Rightarrow> demand \<Rightarrow> (capacity_gate \<times> u64) list" where
  "estimate_bounds p shape d =
     (let ratio = overcommit_ratio (cp_overcommit p) (sh_workload shape) in
      [(GateCpuUnits, divide_count (saturating_mul (ucast (admissible_cpu_units p)) (ucast (ra_vcpus ratio)))
          (saturating_mul (ucast (sh_vcpus shape)) (ucast (ra_threads ratio)))),
       (GateHostMemory, divide_count (case sh_memory_class shape of
            Guaranteed \<Rightarrow> admissible_memory_bytes p | Elastic _ \<Rightarrow> mi_elastic_budget_bytes (cp_memory p))
          (case sh_memory_class shape of Guaranteed \<Rightarrow> dm_guaranteed_bytes d | Elastic _ \<Rightarrow> dm_elastic_bytes d)),
       (GatePrivateStorage, divide_count (cp_private_budget_bytes p) (dm_storage_bytes d)),
       (GateNetworkInventory, divide_count (ucast (cp_network_units p)) (dm_network_units d)),
       (GateProcessLimit, min (ucast (pi_processes (cp_process p)))
          (divide_count (ucast (pi_descriptors (cp_process p))) (dm_descriptors d))),
       (GateOperatorSafetyLimit, ucast (ol_resident_instances (cp_limits p))),
       (GateRunnableVcpus, divide_count (ucast (ol_runnable_vcpus (cp_limits p))) (dm_runnable_vcpus d)),
       (GateDirtyMemory, divide_count (ol_dirty_memory_bytes (cp_limits p)) (dm_dirty_bytes d)),
       (GateConcurrentLaunches, ucast (ol_concurrent_launches (cp_limits p)))])"

definition room_for :: "nat \<Rightarrow> capacity_profile \<Rightarrow> machine_shape \<Rightarrow> demand \<Rightarrow> bool" where
  "room_for n p shape d \<longleftrightarrow>
     (let ratio = overcommit_ratio (cp_overcommit p) (sh_workload shape) in
      n * (unat (sh_vcpus shape) * unat (ra_threads ratio)) \<le> unat (admissible_cpu_units p) * unat (ra_vcpus ratio)) \<and>
     n * memory_cost shape d \<le> memory_budget p shape \<and>
     n * unat (dm_storage_bytes d) \<le> unat (cp_private_budget_bytes p) \<and>
     n * unat (dm_network_units d) \<le> unat (cp_network_units p) \<and>
     n \<le> unat (pi_processes (cp_process p)) \<and> n * unat (dm_descriptors d) \<le> unat (pi_descriptors (cp_process p)) \<and>
     n \<le> unat (ol_resident_instances (cp_limits p)) \<and>
     n * unat (dm_runnable_vcpus d) \<le> unat (ol_runnable_vcpus (cp_limits p)) \<and>
     n * unat (dm_dirty_bytes d) \<le> unat (ol_dirty_memory_bytes (cp_limits p)) \<and>
     n \<le> unat (ol_concurrent_launches (cp_limits p))"

lemma estimate_safe:
  assumes "estimate p shape = Inr e"
  obtains d m where "demand_of p shape = Inr d" "min_by_count (estimate_bounds p shape d) = Some m" "ce_safe_count e = snd m"
proof -
  obtain d where d: "demand_of p shape = Inr d" using assms by (auto simp: estimate_def and_then_Inr_iff)
  have "\<exists>m. min_by_count (x # xs) = Some m" for x xs by (cases "min_by_count xs") auto
  then obtain m where m: "min_by_count (estimate_bounds p shape d) = Some m"
    unfolding estimate_bounds_def Let_def by blast
  then have "ce_safe_count e = snd m"
    using assms
    by (auto simp: estimate_def estimate_bounds_def and_then_Inr_iff d Let_def case_prod_unfold simp del: min_by_count.simps)
  with that d m show thesis by blast
qed

lemma bounds_iff:
  assumes "n < 2 ^ 64"
  shows "(\<forall>x \<in> set (estimate_bounds p shape d). n \<le> unat (snd x)) \<longleftrightarrow> room_for n p shape d"
proof -
  have "n \<le> unat (min a b) \<longleftrightarrow> n \<le> unat a \<and> n \<le> unat b" for a b :: u64
    by (auto simp: min_def word_le_nat_alt)
  then show ?thesis
    by (cases "sh_memory_class shape")
       (simp_all add: estimate_bounds_def room_for_def Let_def le_divide_count_iff[OF assms] unat_mul_u32
          memory_cost_def memory_budget_def conj_assoc)
qed

lemma estimate_iff:
  assumes "estimate p shape = Inr e"
  obtains d where "demand_of p shape = Inr d" "\<And>n. n < 2 ^ 64 \<Longrightarrow> n \<le> unat (ce_safe_count e) \<longleftrightarrow> room_for n p shape d"
proof -
  obtain d m where "demand_of p shape = Inr d" "min_by_count (estimate_bounds p shape d) = Some m" "ce_safe_count e = snd m"
    by (rule estimate_safe[OF assms])
  with that show thesis using min_by_count_iff bounds_iff by metis
qed

text \<open>Repeated reservations of one shape, none of whose Launches finish.\<close>

primrec reserve_all :: "placement \<Rightarrow> machine_shape \<Rightarrow> nat \<Rightarrow> admission \<Rightarrow> admission option" where
  "reserve_all place shape 0 a = Some a"
| "reserve_all place shape (Suc n) a =
     (case reserve place shape a of (Inr _, a') \<Rightarrow> reserve_all place shape n a' | (Inl _, _) \<Rightarrow> None)"

definition uniform :: "demand \<Rightarrow> reservation list \<Rightarrow> bool" where
  "uniform d held \<longleftrightarrow> (\<forall>r \<in> set held. rv_demand r = d \<and> rv_node r = 0 \<and> rv_launching r \<and> \<not> rv_cleanup r)"

lemma uniform_sums:
  assumes "uniform d held"
  shows "drawn f held = length held * unat (f d)"
    "(\<Sum>r\<leftarrow>held. vcpus_of w r) = (if dm_workload d = w then length held * unat (dm_vcpus d) else 0)"
    "filter rv_launching held = held" "filter rv_cleanup held = []" "at_node 0 held = held"
  using assms by (induction held) (auto simp: uniform_def vcpus_of_def)

lemma ceiling_le_iff: "0 < d \<Longrightarrow> (x + (d - 1)) div d \<le> y \<longleftrightarrow> x \<le> y * d" for x d y :: nat
proof -
  assume d: "0 < d"
  have "(x + (d - 1)) div d \<le> y \<longleftrightarrow> x + (d - 1) < Suc y * d"
    using d by (simp add: less_Suc_eq_le[symmetric] div_less_iff_less_mult)
  also have "\<dots> \<longleftrightarrow> x \<le> y * d" using d by auto
  finally show ?thesis .
qed

lemma demand_of_fields:
  assumes "demand_of p shape = Inr d"
  shows "dm_vcpus d = ucast (sh_vcpus shape)" "dm_workload d = sh_workload shape"
    "sh_memory_class shape = Guaranteed \<Longrightarrow> dm_elastic_bytes d = 0"
    "sh_memory_class shape = Elastic b \<Longrightarrow> dm_guaranteed_bytes d = 0"
  using assms by (auto simp: demand_of_def Let_def and_then_Inr_iff split: memory_class.splits)

lemma unat_cpu_limit: "unat (cpu_limit p) = unat (admissible_cpu_units p) * 1000"
proof -
  have "unat (ucast (admissible_cpu_units p) :: u64) * unat (1000 :: u64) < 2 ^ 64"
    using unat_u32_less[of "admissible_cpu_units p"] by simp
  then show ?thesis by (simp add: saturating_mul_def unat_mul_no_overflow)
qed

lemma census_single:
  assumes "ratios_ok p" "\<And>x. x \<noteq> w \<Longrightarrow> c x = 0"
  shows "census_cost c p = class_cost (unat (c w)) (overcommit_ratio (cp_overcommit p) w)"
    and "census_fits c p \<longleftrightarrow> class_scaled (unat (c w)) (overcommit_ratio (cp_overcommit p) w) < 2 ^ 64"
proof -
  have zero: "class_cost (unat (c x)) (overcommit_ratio (cp_overcommit p) x) = 0" if "x \<noteq> w" for x
    using assms that by (simp add: ratios_ok_def)
  show "census_cost c p = class_cost (unat (c w)) (overcommit_ratio (cp_overcommit p) w)"
    using zero by (cases w) (auto simp: census_cost_def)
  have "class_scaled (unat (c x)) r < 2 ^ 64" if "x \<noteq> w" for x r
    using assms(2)[OF that] unat_u32_less[of "ra_vcpus r"] by (simp add: class_scaled_def)
  then show "census_fits c p \<longleftrightarrow> class_scaled (unat (c w)) (overcommit_ratio (cp_overcommit p) w) < 2 ^ 64"
    unfolding census_fits_def by metis
qed

text \<open>The CPU gate for \<open>n\<close> Instances of one class, when the scaled limit fits the arithmetic.\<close>

lemma cpu_gate_iff:
  fixes v :: u64
  assumes ok: "ratios_ok p" and r: "r = overcommit_ratio (cp_overcommit p) w"
    and room: "unat (admissible_cpu_units p) * 1000 * unat (ra_vcpus r) + unat (ra_vcpus r) \<le> 2 ^ 64"
    and c: "unat (c w) = k * unat v" "\<And>x. x \<noteq> w \<Longrightarrow> c x = 0"
  shows "unat (c w) + unat v < 2 ^ 64 \<and> (\<exists>x. census_milli_units (c(w := c w + v)) p = Some x \<and> x \<le> cpu_limit p) \<longleftrightarrow>
    Suc k * (unat v * unat (ra_threads r)) \<le> unat (admissible_cpu_units p) * unat (ra_vcpus r)"
proof -
  let ?t = "unat (ra_threads r)" and ?d = "unat (ra_vcpus r)" and ?U = "unat (admissible_cpu_units p)"
  let ?n = "Suc k * unat v"
  have pos: "0 < ?t" "0 < ?d" using ok r by (simp_all add: ratios_ok_def ratio_ok_def unat_gt_0)
  have cost: "class_cost ?n r \<le> ?U * 1000 \<longleftrightarrow> ?n * ?t \<le> ?U * ?d"
  proof -
    have "class_cost ?n r \<le> ?U * 1000 \<longleftrightarrow> ?n * 1000 * ?t \<le> ?U * 1000 * ?d"
      unfolding class_cost_def class_scaled_def by (rule ceiling_le_iff[OF pos(2)])
    also have "\<dots> \<longleftrightarrow> 1000 * (?n * ?t) \<le> 1000 * (?U * ?d)" by (simp add: algebra_simps)
    finally show ?thesis by simp
  qed
  have bound: "class_scaled ?n r < 2 ^ 64 \<and> ?n < 2 ^ 64 \<and> ?U * 1000 < 2 ^ 64" if "?n * ?t \<le> ?U * ?d"
  proof -
    have "?n * 1000 * ?t = 1000 * (?n * ?t)" by simp
    also have "\<dots> \<le> 1000 * (?U * ?d)" using that by simp
    finally have le: "class_scaled ?n r \<le> ?U * 1000 * ?d + (?d - 1)" by (simp add: class_scaled_def)
    have "?n \<le> ?n * 1000 * ?t"
      using mult_le_mono2[of 1 "1000 * ?t" ?n] pos(1) by (simp add: mult.assoc del: mult_Suc)
    then have n: "?n \<le> class_scaled ?n r" unfolding class_scaled_def by (rule trans_le_add1)
    have "?U * 1000 * ?d + (?d - 1) < 2 ^ 64" using room pos(2) by linarith
    with le have "class_scaled ?n r < 2 ^ 64" by (rule le_less_trans)
    with n unat_cpu_limit[of p] unat_u64_less[of "cpu_limit p"] show ?thesis by simp
  qed
  have c': "unat ((c(w := c w + v)) w) = ?n" if "unat (c w) + unat v < 2 ^ 64"
    using that c(1) by (simp add: unat_add_no_overflow)
  note single = census_single[OF ok, of w "c(w := c w + v)", folded r]
  have "(\<exists>x. census_milli_units (c(w := c w + v)) p = Some x \<and> x \<le> cpu_limit p) \<longleftrightarrow> ?n * ?t \<le> ?U * ?d"
    if "unat (c w) + unat v < 2 ^ 64"
  proof -
    have "census_milli_units (c(w := c w + v)) p = Some x \<longleftrightarrow>
        class_scaled ?n r < 2 ^ 64 \<and> class_cost ?n r < 2 ^ 64 \<and> unat x = class_cost ?n r" for x
      using single c(2) c'[OF that] by (simp add: census_milli_units_iff[OF ok])
    moreover have "unat (of_nat (class_cost ?n r) :: u64) = class_cost ?n r" if "class_cost ?n r < 2 ^ 64"
      using that by (simp add: unat_of_nat)
    ultimately show ?thesis
      using cost bound unat_u64_less[of "cpu_limit p"] by (auto simp: word_le_nat_alt unat_cpu_limit)
  qed
  moreover have "unat (c w) + unat v < 2 ^ 64" if "?n * ?t \<le> ?U * ?d" using bound[OF that] c(1) by simp
  ultimately show ?thesis unfolding mult.assoc[symmetric] by blast
qed

lemma memory_gates_iff:
  assumes inv: "accounts p u held" "within_limits p u" and uni: "uniform d held"
    and d: "demand_of p shape = Inr d" and elastic: "mi_elastic_budget_bytes (cp_memory p) \<le> admissible_memory_bytes p"
  shows "unat (saturating_add (us_guaranteed_bytes u) (us_elastic_bytes u)) +
      unat (saturating_add (dm_guaranteed_bytes d) (dm_elastic_bytes d)) \<le> unat (admissible_memory_bytes p) \<and>
    unat (us_elastic_bytes u) + unat (dm_elastic_bytes d) \<le> unat (mi_elastic_budget_bytes (cp_memory p)) \<longleftrightarrow>
    Suc (length held) * memory_cost shape d \<le> memory_budget p shape"
proof -
  have u: "unat (us_guaranteed_bytes u) = length held * unat (dm_guaranteed_bytes d)"
    "unat (us_elastic_bytes u) = length held * unat (dm_elastic_bytes d)"
    using inv(1) uniform_sums(1)[OF uni] by (simp_all add: accounts_def)
  have "unat (us_guaranteed_bytes u) + unat (us_elastic_bytes u) < 2 ^ 64"
    using inv(2) unat_u64_less[of "admissible_memory_bytes p"] by (simp add: within_limits_def)
  then have "unat (saturating_add (us_guaranteed_bytes u) (us_elastic_bytes u)) =
      unat (us_guaranteed_bytes u) + unat (us_elastic_bytes u)" by (rule unat_saturating_le)
  moreover have "unat (saturating_add (dm_guaranteed_bytes d) (dm_elastic_bytes d)) =
      unat (dm_guaranteed_bytes d) + unat (dm_elastic_bytes d)"
    using demand_of_memory[OF d] unat_u64_less[of "dm_guaranteed_bytes d"] unat_u64_less[of "dm_elastic_bytes d"]
    by (intro unat_saturating_le) auto
  ultimately show ?thesis
    using demand_of_fields(3,4)[OF d] elastic
    by (cases "sh_memory_class shape") (auto simp: u memory_cost_def memory_budget_def word_le_nat_alt)
qed

lemma fits_uniform:
  assumes inv: "admission_inv (a, held)" and uni: "uniform d held" and p: "p = ad_profile a"
    and d: "demand_of p shape = Inr d" and elastic: "mi_elastic_budget_bytes (cp_memory p) \<le> admissible_memory_bytes p"
    and r: "r = overcommit_ratio (cp_overcommit p) (sh_workload shape)"
    and room: "unat (admissible_cpu_units p) * 1000 * unat (ra_vcpus r) + unat (ra_vcpus r) \<le> 2 ^ 64"
  shows "fits d p (ad_usage a) \<longleftrightarrow> room_for (Suc (length held)) p shape d"
proof -
  let ?u = "ad_usage a"
  have i: "ratios_ok p" "accounts p ?u held" "within_limits p ?u" using inv p by (simp_all add: admission_inv_def)
  note sums = uniform_sums[OF uni] and f = demand_of_fields[OF d]
  have "us_vcpus_by_class ?u x = 0" if "x \<noteq> sh_workload shape" for x
  proof -
    have "unat (us_vcpus_by_class ?u x) = 0" using i(2) sums(2) that f(2) by (auto simp: accounts_def)
    then show ?thesis by (simp add: unat_eq_0)
  qed
  moreover have "unat (us_vcpus_by_class ?u (sh_workload shape)) = length held * unat (dm_vcpus d)"
    using i(2) sums(2) f(2) by (simp add: accounts_def)
  ultimately have cpu: "unat (us_vcpus_by_class ?u (dm_workload d)) + unat (dm_vcpus d) < 2 ^ 64 \<and>
     (\<exists>x. census_milli_units ((us_vcpus_by_class ?u)(dm_workload d := us_vcpus_by_class ?u (dm_workload d) + dm_vcpus d)) p = Some x \<and>
        x \<le> cpu_limit p) \<longleftrightarrow>
    Suc (length held) * (unat (sh_vcpus shape) * unat (ra_threads r)) \<le> unat (admissible_cpu_units p) * unat (ra_vcpus r)"
    using cpu_gate_iff[OF i(1) r room, of "us_vcpus_by_class ?u" "length held" "dm_vcpus d"] f by simp
  have acc: "unat (us_storage_bytes ?u) = length held * unat (dm_storage_bytes d)"
    "unat (us_network_units ?u) = length held * unat (dm_network_units d)" "unat (us_processes ?u) = length held"
    "unat (us_descriptors ?u) = length held * unat (dm_descriptors d)" "unat (us_residents ?u) = length held"
    "unat (us_launches ?u) = length held" "unat (us_runnable_vcpus ?u) = length held * unat (dm_runnable_vcpus d)"
    "unat (us_dirty_bytes ?u) = length held * unat (dm_dirty_bytes d)" "unat (us_cleanups ?u) = 0"
    using i(2) sums by (simp_all add: accounts_def)
  show ?thesis
    unfolding fits_def room_for_def acc Let_def r[symmetric]
    using cpu memory_gates_iff[OF i(2,3) uni d elastic] by (simp add: add.commute) blast
qed

text \<open>With one node, what is booked there is what is booked on the host, so the node fits whenever the gates do.\<close>

lemma single_node_fits:
  assumes inv: "admission_inv (a, held)" and uni: "uniform d held" and p: "p = ad_profile a"
    and one: "ci_numa_nodes (cp_cpu p) = 1" and d: "demand_of p shape = Inr d" and fit: "fits d p (ad_usage a)"
  shows "\<exists>r a'. reserve single_node_place shape a = (Inr r, a') \<and> uniform d (r # held)"
proof -
  let ?u = "ad_usage a"
  have i: "ratios_ok p" "accounts p ?u held" "within_limits p ?u" "node_accounts p ?u held"
    using inv p by (simp_all add: admission_inv_def)
  have len: "0 < length (us_node_cpu ?u)" "0 < length (us_node_memory ?u)" using i(4) one by (simp_all add: node_accounts_def)
  have at0: "\<forall>w. unat ((us_node_vcpus ?u ! 0) w) = (\<Sum>r\<leftarrow>at_node 0 held. vcpus_of w r)"
    "census_milli_units (us_node_vcpus ?u ! 0) p = Some (us_node_cpu ?u ! 0)"
    "unat (us_node_memory ?u ! 0) = (\<Sum>r\<leftarrow>at_node 0 held. memory_of r)"
    using i(4) len(1) unfolding node_accounts_def by blast+
  have v: "us_node_vcpus ?u ! 0 = us_vcpus_by_class ?u"
    using i(2) at0(1) uniform_sums(5)[OF uni] by (auto simp: accounts_def word_unat_eq_iff)
  then have cpu: "us_node_cpu ?u ! 0 = us_cpu_milli_units ?u"
    using i(2) at0(2) by (simp add: accounts_def)
  have mem: "unat (us_node_memory ?u ! 0) = unat (us_guaranteed_bytes ?u) + unat (us_elastic_bytes ?u)"
    using i(2) at0(3) uniform_sums(5)[OF uni] by (simp add: accounts_def memory_of_sum)
  have free: "free_nodes ?u p = [\<lparr>nf_node = 0, nf_cpu_milli_units = saturating_sub (cpu_limit p) (us_cpu_milli_units ?u),
      nf_memory_bytes = saturating_sub (admissible_memory_bytes p) (us_node_memory ?u ! 0)\<rparr>]"
    using len by (simp add: free_nodes_def node_capacity_def one node_or_zero_def cpu)
  note one_zero = demand_of_memory[OF d]
  have acc: "within_limits p (applied d p ?u)"
    using applied_accounts(2)[of p ?u held "\<lparr>rv_id = 0, rv_node = 0, rv_demand = d, rv_launching = True, rv_cleanup = False\<rparr>"]
      i fit one_zero by simp
  have "saturating_sub (us_cpu_milli_units (applied d p ?u)) (us_cpu_milli_units ?u) \<le> saturating_sub (cpu_limit p) (us_cpu_milli_units ?u)"
    using acc by (auto simp: within_limits_def word_le_nat_alt unat_saturating_sub)
  moreover have "saturating_add (dm_guaranteed_bytes d) (dm_elastic_bytes d) \<le> saturating_sub (admissible_memory_bytes p) (us_node_memory ?u ! 0)"
    using fits_memory(2,3)[OF fit i(3) one_zero] mem by (simp add: word_le_nat_alt unat_saturating_sub)
  ultimately have "single_node_place \<lparr>nd_cpu_milli_units = saturating_sub (us_cpu_milli_units (applied d p ?u)) (us_cpu_milli_units ?u),
      nd_memory_bytes = saturating_add (dm_guaranteed_bytes d) (dm_elastic_bytes d)\<rparr> (free_nodes ?u p) = Inr 0"
    by (simp add: free single_node_place_def)
  with d fit p uni show ?thesis by (auto simp: reserve_iff uniform_def)
qed

lemma reserve_fits:
  assumes "reserve place shape a = (Inr r, a')"
  obtains d where "demand_of (ad_profile a) shape = Inr d" "fits d (ad_profile a) (ad_usage a)"
  using assms by (auto simp: reserve_iff)

lemma reserve_all_iff:
  assumes "admission_inv (a, held)" "uniform d held" "p = ad_profile a" "ci_numa_nodes (cp_cpu p) = 1"
    and d: "demand_of p shape = Inr d" and elastic: "mi_elastic_budget_bytes (cp_memory p) \<le> admissible_memory_bytes p"
    and r: "r = overcommit_ratio (cp_overcommit p) (sh_workload shape)"
    and room: "unat (admissible_cpu_units p) * 1000 * unat (ra_vcpus r) + unat (ra_vcpus r) \<le> 2 ^ 64"
  shows "reserve_all single_node_place shape n a \<noteq> None \<longleftrightarrow> (\<forall>k < n. room_for (Suc (length held + k)) p shape d)"
  using assms(1-3)
proof (induction n arbitrary: a held)
  case (Suc n)
  note fits = fits_uniform[OF Suc.prems(1,2,3) d elastic r room]
  have split: "(\<forall>k < Suc n. room_for (Suc (length held + k)) p shape d) \<longleftrightarrow>
      fits d p (ad_usage a) \<and> (\<forall>k < n. room_for (Suc (Suc (length held) + k)) p shape d)"
    using fits by (auto simp: less_Suc_eq_0_disj)
  show ?case
  proof (cases "fits d p (ad_usage a)")
    case True
    then obtain rv a' where rv: "reserve single_node_place shape a = (Inr rv, a')" "uniform d (rv # held)"
      using single_node_fits[OF Suc.prems(1-3) assms(4) d] by blast
    have "admission_inv (a', rv # held)" by (rule single_node.reserve_inv[OF Suc.prems(1) rv(1)])
    moreover have "p = ad_profile a'" using reserve_profile[OF rv(1)] Suc.prems(3) by simp
    ultimately show ?thesis using Suc.IH[of a' "rv # held"] rv True split by simp
  next
    case False
    then obtain e a' where "reserve single_node_place shape a = (Inl e, a')"
      using reserve_fits d Suc.prems(3) by (metis sum.exhaust surj_pair Inr_inject)
    with False split show ?thesis by simp
  qed
qed simp

lemma room_for_mono: "room_for n p shape d \<Longrightarrow> m \<le> n \<Longrightarrow> room_for m p shape d"
  unfolding room_for_def Let_def by (meson le_trans mult_le_mono1)

section \<open>Properties\<close>

text \<open>
  C12: Admission never overcommits and never leaks. Whatever the pools reserve, launch, clean up
  and release on a certified host, in whatever order and under any placement policy that keeps the
  trait's contract, the committed usage is in every dimension the sum over the outstanding
  reservations and within the limit of that dimension, what is booked on a node is the sum over
  the reservations placed there and within the node's memory, and once everything is released the
  usage is the initial one.
\<close>

theorem admission_accounts:
  assumes "numa_placement place" "profile_validate p = Inr q"
    and "(admission_step place)\<^sup>*\<^sup>* (admission_new q, []) (a, held)"
  shows "accounts q (ad_usage a) held \<and> within_limits q (ad_usage a) \<and> node_accounts q (ad_usage a) held \<and>
    (held = [] \<longrightarrow> ad_usage a = ad_usage (admission_new q))"
proof -
  have "ad_profile a = q" using reach_profile[OF assms(3)] by (simp add: admission_new_def Let_def)
  then have "ratios_ok q" "accounts q (ad_usage a) held" "within_limits q (ad_usage a)" "node_accounts q (ad_usage a) held"
    using numa_placement.reach_inv[OF assms(1,3) new_inv[OF assms(2)]] by (auto simp: admission_inv_def)
  then show ?thesis using accounts_empty by blast
qed

definition sample_profile :: capacity_profile where
  "sample_profile =
     \<lparr>cp_cpu = \<lparr>ci_hardware_threads = 8, ci_reserved_threads = 2, ci_numa_nodes = 1\<rparr>,
      cp_memory = \<lparr>mi_total_bytes = 100, mi_reserved_bytes = 20,
        mi_overhead = \<lparr>mo_bytes_per_instance = 4, mo_evidence = []\<rparr>, mi_elastic_budget_bytes = 40\<rparr>,
      cp_private_budget_bytes = 64, cp_network_units = 8, cp_process = \<lparr>pi_processes = 8, pi_descriptors = 64\<rparr>,
      cp_limits = \<lparr>ol_resident_instances = 8, ol_concurrent_launches = 8, ol_runnable_vcpus = 32,
        ol_dirty_memory_bytes = 70, ol_cleanup_slots = 2\<rparr>,
      cp_overcommit = \<lparr>oc_api_waiting = \<lparr>ra_vcpus = 4, ra_threads = 1\<rparr>, oc_build = \<lparr>ra_vcpus = 1, ra_threads = 1\<rparr>,
        oc_idle_interactive = \<lparr>ra_vcpus = 2, ra_threads = 1\<rparr>\<rparr>\<rparr>"

definition sample_shape :: machine_shape where
  "sample_shape = \<lparr>sh_vcpus = 3, sh_guest_memory_bytes = 12, sh_memory_class = Guaranteed, sh_private_storage_bytes = 4,
     sh_workload = ApiWaiting, sh_network_units = 1, sh_descriptors = 5\<rparr>"

lemma sample_profile_valid: "profile_validate sample_profile = Inr sample_profile"
  by code_simp

lemmas sample_defs = sample_profile_def sample_shape_def overcommit_ratio_def admissible_cpu_units_def admissible_memory_bytes_def
  saturating_sub_def

definition sample_demand :: demand where
  "sample_demand = \<lparr>dm_cpu_milli_units = 750, dm_vcpus = 3, dm_workload = ApiWaiting, dm_guaranteed_bytes = 16,
     dm_elastic_bytes = 0, dm_storage_bytes = 4, dm_network_units = 1, dm_descriptors = 5, dm_runnable_vcpus = 3, dm_dirty_bytes = 12\<rparr>"

lemma sample_demand_of: "demand_of sample_profile sample_shape = Inr sample_demand"
  by (simp add: demand_of_def sample_demand_def sample_defs class_milli_units_def checked_mul_def checked_add_def checked_sub_def)

lemma sample_room: "unat (admissible_cpu_units sample_profile) * 1000 *
      unat (ra_vcpus (overcommit_ratio (cp_overcommit sample_profile) (sh_workload sample_shape))) +
      unat (ra_vcpus (overcommit_ratio (cp_overcommit sample_profile) (sh_workload sample_shape))) \<le> 2 ^ 64"
    and sample_node: "ci_numa_nodes (cp_cpu sample_profile) = 1"
    and sample_elastic: "mi_elastic_budget_bytes (cp_memory sample_profile) \<le> admissible_memory_bytes sample_profile"
  by (simp_all add: sample_defs)

lemma sample_reserves:
  "\<exists>r a. reserve single_node_place sample_shape (admission_new sample_profile) = (Inr r, a)"
proof -
  have p: "sample_profile = ad_profile (admission_new sample_profile)" by (simp add: admission_new_def Let_def)
  have "room_for 1 sample_profile sample_shape sample_demand"
    by (simp add: room_for_def sample_defs sample_demand_def memory_cost_def memory_budget_def)
  then have "fits sample_demand sample_profile (ad_usage (admission_new sample_profile))"
    using fits_uniform[OF new_inv[OF sample_profile_valid] _ p sample_demand_of sample_elastic refl sample_room]
    by (simp add: uniform_def)
  then show ?thesis
    using single_node_fits[OF new_inv[OF sample_profile_valid] _ p sample_node sample_demand_of] by (auto simp: uniform_def)
qed

lemma sample_estimate: "\<exists>e. estimate sample_profile sample_shape = Inr e \<and> ce_safe_count e = 5"
  by (simp add: estimate_def sample_demand_of)
    (simp add: sample_defs sample_demand_def divide_count_def saturating_mul_def min_def unwrap_or_def)
theorem admission_accounts_witness:
  "\<exists>r a. reserve single_node_place sample_shape (admission_new sample_profile) = (Inr r, a) \<and>
     accounts sample_profile (ad_usage a) [r] \<and> within_limits sample_profile (ad_usage a) \<and>
     ad_usage (admission_release r a) = ad_usage (admission_new sample_profile)"
proof -
  obtain r a where r: "reserve single_node_place sample_shape (admission_new sample_profile) = (Inr r, a)"
    using sample_reserves by blast
  then have one: "admission_step single_node_place (admission_new sample_profile, []) (a, [r])" by (rule step_reserve)
  have two: "admission_step single_node_place (a, [r]) (admission_release r a, [])"
    using step_release[of single_node_place a "[]" r "[]"] by simp
  note ok = single_node.numa_placement_axioms sample_profile_valid
  from admission_accounts[OF ok r_into_rtranclp[of "admission_step single_node_place", OF one]]
    admission_accounts[OF ok converse_rtranclp_into_rtranclp[OF one r_into_rtranclp[of "admission_step single_node_place", OF two]]] r
  show ?thesis by blast
qed

text \<open>
  C18: The capacity equation is exact. On a certified host with one NUMA node whose CPU limit fits the
  arithmetic, if the estimate for a shape is \<open>e\<close>, then the first \<open>n\<close> reservations of that shape on the
  empty host all succeed, with no Launch finishing in between, exactly if \<open>n\<close> is at most the
  estimated safe count.
\<close>

theorem estimate_exact:
  assumes "profile_validate p = Inr q" "ci_numa_nodes (cp_cpu q) = 1" "estimate q shape = Inr e"
    and "unat (admissible_cpu_units q) * 1000 * unat (ra_vcpus (overcommit_ratio (cp_overcommit q) (sh_workload shape))) +
      unat (ra_vcpus (overcommit_ratio (cp_overcommit q) (sh_workload shape))) \<le> 2 ^ 64"
  shows "reserve_all single_node_place shape n (admission_new q) \<noteq> None \<longleftrightarrow> n \<le> unat (ce_safe_count e)"
proof -
  obtain d where d: "demand_of q shape = Inr d" "\<And>n. n < 2 ^ 64 \<Longrightarrow> n \<le> unat (ce_safe_count e) \<longleftrightarrow> room_for n q shape d"
    using estimate_iff[OF assms(3)] by blast
  have new: "q = ad_profile (admission_new q)" by (simp add: admission_new_def Let_def)
  have elastic: "mi_elastic_budget_bytes (cp_memory q) \<le> admissible_memory_bytes q"
    using assms(1) by (simp add: profile_validate_iff)
  have inv: "admission_inv (admission_new q, [])" using new_inv[OF assms(1)] .
  have "reserve_all single_node_place shape n (admission_new q) \<noteq> None \<longleftrightarrow> (\<forall>k < n. room_for (Suc k) q shape d)"
    using reserve_all_iff[OF inv _ new assms(2) d(1) elastic refl assms(4), of n] by (simp add: uniform_def)
  also have "\<dots> \<longleftrightarrow> n = 0 \<or> room_for n q shape d"
    using room_for_mono by (cases n) (auto simp: less_Suc_eq_le)
  also have "\<dots> \<longleftrightarrow> n \<le> unat (ce_safe_count e)"
  proof (cases "n < 2 ^ 64")
    case True
    then show ?thesis using d(2)[of n] by (cases "n = 0") auto
  next
    case False
    then have "\<not> n \<le> unat (ol_resident_instances (cp_limits q))"
      using unat_u32_less[of "ol_resident_instances (cp_limits q)"] by simp
    then have "\<not> room_for n q shape d" by (simp add: room_for_def)
    then show ?thesis using False unat_u64_less[of "ce_safe_count e"] by simp
  qed
  finally show ?thesis .
qed

theorem estimate_exact_witness:
  "\<exists>e. estimate sample_profile sample_shape = Inr e \<and> ce_safe_count e = 5 \<and>
     reserve_all single_node_place sample_shape 5 (admission_new sample_profile) \<noteq> None \<and>
     reserve_all single_node_place sample_shape 6 (admission_new sample_profile) = None"
proof -
  obtain e where e: "estimate sample_profile sample_shape = Inr e" "ce_safe_count e = 5"
    using sample_estimate by blast
  from estimate_exact[OF sample_profile_valid sample_node e(1) sample_room, of 5] estimate_exact[OF sample_profile_valid sample_node e(1) sample_room, of 6] e
  show ?thesis by auto
qed

end
