(* ===== verification/Spec2Isabelle.thy ===== *)
theory Spec2Isabelle
  imports SnapBridge Readiness Seccomp Admission
begin

text \<open>
  A verification library of SOMA: a microVM platform whose crates under \<open>src/crates\<close> build, run,
  snapshot and restore isolated guests. \<open>soma-kvm\<close> is the machine monitor: guest memory, five
  virtio devices on an MMIO bus, and the snapshot format. \<open>soma-jail\<close> confines the process that
  runs a monitor. \<open>soma-hostd\<close> admits Instances to a host and hands them prepared workers. The
  library models the parts on which isolation, data integrity and capacity rest.

  \<^bold>\<open>How the parts interact.\<close> The guest drives a device by register accesses on its page of the bus
  and by descriptors in guest memory. The bus routes an access to the transport of a slot, a
  notification makes the service loop pop chains from a queue, a device handles each chain and the
  queue publishes its completion. A capture records every transport and device, turns the records
  into sections of a manifest, and a restore checks the manifest against the host before it
  rebuilds the bus; a restored machine is ready only after one authenticated receipt. The process
  that does this runs under a filter that the jail assembles, on a host that reserved its capacity.

  \<^bold>\<open>Conventions.\<close> A struct is a record, an enum a datatype, an integer a word of its width. A \<open>Result\<close>
  is a sum with the error on the left, the \<open>?\<close> operator is \<open>and_then\<close> or \<open>try_then\<close>, and a method
  on \<open>&mut self\<close> returns its result paired with the new state, so an error shows the state it left.
  A trait is a record of operations with a locale for its laws (\<open>guest_memory\<close>, \<open>block_store\<close>,
  \<open>transport_model\<close>, \<open>service_model\<close>, \<open>wire_codec\<close>, \<open>seccomp_kernel\<close>, \<open>numa_placement\<close>), interpreted
  on the implementations of the source. SHA-256 comes from a library and is a parameter: theorems
  about it assume only its output length and name the two inputs that would have to collide. A
  helper that translates one closure or loop of a function shares that function's lines, and
  definitions follow the order of the source.

  \<^bold>\<open>Base.\<close> \<open>Prelude\<close> holds the integer operations, results and little-endian codecs all components share.

  \<^bold>\<open>Guest memory and queues\<close> (\<open>soma-kvm/src/virtio/guest_memory.rs\<close>, \<open>queue.rs\<close>, \<open>queue/\<close>).
  \<open>GuestMemory\<close>: the memory trait and its vector-backed implementation; what is written is read back.
  \<open>VirtqLayout\<close>: \<open>validate_layout\<close> accepts exactly the aligned, disjoint, in-range rings. \<open>VirtqChain\<close>:
  the walker returns exactly the well-formed chains, and ends however the guest linked them: each
  round stops or adds a segment, and there are at most as many as the queue and the limit allow. \<open>Virtqueue\<close>:
  the queue invariant over every operation, ring accesses in bounds, popping as a FIFO of the
  available ring, and publication of used elements.

  \<^bold>\<open>Transport\<close> (\<open>virtio/transport.rs\<close>, \<open>transport/\<close>, \<open>device.rs\<close>, \<open>devices/service.rs\<close>,
  \<open>devices/segments.rs\<close>). \<open>MmioRegisters\<close>, \<open>DeviceStatus\<close>, \<open>VirtioDevice\<close>, \<open>MmioTransport\<close>,
  \<open>TransportSnapshot\<close>: the register file, the status lifecycle, the device trait, every register
  access, capture and restore. \<open>Segments\<close>, \<open>Service\<close>: bounded copies and the service loop, whose
  budget bounds the rounds, so it is structural recursion on the budget. \<open>DeviceReach\<close>: every
  reachable transport keeps its invariant, and a running configuration is locked.

  \<^bold>\<open>Devices\<close> (\<open>virtio/devices/\<close>). \<open>BlockBackend\<close>, \<open>BlockRequest\<close>, \<open>BlockDevice\<close>: requests refine an
  abstract disk and the immutable root never changes. \<open>NetDevice\<close>: exact frames both ways. \<open>RngDevice\<close>:
  entropy requests. \<open>VsockPacket\<close>, \<open>VsockStream\<close>, \<open>VsockDevice\<close>: packet validation, credit and
  byte streams that are delivered in order and without loss.

  \<^bold>\<open>The bus\<close> (\<open>virtio/bus.rs\<close>, \<open>bus/\<close>). \<open>BusTable\<close>, \<open>Bus\<close>, \<open>BusReach\<close>, \<open>BusSnapshot\<close>: slots and pages,
  dispatch, servicing and delivery, isolation of slots, the invariant of every reachable bus, and
  that a captured bus restores to a bus with the same capture.

  \<^bold>\<open>The snapshot format\<close> (\<open>soma-kvm/src/snapshot/\<close>). \<open>Wire\<close>: the reader and writer and the locale of
  exact codecs. \<open>SnapSection\<close>, \<open>SnapDevice\<close>, \<open>KvmVcpu\<close>, \<open>KvmVm\<close>, \<open>SnapManifest\<close>: each decoder accepts
  exactly the encodings of valid values. \<open>SnapCompat\<close>: the compatibility check and the inspection of
  a capture, exactly. \<open>SnapOrder\<close>: capture and restore run their steps in order and unwind in reverse.
  \<open>SnapBridge\<close> (\<open>x86_64/snapshot/device.rs\<close>): a section carries a transport from capture to restore.
  \<open>Readiness\<close> (\<open>snapshot/readiness.rs\<close>, \<open>x86_64/snapshot/restore/\<close>): readiness once, by evidence
  bound to this restore.

  \<^bold>\<open>The jail filter\<close> (\<open>soma-jail/src/seccomp/\<close>). \<open>Seccomp\<close>: the policy tables and the assembler of
  the BPF programs. The programs are the golden ones of the crate's tests, byte for byte by length and
  fingerprint; running them decides exactly as the tables say; the steady phase only tightens the
  startup phase.

  \<^bold>\<open>Host capacity\<close> (\<open>soma-hostd/src/admission/\<close>). \<open>Admission\<close>: the committed usage is the sum over
  the outstanding reservations and within every limit, in every reachable state, and the capacity
  estimate is exact.

  \<^bold>\<open>Bounds.\<close> Loops are structural recursion, recursion on a budget the source itself has, or, for the
  chain walker, a function with a termination proof. No theorem depends on chosen fuel.
  Theorems with a numeric side condition state it: the estimate assumes that the scaled CPU limit of
  the profile fits 64 bits.

  \<^bold>\<open>Not modelled.\<close> Code that only performs system calls or talks to other processes has no behaviour
  that could be stated without a model of the kernel or of the peer: the KVM ioctls, memory mapping
  and vCPU threads of \<open>soma-kvm/src/x86_64\<close> and \<open>arm64\<close>, the reading and writing of snapshot files,
  namespaces, cgroups and process launch of \<open>soma-jail\<close>, XFS reflinks of \<open>soma-storage\<close>, netlink and
  nftables of \<open>soma-netd\<close>, the daemons and command-line tools (\<open>soma-vmm\<close>, \<open>soma-cli\<close>, \<open>soma-api\<close>,
  \<open>soma-mcp\<close>, \<open>soma-guest-agent\<close>, \<open>soma-supervise\<close>, \<open>soma-macos\<close>, \<open>soma-local\<close>). Pure parts that a further
  development could add are the worker pool and ledger of \<open>soma-hostd\<close>, the guest protocol of
  \<open>soma-guest\<close>, the template and Generation compilers, and address management of \<open>soma-netd\<close>. The
  memory model of the atomics and the poisoning of mutexes are not modelled: operations that the
  source runs under a lock are steps.
\<close>

end
